(* ===== verification/Prelude.thy ===== *)
theory Prelude
  imports Main "HOL-Library.Char_ord" "HOL-Library.List_Lexorder"
begin

text \<open>
  Shared vocabulary of the development: the exceptions the C++ code throws, the width of
  the machine integers it computes with, and the character classes of the C locale.

  \<^item> \<open>exn\<close> lists the exceptions of the modelled code; a function that may throw returns
    \<open>exn + 'a\<close>, \<open>Inl\<close> being the exception.
  \<^item> A memory fault (a null or dangling pointer, a failed lwIP assertion) is \<open>None\<close> in a
    result of type \<open>'a option\<close>; that a fault does not happen is then a theorem.
  \<^item> \<open>string\<close> models \<^verbatim>\<open>std::string\<close> (a list of bytes, NUL included); \<open>wstring\<close> models
    \<^verbatim>\<open>std::wstring\<close> as a list of code units.
\<close>

section \<open>Collections of facts\<close>

named_theorems str_simps \<open>equations of the character and string helpers\<close>
named_theorems map_laws \<open>lookup/update laws of the sorted association lists\<close>
named_theorems chain_simps \<open>facts about pbuf chains\<close>

section \<open>Exceptions\<close>

datatype exn =
    Out_of_range
  | Invalid_argument
  | Bad_alloc
  | Cookie_error string
  | Mbed_error int
  | Http_error string

type_synonym wchar = nat
type_synonym wstring = "wchar list"

section \<open>Machine integers\<close>

text \<open>Truncation to 16 bits, and subtraction on the 64-bit \<^verbatim>\<open>size_t\<close> (it wraps).\<close>

definition u16 :: "nat \<Rightarrow> nat" where
  "u16 n = n mod 65536"

definition size_sub :: "nat \<Rightarrow> nat \<Rightarrow> nat" where
  "size_sub a b = (if b \<le> a then a - b else a + 2 ^ 64 - b)"

lemma u16_id [simp]: "n < 65536 \<Longrightarrow> u16 n = n"
  by (simp add: u16_def)

lemma u16_less [simp]: "u16 n < 65536"
  by (simp add: u16_def)

lemma size_sub_le [simp]: "b \<le> a \<Longrightarrow> size_sub a b = a - b"
  by (simp add: size_sub_def)

lemma size_sub_wraps: "a < b \<Longrightarrow> b < 2 ^ 63 \<Longrightarrow> 2 ^ 63 < size_sub a b"
  by (simp add: size_sub_def)

section \<open>Characters of the C locale\<close>

abbreviation ascii :: "char \<Rightarrow> nat" where
  "ascii c \<equiv> of_char c"

definition is_space :: "char \<Rightarrow> bool" where
  "is_space c \<longleftrightarrow> ascii c = 32 \<or> 9 \<le> ascii c \<and> ascii c \<le> 13"

definition is_digit :: "char \<Rightarrow> bool" where
  "is_digit c \<longleftrightarrow> 48 \<le> ascii c \<and> ascii c \<le> 57"

definition is_upper :: "char \<Rightarrow> bool" where
  "is_upper c \<longleftrightarrow> 65 \<le> ascii c \<and> ascii c \<le> 90"

definition is_lower :: "char \<Rightarrow> bool" where
  "is_lower c \<longleftrightarrow> 97 \<le> ascii c \<and> ascii c \<le> 122"

definition is_alnum :: "char \<Rightarrow> bool" where
  "is_alnum c \<longleftrightarrow> is_digit c \<or> is_upper c \<or> is_lower c"

definition is_xdigit :: "char \<Rightarrow> bool" where
  "is_xdigit c \<longleftrightarrow> is_digit c \<or> 65 \<le> ascii c \<and> ascii c \<le> 70 \<or> 97 \<le> ascii c \<and> ascii c \<le> 102"

definition to_lower :: "char \<Rightarrow> char" where
  "to_lower c = (if is_upper c then char_of (ascii c + 32) else c)"

definition to_upper :: "char \<Rightarrow> char" where
  "to_upper c = (if is_lower c then char_of (ascii c - 32) else c)"

lemmas char_class_defs =
  is_space_def is_digit_def is_upper_def is_lower_def is_alnum_def is_xdigit_def

lemma ascii_less [simp]: "ascii c < 256"
  using of_char_of [of "ascii c"] by (metis char_of_char of_char_mod_256 of_char_of mod_less_divisor zero_less_numeral)

lemma ascii_char_of [simp]: "n < 256 \<Longrightarrow> ascii (char_of n) = n"
  by simp

lemma eq_char_of_iff: "c = char_of n \<longleftrightarrow> take_bit 8 n = ascii c"
  using char_of_eq_iff [of n c] by metis

lemma to_lower_idem [simp]: "to_lower (to_lower c) = to_lower c"
  by (auto simp: to_lower_def is_upper_def)

text \<open>The NUL-terminated string behind \<^verbatim>\<open>c_str()\<close>.\<close>

definition NUL :: char where
  "NUL = CHR 0x00"

definition c_str :: "string \<Rightarrow> string" where
  "c_str s = takeWhile (\<lambda>c. c \<noteq> NUL) s"

lemma c_str_id: "NUL \<notin> set s \<Longrightarrow> c_str s = s"
  unfolding c_str_def by (rule takeWhile_eq_all_conv [THEN iffD2]) auto

lemma NUL_notin_c_str [simp]: "NUL \<notin> set (c_str s)"
  unfolding c_str_def by (auto dest: set_takeWhileD)

lemma c_str_idem [simp]: "c_str (c_str s) = c_str s"
  by (rule c_str_id) simp

lemma c_str_Nil [simp]: "c_str [] = []"
  by (simp add: c_str_def)

section \<open>Exceptions as a monad\<close>

text \<open>Sequencing of computations that may throw.\<close>

fun try_bind :: "'e + 'a \<Rightarrow> ('a \<Rightarrow> 'e + 'b) \<Rightarrow> 'e + 'b" where
  "try_bind (Inl e) f = Inl e"
| "try_bind (Inr x) f = f x"

lemma try_bind_Inr_iff: "try_bind m f = Inr y \<longleftrightarrow> (\<exists>x. m = Inr x \<and> f x = Inr y)"
  by (cases m) auto

end
