(* ===== verification/SortedMap.thy ===== *)
theory SortedMap
  imports Prelude
begin

text \<open>
  \<^verbatim>\<open>std::map\<close> with a comparator, as a strictly sorted association list. The comparator is
  given by a key function \<open>kf\<close> into a linear order: two keys are equivalent when \<open>kf\<close>
  maps them to the same value. The code uses two instances: case-insensitive names
  (\<^verbatim>\<open>utl::strimap\<close> in util/StrUtil.h) and plain strings (\<^verbatim>\<open>http::Cookies\<close>).

  The locale \<open>dictionary\<close> is the contract its clients rely on: what a lookup returns after
  an insertion or an update, and that each keeps the order invariant;
  \<open>erasable_dictionary\<close> adds erasure.
\<close>

section \<open>Operations\<close>

type_synonym ('k, 'v) smap = "('k \<times> 'v) list"

fun smap_find :: "('k \<Rightarrow> 'o::linorder) \<Rightarrow> 'k \<Rightarrow> ('k, 'v) smap \<Rightarrow> 'v option" where
  "smap_find kf k [] = None"
| "smap_find kf k ((k', v) # m) = (if kf k = kf k' then Some v else smap_find kf k m)"

text \<open>Find the key: overwrite its value when present (the old spelling of the key stays),
  insert the pair at its place in the order otherwise.\<close>

fun smap_set :: "('k \<Rightarrow> 'o::linorder) \<Rightarrow> 'k \<Rightarrow> 'v \<Rightarrow> ('k, 'v) smap \<Rightarrow> ('k, 'v) smap" where
  "smap_set kf k v [] = [(k, v)]"
| "smap_set kf k v ((k', v') # m) =
     (if kf k = kf k' then (k', v) # m
      else if kf k < kf k' then (k, v) # (k', v') # m
      else (k', v') # smap_set kf k v m)"

definition smap_erase :: "('k \<Rightarrow> 'o::linorder) \<Rightarrow> 'k \<Rightarrow> ('k, 'v) smap \<Rightarrow> ('k, 'v) smap" where
  "smap_erase kf k m = filter (\<lambda>(k', _). kf k' \<noteq> kf k) m"

definition smap_ok :: "('k \<Rightarrow> 'o::linorder) \<Rightarrow> ('k, 'v) smap \<Rightarrow> bool" where
  "smap_ok kf m \<longleftrightarrow> sorted_wrt (<) (map (kf \<circ> fst) m)"

section \<open>Laws\<close>

lemma smap_ok_Nil [simp]: "smap_ok kf []"
  by (simp add: smap_ok_def)

lemma smap_ok_Cons: "smap_ok kf (p # m) \<longleftrightarrow> (\<forall>q \<in> set m. kf (fst p) < kf (fst q)) \<and> smap_ok kf m"
  by (auto simp: smap_ok_def)

lemma smap_find_set [map_laws]:
  "smap_find kf k' (smap_set kf k v m) = (if kf k' = kf k then Some v else smap_find kf k' m)"
  by (induction kf k v m rule: smap_set.induct) auto

lemma set_smap_set: "q \<in> set (smap_set kf k v m) \<Longrightarrow> kf (fst q) = kf k \<or> q \<in> set m"
  by (induction kf k v m rule: smap_set.induct) (auto split: if_splits)

lemma smap_ok_set [map_laws]: "smap_ok kf m \<Longrightarrow> smap_ok kf (smap_set kf k v m)"
proof (induction kf k v m rule: smap_set.induct)
  case (2 kf k v k' v' m)
  have keys: "kf k' < kf (fst q)" if "kf k' < kf k" "q \<in> set (smap_set kf k v m)" for q
    using set_smap_set [OF that(2)] that(1) "2.prems" by (auto simp: smap_ok_Cons)
  show ?case
    using 2 keys by (auto simp: smap_ok_Cons)
qed (simp add: smap_ok_Cons)

lemma smap_find_erase [map_laws]:
  "smap_find kf k' (smap_erase kf k m) = (if kf k' = kf k then None else smap_find kf k' m)"
  by (induction m) (auto simp: smap_erase_def)

lemma smap_ok_erase [map_laws]: "smap_ok kf m \<Longrightarrow> smap_ok kf (smap_erase kf k m)"
  by (induction m) (auto simp: smap_erase_def smap_ok_Cons)

lemma smap_set_fresh:
  "smap_find kf k m = None \<Longrightarrow> length (smap_set kf k v m) = Suc (length m)"
  by (induction kf k v m rule: smap_set.induct) (auto split: if_splits)

lemma smap_set_present:
  "smap_ok kf m \<Longrightarrow> smap_find kf k m = Some v' \<Longrightarrow> map fst (smap_set kf k v m) = map fst m"
proof (induction kf k v m rule: smap_set.induct)
  case (2 kf k v k1 v1 m)
  have "kf k < kf k1 \<Longrightarrow> smap_find kf k m = None"
    using "2.prems"(1) by (induction m) (auto simp: smap_ok_Cons)
  then show ?case
    using 2 by (auto simp: smap_ok_Cons split: if_splits)
qed simp

lemma smap_find_in_set: "smap_find kf k m = Some v \<Longrightarrow> \<exists>k'. (k', v) \<in> set m \<and> kf k' = kf k"
  by (induction m) (auto split: if_splits)

lemma smap_find_iff_in_set:
  "smap_ok kf m \<Longrightarrow> (k, v) \<in> set m \<Longrightarrow> smap_find kf k m = Some v"
  by (induction m) (fastforce simp: smap_ok_Cons)+

section \<open>The interface\<close>

locale dictionary =
  fixes lookup :: "'m \<Rightarrow> 'k \<Rightarrow> 'v option"
    and store :: "'k \<Rightarrow> 'v \<Rightarrow> 'm \<Rightarrow> 'm"
    and empty :: 'm
    and same :: "'k \<Rightarrow> 'k \<Rightarrow> bool"
    and ok :: "'m \<Rightarrow> bool"
  assumes lookup_empty: "lookup empty k = None"
    and lookup_store: "lookup (store k v m) k' = (if same k k' then Some v else lookup m k')"
    and same_refl: "same k k"
    and ok_empty: "ok empty"
    and ok_store: "ok m \<Longrightarrow> ok (store k v m)"
begin

text \<open>Storing a list of pairs one by one, as the code's loops do.\<close>

lemma lookup_store_same: "lookup (store k v m) k = Some v"
  by (simp add: lookup_store same_refl)

lemma lookup_fold_store_notin:
  "\<forall>(k', v) \<in> set kvs. \<not> same k' k \<Longrightarrow> lookup (fold (\<lambda>(k, v). store k v) kvs m) k = lookup m k"
  by (induction kvs arbitrary: m) (auto simp: lookup_store)

text \<open>The last pair stored under a key wins.\<close>

lemma lookup_fold_store:
  "lookup (fold (\<lambda>(k, v). store k v) kvs m) k =
     (case find (\<lambda>(k', _). same k' k) (rev kvs) of Some (_, v) \<Rightarrow> Some v | None \<Rightarrow> lookup m k)"
proof (induction kvs rule: rev_induct)
  case Nil
  then show ?case by simp
next
  case (snoc kv kvs)
  then show ?case by (cases kv) (auto simp: lookup_store)
qed

lemma ok_fold_store: "ok m \<Longrightarrow> ok (fold (\<lambda>(k, v). store k v) kvs m)"
  by (induction kvs arbitrary: m) (auto simp: ok_store)

end

locale erasable_dictionary = dictionary +
  fixes erase :: "'b \<Rightarrow> 'a \<Rightarrow> 'a"
  assumes lookup_erase: "lookup (erase k m) k' = (if same k k' then None else lookup m k')"
    and ok_erase: "ok m \<Longrightarrow> ok (erase k m)"
begin

lemma lookup_erase_same: "lookup (erase k m) k = None"
  by (simp add: lookup_erase same_refl)

lemma erase_after_store: "\<not> same k k' \<Longrightarrow> lookup (erase k (store k v m)) k' = lookup m k'"
  by (simp add: lookup_erase lookup_store)

end

section \<open>Rebuilding a map from its pairs\<close>

lemma smap_set_greatest:
  "\<forall>q \<in> set m. kf (fst q) < kf k \<Longrightarrow> smap_set kf k v m = m @ [(k, v)]"
  by (induction kf k v m rule: smap_set.induct) auto

lemma fold_smap_set_append:
  "smap_ok kf (m @ kvs) \<Longrightarrow> fold (\<lambda>(k, v). smap_set kf k v) kvs m = m @ kvs"
proof (induction kvs arbitrary: m)
  case (Cons kv kvs)
  obtain k v where kv: "kv = (k, v)" by (cases kv)
  have "\<forall>q \<in> set m. kf (fst q) < kf k"
    using Cons.prems by (auto simp: smap_ok_def sorted_wrt_append kv)
  then have "smap_set kf k v m = m @ [kv]" by (simp add: smap_set_greatest kv)
  with Cons.IH [of "m @ [kv]"] Cons.prems show ?case by (simp add: kv)
qed simp

lemma fold_smap_set_id: "smap_ok kf m \<Longrightarrow> fold (\<lambda>(k, v). smap_set kf k v) m [] = m"
  using fold_smap_set_append [of kf "[]" m] by simp

end
