(* ===== verification/StrUtil.thy ===== *)
theory StrUtil
  imports SortedMap
begin

text \<open>
  The string utilities of \<^verbatim>\<open>src/src/util/StrUtil.cpp\<close>: splitting, number parsing,
  trimming, case conversion, variable substitution, quoting and formatting. The three
  overloads of the trim functions (narrow, wide, obfuscated) share one polymorphic
  definition over the character test; the obfuscated one is in theory \<open>ObfString\<close>.

  Exceptions: \<^verbatim>\<open>substr\<close> with a position past the end throws \<open>Out_of_range\<close>, which
  \<^verbatim>\<open>trimleft\<close> does on a non-empty string of blanks.
\<close>

section \<open>Searching\<close>

text \<open>\<^verbatim>\<open>find(ch)\<close>, \<^verbatim>\<open>find_first_not_of\<close> and \<^verbatim>\<open>find_last_not_of\<close>; \<open>None\<close> is \<^verbatim>\<open>npos\<close>.\<close>

fun find_idx :: "('c \<Rightarrow> bool) \<Rightarrow> 'c list \<Rightarrow> nat option" where
  "find_idx P [] = None"
| "find_idx P (c # s) = (if P c then Some 0 else map_option Suc (find_idx P s))"

definition find_last_idx :: "('c \<Rightarrow> bool) \<Rightarrow> 'c list \<Rightarrow> nat option" where
  "find_last_idx P s = map_option (\<lambda>i. length s - 1 - i) (find_idx P (rev s))"

text \<open>\<^verbatim>\<open>substr(pos, n)\<close> and \<^verbatim>\<open>substr(pos)\<close>; \<open>None\<close> stands for the position \<^verbatim>\<open>npos\<close>.\<close>

definition substr_n :: "'c list \<Rightarrow> nat \<Rightarrow> nat \<Rightarrow> exn + 'c list" where
  "substr_n s pos n = (if pos \<le> length s then Inr (take n (drop pos s)) else Inl Out_of_range)"

definition substr_from :: "'c list \<Rightarrow> nat option \<Rightarrow> exn + 'c list" where
  "substr_from s pos =
     (case pos of None \<Rightarrow> Inl Out_of_range
      | Some i \<Rightarrow> if i \<le> length s then Inr (drop i s) else Inl Out_of_range)"

lemma find_idx_None_iff: "find_idx P s = None \<longleftrightarrow> (\<forall>c \<in> set s. \<not> P c)"
  by (induction s) auto

lemma find_idx_SomeD:
  "find_idx P s = Some i \<Longrightarrow> i < length s \<and> P (s ! i) \<and> (\<forall>j < i. \<not> P (s ! j))"
proof (induction s arbitrary: i)
  case (Cons c s)
  show ?case
  proof (cases i)
    case 0
    with Cons.prems show ?thesis by (auto split: if_splits)
  next
    case (Suc k)
    with Cons.prems have "\<not> P c" "find_idx P s = Some k"
      by (auto split: if_splits)
    with Cons.IH [of k] show ?thesis
      by (auto simp: Suc less_Suc_eq_0_disj)
  qed
qed simp

lemma drop_find_idx:
  "drop (case find_idx P s of None \<Rightarrow> length s | Some i \<Rightarrow> i) s = dropWhile (\<lambda>c. \<not> P c) s"
  by (induction s) (auto split: option.splits)

lemma take_find_idx:
  "take (case find_idx P s of None \<Rightarrow> length s | Some i \<Rightarrow> i) s = takeWhile (\<lambda>c. \<not> P c) s"
  by (induction s) (auto split: option.splits)

lemma take_find_Some: "find_idx P s = Some i \<Longrightarrow> take i s = takeWhile (\<lambda>c. \<not> P c) s"
  using take_find_idx [where P = P and s = s] by simp

lemma drop_find_Some: "find_idx P s = Some i \<Longrightarrow> drop i s = dropWhile (\<lambda>c. \<not> P c) s"
  using drop_find_idx [where P = P and s = s] by simp

section \<open>split\<close>

text \<open>The do-while loop of \<^verbatim>\<open>split(const char*, ...)\<close> on the characters before the
  terminating NUL: scan up to the delimiter or the end, emit the part, and go on after a
  delimiter.\<close>

function split_loop :: "'c list \<Rightarrow> 'c \<Rightarrow> 'c list list" where
  "split_loop s delim =
     takeWhile (\<lambda>c. c \<noteq> delim) s #
     (case dropWhile (\<lambda>c. c \<noteq> delim) s of
        [] \<Rightarrow> []
      | _ # rest \<Rightarrow> split_loop rest delim)"
  by pat_completeness auto
termination
proof (relation "measure (\<lambda>(s, _). length s)")
  fix s rest :: "'c list" and delim c
  assume "dropWhile (\<lambda>c. c \<noteq> delim) s = c # rest"
  then have "Suc (length rest) \<le> length s"
    by (metis length_Cons length_dropWhile_le)
  then show "((rest, delim), (s, delim)) \<in> measure (\<lambda>(s, _). length s)"
    by simp
qed simp

declare split_loop.simps [simp del]

definition split_cstr :: "string \<Rightarrow> char \<Rightarrow> string list \<Rightarrow> string list \<times> nat" where
  "split_cstr str delim parts =
     (let parts' = parts @ split_loop (c_str str) delim
      in (parts', length parts' - length parts))"

definition split :: "string \<Rightarrow> char \<Rightarrow> string list \<Rightarrow> string list \<times> nat" where
  "split str delim parts = split_cstr (c_str str) delim parts"

definition wc_str :: "wstring \<Rightarrow> wstring" where
  "wc_str s = takeWhile (\<lambda>c. c \<noteq> 0) s"

definition wsplit_cstr :: "wstring \<Rightarrow> wchar \<Rightarrow> wstring list \<Rightarrow> wstring list \<times> nat" where
  "wsplit_cstr str delim parts =
     (let parts' = parts @ split_loop (wc_str str) delim
      in (parts', length parts' - length parts))"

definition wsplit :: "wstring \<Rightarrow> wchar \<Rightarrow> wstring list \<Rightarrow> wstring list \<times> nat" where
  "wsplit str delim parts = wsplit_cstr (wc_str str) delim parts"

text \<open>Joining the parts back with the delimiter: the reference for \<open>split_loop\<close>.\<close>

fun join_with :: "'c \<Rightarrow> 'c list list \<Rightarrow> 'c list" where
  "join_with d [] = []"
| "join_with d [p] = p"
| "join_with d (p # q # ps) = p @ d # join_with d (q # ps)"

lemma split_loop_not_Nil [simp]: "split_loop s d \<noteq> []"
  by (subst split_loop.simps) simp

lemma join_with_Cons: "ps \<noteq> [] \<Longrightarrow> join_with d (p # ps) = p @ d # join_with d ps"
  by (cases ps) auto

lemma dropWhile_neq_Cons: "dropWhile (\<lambda>c. c \<noteq> d) s = x # r \<Longrightarrow> x = d"
  using hd_dropWhile [of "\<lambda>c. c \<noteq> d" s] by auto

lemma join_split_loop: "join_with d (split_loop s d) = s"
proof (induction s d rule: split_loop.induct)
  case (1 s d)
  show ?case
  proof (cases "dropWhile (\<lambda>c. c \<noteq> d) s")
    case Nil
    then show ?thesis
      by (subst split_loop.simps) (metis append.right_neutral join_with.simps(2) list.simps(4) takeWhile_dropWhile_id)
  next
    case (Cons x r)
    have "s = takeWhile (\<lambda>c. c \<noteq> d) s @ d # r"
      using Cons dropWhile_neq_Cons [OF Cons] by (metis takeWhile_dropWhile_id)
    then show ?thesis
      using "1.IH" [OF Cons] Cons by (subst split_loop.simps) (simp add: join_with_Cons)
  qed
qed

lemma split_loop_parts: "p \<in> set (split_loop s d) \<Longrightarrow> d \<notin> set p"
proof (induction s d rule: split_loop.induct)
  case (1 s d)
  have "p = takeWhile (\<lambda>c. c \<noteq> d) s \<or>
      (\<exists>x r. dropWhile (\<lambda>c. c \<noteq> d) s = x # r \<and> p \<in> set (split_loop r d))"
    using "1.prems" by (cases "dropWhile (\<lambda>c. c \<noteq> d) s") (simp_all add: split_loop.simps [of s d])
  then show ?case
    using "1.IH" by (auto dest: set_takeWhileD)
qed

lemma takeWhile_neq: "d \<notin> set s \<Longrightarrow> takeWhile (\<lambda>c. c \<noteq> d) s = s"
  by (induction s) auto

lemma dropWhile_neq: "d \<notin> set s \<Longrightarrow> dropWhile (\<lambda>c. c \<noteq> d) s = []"
  by (induction s) auto

lemma takeWhile_neq_append: "d \<notin> set p \<Longrightarrow> takeWhile (\<lambda>c. c \<noteq> d) (p @ d # s) = p"
  by (induction p) auto

lemma dropWhile_neq_append: "d \<notin> set p \<Longrightarrow> dropWhile (\<lambda>c. c \<noteq> d) (p @ d # s) = d # s"
  by (induction p) auto

lemma split_loop_single: "d \<notin> set s \<Longrightarrow> split_loop s d = [s]"
  by (subst split_loop.simps) (simp add: takeWhile_neq dropWhile_neq)

lemma split_loop_append: "d \<notin> set p \<Longrightarrow> split_loop (p @ d # s) d = p # split_loop s d"
  by (subst split_loop.simps) (simp add: takeWhile_neq_append dropWhile_neq_append)

lemma split_join: "ps \<noteq> [] \<Longrightarrow> \<forall>p \<in> set ps. d \<notin> set p \<Longrightarrow> split_loop (join_with d ps) d = ps"
  by (induction d ps rule: join_with.induct) (auto simp: split_loop_single split_loop_append)

section \<open>Numbers\<close>

text \<open>\<^verbatim>\<open>strtol\<close> on Windows: skip white space, an optional sign, an optional \<^verbatim>\<open>0x\<close> in base 16,
  then the longest run of digits of the base; a \<^verbatim>\<open>long\<close> has 32 bits. The second component
  says that \<^verbatim>\<open>errno\<close> is set to \<^verbatim>\<open>ERANGE\<close>.\<close>

definition LONG_MAX :: int where "LONG_MAX = 2147483647"
definition LONG_MIN :: int where "LONG_MIN = -2147483648"

definition digit_val :: "char \<Rightarrow> nat" where
  "digit_val c = (if is_digit c then ascii c - 48
     else if is_upper c then ascii c - 55
     else if is_lower c then ascii c - 87 else 99)"

definition radix_digit :: "nat \<Rightarrow> char \<Rightarrow> bool" where
  "radix_digit radix c \<longleftrightarrow> digit_val c < radix"

definition digits_value :: "nat \<Rightarrow> string \<Rightarrow> nat" where
  "digits_value radix ds = foldl (\<lambda>acc c. acc * radix + digit_val c) 0 ds"

definition skip_0x :: "nat \<Rightarrow> string \<Rightarrow> string" where
  "skip_0x radix s = (if radix = 16 then
     (case s of z # x # d # r \<Rightarrow>
        if z = CHR ''0'' \<and> (x = CHR ''x'' \<or> x = CHR ''X'') \<and> radix_digit 16 d then d # r else s
      | _ \<Rightarrow> s) else s)"

definition strtol :: "string \<Rightarrow> nat \<Rightarrow> int \<times> bool" where
  "strtol s radix =
     (let s1 = dropWhile is_space (c_str s);
          neg = (s1 \<noteq> [] \<and> hd s1 = CHR ''-'');
          s2 = (if s1 \<noteq> [] \<and> (hd s1 = CHR ''-'' \<or> hd s1 = CHR ''+'') then tl s1 else s1);
          v = int (digits_value radix (takeWhile (radix_digit radix) (skip_0x radix s2)));
          l = (if neg then - v else v)
      in if l > LONG_MAX then (LONG_MAX, True)
         else if l < LONG_MIN then (LONG_MIN, True)
         else (l, False))"

text \<open>\<^verbatim>\<open>str2num\<close> keeps the caller's value when it fails; the result says whether it did not.\<close>

definition str2num :: "string \<Rightarrow> nat \<Rightarrow> int \<Rightarrow> int \<Rightarrow> int \<Rightarrow> bool \<times> int" where
  "str2num numstr radix minval maxval val =
     (if minval > maxval then (False, val)
      else (let (l, erange) = strtol numstr radix in
        if erange then (False, val)
        else if l < minval \<or> l > maxval then (False, val)
        else (True, l)))"

definition str2i :: "string \<Rightarrow> int \<Rightarrow> bool \<times> int" where
  "str2i str val =
     (let (ok, tmp) = str2num str 10 LONG_MIN LONG_MAX 0
      in (ok, if ok then tmp else val))"

text \<open>\<^verbatim>\<open>std::to_string\<close> of an unsigned number.\<close>

fun to_string :: "nat \<Rightarrow> string" where
  "to_string n = (if n < 10 then [char_of (48 + n)] else to_string (n div 10) @ [char_of (48 + n mod 10)])"

declare to_string.simps [simp del]

lemma str2num_bounds:
  "str2num s radix mn mx v0 = (True, v) \<Longrightarrow> mn \<le> v \<and> v \<le> mx"
  by (auto simp: str2num_def Let_def split: if_splits prod.splits)

lemma str2num_fail_keeps: "str2num s radix mn mx v0 = (False, v) \<Longrightarrow> v = v0"
  by (auto simp: str2num_def Let_def split: if_splits prod.splits)

lemma strtol_range: "strtol s radix = (l, e) \<Longrightarrow> LONG_MIN \<le> l \<and> l \<le> LONG_MAX"
  by (auto simp: strtol_def Let_def LONG_MIN_def LONG_MAX_def split: if_splits)

lemma digits_value_append: "digits_value r (xs @ [c]) = digits_value r xs * r + digit_val c"
  by (simp add: digits_value_def)

lemma digit_char [str_simps]:
  assumes "d < 10"
  shows "is_digit (char_of (48 + d))" "digit_val (char_of (48 + d)) = d"
  using assms by (simp_all add: is_digit_def digit_val_def)

lemma to_string_digits: "c \<in> set (to_string n) \<Longrightarrow> is_digit c"
proof (induction n rule: to_string.induct)
  case (1 n)
  show ?case
  proof (cases "n < 10")
    case True
    with "1.prems" show ?thesis by (subst (asm) to_string.simps) (simp add: digit_char)
  next
    case False
    with "1.prems" have "c \<in> set (to_string (n div 10)) \<or> c = char_of (48 + n mod 10)"
      by (subst (asm) to_string.simps) auto
    with False "1.IH" show ?thesis by (auto intro: digit_char)
  qed
qed

lemma digits_value_to_string [simp]: "digits_value 10 (to_string n) = n"
proof (induction n rule: to_string.induct)
  case (1 n)
  show ?case
  proof (cases "n < 10")
    case True
    then show ?thesis
      by (subst to_string.simps) (simp add: digits_value_def digit_char)
  next
    case False
    then show ?thesis
      using "1.IH" by (subst to_string.simps) (simp add: digits_value_append digit_char)
  qed
qed

lemma to_string_not_Nil [simp]: "to_string n \<noteq> []"
  by (subst to_string.simps) simp

lemma digit_not_space: "is_digit c \<Longrightarrow> \<not> is_space c \<and> c \<noteq> NUL \<and> c \<noteq> CHR ''-'' \<and> c \<noteq> CHR ''+''"
  by (auto simp: char_class_defs NUL_def)

lemma digits_c_str: "\<forall>c \<in> set s. is_digit c \<Longrightarrow> c_str s = s"
  by (rule c_str_id) (auto dest: digit_not_space)

lemma strtol_digits:
  assumes "\<forall>c \<in> set s. is_digit c" and "s \<noteq> []" and "int (digits_value 10 s) \<le> LONG_MAX"
  shows "strtol s 10 = (int (digits_value 10 s), False)"
proof -
  obtain c r where s: "s = c # r" using assms(2) by (cases s) auto
  have c: "is_digit c" using assms(1) s by simp
  have "dropWhile is_space s = s" using digit_not_space [OF c] s by simp
  moreover have tw: "takeWhile (radix_digit 10) s = s"
    using assms(1) by (intro takeWhile_eq_all_conv [THEN iffD2]) (auto simp: radix_digit_def digit_val_def char_class_defs)
  moreover have "hd s \<noteq> CHR ''-''" "hd s \<noteq> CHR ''+''"
    using digit_not_space [OF c] s by simp_all
  moreover have "c_str s = s" using assms(1) by (rule digits_c_str)
  ultimately show ?thesis
    using assms(3) by (simp add: strtol_def skip_0x_def Let_def tw LONG_MIN_def LONG_MAX_def
        del: takeWhile_eq_all_conv)
qed

text \<open>Printing a number and reading it back.\<close>

lemma str2i_to_string:
  assumes "n \<le> 2147483647"
  shows "str2i (to_string n) v = (True, int n)"
proof -
  have "strtol (to_string n) 10 = (int n, False)"
    using strtol_digits [of "to_string n"] assms by (simp add: to_string_digits LONG_MAX_def)
  with assms show ?thesis
    by (simp add: str2i_def str2num_def LONG_MIN_def LONG_MAX_def)
qed

section \<open>Trimming\<close>

text \<open>\<^verbatim>\<open>find_last_not_of(" \t") + 1\<close>: \<^verbatim>\<open>npos + 1\<close> wraps to 0 on a string of blanks.\<close>

definition gen_trimright :: "('c \<Rightarrow> bool) \<Rightarrow> 'c list \<Rightarrow> 'c list" where
  "gen_trimright blank s =
     (if length s = 0 then s
      else take (case find_last_idx (\<lambda>c. \<not> blank c) s of None \<Rightarrow> 0 | Some i \<Rightarrow> i + 1) s)"

definition gen_trimleft :: "('c \<Rightarrow> bool) \<Rightarrow> 'c list \<Rightarrow> exn + 'c list" where
  "gen_trimleft blank s =
     (if length s = 0 then Inr s else substr_from s (find_idx (\<lambda>c. \<not> blank c) s))"

definition gen_trim :: "('c \<Rightarrow> bool) \<Rightarrow> 'c list \<Rightarrow> exn + 'c list" where
  "gen_trim blank s = (if length s = 0 then Inr s else gen_trimleft blank (gen_trimright blank s))"

definition is_blank :: "char \<Rightarrow> bool" where
  "is_blank c \<longleftrightarrow> c = CHR '' '' \<or> c = CHR 0x09"

definition is_wblank :: "wchar \<Rightarrow> bool" where
  "is_wblank c \<longleftrightarrow> c = 32 \<or> c = 9"

definition trimright :: "string \<Rightarrow> string" where
  "trimright = gen_trimright is_blank"

definition trimleft :: "string \<Rightarrow> exn + string" where
  "trimleft = gen_trimleft is_blank"

definition trim :: "string \<Rightarrow> exn + string" where
  "trim = gen_trim is_blank"

definition wtrimright :: "wstring \<Rightarrow> wstring" where
  "wtrimright = gen_trimright is_wblank"

definition wtrimleft :: "wstring \<Rightarrow> exn + wstring" where
  "wtrimleft = gen_trimleft is_wblank"

definition wtrim :: "wstring \<Rightarrow> exn + wstring" where
  "wtrim = gen_trim is_wblank"

text \<open>What trimming computes, without the index arithmetic.\<close>

definition trim_spec :: "('c \<Rightarrow> bool) \<Rightarrow> 'c list \<Rightarrow> 'c list" where
  "trim_spec blank s = dropWhile blank (rev (dropWhile blank (rev s)))"

lemma gen_trimright_eq: "gen_trimright blank s = rev (dropWhile blank (rev s))"
proof (cases "find_idx (\<lambda>c. \<not> blank c) (rev s)")
  case None
  then have "\<forall>c \<in> set (rev s). blank c" by (simp add: find_idx_None_iff)
  then have "dropWhile blank (rev s) = []" by (simp add: dropWhile_eq_Nil_conv)
  with None show ?thesis
    by (simp add: gen_trimright_def find_last_idx_def)
next
  case (Some i)
  then have i: "i < length s" using find_idx_SomeD by fastforce
  have "dropWhile blank (rev s) = drop i (rev s)"
    using drop_find_Some [OF Some] by simp
  also have "rev (drop i (rev s)) = take (length s - i) s"
    by (simp add: rev_drop)
  finally have *: "rev (dropWhile blank (rev s)) = take (length s - i) s" .
  have "length s - 1 - i + 1 = length s - i" using i by simp
  then show ?thesis
    using Some i * by (simp add: gen_trimright_def find_last_idx_def)
qed

lemma gen_trimleft_eq:
  "gen_trimleft blank s =
     (if s \<noteq> [] \<and> (\<forall>c \<in> set s. blank c) then Inl Out_of_range else Inr (dropWhile blank s))"
proof (cases "find_idx (\<lambda>c. \<not> blank c) s")
  case None
  then have "\<forall>c \<in> set s. blank c" by (simp add: find_idx_None_iff)
  with None show ?thesis by (simp add: gen_trimleft_def substr_from_def)
next
  case (Some i)
  from find_idx_SomeD [OF this] have "i < length s" "\<not> blank (s ! i)" by auto
  with Some drop_find_Some [OF Some] show ?thesis
    by (auto simp: gen_trimleft_def substr_from_def)
qed

lemma gen_trimright_ends: "gen_trimright blank s \<noteq> [] \<Longrightarrow> \<not> blank (last (gen_trimright blank s))"
  unfolding gen_trimright_eq by (simp add: last_rev hd_dropWhile)

text \<open>\<open>trim\<close> never throws, although \<open>trimleft\<close> alone may.\<close>

lemma gen_trim_eq: "gen_trim blank s = Inr (trim_spec blank s)"
proof (cases "gen_trimright blank s = []")
  case True
  then have "dropWhile blank (rev s) = []"
    by (simp only: gen_trimright_eq) simp
  then have "trim_spec blank s = []"
    by (simp only: trim_spec_def) simp
  with True show ?thesis
    by (simp add: gen_trim_def gen_trimleft_def)
next
  case False
  then have "\<not> (\<forall>c \<in> set (gen_trimright blank s). blank c)"
    using gen_trimright_ends [OF False] last_in_set by blast
  moreover have "s \<noteq> []" using False by (auto simp: gen_trimright_def)
  ultimately show ?thesis
    by (simp add: gen_trim_def gen_trimleft_eq) (simp add: trim_spec_def gen_trimright_eq)
qed

lemma trim_eq [str_simps]: "trim s = Inr (trim_spec is_blank s)"
  by (simp add: trim_def gen_trim_eq)

lemma trim_spec_set: "set (trim_spec blank s) \<subseteq> set s"
  unfolding trim_spec_def by (metis set_dropWhileD set_rev subsetI)

lemma trim_spec_id:
  assumes "s = [] \<or> \<not> blank (hd s) \<and> \<not> blank (last s)"
  shows "trim_spec blank s = s"
proof (cases "s = []")
  case False
  then obtain c r where s: "s = c # r" by (cases s) auto
  have "dropWhile blank (rev s) = rev s"
    using assms False by (cases s rule: rev_cases) auto
  with s assms show ?thesis by (simp add: trim_spec_def)
qed (simp add: trim_spec_def)

lemma trim_spec_ends:
  assumes "trim_spec blank s \<noteq> []"
  shows "\<not> blank (hd (trim_spec blank s)) \<and> \<not> blank (last (trim_spec blank s))"
proof -
  let ?r = "gen_trimright blank s"
  have eq: "trim_spec blank s = dropWhile blank ?r"
    by (simp add: trim_spec_def gen_trimright_eq)
  have ne: "?r \<noteq> []" using assms eq by auto
  obtain xs where xs: "?r = xs @ dropWhile blank ?r" by (metis takeWhile_dropWhile_id)
  have "last (dropWhile blank ?r) = last ?r"
    using xs assms eq by (metis last_appendR)
  then show ?thesis
    using eq assms ne gen_trimright_ends [OF ne] hd_dropWhile by metis
qed

text \<open>The value of a trimmed string, for the callers that never see the exception.\<close>

definition trimmed :: "string \<Rightarrow> string" where
  "trimmed s = (case trim s of Inr t \<Rightarrow> t | Inl _ \<Rightarrow> [])"

lemma trimmed_eq [str_simps]: "trimmed s = trim_spec is_blank s"
  by (simp add: trimmed_def trim_eq)

lemma trim_trimmed: "trim s = Inr (trimmed s)"
  by (simp add: trim_eq trimmed_eq)

lemma trimmed_idem [simp]: "trimmed (trimmed s) = trimmed s"
  by (metis trim_spec_ends trim_spec_id trimmed_eq)

section \<open>Case\<close>

definition lower :: "string \<Rightarrow> string" where
  "lower str = map to_lower str"

definition upper :: "string \<Rightarrow> string" where
  "upper str = map to_upper str"

definition icheq :: "char \<Rightarrow> char \<Rightarrow> bool" where
  "icheq a b \<longleftrightarrow> to_lower a = to_lower b"

definition iequal :: "string \<Rightarrow> string \<Rightarrow> bool" where
  "iequal s1 s2 \<longleftrightarrow> length s1 = length s2 \<and> list_all2 icheq s2 s1"

lemma iequal_iff_lower: "iequal s1 s2 \<longleftrightarrow> lower s1 = lower s2"
proof -
  have "list_all2 icheq s2 s1 \<longleftrightarrow> map to_lower s2 = map to_lower s1" if "length s1 = length s2"
    using that by (induction s1 s2 rule: list_induct2) (auto simp: icheq_def)
  then show ?thesis
    unfolding iequal_def lower_def by (metis map_eq_imp_length_eq)
qed

definition serase :: "string \<Rightarrow> string" where
  "serase str = map (\<lambda>_. CHR '' '') str"

definition wserase :: "wstring \<Rightarrow> wstring" where
  "wserase str = map (\<lambda>_. 32) str"

section \<open>quote\<close>

definition quote :: "wstring \<Rightarrow> wstring" where
  "quote str =
     (if 32 \<notin> set str \<and> 9 \<notin> set str then str
      else 34 # concat (map (\<lambda>c. if c = 34 then [92, c] else [c]) str) @ [34])"

text \<open>Undoing it: the reading of a quoted argument back to its characters.\<close>

fun unescape :: "wstring \<Rightarrow> wstring" where
  "unescape (c # d # r) = (if c = 92 \<and> d = 34 then 34 # unescape r else c # unescape (d # r))"
| "unescape s = s"

section \<open>string_format\<close>

text \<open>
  The retry loop of \<^verbatim>\<open>string_format\<close>. \<open>n\<close> is what \<^verbatim>\<open>vsnprintf\<close> returns for the arguments
  (the length of the formatted text, or a negative number on a format error), \<open>out\<close> the
  formatted text; the buffer of \<open>buffer_size\<close> characters comes from a \<^verbatim>\<open>std::vector\<close>, whose
  constructor throws when more than \<open>max_alloc\<close> bytes are asked for. \<^verbatim>\<open>vsnprintf\<close> has
  written the whole text when \<open>0 < n < buffer_size\<close>.
\<close>

function string_format_loop :: "nat \<Rightarrow> int \<Rightarrow> string \<Rightarrow> nat \<Rightarrow> exn + string" where
  "string_format_loop max_alloc n out buffer_size =
     (if buffer_size = 0 \<or> max_alloc < buffer_size then Inl Bad_alloc
      else if n < 0 then Inr ''vsnprintf format error''
      else if n > 0 \<and> n < int buffer_size then Inr (c_str out)
      else string_format_loop max_alloc n out (buffer_size * 2))"
  by pat_completeness auto
termination
  by (relation "measure (\<lambda>(m, n, t, b). if b = 0 \<or> m < b then 0 else Suc (m - b))") auto

declare string_format_loop.simps [simp del]

definition string_format :: "nat \<Rightarrow> int \<Rightarrow> string \<Rightarrow> exn + string" where
  "string_format max_alloc n out = string_format_loop max_alloc n out 256"

lemma string_format_loop_ok:
  assumes "0 < n" "0 < b" "b \<le> max_alloc" "2 * (nat n + 1) \<le> max_alloc"
  shows "string_format_loop max_alloc n out b = Inr (c_str out)"
  using assms
proof (induction max_alloc n out b rule: string_format_loop.induct)
  case (1 max_alloc n out b)
  show ?case
  proof (cases "n < int b")
    case True
    with "1.prems" show ?thesis by (subst string_format_loop.simps) simp
  next
    case False
    then have "b \<le> nat n" by (simp add: le_nat_iff)
    then have "b * 2 \<le> max_alloc" using "1.prems"(4) by simp
    with False "1.prems" "1.IH" show ?thesis by (subst string_format_loop.simps) simp
  qed
qed

lemma string_format_loop_empty: "0 < b \<Longrightarrow> string_format_loop max_alloc 0 out b = Inl Bad_alloc"
proof (induction max_alloc "0::int" out b rule: string_format_loop.induct)
  case (1 max_alloc out b)
  then show ?case by (subst string_format_loop.simps) auto
qed

section \<open>Variable substitution\<close>

text \<open>
  \<^verbatim>\<open>utl::strimap\<close> is a \<^verbatim>\<open>std::map\<close> ordered by \<^verbatim>\<open>_stricmp\<close> on the C strings of its keys, so
  names that differ only in case are the same key.
\<close>

definition ikey :: "string \<Rightarrow> string" where
  "ikey k = map to_lower (c_str k)"

type_synonym strimap = "(string, string) smap"

text \<open>The first \<^verbatim>\<open>${\<close>: the text before it and after it.\<close>

fun find_marker :: "wstring \<Rightarrow> (wstring \<times> wstring) option" where
  "find_marker (a # b # r) =
     (if a = 36 \<and> b = 123 then Some ([], r)
      else map_option (\<lambda>(p, q). (a # p, q)) (find_marker (b # r)))"
| "find_marker _ = None"

text \<open>
  One round of the \<^verbatim>\<open>while (!finish)\<close> loop of \<^verbatim>\<open>substvar\<close>; \<open>None\<close> when there is no marker
  left. The conversions \<^verbatim>\<open>wstr2str\<close> and \<^verbatim>\<open>str2wstr\<close> are Windows API calls: the parameters
  \<open>w2s\<close> and \<open>s2w\<close>. Without a closing brace the rest of the text is dropped, an unknown
  variable is replaced by nothing.
\<close>

definition substvar_step ::
    "(wstring \<Rightarrow> string) \<Rightarrow> (string \<Rightarrow> wstring) \<Rightarrow> strimap \<Rightarrow> wstring \<Rightarrow> wstring option" where
  "substvar_step w2s s2w vars res =
     (case find_marker res of
        None \<Rightarrow> None
      | Some (sb, rest) \<Rightarrow>
          (case find_idx (\<lambda>c. c = 125) rest of
             None \<Rightarrow> Some sb
           | Some end_var \<Rightarrow>
               let var = w2s (take end_var rest) in
               Some (sb @ (case smap_find ikey var vars of Some v \<Rightarrow> s2w v | None \<Rightarrow> [])
                        @ drop (end_var + 1) rest)))"

partial_function (option) substvar_loop ::
    "(wstring \<Rightarrow> string) \<Rightarrow> (string \<Rightarrow> wstring) \<Rightarrow> strimap \<Rightarrow> wstring \<Rightarrow> wstring option" where
  "substvar_loop w2s s2w vars res =
     (case substvar_step w2s s2w vars res of
        None \<Rightarrow> Some res
      | Some res' \<Rightarrow> substvar_loop w2s s2w vars res')"

definition substvar ::
    "(wstring \<Rightarrow> string) \<Rightarrow> (string \<Rightarrow> wstring) \<Rightarrow> wstring \<Rightarrow> strimap \<Rightarrow> wstring option" where
  "substvar w2s s2w str vars =
     (if length vars > 0 then substvar_loop w2s s2w vars str else Some str)"

lemma find_marker_SomeD: "find_marker s = Some (p, q) \<Longrightarrow> s = p @ 36 # 123 # q"
  by (induction s arbitrary: p q rule: find_marker.induct) (auto split: if_splits)

text \<open>Each round removes at least one dollar sign when no value brings one in.\<close>

lemma substvar_step_decreases:
  assumes "substvar_step w2s s2w vars res = Some res'"
    and "\<forall>(k, v) \<in> set vars. 36 \<notin> set (s2w v)"
  shows "count_list res' 36 < count_list res 36"
proof -
  obtain sb rest where m: "find_marker res = Some (sb, rest)"
    using assms(1) by (auto simp: substvar_step_def split: option.splits)
  have res: "count_list res 36 = count_list sb 36 + 1 + count_list rest 36"
    using find_marker_SomeD [OF m] by simp
  have drop: "count_list (drop n rest) 36 \<le> count_list rest 36" for n
    by (metis append_take_drop_id count_list_append le_add2)
  have val: "count_list (s2w v) 36 = 0" if "smap_find ikey k vars = Some v" for k v
    using that assms(2) by (auto dest!: smap_find_in_set)
  show ?thesis
  proof (cases "find_idx (\<lambda>c. c = 125) rest")
    case None
    with assms(1) m res show ?thesis by (simp add: substvar_step_def)
  next
    case (Some i)
    with assms(1) m res val [of "w2s (take i rest)"] drop [of "i + 1"] show ?thesis
      by (auto simp: substvar_step_def Let_def less_Suc_eq_le simp del: drop_Suc split: option.splits)
  qed
qed

lemma substvar_loop_terminates:
  assumes "\<forall>(k, v) \<in> set vars. 36 \<notin> set (s2w v)"
  shows "\<exists>r. substvar_loop w2s s2w vars res = Some r \<and> find_marker r = None"
proof (induction "count_list res 36" arbitrary: res rule: less_induct)
  case less
  show ?case
  proof (cases "substvar_step w2s s2w vars res")
    case None
    then have "find_marker res = None"
      by (auto simp: substvar_step_def Let_def split: option.splits)
    with None show ?thesis by (simp add: substvar_loop.simps)
  next
    case (Some res')
    with less substvar_step_decreases [OF Some assms] show ?thesis
      by (subst substvar_loop.simps) simp
  qed
qed

text \<open>A value that brings back the text it replaces makes the loop run forever.\<close>

lemma substvar_loop_diverges:
  assumes "substvar_step w2s s2w vars res = Some res"
  shows "substvar_loop w2s s2w vars res = None"
proof (rule ccontr)
  assume "substvar_loop w2s s2w vars res \<noteq> None"
  then obtain r where "substvar_loop w2s s2w vars res = Some r" by auto
  then have "(w2s, s2w, vars, res) \<noteq> (w2s, s2w, vars, res)"
  proof (rule substvar_loop.raw_induct
      [where P = "\<lambda>a b c d r. (a, b, c, d) \<noteq> (w2s, s2w, vars, res)", rotated])
    fix f a b c d r'
    assume IH: "\<And>a b c d r'. f a b c d = Some r' \<Longrightarrow> (a, b, c, d) \<noteq> (w2s, s2w, vars, res)"
      and eq: "(case substvar_step a b c d of None \<Rightarrow> Some d | Some res' \<Rightarrow> f a b c res') = Some r'"
    show "(a, b, c, d) \<noteq> (w2s, s2w, vars, res)"
      using eq assms IH [of w2s s2w vars res r'] by auto
  qed
  then show False by simp
qed

section \<open>Properties\<close>

text \<open>Splitting loses nothing: joining the parts with the delimiter gives the text up to
  its first NUL back, there is at least one part, and no part contains the delimiter.\<close>

theorem split_correct:
  "let (parts, n) = split s d [] in
     join_with d parts = c_str s \<and> 0 < n \<and> n = length parts \<and> list_all (\<lambda>p. d \<notin> set p) parts"
  using split_loop_parts [of _ "c_str s" d] split_loop_not_Nil [of "c_str s" d]
  by (auto simp: split_def split_cstr_def Let_def join_split_loop list_all_iff)



text \<open>A value that contains its own variable makes \<open>substvar\<close> loop for ever: the variable
  is replaced by a text that contains it again.\<close>

theorem substvar_self_reference:
  "substvar (map char_of) (map of_char) (map of_char ''${x}'') [(''x'', ''${x}'')] = None"
proof -
  have "substvar_step (map char_of) (map of_char) [(''x'', ''${x}'')] (map of_char ''${x}'') =
      Some (map of_char ''${x}'')"
    by code_simp
  then show ?thesis by (simp add: substvar_def substvar_loop_diverges)
qed

end
