(* ===== verification/ObfString.thy ===== *)
theory ObfString
  imports StrUtil "HOL-Library.Word"
begin

text \<open>
  \<^verbatim>\<open>utl::obfstring\<close> (\<^verbatim>\<open>src/src/util/ObfuscatedString.cpp\<close>): a string stored with every
  byte rotated by a key between 1 and 7. The theory shows that the operations the HTTP
  code performs on the rotated text are the plain string operations on the decoded text,
  so that the theories on cookies and headers work with the decoded text.

  The key comes from \<^verbatim>\<open>std::clock()\<close>, whose value is the parameter \<open>clock\<close>.
\<close>

section \<open>Bytes\<close>

record obfstring =
  okey :: nat
  otext :: string

definition byte_of :: "char \<Rightarrow> 8 word" where
  "byte_of c = of_nat (ascii c)"

definition char_of_byte :: "8 word \<Rightarrow> char" where
  "char_of_byte w = char_of (unat w)"

definition encode :: "char \<Rightarrow> nat \<Rightarrow> char" where
  "encode c k = char_of_byte (word_rotl k (byte_of c))"

definition decode :: "char \<Rightarrow> nat \<Rightarrow> char" where
  "decode c k = char_of_byte (word_rotr k (byte_of c))"

lemma char_of_byte_of [simp]: "char_of_byte (byte_of c) = c"
  by (simp add: char_of_byte_def byte_of_def unat_of_nat)

lemma byte_of_char_of [simp]: "byte_of (char_of_byte w) = w"
proof -
  have "unat w < 256" using unsigned_less [of w] by simp
  then show ?thesis by (simp add: char_of_byte_def byte_of_def)
qed

lemma decode_encode_char [simp]: "decode (encode c k) k = c"
  by (simp add: decode_def encode_def)

lemma encode_decode_char [simp]: "encode (decode c k) k = c"
  by (simp add: decode_def encode_def)

lemma encode_eq_iff [simp]: "encode c k = encode d k \<longleftrightarrow> c = d"
  by (metis decode_encode_char)

lemma encode_NUL_iff: "encode c k = NUL \<longleftrightarrow> c = NUL"
proof -
  have "encode NUL k = NUL"
    by (simp add: encode_def NUL_def byte_of_def char_of_byte_def char_of_eq_iff)
  then show ?thesis by (metis encode_eq_iff)
qed

section \<open>Operations\<close>

definition create_obfuscation_key :: "nat \<Rightarrow> nat" where
  "create_obfuscation_key clock = clock mod 7 + 1"

definition obf_new :: "nat \<Rightarrow> obfstring" where
  "obf_new clock = \<lparr>okey = create_obfuscation_key clock, otext = []\<rparr>"

definition obf_append_str :: "obfstring \<Rightarrow> string \<Rightarrow> obfstring" where
  "obf_append_str s str = s\<lparr>otext := otext s @ map (\<lambda>c. encode c (okey s)) str\<rparr>"

definition obf_of_string :: "nat \<Rightarrow> string \<Rightarrow> obfstring" where
  "obf_of_string clock str = obf_append_str (obf_new clock) str"

definition obf_at :: "obfstring \<Rightarrow> nat \<Rightarrow> char" where
  "obf_at s pos = decode (otext s ! pos) (okey s)"

definition obf_append :: "obfstring \<Rightarrow> obfstring \<Rightarrow> obfstring" where
  "obf_append s str =
     s\<lparr>otext := otext s @ map (\<lambda>i. encode (obf_at str i) (okey s)) [0..<length (otext str)]\<rparr>"

definition obf_push_back :: "obfstring \<Rightarrow> char \<Rightarrow> obfstring" where
  "obf_push_back s c = s\<lparr>otext := otext s @ [encode c (okey s)]\<rparr>"

definition obf_clear :: "nat \<Rightarrow> obfstring \<Rightarrow> obfstring" where
  "obf_clear clock s = s\<lparr>okey := create_obfuscation_key clock, otext := []\<rparr>"

definition obf_find :: "obfstring \<Rightarrow> char \<Rightarrow> nat option" where
  "obf_find s ch = find_idx (\<lambda>c. c = encode ch (okey s)) (otext s)"

definition obf_find_last_not_of :: "obfstring \<Rightarrow> string \<Rightarrow> nat option" where
  "obf_find_last_not_of s str =
     (let searched = map (\<lambda>c. encode c (okey s)) str
      in find_last_idx (\<lambda>c. c \<notin> set searched) (otext s))"

definition obf_find_first_not_of :: "obfstring \<Rightarrow> string \<Rightarrow> nat option" where
  "obf_find_first_not_of s str =
     (let searched = map (\<lambda>c. encode c (okey s)) str
      in find_idx (\<lambda>c. c \<notin> set searched) (otext s))"

text \<open>\<^verbatim>\<open>substr\<close> goes through \<^verbatim>\<open>c_str()\<close>: it stops at a NUL of the rotated text.\<close>

definition obf_substr :: "obfstring \<Rightarrow> nat \<Rightarrow> nat \<Rightarrow> exn + obfstring" where
  "obf_substr s pos n =
     try_bind (substr_n (otext s) pos n) (\<lambda>t. Inr \<lparr>okey = okey s, otext = c_str t\<rparr>)"

definition uncrypt :: "obfstring \<Rightarrow> string" where
  "uncrypt s = map (\<lambda>c. decode c (okey s)) (otext s)"

text \<open>\<^verbatim>\<open>uncrypt(buffer, size, offset)\<close>: decodes into a buffer from an offset on, as far as it fits.\<close>

definition uncrypt_into :: "obfstring \<Rightarrow> string \<Rightarrow> nat \<Rightarrow> string" where
  "uncrypt_into s buffer offset =
     (let n = min (length (otext s)) (length buffer - offset)
      in take offset buffer @ map (\<lambda>c. decode c (okey s)) (take n (otext s)) @ drop (offset + n) buffer)"

text \<open>The loop of \<^verbatim>\<open>split\<close> over an obfuscated string.\<close>

function split_obf_loop :: "string \<Rightarrow> char \<Rightarrow> string list" where
  "split_obf_loop s delim =
     c_str (takeWhile (\<lambda>c. c \<noteq> delim) s) #
     (case dropWhile (\<lambda>c. c \<noteq> delim) s of
        _ # c # rest \<Rightarrow> split_obf_loop (c # rest) delim
      | _ \<Rightarrow> [])"
  by pat_completeness auto
termination
proof (relation "measure (\<lambda>(s, _). length s)")
  fix s rest :: string and delim a c r
  assume "dropWhile (\<lambda>c. c \<noteq> delim) s = a # r" "r = c # rest"
  then have "Suc (length (c # rest)) \<le> length s"
    by (metis length_Cons length_dropWhile_le)
  then show "((c # rest, delim), (s, delim)) \<in> measure (\<lambda>(s, _). length s)"
    by simp
qed simp

declare split_obf_loop.simps [simp del]

definition split_obf :: "obfstring \<Rightarrow> char \<Rightarrow> obfstring list" where
  "split_obf s delim =
     map (\<lambda>t. \<lparr>okey = okey s, otext = t\<rparr>) (split_obf_loop (otext s) (encode delim (okey s)))"

section \<open>The operations on the decoded text\<close>

named_theorems obf_simps

lemma uncrypt_new [obf_simps]: "uncrypt (obf_new clock) = []"
  by (simp add: uncrypt_def obf_new_def)

lemma uncrypt_append_str [obf_simps]: "uncrypt (obf_append_str s str) = uncrypt s @ str"
  by (simp add: uncrypt_def obf_append_str_def comp_def)

lemma uncrypt_of_string [obf_simps]: "uncrypt (obf_of_string clock str) = str"
  by (simp add: obf_of_string_def obf_simps)

lemma map_obf_at: "map (obf_at s) [0..<length (otext s)] = uncrypt s"
  by (rule nth_equalityI) (simp_all add: uncrypt_def obf_at_def)

lemma uncrypt_append [obf_simps]: "uncrypt (obf_append s t) = uncrypt s @ uncrypt t"
proof -
  have "map (\<lambda>i. encode (obf_at t i) (okey s)) [0..<length (otext t)] =
      map (\<lambda>c. encode c (okey s)) (uncrypt t)"
    by (simp add: map_obf_at [symmetric] comp_def)
  then show ?thesis
    by (simp add: obf_append_def uncrypt_def comp_def)
qed

lemma uncrypt_push_back [obf_simps]: "uncrypt (obf_push_back s c) = uncrypt s @ [c]"
  by (simp add: uncrypt_def obf_push_back_def)

lemma uncrypt_clear [obf_simps]: "uncrypt (obf_clear clock s) = []"
  by (simp add: uncrypt_def obf_clear_def)

lemma find_idx_map: "find_idx P (map f s) = find_idx (P \<circ> f) s"
  by (induction s) auto

lemma otext_uncrypt: "otext s = map (\<lambda>c. encode c (okey s)) (uncrypt s)"
  by (simp add: uncrypt_def comp_def)

lemma obf_find_eq [obf_simps]: "obf_find s ch = find_idx (\<lambda>c. c = ch) (uncrypt s)"
  by (simp add: obf_find_def otext_uncrypt [of s] find_idx_map comp_def)

lemma find_last_idx_map: "find_last_idx P (map f s) = find_last_idx (P \<circ> f) s"
  by (simp add: find_last_idx_def rev_map find_idx_map)

lemma obf_find_last_not_of_eq [obf_simps]:
  "obf_find_last_not_of s str = find_last_idx (\<lambda>c. c \<notin> set str) (uncrypt s)"
  by (simp add: obf_find_last_not_of_def otext_uncrypt [of s] find_last_idx_map comp_def image_iff)

lemma obf_find_first_not_of_eq [obf_simps]:
  "obf_find_first_not_of s str = find_idx (\<lambda>c. c \<notin> set str) (uncrypt s)"
  by (simp add: obf_find_first_not_of_def otext_uncrypt [of s] find_idx_map comp_def image_iff)

lemma c_str_map_encode: "c_str (map (\<lambda>c. encode c k) s) = map (\<lambda>c. encode c k) (c_str s)"
  by (simp add: c_str_def takeWhile_map comp_def encode_NUL_iff)

lemma uncrypt_substr [obf_simps]:
  "map_sum id uncrypt (obf_substr s pos n) = map_sum id c_str (substr_n (uncrypt s) pos n)"
proof -
  have "c_str (take n (drop pos (otext s))) =
      map (\<lambda>c. encode c (okey s)) (c_str (take n (drop pos (uncrypt s))))"
    by (subst otext_uncrypt) (simp add: take_map drop_map c_str_map_encode)
  moreover have "length (uncrypt s) = length (otext s)" by (simp add: uncrypt_def)
  ultimately show ?thesis
    by (simp add: obf_substr_def substr_n_def uncrypt_def comp_def)
qed

lemma uncrypt_into_length:
  "offset \<le> length buffer \<Longrightarrow> length (uncrypt_into s buffer offset) = length buffer"
  by (auto simp: uncrypt_into_def Let_def)

lemma split_obf_loop_map:
  "split_obf_loop (map (\<lambda>c. encode c k) s) (encode d k) =
     map (map (\<lambda>c. encode c k)) (split_obf_loop s d)"
proof (induction s d rule: split_obf_loop.induct)
  case (1 s d)
  have tw: "takeWhile (\<lambda>c. c \<noteq> encode d k) (map (\<lambda>c. encode c k) s) =
      map (\<lambda>c. encode c k) (takeWhile (\<lambda>c. c \<noteq> d) s)"
    by (simp add: takeWhile_map comp_def)
  have dw: "dropWhile (\<lambda>c. c \<noteq> encode d k) (map (\<lambda>c. encode c k) s) =
      map (\<lambda>c. encode c k) (dropWhile (\<lambda>c. c \<noteq> d) s)"
    by (simp add: dropWhile_map comp_def)
  show ?case
  proof (cases "\<exists>a c r. dropWhile (\<lambda>c. c \<noteq> d) s = a # c # r")
    case True
    then obtain a c r where dr: "dropWhile (\<lambda>c. c \<noteq> d) s = a # c # r" by blast
    show ?thesis
      using "1.IH" [OF dr refl]
      by (simp add: split_obf_loop.simps [of "map _ s"] split_obf_loop.simps [of s]
          tw dw dr c_str_map_encode)
  next
    case False
    then have "dropWhile (\<lambda>c. c \<noteq> d) s = [] \<or> (\<exists>a. dropWhile (\<lambda>c. c \<noteq> d) s = [a])"
      by (metis list.exhaust)
    then show ?thesis
      by (elim disjE exE) (simp_all add: split_obf_loop.simps [of "map _ s"]
          split_obf_loop.simps [of s] tw dw c_str_map_encode del: dropWhile_eq_Nil_conv)
  qed
qed

lemma uncrypt_split [obf_simps]: "map uncrypt (split_obf s d) = split_obf_loop (uncrypt s) d"
proof -
  have "split_obf_loop (otext s) (encode d (okey s)) =
      map (map (\<lambda>c. encode c (okey s))) (split_obf_loop (uncrypt s) d)"
    by (metis otext_uncrypt split_obf_loop_map)
  then show ?thesis
    by (simp add: split_obf_def uncrypt_def comp_def)
qed

lemma create_obfuscation_key_range:
  "1 \<le> create_obfuscation_key clock \<and> create_obfuscation_key clock \<le> 7"
proof -
  have "clock mod 7 < 7" by simp
  then show ?thesis unfolding create_obfuscation_key_def by linarith
qed

section \<open>Properties\<close>


end
