(* ===== verification/StringMap.thy ===== *)
theory StringMap
  imports StrUtil
begin

text \<open>
  \<^verbatim>\<open>utl::StringMap\<close> (\<^verbatim>\<open>src/src/util/StringMap.cpp\<close>): the name/value maps that carry HTTP
  headers, URL queries and the parameters of the firewall login. The map is a \<open>strimap\<close>
  (names compare without case). \<open>sm_add\<close> may throw half-way through a line: the result then
  holds the pairs stored so far and the exception.
\<close>

section \<open>Operations\<close>

definition sm_serase :: "strimap \<Rightarrow> strimap" where
  "sm_serase m = []"

definition sm_set :: "string \<Rightarrow> string \<Rightarrow> strimap \<Rightarrow> strimap" where
  "sm_set name val m = smap_set ikey name val m"

definition sm_get_str :: "strimap \<Rightarrow> string \<Rightarrow> string option" where
  "sm_get_str m name = smap_find ikey name m"

text \<open>The name and the value of one item; the blanks after the equal sign are not significant.\<close>

definition sm_item :: "string \<Rightarrow> exn + (string \<times> string)" where
  "sm_item item =
     (case find_idx (\<lambda>c. c = CHR ''='') item of
        Some pos \<Rightarrow>
          try_bind (substr_n item 0 pos) (\<lambda>n.
          try_bind (trim n) (\<lambda>name.
          try_bind (substr_from item (Some (pos + 1))) (\<lambda>v.
          try_bind (trimleft v) (\<lambda>val. Inr (name, val)))))
      | None \<Rightarrow> try_bind (trim item) (\<lambda>name. Inr (name, [])))"

fun sm_add_items :: "string list \<Rightarrow> strimap \<Rightarrow> strimap \<times> exn option" where
  "sm_add_items [] m = (m, None)"
| "sm_add_items (item # items) m =
     (if item = [] then sm_add_items items m
      else case sm_item item of
        Inl e \<Rightarrow> (m, Some e)
      | Inr (name, val) \<Rightarrow> sm_add_items items (sm_set name val m))"

definition sm_add :: "string \<Rightarrow> char \<Rightarrow> strimap \<Rightarrow> strimap \<times> (exn + nat)" where
  "sm_add line delim m =
     (let (tokens, n) = split_cstr (c_str line) delim [];
          (m', e) = (if n > 0 then sm_add_items tokens m else (m, None))
      in (m', case e of None \<Rightarrow> Inr (length tokens) | Some ex \<Rightarrow> Inl ex))"

definition sm_new :: "string \<Rightarrow> char \<Rightarrow> exn + strimap" where
  "sm_new line delim = (case sm_add line delim [] of (m, Inr _) \<Rightarrow> Inr m | (_, Inl e) \<Rightarrow> Inl e)"

definition sm_get_str_value :: "strimap \<Rightarrow> string \<Rightarrow> string \<Rightarrow> string" where
  "sm_get_str_value m name default_value =
     (case sm_get_str m name of Some v \<Rightarrow> v | None \<Rightarrow> default_value)"

text \<open>\<^verbatim>\<open>get_int\<close> leaves the caller's value when the name is missing or its text is no number.\<close>

definition sm_get_int :: "strimap \<Rightarrow> string \<Rightarrow> int \<Rightarrow> bool \<times> int" where
  "sm_get_int m name val =
     (case sm_get_str m name of None \<Rightarrow> (False, val) | Some tmp \<Rightarrow> str2i tmp val)"

definition sm_get_int_value :: "strimap \<Rightarrow> string \<Rightarrow> int \<Rightarrow> int" where
  "sm_get_int_value m name default_value =
     (let (ok, v) = sm_get_int m name 0 in if ok then v else default_value)"

definition sm_join :: "strimap \<Rightarrow> string \<Rightarrow> string" where
  "sm_join m delim =
     (if m = [] then []
      else let buffer = concat (map (\<lambda>(k, v). k @ ''='' @ v @ delim) m)
           in take (length buffer - length delim) buffer)"

lemma sm_set_eta: "sm_set name val = smap_set ikey name val"
  by (simp add: sm_set_def fun_eq_iff)

section \<open>The dictionary contract\<close>

definition sm_ok :: "strimap \<Rightarrow> bool" where
  "sm_ok m \<longleftrightarrow> smap_ok ikey m"

interpretation sm: dictionary sm_get_str sm_set "[]" "\<lambda>k k'. ikey k = ikey k'" sm_ok
  by unfold_locales (auto simp: sm_get_str_def sm_set_def sm_ok_def map_laws)

lemma sm_ok_add_items: "sm_ok m \<Longrightarrow> sm_ok (fst (sm_add_items items m))"
  by (induction items m rule: sm_add_items.induct) (auto simp: sm.ok_store split: sum.splits)

section \<open>Joining and parsing back\<close>

text \<open>A map whose text form is unambiguous for the delimiter \<open>d\<close>.\<close>

definition sm_clean_pair :: "char \<Rightarrow> string \<times> string \<Rightarrow> bool" where
  "sm_clean_pair d p \<longleftrightarrow>
     (case p of (k, v) \<Rightarrow>
       d \<noteq> CHR ''='' \<and> d \<noteq> NUL \<and>
       {d, CHR ''='', NUL} \<inter> set k = {} \<and> {d, NUL} \<inter> set v = {} \<and>
       (k = [] \<or> \<not> is_blank (hd k) \<and> \<not> is_blank (last k)) \<and>
       (v = [] \<or> \<not> is_blank (hd v)))"

definition sm_clean :: "char \<Rightarrow> strimap \<Rightarrow> bool" where
  "sm_clean d m \<longleftrightarrow> sm_ok m \<and> list_all (sm_clean_pair d) m"

lemma find_idx_append: "\<forall>c \<in> set s. \<not> P c \<Longrightarrow> P c \<Longrightarrow> find_idx P (s @ c # r) = Some (length s)"
  by (induction s) auto

lemma trimleft_id: "v = [] \<or> \<not> is_blank (hd v) \<Longrightarrow> trimleft v = Inr v"
  by (cases v) (auto simp: trimleft_def gen_trimleft_eq)

lemma sm_item_pair:
  assumes "sm_clean_pair d (k, v)"
  shows "sm_item (k @ CHR ''='' # v) = Inr (k, v)"
proof -
  have "\<forall>c \<in> set k. c \<noteq> CHR ''=''" using assms by (auto simp: sm_clean_pair_def)
  then have "find_idx (\<lambda>c. c = CHR ''='') (k @ CHR ''='' # v) = Some (length k)"
    by (rule find_idx_append) simp
  moreover have "trim k = Inr k"
    using assms by (simp add: trim_eq trim_spec_id sm_clean_pair_def)
  moreover have "trimleft v = Inr v"
    using assms by (intro trimleft_id) (auto simp: sm_clean_pair_def)
  ultimately show ?thesis by (simp add: sm_item_def substr_n_def substr_from_def)
qed

lemma sm_add_items_pairs:
  "list_all (sm_clean_pair d) kvs \<Longrightarrow>
   sm_add_items (map (\<lambda>(k, v). k @ CHR ''='' # v) kvs) m = (fold (\<lambda>(k, v). sm_set k v) kvs m, None)"
  by (induction kvs arbitrary: m) (auto simp: sm_item_pair)

lemma sm_join_eq: "sm_join m [d] = join_with d (map (\<lambda>(k, v). k @ CHR ''='' # v) m)"
proof (cases "m = []")
  case False
  have "ps \<noteq> [] \<Longrightarrow> concat (map (\<lambda>p. p @ [d]) ps) = join_with d ps @ [d]" for ps
    by (induction d ps rule: join_with.induct) auto
  from this [of "map (\<lambda>(k, v). k @ CHR ''='' # v) m"] False
  have "concat (map (\<lambda>(k, v). k @ ''='' @ v @ [d]) m) =
      join_with d (map (\<lambda>(k, v). k @ CHR ''='' # v) m) @ [d]"
    by (simp add: comp_def case_prod_unfold)
  with False show ?thesis by (simp add: sm_join_def Let_def)
qed (simp add: sm_join_def)

lemma set_join_with: "set (join_with d ps) \<subseteq> insert d (\<Union> (set ` set ps))"
  by (induction d ps rule: join_with.induct) auto

lemma sm_join_no_NUL:
  assumes "list_all (sm_clean_pair d) m" and "d \<noteq> NUL"
  shows "c_str (sm_join m [d]) = sm_join m [d]"
proof (rule c_str_id)
  have "\<forall>p \<in> set m. NUL \<notin> set (fst p @ CHR ''='' # snd p)"
    using assms(1) by (auto simp: list_all_iff sm_clean_pair_def NUL_def)
  with assms(2) show "NUL \<notin> set (sm_join m [d])"
    using set_join_with [of d "map (\<lambda>(k, v). k @ CHR ''='' # v) m"] by (fastforce simp: sm_join_eq)
qed

lemma sm_new_join:
  assumes clean: "sm_clean d m" and ne: "m \<noteq> []"
  shows "sm_new (sm_join m [d]) d = Inr m"
proof -
  let ?items = "map (\<lambda>(k, v). k @ CHR ''='' # v) m"
  have pairs: "list_all (sm_clean_pair d) m" and ok: "smap_ok ikey m"
    using clean by (auto simp: sm_clean_def sm_ok_def)
  have dn: "d \<noteq> NUL" using pairs ne by (cases m) (auto simp: sm_clean_pair_def)
  have "\<forall>p \<in> set ?items. d \<notin> set p"
    using pairs by (auto simp: list_all_iff sm_clean_pair_def)
  with ne have "split_loop (sm_join m [d]) d = ?items"
    by (simp add: sm_join_eq split_join)
  then have "split_cstr (c_str (sm_join m [d])) d [] = (?items, length m)"
    using sm_join_no_NUL [OF pairs dn] by (simp add: split_cstr_def Let_def)
  moreover have "sm_add_items ?items [] = (m, None)"
    using sm_add_items_pairs [OF pairs, of "[]"] fold_smap_set_id [OF ok]
    by (simp add: sm_set_eta)
  ultimately show ?thesis using ne by (simp add: sm_new_def sm_add_def)
qed

section \<open>Properties\<close>

text \<open>C38. A map joined with a delimiter is parsed back to the same map, when its names and
  values are free of the delimiter, of NUL and of leading or trailing blanks where the parser
  trims, and names are free of the equal sign.\<close>

theorem sm_round_trip:
  assumes "sm_clean d m" and "m \<noteq> []"
  shows "sm_new (sm_join m [d]) d = Inr m"
  using assms by (rule sm_new_join)

theorem sm_round_trip_witness:
  "sm_new (sm_join [(''ajax'', ''1''), (''Realm'', '''')] ''&'') CHR ''&'' = Inr [(''ajax'', ''1''), (''Realm'', '''')]"
proof (rule sm_round_trip)
  show "sm_clean CHR ''&'' [(''ajax'', ''1''), (''Realm'', '''')]" by code_simp
qed simp

end
