(* ===== verification/Endpoint.thy ===== *)
theory Endpoint
  imports StrUtil
begin

text \<open>
  \<^verbatim>\<open>net::Endpoint\<close> (\<^verbatim>\<open>src/src/net/Endpoint.cpp\<close>): a host name and a port, parsed from
  \<^verbatim>\<open>hostname{:port}\<close> with the port delimiter searched from the end of the text, so that the
  colons of a bracketed IPv6 address are not taken for it.
\<close>

record endpoint =
  hostname :: string
  port :: nat

definition endpoint_default :: endpoint where
  "endpoint_default = \<lparr>hostname = ''0.0.0.0'', port = 0\<rparr>"

definition endpoint_to_string :: "endpoint \<Rightarrow> string" where
  "endpoint_to_string ep = hostname ep @ '':'' @ to_string (port ep)"

definition endpoint_is_undef :: "endpoint \<Rightarrow> bool" where
  "endpoint_is_undef ep \<longleftrightarrow> hostname ep = ''0.0.0.0'' \<and> port ep = 0"

text \<open>The host name, the port and the validity of the port text, before the final check.\<close>

definition endpoint_scan :: "string \<Rightarrow> nat \<Rightarrow> exn + (string \<times> nat \<times> bool)" where
  "endpoint_scan address default_port =
     (case find_last_idx (\<lambda>c. c = CHR '':'' \<or> c = CHR '']'') address of
        Some p \<Rightarrow>
          if address ! p = CHR '':'' then
            try_bind (trim (take p address)) (\<lambda>host.
              let (ok, port_value) = str2i (drop (p + 1) address) 0;
                  valid_port = (ok \<and> port_value > 0 \<and> port_value \<le> 65535)
              in Inr (host, if valid_port then nat port_value else port endpoint_default, valid_port))
          else try_bind (trim (c_str address)) (\<lambda>host. Inr (host, default_port, True))
      | None \<Rightarrow> try_bind (trim (c_str address)) (\<lambda>host. Inr (host, default_port, True)))"

definition endpoint_init :: "string \<Rightarrow> nat \<Rightarrow> exn + endpoint" where
  "endpoint_init address default_port =
     try_bind (endpoint_scan address default_port) (\<lambda>(host, prt, valid_port).
       if length host = 0 \<or> \<not> valid_port then Inl Invalid_argument
       else Inr \<lparr>hostname = host, port = prt\<rparr>)"

section \<open>Parsing what was printed\<close>

definition endpoint_ok :: "endpoint \<Rightarrow> bool" where
  "endpoint_ok ep \<longleftrightarrow> hostname ep \<noteq> [] \<and> \<not> is_blank (hd (hostname ep)) \<and>
     \<not> is_blank (last (hostname ep)) \<and> 0 < port ep \<and> port ep \<le> 65535"

lemma find_last_idx_append:
  assumes "P y" and "\<forall>c \<in> set ys. \<not> P c"
  shows "find_last_idx P (xs @ y # ys) = Some (length xs)"
proof -
  have "find_idx P (rev ys @ y # rev xs) = Some (length ys)"
    using assms by (induction ys rule: rev_induct) (auto split: option.splits)
  then show ?thesis by (simp add: find_last_idx_def)
qed

lemma endpoint_init_to_string:
  assumes "endpoint_ok ep"
  shows "endpoint_init (endpoint_to_string ep) dp = Inr ep"
proof -
  let ?h = "hostname ep" and ?p = "to_string (port ep)"
  have "\<forall>c \<in> set ?p. \<not> (c = CHR '':'' \<or> c = CHR '']'')"
    using to_string_digits by (fastforce simp: is_digit_def)
  then have "find_last_idx (\<lambda>c. c = CHR '':'' \<or> c = CHR '']'') (?h @ CHR '':'' # ?p) = Some (length ?h)"
    by (intro find_last_idx_append) simp_all
  moreover have "trim ?h = Inr ?h"
    using assms by (simp add: trim_eq trim_spec_id endpoint_ok_def)
  moreover have "str2i ?p 0 = (True, int (port ep))"
    using assms by (intro str2i_to_string) (simp add: endpoint_ok_def)
  ultimately show ?thesis
    using assms by (simp add: endpoint_init_def endpoint_scan_def endpoint_to_string_def endpoint_ok_def)
qed

text \<open>Every accepted address yields a usable endpoint: a non-empty name without blanks at
  its ends and a port that is the default one or between 1 and 65535.\<close>

lemma endpoint_scan_port:
  "endpoint_scan a dp = Inr (h, p, True) \<Longrightarrow> p = dp \<or> 0 < p \<and> p \<le> 65535"
  by (auto simp: endpoint_scan_def trim_eq Let_def split: option.splits if_splits prod.splits)

lemma endpoint_scan_host:
  "endpoint_scan a dp = Inr (h, p, b) \<Longrightarrow> \<exists>t. h = trim_spec is_blank t"
  by (auto simp: endpoint_scan_def trim_eq Let_def split: option.splits if_splits prod.splits)

lemma endpoint_init_ok:
  assumes "endpoint_init a dp = Inr ep" and "0 < dp" "dp \<le> 65535"
  shows "endpoint_ok ep"
proof -
  obtain h p where s: "endpoint_scan a dp = Inr (h, p, True)" "h \<noteq> []" "ep = \<lparr>hostname = h, port = p\<rparr>"
    using assms(1) by (auto simp: endpoint_init_def try_bind_Inr_iff split: if_splits)
  obtain t where "h = trim_spec is_blank t" using endpoint_scan_host [OF s(1)] by blast
  with s(2) have "\<not> is_blank (hd h)" "\<not> is_blank (last h)"
    using trim_spec_ends [of is_blank t] by auto
  moreover have "0 < p \<and> p \<le> 65535" using endpoint_scan_port [OF s(1)] assms by auto
  ultimately show ?thesis using s by (simp add: endpoint_ok_def)
qed

section \<open>Properties\<close>

text \<open>An address printed as \<^verbatim>\<open>host:port\<close> is parsed back to the same endpoint, whatever
  the default port; and whatever \<open>endpoint_init\<close> accepts is such an endpoint.\<close>

theorem endpoint_round_trip:
  assumes "endpoint_init a dp = Inr ep" and "0 < dp" "dp \<le> 65535"
  shows "endpoint_init (endpoint_to_string ep) dp' = Inr ep"
  using endpoint_init_to_string [OF endpoint_init_ok [OF assms]] .

theorem endpoint_round_trip_witness:
  "endpoint_init (endpoint_to_string \<lparr>hostname = ''fw.ch'', port = 443\<rparr>) 80 = Inr \<lparr>hostname = ''fw.ch'', port = 443\<rparr>"
proof (rule endpoint_round_trip [of "''fw.ch''" 443])
  show "endpoint_init ''fw.ch'' 443 = Inr \<lparr>hostname = ''fw.ch'', port = 443\<rparr>" by code_simp
qed simp_all

end
