(* ===== verification/Url.thy ===== *)
theory Url
  imports StringMap Endpoint
begin

text \<open>
  \<^verbatim>\<open>http::Url\<close> (\<^verbatim>\<open>src/src/http/Url.cpp\<close>): the finite state machine that takes a URL apart,
  with the state numbers of the code, and the printer \<^verbatim>\<open>to_string\<close>. The machine reads the
  characters before the terminating NUL and then the NUL itself; state \<open>-1\<close> stops it.
\<close>

record url =
  scheme :: string
  authority :: string
  path :: string
  query :: string
  fragment :: string

definition empty_url :: url where
  "empty_url = \<lparr>scheme = [], authority = [], path = [], query = [], fragment = []\<rparr>"

text \<open>One turn of the \<^verbatim>\<open>switch (state)\<close>: the next state, the buffer and the fields.\<close>

definition url_step :: "int \<Rightarrow> char \<Rightarrow> string \<Rightarrow> url \<Rightarrow> int \<times> string \<times> url" where
  "url_step state p buffer u =
    (if state = 0 then
       (if p = NUL then (-1, buffer, u)
        else if p = CHR '':'' then (7, [p], u)
        else if p = CHR ''/'' then (3, [p], u)
        else if p = CHR ''?'' then (8, buffer, u)
        else if p = CHR ''#'' then (10, buffer, u)
        else (1, [p], u))
     else if state = 1 then
       (if p = NUL then (-1, buffer, u\<lparr>path := buffer\<rparr>)
        else if p = CHR '':'' then (2, [], u\<lparr>scheme := buffer\<rparr>)
        else if p = CHR ''?'' then (8, buffer, u\<lparr>path := buffer\<rparr>)
        else if p = CHR ''#'' then (10, buffer, u\<lparr>path := buffer\<rparr>)
        else (1, buffer @ [p], u))
     else if state = 2 then
       (if p = NUL then (-1, buffer, u)
        else if p = CHR ''/'' then (3, buffer, u)
        else (7, [p], u))
     else if state = 3 then
       (if p = NUL then (-1, buffer, u\<lparr>path := buffer\<rparr>)
        else if p = CHR ''/'' then (4, buffer, u)
        else (7, buffer @ [p], u))
     else if state = 4 then
       (if p = NUL then (-1, buffer, u) else (5, [p], u))
     else if state = 5 then
       (if p = NUL then (-1, buffer, u\<lparr>authority := buffer\<rparr>)
        else if p = CHR ''/'' then (7, ''/'', u\<lparr>authority := buffer\<rparr>)
        else if p = CHR ''?'' then (8, buffer, u\<lparr>authority := buffer\<rparr>)
        else if p = CHR ''#'' then (10, buffer, u\<lparr>authority := buffer\<rparr>)
        else (5, buffer @ [p], u))
     else if state = 6 then
       (if p = NUL then (-1, buffer, u) else (7, buffer @ [p], u))
     else if state = 7 then
       (if p = NUL then (-1, buffer, u\<lparr>path := buffer\<rparr>)
        else if p = CHR ''?'' then (8, [], u\<lparr>path := buffer\<rparr>)
        else if p = CHR ''#'' then (10, [], u\<lparr>path := buffer\<rparr>)
        else (7, buffer @ [p], u))
     else if state = 8 then
       (if p = NUL then (-1, buffer, u) else (9, [p], u))
     else if state = 9 then
       (if p = NUL then (-1, buffer, u\<lparr>query := buffer\<rparr>)
        else if p = CHR ''#'' then (10, [], u\<lparr>query := buffer\<rparr>)
        else (9, buffer @ [p], u))
     else if state = 10 then
       (if p = NUL then (-1, buffer, u) else (11, [p], u))
     else if state = 11 then
       (if p = NUL then (-1, buffer, u\<lparr>fragment := buffer\<rparr>)
        else (11, buffer @ [p], u))
     else (state, buffer, u))"

text \<open>The loop. \<open>None\<close> would be a read past the terminating NUL.\<close>

fun url_run :: "string \<Rightarrow> int \<Rightarrow> string \<Rightarrow> url \<Rightarrow> url option" where
  "url_run [] state buffer u =
     (case url_step state NUL buffer u of
        (state', _, u') \<Rightarrow> if state' < 0 then Some u' else None)"
| "url_run (c # s) state buffer u =
     (case url_step state c buffer u of
        (state', buffer', u') \<Rightarrow> if state' < 0 then Some u' else url_run s state' buffer' u')"

definition url_parse :: "string \<Rightarrow> url option" where
  "url_parse s = url_run (dropWhile is_space (c_str s)) 0 [] empty_url"

definition url_make :: "string \<Rightarrow> string \<Rightarrow> string \<Rightarrow> string \<Rightarrow> string \<Rightarrow> exn + url" where
  "url_make s a p q f =
     try_bind (trim s) (\<lambda>s'. try_bind (trim a) (\<lambda>a'. try_bind (trim p) (\<lambda>p'.
     try_bind (trim q) (\<lambda>q'. try_bind (trim f) (\<lambda>f'.
       Inr \<lparr>scheme = s', authority = a', path = p', query = q', fragment = f'\<rparr>)))))"

definition url_get_hostname :: "url \<Rightarrow> exn + string" where
  "url_get_hostname u =
     (if authority u \<noteq> [] then
        try_bind (endpoint_init (authority u) 80) (\<lambda>ep. Inr (hostname ep))
      else Inr [])"

definition url_get_query_map :: "url \<Rightarrow> exn + strimap" where
  "url_get_query_map u = sm_new (query u) (CHR ''&'')"

definition url_to_string :: "url \<Rightarrow> bool \<Rightarrow> string" where
  "url_to_string u implicit =
     (if implicit then
        path u
        @ (if length (query u) > 0 then ''?'' @ query u else [])
        @ (if length (fragment u) > 0 then ''#'' @ fragment u else [])
      else
        (if length (scheme u) > 0 then scheme u @ '':'' else [])
        @ (if length (authority u) > 0 then ''//'' @ authority u else [])
        @ path u
        @ (if length (query u) > 0 then ''?'' @ query u else [])
        @ (if length (fragment u) > 0 then ''#'' @ fragment u else []))"

section \<open>The machine always stops\<close>

definition url_states :: "int set" where
  "url_states = {0, 1, 2, 3, 4, 5, 7, 8, 9, 10, 11}"

lemma url_step_states:
  "st \<in> url_states \<Longrightarrow> fst (url_step st c buf u) \<in> insert (-1) url_states"
  unfolding url_states_def url_step_def by auto

lemma url_step_NUL: "st \<in> url_states \<Longrightarrow> fst (url_step st NUL buf u) = -1"
  unfolding url_states_def url_step_def by auto

lemma url_run_total: "st \<in> url_states \<Longrightarrow> \<exists>u'. url_run s st buf u = Some u'"
proof (induction s arbitrary: st buf u)
  case Nil
  then show ?case
    using url_step_NUL [OF Nil, of buf u] by (auto split: prod.splits)
next
  case (Cons c s)
  then show ?case
    using url_step_states [OF Cons.prems, of c buf u] by (auto split: prod.splits)
qed

lemma url_parse_total: "\<exists>u. url_parse s = Some u"
  unfolding url_parse_def by (rule url_run_total) (simp add: url_states_def)

section \<open>Runs of ordinary characters\<close>

lemma url_run_scheme:
  "{CHR '':'', CHR ''?'', CHR ''#'', NUL} \<inter> set s = {} \<Longrightarrow>
   url_run (s @ r) 1 buf u = url_run r 1 (buf @ s) u"
  by (induction s arbitrary: buf) (auto simp: url_step_def)

lemma url_run_authority:
  "{CHR ''/'', CHR ''?'', CHR ''#'', NUL} \<inter> set s = {} \<Longrightarrow>
   url_run (s @ r) 5 buf u = url_run r 5 (buf @ s) u"
  by (induction s arbitrary: buf) (auto simp: url_step_def)

lemma url_run_path:
  "{CHR ''?'', CHR ''#'', NUL} \<inter> set s = {} \<Longrightarrow>
   url_run (s @ r) 7 buf u = url_run r 7 (buf @ s) u"
  by (induction s arbitrary: buf) (auto simp: url_step_def)

lemma url_run_query:
  "{CHR ''#'', NUL} \<inter> set s = {} \<Longrightarrow> url_run (s @ r) 9 buf u = url_run r 9 (buf @ s) u"
  by (induction s arbitrary: buf) (auto simp: url_step_def)

lemma url_run_fragment:
  "NUL \<notin> set s \<Longrightarrow> url_run s 11 buf u = Some (u\<lparr>fragment := buf @ s\<rparr>)"
  by (induction s arbitrary: buf) (auto simp: url_step_def)

lemmas url_run_chunks = url_run_scheme url_run_authority url_run_path url_run_query url_run_fragment

text \<open>The tails of a URL: fragment, query and fragment, path and the rest.\<close>

definition fragment_text :: "string \<Rightarrow> string" where
  "fragment_text f = (if f = [] then [] else CHR ''#'' # f)"

definition query_text :: "string \<Rightarrow> string" where
  "query_text q = (if q = [] then [] else CHR ''?'' # q)"

lemma url_run_10: "NUL \<notin> set f \<Longrightarrow> f \<noteq> [] \<Longrightarrow> url_run f 10 buf u = Some (u\<lparr>fragment := f\<rparr>)"
  by (cases f) (auto simp: url_step_def url_run_fragment)

lemma url_run_9_tail:
  "NUL \<notin> set f \<Longrightarrow> fragment u = [] \<Longrightarrow>
   url_run (fragment_text f) 9 buf u = Some (u\<lparr>query := buf, fragment := f\<rparr>)"
  by (cases f) (auto simp: fragment_text_def url_step_def url_run_fragment NUL_def)

lemma url_run_8:
  assumes "NUL \<notin> set q" "CHR ''#'' \<notin> set q" "q \<noteq> []" "NUL \<notin> set f" "fragment u = []"
  shows "url_run (q @ fragment_text f) 8 buf u = Some (u\<lparr>query := q, fragment := f\<rparr>)"
proof -
  obtain c r where q: "q = c # r" using assms(3) by (cases q) auto
  then have "{CHR ''#'', NUL} \<inter> set r = {}" "c \<noteq> NUL" using assms by auto
  then show ?thesis
    using url_run_query [of r "fragment_text f" "[c]" u] url_run_9_tail [OF assms(4,5), of "c # r"] q
    by (simp add: url_step_def)
qed

text \<open>States 5 and 7 take the text up to a query or a fragment; the field they fill differs.\<close>

lemma url_run_7_tail:
  assumes "NUL \<notin> set q" "CHR ''#'' \<notin> set q" "NUL \<notin> set f" "fragment u = []" "query u = []"
  shows "url_run (query_text q @ fragment_text f) 7 buf u =
     Some (u\<lparr>path := buf, query := q, fragment := f\<rparr>)"
proof (cases "q = []")
  case True
  with assms show ?thesis
    by (cases f) (auto simp: query_text_def fragment_text_def url_step_def url_run_fragment NUL_def)
next
  case False
  with assms url_run_8 [of q f "u\<lparr>path := buf\<rparr>" "[]"] show ?thesis
    by (simp add: query_text_def url_step_def NUL_def)
qed

lemma url_run_5_tail:
  assumes "NUL \<notin> set q" "CHR ''#'' \<notin> set q" "NUL \<notin> set f"
    and "fragment u = []" "query u = []" "path u = []"
  shows "url_run (query_text q @ fragment_text f) 5 buf u =
     Some (u\<lparr>authority := buf, query := q, fragment := f\<rparr>)"
proof (cases "q = []")
  case True
  with assms show ?thesis
    by (cases f) (auto simp: query_text_def fragment_text_def url_step_def url_run_fragment NUL_def)
next
  case False
  with assms url_run_8 [of q f "u\<lparr>authority := buf\<rparr>" buf] show ?thesis
    by (simp add: query_text_def url_step_def NUL_def)
qed

section \<open>Printing and parsing back\<close>

text \<open>An absolute URL with a host, as \<^verbatim>\<open>HttpsClient::make_url\<close> builds them.\<close>

definition url_absolute :: "url \<Rightarrow> bool" where
  "url_absolute u \<longleftrightarrow>
     scheme u \<noteq> [] \<and> {CHR '':'', CHR ''?'', CHR ''#'', NUL} \<inter> set (scheme u) = {} \<and>
     hd (scheme u) \<noteq> CHR ''/'' \<and> \<not> is_space (hd (scheme u)) \<and>
     authority u \<noteq> [] \<and> {CHR ''/'', CHR ''?'', CHR ''#'', NUL} \<inter> set (authority u) = {} \<and>
     (path u = [] \<or> hd (path u) = CHR ''/'') \<and> {CHR ''?'', CHR ''#'', NUL} \<inter> set (path u) = {} \<and>
     {CHR ''#'', NUL} \<inter> set (query u) = {} \<and> NUL \<notin> set (fragment u)"

lemma url_to_string_absolute:
  "url_absolute u \<Longrightarrow> url_to_string u False =
     scheme u @ '':'' @ ''//'' @ authority u @ path u @ query_text (query u) @ fragment_text (fragment u)"
  by (auto simp: url_to_string_def url_absolute_def query_text_def fragment_text_def)

lemma url_run_path_tail:
  assumes "url_absolute u"
  shows "url_run (path u @ query_text (query u) @ fragment_text (fragment u)) 5 (authority u)
       (empty_url\<lparr>scheme := scheme u\<rparr>) = Some u"
proof (cases "path u")
  case Nil
  with assms url_run_5_tail [of "query u" "fragment u" "empty_url\<lparr>scheme := scheme u\<rparr>" "authority u"]
  show ?thesis by (simp add: empty_url_def url_absolute_def)
next
  case (Cons c r)
  with assms have c: "c = CHR ''/''" and r: "{CHR ''?'', CHR ''#'', NUL} \<inter> set r = {}"
    by (auto simp: url_absolute_def)
  with assms Cons url_run_path [OF r]
    url_run_7_tail [of "query u" "fragment u" "empty_url\<lparr>scheme := scheme u, authority := authority u\<rparr>" "path u"]
  show ?thesis by (simp add: url_step_def empty_url_def url_absolute_def NUL_def)
qed

lemma url_parse_to_string:
  assumes "url_absolute u"
  shows "url_parse (url_to_string u False) = Some u"
proof -
  let ?tail = "path u @ query_text (query u) @ fragment_text (fragment u)"
  obtain c s where sch: "scheme u = c # s" using assms by (cases "scheme u") (auto simp: url_absolute_def)
  obtain d a where aut: "authority u = d # a" using assms by (cases "authority u") (auto simp: url_absolute_def)
  have c: "\<not> is_space c" "c \<noteq> NUL" "c \<noteq> CHR '':''" "c \<noteq> CHR ''/''" "c \<noteq> CHR ''?''" "c \<noteq> CHR ''#''"
    and s: "{CHR '':'', CHR ''?'', CHR ''#'', NUL} \<inter> set s = {}"
    and a: "{CHR ''/'', CHR ''?'', CHR ''#'', NUL} \<inter> set a = {}" "d \<noteq> NUL"
    using assms by (auto simp: url_absolute_def sch aut)
  have "NUL \<notin> set (url_to_string u False)"
    using assms by (auto simp: url_to_string_absolute url_absolute_def query_text_def fragment_text_def NUL_def)
  then have "url_parse (url_to_string u False) =
      url_run (c # s @ CHR '':'' # CHR ''/'' # CHR ''/'' # d # a @ ?tail) 0 [] empty_url"
    using assms c(1) by (simp add: url_parse_def c_str_id url_to_string_absolute sch aut)
  also have "\<dots> = url_run (CHR '':'' # CHR ''/'' # CHR ''/'' # d # a @ ?tail) 1 (c # s) empty_url"
    using c url_run_scheme [OF s, of _ "[c]"] by (simp add: url_step_def)
  also have "\<dots> = url_run (a @ ?tail) 5 [d] (empty_url\<lparr>scheme := scheme u\<rparr>)"
    using a(2) by (simp add: url_step_def NUL_def sch)
  also have "\<dots> = url_run ?tail 5 (authority u) (empty_url\<lparr>scheme := scheme u\<rparr>)"
    using url_run_authority [OF a(1), of ?tail "[d]"] by (simp add: aut)
  finally show ?thesis using url_run_path_tail [OF assms] by simp
qed

section \<open>Properties\<close>

text \<open>The URL parser terminates on every text.\<close>

theorem url_parse_terminates: "\<exists>u. url_parse s = Some u"
  using url_parse_total [of s] .

text \<open>C39. An absolute URL printed by \<open>url_to_string\<close> is parsed back to the same parts.\<close>

theorem url_round_trip:
  assumes "url_absolute u"
  shows "url_parse (url_to_string u False) = Some u"
  using assms by (rule url_parse_to_string)

theorem url_round_trip_witness:
  "url_parse (url_to_string \<lparr>scheme = ''https'', authority = ''fw:10443'', path = ''/remote/info'',
     query = ''a=1'', fragment = ''x''\<rparr> False) =
   Some \<lparr>scheme = ''https'', authority = ''fw:10443'', path = ''/remote/info'', query = ''a=1'', fragment = ''x''\<rparr>"
  by (rule url_round_trip) (simp add: url_absolute_def is_space_def NUL_def)

end
