(* ===== verification/UrlCodec.thy ===== *)
theory UrlCodec
  imports StrUtil
begin

text \<open>
  The URL encoding of \<^verbatim>\<open>HttpsClient::encode_url\<close> and \<^verbatim>\<open>HttpsClient::decode_url\<close>
  (\<^verbatim>\<open>src/src/http/HttpsClient.cpp\<close>). The decoder reads with \<^verbatim>\<open>at\<close>, which throws past the end,
  and its loop bound \<^verbatim>\<open>str.length() - 2\<close> is a \<^verbatim>\<open>size_t\<close> that wraps on short strings.
\<close>

section \<open>Encoding\<close>

definition unreserved :: "char \<Rightarrow> bool" where
  "unreserved c \<longleftrightarrow> is_alnum c \<or> c = CHR ''-'' \<or> c = CHR ''_'' \<or> c = CHR ''.'' \<or> c = CHR ''~''"

definition hexstr :: string where
  "hexstr = ''0123456789abcdef''"

definition encode_char :: "char \<Rightarrow> string" where
  "encode_char c =
     (if unreserved c then [c]
      else [CHR ''%'', hexstr ! (ascii c div 16), hexstr ! (ascii c mod 16)])"

definition encode_url :: "string \<Rightarrow> string" where
  "encode_url str = concat (map encode_char str)"

section \<open>Decoding\<close>

definition str_at :: "string \<Rightarrow> nat \<Rightarrow> exn + char" where
  "str_at s i = (if i < length s then Inr (s ! i) else Inl Out_of_range)"

text \<open>\<^verbatim>\<open>((c1 - '0') << 4) + (c2 - '0') & 0x7F\<close>: the difference to \<^verbatim>\<open>'0'\<close> is the digit for
  decimal digits only.\<close>

definition decode_hex :: "char \<Rightarrow> char \<Rightarrow> char" where
  "decode_hex c1 c2 = char_of (((ascii c1 - 48) * 16 + (ascii c2 - 48)) mod 128)"

function decode_url_loop :: "string \<Rightarrow> nat \<Rightarrow> string \<Rightarrow> exn + (nat \<times> string)" where
  "decode_url_loop str i unescaped =
     (if i < size_sub (length str) 2 then
        (case str_at str i of Inl e \<Rightarrow> Inl e | Inr c \<Rightarrow>
          if c = CHR ''%'' then
            (case str_at str (i + 1) of Inl e \<Rightarrow> Inl e | Inr c1 \<Rightarrow>
            (case str_at str (i + 2) of Inl e \<Rightarrow> Inl e | Inr c2 \<Rightarrow>
              decode_url_loop str (i + 3)
                (if is_xdigit c1 \<and> is_xdigit c2 then unescaped @ [decode_hex c1 c2] else unescaped)))
          else decode_url_loop str (i + 1) (unescaped @ [c]))
      else Inr (i, unescaped))"
  by pat_completeness auto
termination
  by (relation "measure (\<lambda>(str, i, _). length str - i)") (auto simp: str_at_def split: if_splits)

declare decode_url_loop.simps [simp del]

definition decode_url :: "string \<Rightarrow> exn + string" where
  "decode_url str =
     try_bind (decode_url_loop str 0 []) (\<lambda>(i, unescaped). Inr (unescaped @ drop i str))"

section \<open>Round trip\<close>

text \<open>The characters whose escape sequence has decimal digits only.\<close>

definition decimal_escape :: "char \<Rightarrow> bool" where
  "decimal_escape c \<longleftrightarrow> unreserved c \<or> ascii c < 128 \<and> ascii c mod 16 < 10"

lemma unreserved_not_percent: "unreserved c \<Longrightarrow> c \<noteq> CHR ''%''"
  by (auto simp: unreserved_def char_class_defs)

lemma hexstr_digit: "d < 10 \<Longrightarrow> hexstr ! d = char_of (48 + d)"
proof -
  assume "d < 10"
  moreover have "list_all (\<lambda>d. hexstr ! d = char_of (48 + d)) [0..<10]"
    by (simp add: upt_rec hexstr_def eq_char_of_iff)
  ultimately show ?thesis by (simp add: list_all_iff)
qed

lemma decode_hex_digits:
  assumes "ascii c < 128" "ascii c mod 16 < 10"
  shows "is_xdigit (hexstr ! (ascii c div 16))" "is_xdigit (hexstr ! (ascii c mod 16))"
    and "decode_hex (hexstr ! (ascii c div 16)) (hexstr ! (ascii c mod 16)) = c"
proof -
  have d: "ascii c div 16 < 10" using assms(1) by linarith
  show "is_xdigit (hexstr ! (ascii c div 16))" "is_xdigit (hexstr ! (ascii c mod 16))"
    using d assms(2) by (simp_all add: hexstr_digit is_xdigit_def digit_char)
  have "decode_hex (hexstr ! (ascii c div 16)) (hexstr ! (ascii c mod 16)) =
      char_of ((ascii c div 16 * 16 + ascii c mod 16) mod 128)"
    using d assms(2) by (simp add: hexstr_digit decode_hex_def)
  also have "(ascii c div 16 * 16 + ascii c mod 16) mod 128 = ascii c"
    using assms(1) by simp
  finally show "decode_hex (hexstr ! (ascii c div 16)) (hexstr ! (ascii c mod 16)) = c"
    by simp
qed

lemma str_at_append: "i = length p \<Longrightarrow> str_at (p @ c # r) i = Inr c"
  by (simp add: str_at_def nth_append)

lemma decode_step_plain:
  assumes "length (p @ c # r) \<ge> 2" "length p < length (p @ c # r) - 2" "c \<noteq> CHR ''%''"
  shows "decode_url_loop (p @ c # r) (length p) acc =
    decode_url_loop (p @ c # r) (length (p @ [c])) (acc @ [c])"
  using assms by (subst decode_url_loop.simps) (simp add: str_at_append)

lemma decode_step_escape:
  assumes "is_xdigit c1" "is_xdigit c2"
  shows "decode_url_loop (p @ CHR ''%'' # c1 # c2 # r) (length p) acc =
    decode_url_loop (p @ CHR ''%'' # c1 # c2 # r) (length p + 3) (acc @ [decode_hex c1 c2])"
  using assms by (subst decode_url_loop.simps) (simp add: str_at_def nth_append)

lemma decode_url_stop:
  "length str \<ge> 2 \<Longrightarrow> length str \<le> i + 2 \<Longrightarrow> decode_url_loop str i acc = Inr (i, acc)"
proof -
  assume "length str \<ge> 2" "length str \<le> i + 2"
  then have "\<not> i < size_sub (length str) 2" by simp
  then show ?thesis by (subst decode_url_loop.simps) simp
qed

text \<open>From any point of an encoded text, decoding yields the rest of the plain text.\<close>

lemma encode_url_short: "list_all decimal_escape s \<Longrightarrow> length (encode_url s) \<le> 2 \<Longrightarrow> encode_url s = s"
proof (induction s)
  case (Cons c s)
  then show ?case by (auto simp: encode_url_def encode_char_def split: if_splits)
qed (simp add: encode_url_def)

lemma decode_encode_from:
  assumes "list_all decimal_escape s" and "length (p @ encode_url s) \<ge> 2"
  shows "try_bind (decode_url_loop (p @ encode_url s) (length p) acc)
      (\<lambda>(i, u). Inr (u @ drop i (p @ encode_url s))) = Inr (acc @ s)"
  using assms
proof (induction s arbitrary: p acc)
  case Nil
  then show ?case by (simp add: encode_url_def decode_url_stop)
next
  case (Cons c s)
  show ?case
  proof (cases "length (encode_url (c # s)) \<le> 2")
    case True
    with Cons.prems encode_url_short [of "c # s"] show ?thesis
      by (simp add: decode_url_stop)
  next
    case False
    show ?thesis
    proof (cases "unreserved c")
      case True
      then have "encode_url (c # s) = c # encode_url s" by (simp add: encode_url_def encode_char_def)
      with Cons False True show ?thesis
        using decode_step_plain [of p c "encode_url s" acc] unreserved_not_percent [OF True]
          Cons.IH [of "p @ [c]" "acc @ [c]"] by simp
    next
      case res: False
      let ?c1 = "hexstr ! (ascii c div 16)" and ?c2 = "hexstr ! (ascii c mod 16)"
      have e: "encode_url (c # s) = CHR ''%'' # ?c1 # ?c2 # encode_url s"
        using res by (simp add: encode_url_def encode_char_def)
      have c: "ascii c < 128" "ascii c mod 16 < 10"
        using Cons.prems(1) res by (auto simp: decimal_escape_def)
      show ?thesis
        using decode_step_escape [OF decode_hex_digits(1,2) [OF c], of p "encode_url s" acc]
          Cons.IH [of "p @ [CHR ''%'', ?c1, ?c2]" "acc @ [c]"] Cons.prems decode_hex_digits(3) [OF c]
        by (simp add: e numeral_3_eq_3)
    qed
  qed
qed

lemma decode_encode:
  "list_all decimal_escape s \<Longrightarrow> 2 \<le> length s \<Longrightarrow> decode_url (encode_url s) = Inr s"
proof -
  assume s: "list_all decimal_escape s" "2 \<le> length s"
  have "length s \<le> length (encode_url s)"
    by (induction s) (auto simp: encode_url_def encode_char_def)
  with s decode_encode_from [of s "[]" "[]"] show ?thesis by (simp add: decode_url_def)
qed

text \<open>The encoder emits unreserved characters, percent signs and hexadecimal digits only.\<close>

lemma hexstr_unreserved: "i < 16 \<Longrightarrow> unreserved (hexstr ! i)"
proof -
  have "\<forall>c \<in> set hexstr. unreserved c"
    by (simp add: hexstr_def unreserved_def char_class_defs)
  moreover assume "i < 16"
  then have "hexstr ! i \<in> set hexstr" by (intro nth_mem) (simp add: hexstr_def)
  ultimately show ?thesis by blast
qed

lemma encode_url_chars: "c \<in> set (encode_url s) \<Longrightarrow> unreserved c \<or> c = CHR ''%''"
proof -
  assume "c \<in> set (encode_url s)"
  then obtain d where "c \<in> set (encode_char d)" by (auto simp: encode_url_def)
  moreover have "ascii d div 16 < 16" using ascii_less [of d] by linarith
  ultimately show ?thesis
    by (auto simp: encode_char_def hexstr_unreserved split: if_splits)
qed

text \<open>It is injective: no two texts have the same encoding.\<close>

lemma hexstr_inj: "i < 16 \<Longrightarrow> j < 16 \<Longrightarrow> hexstr ! i = hexstr ! j \<Longrightarrow> i = j"
proof -
  have "distinct hexstr" by (simp add: hexstr_def)
  moreover have "length hexstr = 16" by (simp add: hexstr_def)
  ultimately show "i < 16 \<Longrightarrow> j < 16 \<Longrightarrow> hexstr ! i = hexstr ! j \<Longrightarrow> i = j"
    by (simp add: nth_eq_iff_index_eq)
qed

lemma encode_char_prefix:
  assumes "encode_char c @ r = encode_char d @ t"
  shows "c = d \<and> r = t"
proof -
  have div16: "ascii x div 16 < 16" for x using ascii_less [of x] by linarith
  have "ascii c = ascii d \<Longrightarrow> c = d" by simp
  moreover have "ascii c div 16 = ascii d div 16 \<Longrightarrow> ascii c mod 16 = ascii d mod 16 \<Longrightarrow> ascii c = ascii d"
    by (metis div_mult_mod_eq)
  ultimately show ?thesis
    using assms div16 [of c] div16 [of d] unreserved_not_percent [of c] unreserved_not_percent [of d]
    by (auto simp: encode_char_def dest!: hexstr_inj [rotated 2] split: if_splits)
qed

lemma encode_url_inj: "encode_url s = encode_url t \<Longrightarrow> s = t"
proof (induction s arbitrary: t)
  case Nil
  then show ?case by (cases t) (auto simp: encode_url_def encode_char_def split: if_splits)
next
  case (Cons c s)
  then obtain d t' where t: "t = d # t'"
    by (cases t) (auto simp: encode_url_def encode_char_def split: if_splits)
  with Cons encode_char_prefix [of c "encode_url s" d "encode_url t'"] show ?case
    by (simp add: encode_url_def)
qed

section \<open>Properties\<close>

text \<open>Encoding is injective and its output contains unreserved characters and percent
  signs only; decoding inverts it on a text of two characters or more all of whose escapes have
  decimal digits.\<close>

theorem url_codec_round_trip:
  assumes "list_all decimal_escape s" and "2 \<le> length s"
  shows "decode_url (encode_url s) = Inr s \<and> list_all (\<lambda>c. unreserved c \<or> c = CHR ''%'') (encode_url s)"
  using decode_encode [OF assms] encode_url_chars [of _ s] by (auto simp: list_all_iff)

theorem url_codec_round_trip_witness:
  "decode_url (encode_url ''a b&1'') = Inr ''a b&1'' \<and>
   list_all (\<lambda>c. unreserved c \<or> c = CHR ''%'') (encode_url ''a b&1'')"
proof (rule url_codec_round_trip)
  show "list_all decimal_escape ''a b&1''" by code_simp
qed simp

text \<open>The decoder is not an inverse of the encoder in general: the escape \<^verbatim>\<open>%2f\<close> the
  encoder emits for a slash is decoded to a letter, and a text of one character throws.\<close>

theorem decode_url_letters:
  "encode_url ''/a'' = ''%2fa'' \<and> decode_url ''%2fa'' = Inr ''Va'' \<and> decode_url ''a'' = Inl Out_of_range"
proof (intro conjI)
  show "encode_url ''/a'' = ''%2fa''" by code_simp
  show "decode_url ''%2fa'' = Inr ''Va''" by code_simp
  show "decode_url ''a'' = Inl Out_of_range"
    by (simp add: decode_url_def decode_url_loop.simps size_sub_def str_at_def)
qed

end
