(* ===== verification/Cookie.thy ===== *)
theory Cookie
  imports Url ObfString
begin

text \<open>
  \<^verbatim>\<open>http::Cookie\<close> and \<^verbatim>\<open>http::Cookies\<close> (\<^verbatim>\<open>src/src/http/Cookie.cpp\<close>,
  \<^verbatim>\<open>src/src/http/Cookies.cpp\<close>): the parsing of a \<^verbatim>\<open>Set-Cookie\<close> field, the tests that decide
  where a cookie is sent, and the cookie jar with the \<^verbatim>\<open>Cookie\<close> header built from it.

  Cookie values are obfuscated strings in the code; here they are the decoded text, which is
  what the operations of theory \<open>ObfString\<close> compute on. Two things are parameters:
  \<open>http_date\<close>, what \<^verbatim>\<open>strptime\<close> and \<^verbatim>\<open>mktime\<close> make of an \<^verbatim>\<open>expires\<close> attribute (theory \<open>Strptime\<close>), and \<open>now\<close>,
  the system clock in seconds.
\<close>

record cookie =
  c_name :: string
  c_value :: string
  c_domain :: string
  c_path :: string
  c_expires :: int
  c_secure :: bool
  c_http_only :: bool

definition EXPIRES_UNSPECIFIED :: int where
  "EXPIRES_UNSPECIFIED = -1"

definition normalize_domain :: "string \<Rightarrow> string" where
  "normalize_domain domain = trimmed (lower domain)"

definition normalize_path :: "string \<Rightarrow> string" where
  "normalize_path p = (let p' = trimmed p in if p' = [] then ''/'' else p')"

definition make_cookie ::
    "string \<Rightarrow> string \<Rightarrow> string \<Rightarrow> string \<Rightarrow> int \<Rightarrow> bool \<Rightarrow> bool \<Rightarrow> cookie" where
  "make_cookie name val domain p expires secure http_only =
     \<lparr>c_name = name, c_value = val, c_domain = normalize_domain domain,
      c_path = normalize_path p,
      c_expires = (if expires < 0 then EXPIRES_UNSPECIFIED else expires),
      c_secure = secure, c_http_only = http_only\<rparr>"

definition cookie_to_header :: "cookie \<Rightarrow> string" where
  "cookie_to_header c = (c_name c @ ''='') @ c_value c"

definition is_session :: "cookie \<Rightarrow> bool" where
  "is_session c \<longleftrightarrow> c_expires c = EXPIRES_UNSPECIFIED"

definition is_expired :: "int \<Rightarrow> cookie \<Rightarrow> bool" where
  "is_expired now c = (if is_session c then False else now > c_expires c)"

definition same_domain :: "cookie \<Rightarrow> string \<Rightarrow> bool" where
  "same_domain c domain \<longleftrightarrow> c_domain c = normalize_domain domain"

definition path_matches :: "cookie \<Rightarrow> string \<Rightarrow> bool" where
  "path_matches c p =
     (let tmp = normalize_path p in
      if c_path c = tmp then True
      else take (length (c_path c)) tmp = c_path c)"

section \<open>Parsing\<close>

record cookie_attrs =
  a_domain :: string
  a_path :: string
  a_expires :: int
  a_secure :: bool
  a_http_only :: bool

definition no_attrs :: cookie_attrs where
  "no_attrs = \<lparr>a_domain = [], a_path = [], a_expires = EXPIRES_UNSPECIFIED,
     a_secure = False, a_http_only = False\<rparr>"

text \<open>One turn of the loop over the attributes.\<close>

definition cookie_attr :: "(string \<Rightarrow> int) \<Rightarrow> string \<Rightarrow> cookie_attrs \<Rightarrow> cookie_attrs" where
  "cookie_attr http_date cookie_av a =
     (case find_idx (\<lambda>c. c = CHR ''='') cookie_av of
        Some pos \<Rightarrow>
          let attribute_name = take pos cookie_av;
              attribute_value = drop (pos + 1) cookie_av
          in if iequal attribute_name ''domain'' then a\<lparr>a_domain := attribute_value\<rparr>
             else if iequal attribute_name ''path'' then a\<lparr>a_path := attribute_value\<rparr>
             else if iequal attribute_name ''expires'' then a\<lparr>a_expires := http_date attribute_value\<rparr>
             else a
      | None \<Rightarrow>
          if iequal cookie_av ''secure'' then a\<lparr>a_secure := True\<rparr>
          else if iequal cookie_av ''httponly'' then a\<lparr>a_http_only := True\<rparr>
          else a)"

fun cookie_attr_loop :: "(string \<Rightarrow> int) \<Rightarrow> string list \<Rightarrow> cookie_attrs \<Rightarrow> exn + cookie_attrs" where
  "cookie_attr_loop http_date [] a = Inr a"
| "cookie_attr_loop http_date (part # parts) a =
     try_bind (trimleft part) (\<lambda>av. cookie_attr_loop http_date parts (cookie_attr http_date av a))"

definition parse_cookie :: "(string \<Rightarrow> int) \<Rightarrow> string \<Rightarrow> exn + cookie" where
  "parse_cookie http_date cookie_string =
     (case split_obf_loop cookie_string (CHR '';'') of
        [] \<Rightarrow> Inl (Cookie_error ''Empty cookie definition'')
      | cookie_pair # parts \<Rightarrow>
          (case find_idx (\<lambda>c. c = CHR ''='') cookie_pair of
             None \<Rightarrow> Inl (Cookie_error (''Invalid cookie :'' @ cookie_string))
           | Some pos_pair \<Rightarrow>
               let cookie_name = c_str (take pos_pair cookie_pair);
                   cookie_value = c_str (drop (pos_pair + 1) cookie_pair)
               in try_bind (cookie_attr_loop http_date parts no_attrs) (\<lambda>a.
                    Inr (make_cookie cookie_name cookie_value (a_domain a) (a_path a)
                           (a_expires a) (a_secure a) (a_http_only a)))))"

section \<open>The cookie jar\<close>

type_synonym cookies = "(string, cookie) smap"

definition jar_clear :: "cookies \<Rightarrow> cookies" where
  "jar_clear jar = []"

definition jar_add :: "cookie \<Rightarrow> cookies \<Rightarrow> cookies" where
  "jar_add c jar = smap_set id (c_name c) c jar"

definition jar_add_all :: "cookies \<Rightarrow> cookies \<Rightarrow> cookies" where
  "jar_add_all cs jar = fold (\<lambda>(_, c). jar_add c) cs jar"

definition jar_remove :: "string \<Rightarrow> cookies \<Rightarrow> cookies" where
  "jar_remove name jar = smap_erase id name jar"

definition jar_find :: "cookies \<Rightarrow> string \<Rightarrow> cookie option" where
  "jar_find jar name = smap_find id name jar"

definition jar_get :: "cookies \<Rightarrow> string \<Rightarrow> exn + cookie" where
  "jar_get jar name = (case jar_find jar name of Some c \<Rightarrow> Inr c | None \<Rightarrow> Inl Out_of_range)"

definition jar_exists :: "cookies \<Rightarrow> string \<Rightarrow> bool" where
  "jar_exists jar name \<longleftrightarrow> jar_find jar name \<noteq> None"

text \<open>The filter of \<^verbatim>\<open>Cookies::to_header\<close>.\<close>

definition cookie_applies :: "int \<Rightarrow> bool \<Rightarrow> string \<Rightarrow> string \<Rightarrow> cookie \<Rightarrow> bool" where
  "cookie_applies now secure_link url_domain url_path c \<longleftrightarrow>
     \<not> is_expired now c \<and> c_http_only c \<and> (\<not> secure_link \<or> c_secure c) \<and>
     same_domain c url_domain \<and> path_matches c url_path"

fun jar_header_loop :: "(cookie \<Rightarrow> bool) \<Rightarrow> cookies \<Rightarrow> string \<Rightarrow> string" where
  "jar_header_loop applies [] buffer = buffer"
| "jar_header_loop applies ((_, c) # jar) buffer =
     jar_header_loop applies jar
       (if applies c then (buffer @ cookie_to_header c) @ ''; '' else buffer)"

definition jar_to_header :: "int \<Rightarrow> cookies \<Rightarrow> url \<Rightarrow> exn + string" where
  "jar_to_header now jar u =
     try_bind (url_get_hostname u) (\<lambda>url_domain.
       let secure_link = iequal (scheme u) ''https'';
           buffer = jar_header_loop (cookie_applies now secure_link url_domain (path u)) jar []
       in Inr (if length buffer > 0 then c_str (take (length buffer - 2) buffer) else []))"

definition jar_ok :: "cookies \<Rightarrow> bool" where
  "jar_ok jar \<longleftrightarrow> smap_ok id jar \<and> (\<forall>(n, c) \<in> set jar. c_name c = n)"

interpretation jar: erasable_dictionary jar_find "\<lambda>n c. smap_set id n c" "[]" "(=)" "smap_ok id"
    jar_remove
  by unfold_locales (auto simp: jar_find_def jar_remove_def map_laws)

lemma jar_find_add: "jar_find (jar_add c jar) n = (if n = c_name c then Some c else jar_find jar n)"
  unfolding jar_add_def by (simp add: jar.lookup_store)

lemma jar_find_remove: "jar_find (jar_remove m jar) n = (if n = m then None else jar_find jar n)"
  by (simp add: jar.lookup_erase)

lemma set_jar_remove: "q \<in> set (jar_remove n jar) \<Longrightarrow> q \<in> set jar"
  by (simp add: jar_remove_def smap_erase_def)

lemma jar_set_name: "q \<in> set (smap_set id n c jar) \<Longrightarrow> q = (n, c) \<or> q \<in> set jar \<or> snd q = c \<and> fst q = n"
  by (induction jar) (auto split: if_splits)

lemma jar_ok_add: "jar_ok jar \<Longrightarrow> jar_ok (jar_add c jar)"
  unfolding jar_ok_def jar_add_def by (fastforce simp: map_laws dest: jar_set_name)

lemma jar_ok_remove: "jar_ok jar \<Longrightarrow> jar_ok (jar_remove n jar)"
  unfolding jar_ok_def by (auto simp: jar.ok_erase dest: set_jar_remove)

section \<open>What the header contains\<close>

fun join_str :: "string \<Rightarrow> string list \<Rightarrow> string" where
  "join_str d [] = []"
| "join_str d [p] = p"
| "join_str d (p # q # ps) = p @ d @ join_str d (q # ps)"

definition sent_cookies :: "(cookie \<Rightarrow> bool) \<Rightarrow> cookies \<Rightarrow> cookie list" where
  "sent_cookies applies jar = filter applies (map snd jar)"

lemma jar_header_loop_eq:
  "jar_header_loop applies jar buffer =
     buffer @ concat (map (\<lambda>c. cookie_to_header c @ ''; '') (sent_cookies applies jar))"
  by (induction applies jar buffer rule: jar_header_loop.induct) (auto simp: sent_cookies_def)

lemma concat_join_str:
  "ps \<noteq> [] \<Longrightarrow> concat (map (\<lambda>p. p @ d) ps) = join_str d ps @ d"
  by (induction d ps rule: join_str.induct) auto

lemma jar_to_header_eq:
  assumes "url_get_hostname u = Inr host"
    and "applies = cookie_applies now (iequal (scheme u) ''https'') host (path u)"
  shows "jar_to_header now jar u =
    Inr (c_str (join_str ''; '' (map cookie_to_header (sent_cookies applies jar))))"
proof (cases "sent_cookies applies jar = []")
  case True
  with assms show ?thesis by (simp add: jar_to_header_def jar_header_loop_eq Let_def)
next
  case False
  then have "concat (map (\<lambda>c. cookie_to_header c @ ''; '') (sent_cookies applies jar)) =
      join_str ''; '' (map cookie_to_header (sent_cookies applies jar)) @ ''; ''"
    using concat_join_str [of "map cookie_to_header (sent_cookies applies jar)" "''; ''"]
    by (simp add: comp_def)
  with assms show ?thesis by (simp add: jar_to_header_def jar_header_loop_eq Let_def)
qed

lemma cookie_attr_loop_blank:
  "part \<noteq> [] \<Longrightarrow> \<forall>c \<in> set part. is_blank c \<Longrightarrow> cookie_attr_loop date (part # parts) a = Inl Out_of_range"
  by (simp add: trimleft_def gen_trimleft_eq)

lemma cookie_attr_loop_ok:
  "\<forall>p \<in> set parts. p = [] \<or> (\<exists>c \<in> set p. \<not> is_blank c) \<Longrightarrow> \<exists>a'. cookie_attr_loop date parts a = Inr a'"
  by (induction parts arbitrary: a) (auto simp: trimleft_def gen_trimleft_eq)

text \<open>The normal forms of the constructor.\<close>

lemma lower_trim_spec: "lower (trim_spec is_blank s) = trim_spec is_blank (lower s)"
proof -
  have b: "is_blank (to_lower c) = is_blank c" for c
    by (auto simp: is_blank_def to_lower_def is_upper_def char_of_eq_iff take_bit_eq_mod)
  show ?thesis
    by (simp add: trim_spec_def lower_def rev_map dropWhile_map comp_def b)
qed

lemma lower_idem [simp]: "lower (lower s) = lower s"
  by (simp add: lower_def)

lemma normalize_domain_idem [simp]: "normalize_domain (normalize_domain d) = normalize_domain d"
  by (simp add: normalize_domain_def trimmed_eq lower_trim_spec) (metis trimmed_eq trimmed_idem)

lemma normalize_path_idem [simp]: "normalize_path (normalize_path p) = normalize_path p"
proof -
  have "trimmed ''/'' = ''/''" by (simp add: trimmed_eq trim_spec_def is_blank_def)
  then show ?thesis by (simp add: normalize_path_def Let_def)
qed

lemma same_domain_make [simp]:
  "same_domain (make_cookie n v d p e s h) d' \<longleftrightarrow> normalize_domain d = normalize_domain d'"
  by (simp add: same_domain_def make_cookie_def)

section \<open>Properties\<close>



end
