(* ===== verification/Strptime.thy ===== *)
theory Strptime
  imports Cookie "HOL-Library.Signed_Division"
begin

text \<open>
  The dates of cookies: \<^verbatim>\<open>Cookie::parse_http_date\<close> (\<^verbatim>\<open>http/Cookie.cpp\<close>) and the part of \<^verbatim>\<open>strptime\<close>
  (\<^verbatim>\<open>util/strptime.c\<close>) that its four formats use: literals and white space, \<^verbatim>\<open>%a %d %b %Y %y %H %M %S %Z\<close>, and
  what follows the loop when year, month and day were read. Other conversions have no result here.

  The text is the C string without its terminator. \<^verbatim>\<open>mktime\<close> is the parameter \<open>mk\<close> and the two names of the time zone,
  \<^verbatim>\<open>_tzname\<close>, are the parameter \<open>tz\<close>; \<open>None\<close> is a null pointer.
\<close>

section \<open>Numbers and names\<close>

record tm =
  tm_sec :: int
  tm_min :: int
  tm_hour :: int
  tm_mday :: int
  tm_mon :: int
  tm_year :: int
  tm_wday :: int
  tm_yday :: int
  tm_isdst :: int

definition tm_zero :: tm where
  "tm_zero = \<lparr>tm_sec = 0, tm_min = 0, tm_hour = 0, tm_mday = 0, tm_mon = 0, tm_year = 0, tm_wday = 0, tm_yday = 0, tm_isdst = 0\<rparr>"

definition next_is :: "(char \<Rightarrow> bool) \<Rightarrow> string \<Rightarrow> bool" where
  "next_is P s = (case s of [] \<Rightarrow> False | c # _ \<Rightarrow> P c)"

text \<open>The loop of \<^verbatim>\<open>conv_num\<close>: the upper limit also limits the number of digits.\<close>

fun conv_num_loop :: "nat \<Rightarrow> nat \<Rightarrow> nat \<Rightarrow> string \<Rightarrow> nat \<times> string" where
  "conv_num_loop ulim rulim result [] = (result, [])"
| "conv_num_loop ulim rulim result (c # cs) =
     (let result' = result * 10 + digit_val c; rulim' = rulim div 10
      in if result' \<le> ulim \<and> rulim' \<noteq> 0 \<and> next_is is_digit cs then conv_num_loop ulim rulim' result' cs else (result', cs))"

definition conv_num :: "string \<Rightarrow> nat \<Rightarrow> nat \<Rightarrow> (int \<times> string) option" where
  "conv_num buf llim ulim =
     (if \<not> next_is is_digit buf then None
      else case conv_num_loop ulim ulim 0 buf of
        (result, rest) \<Rightarrow> if result < llim \<or> result > ulim then None else Some (int result, rest))"

text \<open>\<^verbatim>\<open>strncasecmp(name, bp, strlen(name)) == 0\<close>\<close>

definition starts_with :: "string \<Rightarrow> string \<Rightarrow> bool" where
  "starts_with name bp \<longleftrightarrow> length name \<le> length bp \<and> lower (take (length name) bp) = lower name"

fun find_name :: "nat \<Rightarrow> string list \<Rightarrow> string \<Rightarrow> (nat \<times> string) option" where
  "find_name i [] bp = None"
| "find_name i (name # names) bp =
     (if starts_with name bp then Some (i, drop (length name) bp) else find_name (i + 1) names bp)"

text \<open>Full names first, then the abbreviated ones.\<close>

definition find_string :: "string \<Rightarrow> string list \<Rightarrow> string list \<Rightarrow> (nat \<times> string) option" where
  "find_string bp n1 n2 = (case find_name 0 n1 bp of Some r \<Rightarrow> Some r | None \<Rightarrow> find_name 0 n2 bp)"

definition nast :: "string list" where "nast = [''EST'', ''CST'', ''MST'', ''PST'']"
definition nadt :: "string list" where "nadt = [''EDT'', ''CDT'', ''MDT'', ''PDT'']"

definition weekday_name :: "string list" where
  "weekday_name = [''Sunday'', ''Monday'', ''Tuesday'', ''Wednesday'', ''Thursday'', ''Friday'', ''Saturday'']"

definition ab_weekday_name :: "string list" where
  "ab_weekday_name = [''Sun'', ''Mon'', ''Tue'', ''Wed'', ''Thu'', ''Fri'', ''Sat'']"

definition month_name :: "string list" where
  "month_name = [''January'', ''February'', ''March'', ''April'', ''May'', ''June'', ''July'', ''August'', ''September'',
     ''October'', ''November'', ''December'']"

definition ab_month_name :: "string list" where
  "ab_month_name = [''Jan'', ''Feb'', ''Mar'', ''Apr'', ''May'', ''Jun'', ''Jul'', ''Aug'', ''Sep'', ''Oct'', ''Nov'', ''Dec'']"

definition start_of_month :: "bool \<Rightarrow> int list" where
  "start_of_month leap =
     (if leap then [0, 31, 60, 91, 121, 152, 182, 213, 244, 274, 305, 335, 366]
      else [0, 31, 59, 90, 120, 151, 181, 212, 243, 273, 304, 334, 365])"

definition isleap :: "int \<Rightarrow> bool" where
  "isleap y \<longleftrightarrow> y smod 4 = 0 \<and> (y smod 100 \<noteq> 0 \<or> y smod 400 = 0)"

definition isleap_sum :: "int \<Rightarrow> int \<Rightarrow> bool" where
  "isleap_sum a b = isleap (a smod 400 + b smod 400)"

section \<open>Time zones\<close>

definition delim :: "string \<Rightarrow> bool" where
  "delim s = (case s of [] \<Rightarrow> True | c # _ \<Rightarrow> is_space c)"

text \<open>\<^verbatim>\<open>fromzone\<close> takes any word that starts with a letter or a digit; its buffer holds 511 characters.\<close>

definition fromzone :: "string \<Rightarrow> string option" where
  "fromzone bp =
     (let word = take 511 (takeWhile (\<lambda>c. \<not> is_space c) bp)
      in if next_is is_alnum word then Some (drop (length word) bp) else None)"

text \<open>Up to four digits of an offset, with a colon after the second.\<close>

fun zone_digits :: "nat \<Rightarrow> int \<Rightarrow> string \<Rightarrow> nat \<times> int \<times> string" where
  "zone_digits i offs [] = (i, offs, [])"
| "zone_digits i offs (c # cs) =
     (if i < 4 \<and> is_digit c then zone_digits (i + 1) (offs * 10 + int (digit_val c)) cs
      else if i = 2 \<and> c = CHR '':'' then zone_digits i offs cs
      else (i, offs, c # cs))"

text \<open>The text after a numeric offset, \<open>None\<close> if it is not valid. The offset itself is not stored.\<close>

definition zone_offset :: "string \<Rightarrow> string option" where
  "zone_offset bp =
     (case zone_digits 0 0 bp of (i, offs, rest) \<Rightarrow>
        if next_is is_digit rest then None
        else if i = 2 then (if offs * 3600 \<ge> 24 * 3600 then None else Some rest)
        else if i = 4 then
          (if offs smod 100 \<ge> 60 \<or> (offs sdiv 100) * 3600 + (offs smod 100) * 60 \<ge> 24 * 3600 then None else Some rest)
        else None)"

text \<open>\<^verbatim>\<open>UTC\<close>, \<^verbatim>\<open>UT\<close>, \<^verbatim>\<open>GMT\<close> and \<^verbatim>\<open>Z\<close>: the text behind the name. The three entry points of the switch fall through.\<close>

definition zone_Z :: "string \<Rightarrow> string option" where
  "zone_Z bp = (if delim bp then Some bp else None)"

definition zone_U :: "string \<Rightarrow> string option" where
  "zone_U bp =
     (case bp of
        [] \<Rightarrow> None
      | t # r \<Rightarrow>
          if t \<noteq> CHR ''T'' then None
          else if delim r then zone_Z r
          else if hd r \<noteq> CHR ''C'' then None else zone_Z (tl r))"

definition zone_G :: "string \<Rightarrow> string option" where
  "zone_G bp = (case bp of [] \<Rightarrow> None | m # r \<Rightarrow> if m \<noteq> CHR ''M'' then None else zone_U r)"

definition utc_zone :: "string \<Rightarrow> string option" where
  "utc_zone bp =
     (case bp of
        [] \<Rightarrow> None
      | c # r \<Rightarrow>
          if c = CHR ''G'' then zone_G r else if c = CHR ''U'' then zone_U r else if c = CHR ''Z'' then zone_Z r else None)"

text \<open>Names: one letter, the zones of North America, the zone of the system, any word. What is not a name stays.\<close>

definition military_zone :: "char \<Rightarrow> bool" where
  "military_zone c \<longleftrightarrow> 65 \<le> ascii c \<and> ascii c \<le> 73 \<or> 76 \<le> ascii c \<and> ascii c \<le> 89 \<or> c = CHR ''J''"

definition three_letters :: "string \<Rightarrow> bool" where
  "three_letters bp \<longleftrightarrow> \<not> delim bp \<and> \<not> delim (drop 1 bp) \<and> \<not> delim (drop 2 bp) \<and> delim (drop 3 bp)"

definition load_zone :: "string \<Rightarrow> tm \<Rightarrow> string \<times> tm" where
  "load_zone bp t = (case fromzone bp of Some rest \<Rightarrow> (rest, t\<lparr>tm_isdst := 0\<rparr>) | None \<Rightarrow> (bp, t))"

definition named_zone :: "string \<times> string \<Rightarrow> string \<Rightarrow> tm \<Rightarrow> string \<times> tm" where
  "named_zone tz bp t =
     (if bp \<noteq> [] \<and> delim (tl bp) \<and> military_zone (hd bp) then (tl bp, t)
      else if \<not> three_letters bp then load_zone bp t
      else case find_name 0 nast bp of
        Some (i, ep) \<Rightarrow> (ep, t)
      | None \<Rightarrow>
          (case find_name 0 nadt bp of
             Some (i, ep) \<Rightarrow> (ep, t\<lparr>tm_isdst := 1\<rparr>)
           | None \<Rightarrow>
               (case find_name 0 [fst tz, snd tz] bp of
                  Some (i, ep) \<Rightarrow> (ep, t\<lparr>tm_isdst := int i\<rparr>)
                | None \<Rightarrow> load_zone bp t)))"

text \<open>\<^verbatim>\<open>%Z\<close>, which never fails.\<close>

definition conv_zone :: "string \<times> string \<Rightarrow> string \<Rightarrow> tm \<Rightarrow> string \<times> tm" where
  "conv_zone tz bp t =
     (if next_is (\<lambda>c. c = CHR ''+'' \<or> c = CHR ''-'') bp
      then (case zone_offset (tl bp) of Some rest \<Rightarrow> (rest, t\<lparr>tm_isdst := 0\<rparr>) | None \<Rightarrow> (bp, t))
      else case utc_zone bp of
        Some rest \<Rightarrow> (rest, t\<lparr>tm_isdst := 0\<rparr>)
      | None \<Rightarrow> named_zone tz bp t)"

section \<open>The conversions\<close>

text \<open>\<^verbatim>\<open>split_year\<close> and the flags of what was read.\<close>

record sp =
  sp_tm :: tm
  sp_split_year :: bool
  sp_wday :: bool
  sp_mon :: bool
  sp_mday :: bool
  sp_year :: bool

definition sp_start :: "tm \<Rightarrow> sp" where
  "sp_start t = \<lparr>sp_tm = t, sp_split_year = False, sp_wday = False, sp_mon = False, sp_mday = False, sp_year = False\<rparr>"

definition conv_year2 :: "sp \<Rightarrow> int \<Rightarrow> sp" where
  "conv_year2 s i =
     (if sp_split_year s then s\<lparr>sp_tm := (sp_tm s)\<lparr>tm_year := i + (tm_year (sp_tm s) sdiv 100) * 100\<rparr>, sp_year := True\<rparr>
      else s\<lparr>sp_tm := (sp_tm s)\<lparr>tm_year := (if i \<le> 68 then i + 2000 - 1900 else i)\<rparr>, sp_split_year := True, sp_year := True\<rparr>)"

definition conv_field :: "string \<Rightarrow> nat \<Rightarrow> nat \<Rightarrow> (int \<Rightarrow> sp) \<Rightarrow> (string \<times> sp) option" where
  "conv_field bp llim ulim f = map_option (\<lambda>(i, rest). (rest, f i)) (conv_num bp llim ulim)"

definition conv_wday :: "string \<Rightarrow> sp \<Rightarrow> (string \<times> sp) option" where
  "conv_wday bp s = map_option (\<lambda>(i, rest). (rest, s\<lparr>sp_tm := (sp_tm s)\<lparr>tm_wday := int i\<rparr>, sp_wday := True\<rparr>))
     (find_string bp weekday_name ab_weekday_name)"

definition conv_mon :: "string \<Rightarrow> sp \<Rightarrow> (string \<times> sp) option" where
  "conv_mon bp s = map_option (\<lambda>(i, rest). (rest, s\<lparr>sp_tm := (sp_tm s)\<lparr>tm_mon := int i\<rparr>, sp_mon := True\<rparr>))
     (find_string bp month_name ab_month_name)"

definition conv_mday :: "string \<Rightarrow> sp \<Rightarrow> (string \<times> sp) option" where
  "conv_mday bp s = conv_field bp 1 31 (\<lambda>i. s\<lparr>sp_tm := (sp_tm s)\<lparr>tm_mday := i\<rparr>, sp_mday := True\<rparr>)"

definition conv_hour :: "string \<Rightarrow> sp \<Rightarrow> (string \<times> sp) option" where
  "conv_hour bp s = conv_field bp 0 23 (\<lambda>i. s\<lparr>sp_tm := (sp_tm s)\<lparr>tm_hour := i\<rparr>\<rparr>)"

definition conv_min :: "string \<Rightarrow> sp \<Rightarrow> (string \<times> sp) option" where
  "conv_min bp s = conv_field bp 0 59 (\<lambda>i. s\<lparr>sp_tm := (sp_tm s)\<lparr>tm_min := i\<rparr>\<rparr>)"

definition conv_sec :: "string \<Rightarrow> sp \<Rightarrow> (string \<times> sp) option" where
  "conv_sec bp s = conv_field bp 0 61 (\<lambda>i. s\<lparr>sp_tm := (sp_tm s)\<lparr>tm_sec := i\<rparr>\<rparr>)"

definition conv_year4 :: "string \<Rightarrow> sp \<Rightarrow> (string \<times> sp) option" where
  "conv_year4 bp s = conv_field bp 0 9999 (\<lambda>i. s\<lparr>sp_tm := (sp_tm s)\<lparr>tm_year := i - 1900\<rparr>, sp_year := True\<rparr>)"

definition strptime_conv :: "string \<times> string \<Rightarrow> char \<Rightarrow> string \<Rightarrow> sp \<Rightarrow> (string \<times> sp) option" where
  "strptime_conv tz c bp s =
     (if c = CHR ''a'' then conv_wday bp s
      else if c = CHR ''b'' then conv_mon bp s
      else if c = CHR ''d'' then conv_mday bp s
      else if c = CHR ''H'' then conv_hour bp s
      else if c = CHR ''M'' then conv_min bp s
      else if c = CHR ''S'' then conv_sec bp s
      else if c = CHR ''Y'' then conv_year4 bp s
      else if c = CHR ''y'' then conv_field bp 0 99 (conv_year2 s)
      else if c = CHR ''Z'' then (case conv_zone tz bp (sp_tm s) of (rest, t) \<Rightarrow> Some (rest, s\<lparr>sp_tm := t\<rparr>))
      else None)"

lemmas strptime_conv_defs = strptime_conv_def conv_field_def conv_wday_def conv_mon_def conv_mday_def conv_hour_def conv_min_def
  conv_sec_def conv_year4_def

text \<open>The loop over the format.\<close>

fun strptime_loop :: "string \<times> string \<Rightarrow> string \<Rightarrow> string \<Rightarrow> sp \<Rightarrow> (string \<times> sp) option" where
  "strptime_loop tz [] bp s = Some (bp, s)"
| "strptime_loop tz (c # fmt) bp s =
     (if is_space c then strptime_loop tz fmt (dropWhile is_space bp) s
      else if c = CHR ''%'' then
        (case fmt of
           [] \<Rightarrow> None
         | d # fmt' \<Rightarrow>
             (case strptime_conv tz d bp s of
                None \<Rightarrow> None
              | Some (rest, s') \<Rightarrow> strptime_loop tz fmt' rest s'))
      else if next_is (\<lambda>d. d = c) bp then strptime_loop tz fmt (tl bp) s
      else None)"

definition first_wday_of :: "int \<Rightarrow> int" where
  "first_wday_of yr =
     (2 * (3 - (yr sdiv 100) smod 4) + yr smod 100 + (yr smod 100) sdiv 4 + (if isleap yr then 6 else 0) + 1) smod 7"

text \<open>\<^verbatim>\<open>while (i++ <= tm_yday)\<close>, \<open>n\<close> times.\<close>

fun count_wdays :: "nat \<Rightarrow> int \<Rightarrow> int" where
  "count_wdays 0 w = w"
| "count_wdays (Suc n) w = count_wdays n (if w \<ge> 6 then 0 else w + 1)"

text \<open>After the loop: the day of the year, and the day of the week when it was not read.\<close>

definition strptime_finish :: "sp \<Rightarrow> tm" where
  "strptime_finish s =
     (let t = sp_tm s in
      if sp_year s \<and> sp_mon s \<and> sp_mday s then
        (let t1 = t\<lparr>tm_yday := start_of_month (isleap_sum (tm_year t) 1900) ! nat (tm_mon t) + (tm_mday t - 1)\<rparr>
         in if \<not> sp_wday s then t1\<lparr>tm_wday := count_wdays (nat (tm_yday t1 + 1)) (first_wday_of (tm_year t1))\<rparr> else t1)
      else t)"

definition strptime :: "string \<times> string \<Rightarrow> string \<Rightarrow> string \<Rightarrow> tm \<Rightarrow> (string \<times> tm) option" where
  "strptime tz buf fmt t = map_option (\<lambda>(rest, s). (rest, strptime_finish s)) (strptime_loop tz fmt buf (sp_start t))"

section \<open>Dates of cookies\<close>

definition COOKIE_DATE_FORMATS :: "string list" where
  "COOKIE_DATE_FORMATS =
     [''%a, %d %b %Y %H:%M:%S %Z'', ''%a, %d-%b-%Y %H:%M:%S %Z'', ''%a, %d %b %y %H:%M:%S %Z'', ''%a, %d-%b-%y %H:%M:%S %Z'']"

fun try_formats :: "(tm \<Rightarrow> int) \<Rightarrow> string \<times> string \<Rightarrow> string list \<Rightarrow> string \<Rightarrow> int" where
  "try_formats mk tz [] text = 0"
| "try_formats mk tz (fmt # fmts) text =
     (case strptime tz text fmt tm_zero of
        Some (p, t) \<Rightarrow> if tm_year t > 0 then mk t else try_formats mk tz fmts text
      | None \<Rightarrow> try_formats mk tz fmts text)"

definition parse_http_date :: "(tm \<Rightarrow> int) \<Rightarrow> string \<times> string \<Rightarrow> string \<Rightarrow> int" where
  "parse_http_date mk tz text = try_formats mk tz COOKIE_DATE_FORMATS (c_str text)"

section \<open>Printed dates\<close>

text \<open>The reference: dates as the grammar of HTTP writes them, with spaces or dashes, with four or two digits of the
  year.\<close>

definition print2 :: "nat \<Rightarrow> string" where
  "print2 n = [char_of (48 + n div 10), char_of (48 + n mod 10)]"

definition print4 :: "nat \<Rightarrow> string" where
  "print4 n = print2 (n div 100) @ print2 (n mod 100)"

record date =
  d_wday :: nat
  d_mday :: nat
  d_mon :: nat
  d_year :: nat
  d_hour :: nat
  d_min :: nat
  d_sec :: nat

definition date_ok :: "date \<Rightarrow> bool" where
  "date_ok d \<longleftrightarrow> d_wday d < 7 \<and> 1 \<le> d_mday d \<and> d_mday d \<le> 31 \<and> d_mon d < 12 \<and> 1901 \<le> d_year d \<and> d_year d \<le> 9999 \<and>
     d_hour d \<le> 23 \<and> d_min d \<le> 59 \<and> d_sec d \<le> 61"

definition time_text :: "date \<Rightarrow> string" where
  "time_text d = CHR '' '' # print2 (d_hour d) @ CHR '':'' # print2 (d_min d) @ CHR '':'' # print2 (d_sec d)"

definition day_text :: "char \<Rightarrow> date \<Rightarrow> string" where
  "day_text sep d = (ab_weekday_name ! d_wday d) @ CHR '','' # CHR '' '' # print2 (d_mday d) @ sep # (ab_month_name ! d_mon d) @ [sep]"

definition date_text :: "char \<Rightarrow> bool \<Rightarrow> date \<Rightarrow> string \<Rightarrow> string" where
  "date_text sep long d zone =
     day_text sep d @ (if long then print4 (d_year d) else print2 (d_year d mod 100)) @ time_text d @ CHR '' '' # zone"

definition date_tm :: "date \<Rightarrow> tm" where
  "date_tm d = \<lparr>tm_sec = int (d_sec d), tm_min = int (d_min d), tm_hour = int (d_hour d), tm_mday = int (d_mday d),
     tm_mon = int (d_mon d), tm_year = int (d_year d) - 1900, tm_wday = int (d_wday d),
     tm_yday = start_of_month (isleap (int (d_year d))) ! d_mon d + (int (d_mday d) - 1), tm_isdst = 0\<rparr>"

section \<open>Reading a number\<close>

lemma digit_chars [simp]: "n < 10 \<Longrightarrow> is_digit (char_of (48 + n))" "n < 10 \<Longrightarrow> digit_val (char_of (48 + n)) = n"
  by (simp_all add: digit_char)

lemma next_is_simps [simp]: "next_is P [] = False" "next_is P (c # s) = P c"
  by (simp_all add: next_is_def)

lemma conv_num_print2:
  assumes "n < 100" "llim \<le> n" "n \<le> ulim" "10 \<le> ulim" "ulim < 100"
  shows "conv_num (print2 n @ rest) llim ulim = Some (int n, rest)"
proof -
  have "n div 10 < 10" "n mod 10 < 10" "ulim div 10 \<noteq> 0" "ulim div 10 div 10 = 0" "n div 10 \<le> ulim" "n div 10 * 10 + n mod 10 = n"
    using assms by (auto simp: div_eq_0_iff)
  moreover have "n div 10 \<le> ulim" using assms(3) by linarith
  ultimately show ?thesis using assms by (auto simp add: conv_num_def print2_def Let_def)
qed

lemma conv_num_year2:
  assumes "n < 100" "\<not> next_is is_digit rest"
  shows "conv_num (print2 n @ rest) 0 9999 = Some (int n, rest)"
proof -
  have "n div 10 < 10" "n mod 10 < 10" "n div 10 * 10 + n mod 10 = n" using assms by auto
  with assms show ?thesis by (simp add: conv_num_def print2_def Let_def)
qed

lemma conv_num_year4:
  assumes "n \<le> 9999"
  shows "conv_num (print4 n @ rest) 0 9999 = Some (int n, rest)"
proof -
  let ?a = "n div 100 div 10" and ?b = "n div 100 mod 10" and ?c = "n mod 100 div 10" and ?d = "n mod 100 mod 10"
  have d: "?a < 10" "?b < 10" "?c < 10" "?d < 10" using assms by auto
  have e: "?a * 10 + ?b = n div 100" "(n div 100 * 10 + ?c) * 10 + ?d = n" by auto
  have "n div 100 \<le> 9999" "n div 100 * 10 + ?c \<le> 9999" "?a \<le> 9999" using assms d e by auto
  with assms d e show ?thesis by (simp add: conv_num_def print4_def print2_def Let_def)
qed

section \<open>Reading a date\<close>

lemma less_12_cases:
  "m < (12::nat) \<Longrightarrow> m = 0 \<or> m = 1 \<or> m = 2 \<or> m = 3 \<or> m = 4 \<or> m = 5 \<or> m = 6 \<or> m = 7 \<or> m = 8 \<or> m = 9 \<or> m = 10 \<or> m = 11"
  by presburger

lemma find_weekday:
  assumes "w < 7"
  shows "find_string ((ab_weekday_name ! w) @ CHR '','' # rest) weekday_name ab_weekday_name = Some (w, CHR '','' # rest)"
proof -
  have l: "to_lower (CHR '','') = CHR '',''" by code_simp
  from assms have "w = 0 \<or> w = 1 \<or> w = 2 \<or> w = 3 \<or> w = 4 \<or> w = 5 \<or> w = 6" by linarith
  then show ?thesis
    by (elim disjE) (simp_all add: find_string_def weekday_name_def ab_weekday_name_def starts_with_def lower_def l to_lower_def is_upper_def)
qed

lemma find_month:
  assumes "m < 12" "sep \<in> {CHR '' '', CHR ''-''}"
  shows "find_string ((ab_month_name ! m) @ sep # rest) month_name ab_month_name = Some (m, sep # rest)"
proof -
  from less_12_cases [OF assms(1)] assms(2) show ?thesis
    by (elim disjE) (auto simp add: find_string_def month_name_def ab_month_name_def starts_with_def lower_def to_lower_def is_upper_def)
qed

lemma loop_simps:
  "strptime_loop tz (CHR '' '' # fmt) bp s = strptime_loop tz fmt (dropWhile is_space bp) s"
  "strptime_loop tz (CHR ''%'' # d # fmt) bp s =
     (case strptime_conv tz d bp s of None \<Rightarrow> None | Some (rest, s') \<Rightarrow> strptime_loop tz fmt rest s')"
  "strptime_loop tz (CHR '','' # fmt) bp s = (if next_is (\<lambda>d. d = CHR '','') bp then strptime_loop tz fmt (tl bp) s else None)"
  "strptime_loop tz (CHR '':'' # fmt) bp s = (if next_is (\<lambda>d. d = CHR '':'') bp then strptime_loop tz fmt (tl bp) s else None)"
  "strptime_loop tz (CHR ''-'' # fmt) bp s = (if next_is (\<lambda>d. d = CHR ''-'') bp then strptime_loop tz fmt (tl bp) s else None)"
  by (simp_all add: is_space_def)

lemma print2_simps [simp]: "n < 100 \<Longrightarrow> dropWhile is_space (print2 n @ r) = print2 n @ r"
  "n < 100 \<Longrightarrow> dropWhile is_space (CHR '' '' # print2 n @ r) = print2 n @ r"
proof -
  assume "n < 100"
  then have "is_digit (char_of (48 + n div 10))" by (intro digit_chars(1)) auto
  from digit_not_space [OF this] show "dropWhile is_space (print2 n @ r) = print2 n @ r"
    "dropWhile is_space (CHR '' '' # print2 n @ r) = print2 n @ r"
    by (simp_all add: print2_def is_space_def [of "CHR '' ''"])
qed

lemma time_part:
  assumes "date_ok d" "\<not> next_is is_space zone"
  shows "strptime_loop tz '' %H:%M:%S %Z'' (time_text d @ CHR '' '' # zone) s =
    (case conv_zone tz zone ((sp_tm s)\<lparr>tm_hour := int (d_hour d), tm_min := int (d_min d), tm_sec := int (d_sec d)\<rparr>) of
       (rest, t) \<Rightarrow> Some (rest, s\<lparr>sp_tm := t\<rparr>))"
proof -
  have z: "dropWhile is_space zone = zone" using assms(2) by (cases zone) simp_all
  have n: "conv_num (print2 (d_hour d) @ r) 0 23 = Some (int (d_hour d), r)" "conv_num (print2 (d_min d) @ r) 0 59 = Some (int (d_min d), r)"
    "conv_num (print2 (d_sec d) @ r) 0 61 = Some (int (d_sec d), r)" for r
    using assms(1) by (auto simp: date_ok_def intro!: conv_num_print2)
  have h: "d_hour d < 100" using assms(1) by (simp add: date_ok_def)
  have sp: "is_space (CHR '' '')" by (simp add: is_space_def)
  show ?thesis using h by (simp add: time_text_def loop_simps strptime_conv_defs n z sp case_prod_beta Let_def del: strptime_loop.simps(2))
qed

lemma day_prefix:
  assumes "date_ok d"
  shows "strptime_loop tz (''%a, %d'' @ fmt) (day_text sep d @ rest) s =
    strptime_loop tz fmt (sep # (ab_month_name ! d_mon d) @ sep # rest)
      (s\<lparr>sp_tm := (sp_tm s)\<lparr>tm_wday := int (d_wday d), tm_mday := int (d_mday d)\<rparr>, sp_wday := True, sp_mday := True\<rparr>)"
proof -
  have n: "conv_num (print2 (d_mday d) @ r) 1 31 = Some (int (d_mday d), r)" for r
    using assms(1) by (auto simp: date_ok_def intro!: conv_num_print2)
  have w: "find_string ((ab_weekday_name ! d_wday d) @ CHR '','' # r) weekday_name ab_weekday_name = Some (d_wday d, CHR '','' # r)" for r
    using assms(1) by (intro find_weekday) (simp add: date_ok_def)
  have md: "d_mday d < 100" using assms(1) by (simp add: date_ok_def)
  have sp: "is_space (CHR '' '')" by (simp add: is_space_def)
  show ?thesis using md
    by (cases s) (simp add: day_text_def loop_simps strptime_conv_defs n [unfolded One_nat_def] w sp Let_def del: strptime_loop.simps(2))
qed

lemma date_part:
  assumes "date_ok d" "sep \<in> {CHR '' '', CHR ''-''}"
  shows "strptime_loop tz (''%a, %d'' @ sep # ''%b'' @ sep # fmt) (day_text sep d @ rest) (sp_start tm_zero) =
    strptime_loop tz fmt (if sep = CHR '' '' then dropWhile is_space rest else rest)
      ((sp_start (tm_zero\<lparr>tm_wday := int (d_wday d), tm_mday := int (d_mday d), tm_mon := int (d_mon d)\<rparr>))
        \<lparr>sp_wday := True, sp_mday := True, sp_mon := True\<rparr>)"
proof -
  have m: "find_string ((ab_month_name ! d_mon d) @ CHR '' '' # r) month_name ab_month_name = Some (d_mon d, CHR '' '' # r)"
    "find_string ((ab_month_name ! d_mon d) @ CHR ''-'' # r) month_name ab_month_name = Some (d_mon d, CHR ''-'' # r)" for r
    using assms(1) by (auto intro!: find_month simp: date_ok_def)
  have mn: "dropWhile is_space ((ab_month_name ! d_mon d) @ r) = (ab_month_name ! d_mon d) @ r" for r
    using less_12_cases [of "d_mon d"] assms(1) by (auto simp: date_ok_def ab_month_name_def is_space_def)
  have sp: "is_space (CHR '' '')" by (simp add: is_space_def)
  show ?thesis unfolding day_prefix [OF assms(1)] using assms(2)
    by (auto simp: loop_simps strptime_conv_defs m mn sp sp_start_def Let_def simp del: strptime_loop.simps(2))
qed

text \<open>A zone changes the daylight flag at most.\<close>

definition zone_dst :: "string \<times> string \<Rightarrow> string \<Rightarrow> int" where
  "zone_dst tz zone = tm_isdst (snd (conv_zone tz zone tm_zero))"

lemma conv_zone_tm:
  assumes "tm_isdst t = 0"
  shows "snd (conv_zone tz zone t) = t\<lparr>tm_isdst := zone_dst tz zone\<rparr>"
proof -
  have t: "t\<lparr>tm_isdst := 0\<rparr> = t" using assms by (cases t) simp
  have l: "snd (load_zone bp t) = t" "tm_isdst (snd (load_zone bp tm_zero)) = 0" for bp
    using t by (auto simp: load_zone_def tm_zero_def split: option.split)
  have n: "snd (named_zone tz bp t) = t\<lparr>tm_isdst := tm_isdst (snd (named_zone tz bp tm_zero))\<rparr>" for bp
    using t l by (simp add: named_zone_def tm_zero_def split: option.split)
  show ?thesis using t n by (simp add: zone_dst_def conv_zone_def tm_zero_def split: option.split)
qed

text \<open>The year in each of the two conversions.\<close>

lemma time_text_no_digit [simp]: "\<not> next_is is_digit (time_text d @ r)"
  by (simp add: time_text_def is_digit_def)

lemma year_part:
  assumes "y \<le> 9999"
  shows "strptime_loop tz (''%Y'' @ fmt) (print4 y @ r) s =
      strptime_loop tz fmt r (s\<lparr>sp_tm := (sp_tm s)\<lparr>tm_year := int y - 1900\<rparr>, sp_year := True\<rparr>)"
    "strptime_loop tz (''%Y'' @ fmt) (print2 (y mod 100) @ time_text d @ r) s =
      strptime_loop tz fmt (time_text d @ r) (s\<lparr>sp_tm := (sp_tm s)\<lparr>tm_year := int (y mod 100) - 1900\<rparr>, sp_year := True\<rparr>)"
    "strptime_loop tz (''%y'' @ fmt) (print2 (y mod 100) @ r) s =
      strptime_loop tz fmt r (conv_year2 s (int (y mod 100)))"
proof -
  show "strptime_loop tz (''%Y'' @ fmt) (print4 y @ r) s =
      strptime_loop tz fmt r (s\<lparr>sp_tm := (sp_tm s)\<lparr>tm_year := int y - 1900\<rparr>, sp_year := True\<rparr>)"
    using assms by (simp add: loop_simps strptime_conv_defs conv_num_year4 Let_def del: strptime_loop.simps(2))
  have m: "y mod 100 < 100" by simp
  show "strptime_loop tz (''%Y'' @ fmt) (print2 (y mod 100) @ time_text d @ r) s =
      strptime_loop tz fmt (time_text d @ r) (s\<lparr>sp_tm := (sp_tm s)\<lparr>tm_year := int (y mod 100) - 1900\<rparr>, sp_year := True\<rparr>)"
    using conv_num_year2 [OF m, of "time_text d @ r"] time_text_no_digit
    by (simp add: loop_simps strptime_conv_defs Let_def del: strptime_loop.simps(2))
  have "conv_num (print2 (y mod 100) @ r) 0 99 = Some (int (y mod 100), r)"
    by (rule conv_num_print2) (use m in auto)
  then show "strptime_loop tz (''%y'' @ fmt) (print2 (y mod 100) @ r) s =
      strptime_loop tz fmt r (conv_year2 s (int (y mod 100)))"
    by (simp add: loop_simps strptime_conv_defs Let_def del: strptime_loop.simps(2))
qed

text \<open>The formats with their parts, and the dates they do not read.\<close>

definition date_format :: "char \<Rightarrow> char \<Rightarrow> string" where
  "date_format sep y = ''%a, %d'' @ sep # ''%b'' @ sep # [CHR ''%'', y] @ '' %H:%M:%S %Z''"

lemma cookie_formats:
  "COOKIE_DATE_FORMATS =
     [date_format (CHR '' '') (CHR ''Y''), date_format (CHR ''-'') (CHR ''Y''), date_format (CHR '' '') (CHR ''y''), date_format (CHR ''-'') (CHR ''y'')]"
  by (simp add: COOKIE_DATE_FORMATS_def date_format_def)

lemma other_separator:
  assumes "date_ok d" "{sep, sep'} = {CHR '' '', CHR ''-''}"
  shows "strptime tz (day_text sep d @ rest) (date_format sep' y) t = None"
proof -
  have nm: "find_string (CHR ''-'' # r) month_name ab_month_name = None" for r
    by (simp add: find_string_def month_name_def ab_month_name_def starts_with_def lower_def to_lower_def is_upper_def eq_char_of_iff)
  have sp: "\<not> is_space (CHR ''-'')" by (simp add: is_space_def)
  from assms(2) consider "sep = CHR '' ''" "sep' = CHR ''-''" | "sep = CHR ''-''" "sep' = CHR '' ''"
    by (auto simp: doubleton_eq_iff)
  then show ?thesis
    unfolding strptime_def date_format_def day_prefix [OF assms(1)]
    by cases (simp_all add: loop_simps strptime_conv_defs nm sp Let_def del: strptime_loop.simps(2))
qed

text \<open>A date in the format of its separator, with the year that was read.\<close>

lemma date_read:
  assumes "date_ok d" "sep \<in> {CHR '' '', CHR ''-''}" "\<not> next_is is_space zone" "dropWhile is_space (ytext @ r) = ytext @ r"
    and "r = time_text d @ CHR '' '' # zone"
    and "strptime_loop tz ([CHR ''%'', y] @ '' %H:%M:%S %Z'') (ytext @ r) s0 = strptime_loop tz '' %H:%M:%S %Z'' r s"
    and "s0 = (sp_start (tm_zero\<lparr>tm_wday := int (d_wday d), tm_mday := int (d_mday d), tm_mon := int (d_mon d)\<rparr>))
        \<lparr>sp_wday := True, sp_mday := True, sp_mon := True\<rparr>"
    and "sp_tm s = (sp_tm s0)\<lparr>tm_year := yr\<rparr>" "sp_year s" "sp_mon s" "sp_mday s" "sp_wday s"
  shows "\<exists>rest. strptime tz (day_text sep d @ ytext @ r) (date_format sep y) tm_zero =
    Some (rest, (date_tm d)\<lparr>tm_year := yr, tm_yday := start_of_month (isleap_sum yr 1900) ! d_mon d + (int (d_mday d) - 1),
      tm_isdst := zone_dst tz zone\<rparr>)"
proof -
  let ?t = "(sp_tm s)\<lparr>tm_hour := int (d_hour d), tm_min := int (d_min d), tm_sec := int (d_sec d)\<rparr>"
  have t: "tm_isdst ?t = 0" by (simp add: assms(7,8) sp_start_def tm_zero_def)
  have "strptime_loop tz (date_format sep y) (day_text sep d @ ytext @ r) (sp_start tm_zero) =
      strptime_loop tz '' %H:%M:%S %Z'' r s"
    unfolding date_format_def date_part [OF assms(1,2)] assms(4) assms(7) [symmetric] if_cancel by (rule assms(6))
  also have "\<dots> = (case conv_zone tz zone ?t of (rest, t) \<Rightarrow> Some (rest, s\<lparr>sp_tm := t\<rparr>))"
    unfolding assms(5) by (rule time_part [OF assms(1,3)])
  also have "\<dots> = Some (fst (conv_zone tz zone ?t), s\<lparr>sp_tm := ?t\<lparr>tm_isdst := zone_dst tz zone\<rparr>\<rparr>)"
    using conv_zone_tm [OF t, of tz zone] by (simp add: case_prod_beta)
  finally have "strptime tz (day_text sep d @ ytext @ r) (date_format sep y) tm_zero =
      Some (fst (conv_zone tz zone ?t), strptime_finish (s\<lparr>sp_tm := ?t\<lparr>tm_isdst := zone_dst tz zone\<rparr>\<rparr>))"
    by (simp add: strptime_def)
  moreover have "strptime_finish (s\<lparr>sp_tm := ?t\<lparr>tm_isdst := zone_dst tz zone\<rparr>\<rparr>) =
      (date_tm d)\<lparr>tm_year := yr, tm_yday := start_of_month (isleap_sum yr 1900) ! d_mon d + (int (d_mday d) - 1),
        tm_isdst := zone_dst tz zone\<rparr>"
    using assms(9-12) by (simp add: strptime_finish_def Let_def assms(7,8) sp_start_def tm_zero_def date_tm_def)
  ultimately show ?thesis by simp
qed

lemma smod_nonneg: "0 \<le> a \<Longrightarrow> 0 < b \<Longrightarrow> a smod b = a mod (b::int)"
  by (simp add: smod_int_alt_def sgn_if)

lemma isleap_sum_year:
  assumes "1900 \<le> y"
  shows "isleap_sum (int y - 1900) 1900 = isleap (int y)"
proof -
  have "((int y - 1900) mod 400 + 300) mod 400 = (int y - 1900 + 300) mod 400" by (rule mod_add_left_eq)
  also have "int y - 1900 + 300 = int y + (-4) * 400" by simp
  also have "(int y + (-4) * 400) mod 400 = int y mod 400" by (rule mod_mult_self1)
  finally have m: "((int y - 1900) mod 400 + 300) mod 400 = int y mod 400" .
  have "((int y - 1900) mod 400 + 300) mod k = int y mod k" if "k dvd 400" for k :: int
    using mod_mod_cancel [OF that, of "(int y - 1900) mod 400 + 300"] mod_mod_cancel [OF that, of "int y"] m by metis
  from this [of 4] this [of 100] m
  have e: "((int y - 1900) mod 400 + 300) mod 4 = int y mod 4" "((int y - 1900) mod 400 + 300) mod 100 = int y mod 100" by simp_all
  have "(1900::int) smod 400 = 300" "(int y - 1900) smod 400 = (int y - 1900) mod 400" using assms by (simp_all add: smod_nonneg)
  moreover have "0 \<le> (int y - 1900) mod 400 + 300" "0 \<le> int y" by simp_all
  ultimately show ?thesis unfolding isleap_sum_def isleap_def by (simp only: smod_nonneg e m)
qed

lemma year2_part:
  assumes "1969 \<le> y" "y \<le> 2068" "\<not> sp_split_year s"
  shows "sp_tm (conv_year2 s (int (y mod 100))) = (sp_tm s)\<lparr>tm_year := int y - 1900\<rparr>"
proof -
  define k where "k = y - 1900"
  have k: "y = 1900 + k" "69 \<le> k" "k \<le> 168" using assms(1,2) by (auto simp: k_def)
  then have "y mod 100 = (if k < 100 then k else k - 100)" by (auto simp: mod_if)
  with k assms(3) show ?thesis by (auto simp: conv_year2_def)
qed

lemma conv_year2_flags:
  "sp_year (conv_year2 s i)" "sp_mon (conv_year2 s i) = sp_mon s" "sp_mday (conv_year2 s i) = sp_mday s"
  "sp_wday (conv_year2 s i) = sp_wday s"
  by (simp_all add: conv_year2_def)

text \<open>The text has no NUL.\<close>

lemma date_text_no_NUL:
  assumes "date_ok d" "sep \<in> {CHR '' '', CHR ''-''}" "NUL \<notin> set zone"
  shows "NUL \<notin> set (date_text sep long d zone)"
proof -
  have p: "NUL \<notin> set (print2 n)" if "n < 100" for n
  proof -
    have "n div 10 < 10" "n mod 10 < 10" using that by auto
    from digit_not_space [OF digit_chars(1) [OF this(1)]] digit_not_space [OF digit_chars(1) [OF this(2)]]
    show ?thesis by (auto simp: print2_def)
  qed
  have "d_wday d = 0 \<or> d_wday d = 1 \<or> d_wday d = 2 \<or> d_wday d = 3 \<or> d_wday d = 4 \<or> d_wday d = 5 \<or> d_wday d = 6"
    using assms(1) unfolding date_ok_def by linarith
  then have "NUL \<notin> set (ab_weekday_name ! d_wday d)" by (auto simp: ab_weekday_name_def NUL_def)
  moreover have "NUL \<notin> set (ab_month_name ! d_mon d)"
    using less_12_cases [of "d_mon d"] assms(1) by (auto simp: date_ok_def ab_month_name_def NUL_def)
  moreover have "NUL \<noteq> CHR '' ''" "NUL \<noteq> CHR '',''" "NUL \<noteq> CHR '':''" "NUL \<noteq> CHR ''-''" by (simp_all add: NUL_def)
  ultimately show ?thesis using assms p
    by (auto simp: date_text_def day_text_def time_text_def print4_def date_ok_def)
qed

text \<open>\<open>mktime\<close> gets the fields of the date, with the daylight flag that the zone sets, and nothing else of the zone.\<close>

lemma http_date_read:
  assumes "date_ok d" "sep \<in> {CHR '' '', CHR ''-''}" "\<not> next_is is_space zone" "NUL \<notin> set zone"
    and "\<not> long \<Longrightarrow> 1969 \<le> d_year d \<and> d_year d \<le> 2068"
  shows "parse_http_date mk tz (date_text sep long d zone) = mk ((date_tm d)\<lparr>tm_isdst := zone_dst tz zone\<rparr>)"
proof -
  define s0 where "s0 = (sp_start (tm_zero\<lparr>tm_wday := int (d_wday d), tm_mday := int (d_mday d), tm_mon := int (d_mon d)\<rparr>))
        \<lparr>sp_wday := True, sp_mday := True, sp_mon := True\<rparr>"
  define r where "r = time_text d @ CHR '' '' # zone"
  have y: "d_year d \<le> 9999" "1900 \<le> d_year d" "d_year d div 100 < 100" "d_year d mod 100 < 100" using assms(1) by (auto simp: date_ok_def)
  have yd: "(date_tm d)\<lparr>tm_year := int (d_year d) - 1900, tm_yday := start_of_month (isleap_sum (int (d_year d) - 1900) 1900) ! d_mon d
      + (int (d_mday d) - 1), tm_isdst := zone_dst tz zone\<rparr> = (date_tm d)\<lparr>tm_isdst := zone_dst tz zone\<rparr>"
    using isleap_sum_year [OF y(2)] by (simp add: date_tm_def)
  have c: "c_str (date_text sep long d zone) = date_text sep long d zone"
    using date_text_no_NUL [OF assms(1,2,4)] by (rule c_str_id)
  have pos: "0 < tm_year ((date_tm d)\<lparr>tm_isdst := zone_dst tz zone\<rparr>)" using assms(1) by (simp add: date_tm_def date_ok_def)
  have fail: "strptime tz (day_text sep d @ x) (date_format sep' c) tm_zero = None"
    if "{sep, sep'} = {CHR '' '', CHR ''-''}" for x sep' c
    using other_separator [OF assms(1) that] .
  show ?thesis
  proof (cases long)
    case True
    have sp: "dropWhile is_space (print4 (d_year d) @ r) = print4 (d_year d) @ r"
      using y print2_simps(1) [of "d_year d div 100"] by (simp add: print4_def)
    have "\<exists>rest. strptime tz (day_text sep d @ print4 (d_year d) @ r) (date_format sep (CHR ''Y'')) tm_zero =
        Some (rest, (date_tm d)\<lparr>tm_year := int (d_year d) - 1900, tm_yday := start_of_month (isleap_sum (int (d_year d) - 1900) 1900) ! d_mon d
          + (int (d_mday d) - 1), tm_isdst := zone_dst tz zone\<rparr>)"
      by (rule date_read [OF assms(1-3) sp r_def year_part(1) [OF y(1)] s0_def]) (simp_all add: s0_def)
    then obtain rest where ok: "strptime tz (date_text sep long d zone) (date_format sep (CHR ''Y'')) tm_zero =
        Some (rest, (date_tm d)\<lparr>tm_isdst := zone_dst tz zone\<rparr>)" unfolding yd using True by (auto simp: date_text_def r_def)
    from assms(2) consider "sep = CHR '' ''" | "sep = CHR ''-''" by blast
    then show ?thesis
    proof cases
      case 1
      with ok pos c show ?thesis by (simp add: parse_http_date_def cookie_formats)
    next
      case 2
      have "strptime tz (date_text sep long d zone) (date_format (CHR '' '') (CHR ''Y'')) tm_zero = None"
        unfolding date_text_def by (rule fail) (use 2 in auto)
      with 2 ok pos c show ?thesis by (simp add: parse_http_date_def cookie_formats)
    qed
  next
    case False
    let ?m = "d_year d mod 100"
    have sp: "dropWhile is_space (print2 ?m @ r) = print2 ?m @ r" using y by simp
    have t: "date_text sep long d zone = day_text sep d @ print2 ?m @ r" using False by (simp add: date_text_def r_def)
    have "\<exists>rest. strptime tz (day_text sep d @ print2 ?m @ r) (date_format sep (CHR ''y'')) tm_zero =
        Some (rest, (date_tm d)\<lparr>tm_year := int (d_year d) - 1900, tm_yday := start_of_month (isleap_sum (int (d_year d) - 1900) 1900) ! d_mon d
          + (int (d_mday d) - 1), tm_isdst := zone_dst tz zone\<rparr>)"
    proof (rule date_read [OF assms(1-3) sp r_def year_part(3) [OF y(1)] s0_def])
      have "\<not> sp_split_year s0" by (simp add: s0_def sp_start_def)
      with year2_part [of "d_year d" s0] assms(5) [OF False]
      show "sp_tm (conv_year2 s0 (int ?m)) = (sp_tm s0)\<lparr>tm_year := int (d_year d) - 1900\<rparr>" by blast
    qed (simp_all only: conv_year2_flags, simp_all add: s0_def)
    then obtain rest where ok: "strptime tz (date_text sep long d zone) (date_format sep (CHR ''y'')) tm_zero =
        Some (rest, (date_tm d)\<lparr>tm_isdst := zone_dst tz zone\<rparr>)" unfolding yd t by blast
    have "\<exists>rest. strptime tz (day_text sep d @ print2 ?m @ r) (date_format sep (CHR ''Y'')) tm_zero =
        Some (rest, (date_tm d)\<lparr>tm_year := int ?m - 1900, tm_yday := start_of_month (isleap_sum (int ?m - 1900) 1900) ! d_mon d
          + (int (d_mday d) - 1), tm_isdst := zone_dst tz zone\<rparr>)"
      by (rule date_read [OF assms(1-3) sp r_def year_part(2) [OF y(1), of tz _ d "CHR '' '' # zone", folded r_def] s0_def])
        (simp_all add: s0_def)
    then obtain rest' u where old: "strptime tz (date_text sep long d zone) (date_format sep (CHR ''Y'')) tm_zero = Some (rest', u)"
      "\<not> tm_year u > 0" unfolding t using y(4) by auto
    from assms(2) consider "sep = CHR '' ''" | "sep = CHR ''-''" by blast
    then show ?thesis
    proof cases
      case 1
      have "strptime tz (date_text sep long d zone) (date_format (CHR ''-'') (CHR ''Y'')) tm_zero = None"
        unfolding date_text_def by (rule fail) (use 1 in auto)
      with 1 ok old pos c show ?thesis by (simp add: parse_http_date_def cookie_formats)
    next
      case 2
      have "strptime tz (date_text sep long d zone) (date_format (CHR '' '') z) tm_zero = None" for z
        unfolding date_text_def by (rule fail) (use 2 in auto)
      with 2 ok old pos c show ?thesis by (simp add: parse_http_date_def cookie_formats)
    qed
  qed
qed

section \<open>Properties\<close>

lemma zone_dst_simps:
  "zone_dst tz ''GMT'' = 0" "zone_dst tz (CHR ''+'' # offset) = 0" "zone_dst tz (CHR ''-'' # offset) = 0"
  by (simp_all add: zone_dst_def conv_zone_def utc_zone_def zone_G_def zone_U_def zone_Z_def delim_def tm_zero_def
      split: option.split)

text \<open>C27. A printed date is read back, with spaces or dashes, with four digits of the year or, from 1969 to 2068, with
  two: \<^verbatim>\<open>mktime\<close> gets the fields of the date. A numeric time zone is read and forgotten, so that a date in any
  zone is the same local time.\<close>

theorem http_date_round_trip:
  assumes "date_ok d" "sep \<in> {CHR '' '', CHR ''-''}" "long \<or> d_year d \<in> {1969..2068}"
    and "sign \<in> {CHR ''+'', CHR ''-''}" "NUL \<notin> set offset"
  shows "parse_http_date mk tz (date_text sep long d ''GMT'') = mk (date_tm d) \<and>
    parse_http_date mk tz (date_text sep long d (sign # offset)) = mk (date_tm d)"
proof -
  have t: "(date_tm d)\<lparr>tm_isdst := 0\<rparr> = date_tm d" by (simp add: date_tm_def)
  have z: "NUL \<notin> set ''GMT''" "\<not> next_is is_space ''GMT''" "\<not> next_is is_space (sign # offset)" "NUL \<notin> set (sign # offset)"
    "zone_dst tz (sign # offset) = 0"
    using assms(4,5) by (auto simp: NUL_def is_space_def zone_dst_simps)
  have y: "\<not> long \<Longrightarrow> 1969 \<le> d_year d \<and> d_year d \<le> 2068" using assms(3) by auto
  from http_date_read [OF assms(1,2) z(2,1) y, where mk = mk and tz = tz] http_date_read [OF assms(1,2) z(3,4) y, where mk = mk and tz = tz]
  show ?thesis by (simp add: z(5) zone_dst_simps t)
qed

theorem http_date_round_trip_witness:
  "parse_http_date (\<lambda>t. tm_year t * 1000 + tm_yday t) ([], []) ''Wed, 09-Jun-21 10:18:14 GMT'' = 121159 \<and>
   parse_http_date (\<lambda>t. tm_year t * 1000 + tm_yday t) ([], []) ''Wed, 09-Jun-21 10:18:14 +0200'' = 121159"
proof -
  let ?d = "\<lparr>d_wday = 3, d_mday = 9, d_mon = 5, d_year = 2021, d_hour = 10, d_min = 18, d_sec = 14\<rparr>"
  have "date_text (CHR ''-'') False ?d ''GMT'' = ''Wed, 09-Jun-21 10:18:14 GMT''"
    "date_text (CHR ''-'') False ?d ''+0200'' = ''Wed, 09-Jun-21 10:18:14 +0200''" by code_simp+
  moreover have "date_ok ?d" by (simp add: date_ok_def)
  moreover have "tm_year (date_tm ?d) * 1000 + tm_yday (date_tm ?d) = 121159" by code_simp
  moreover have "NUL \<notin> set ''0200''" by (simp add: NUL_def)
  ultimately show ?thesis
    using http_date_round_trip [of ?d "CHR ''-''" False "CHR ''+''" "''0200''" "\<lambda>t. tm_year t * 1000 + tm_yday t" "([], [])"] by simp
qed

definition epoch_date :: date where
  "epoch_date = \<lparr>d_wday = 4, d_mday = 1, d_mon = 0, d_year = 1970, d_hour = 0, d_min = 0, d_sec = 0\<rparr>"

text \<open>The date by which servers delete a cookie may keep it. \<^verbatim>\<open>mktime\<close> reads the first second of 1970 as local
  time and fails with \<open>-1\<close> where that is before the epoch, in every time zone east of Greenwich; the cookie then has no
  expiration and never expires.\<close>

theorem deleted_cookie_survives:
  assumes "mk (date_tm epoch_date) < 0"
  shows "\<exists>c. parse_cookie (parse_http_date mk tz) ''SVPNCOOKIE=; expires=Thu, 01 Jan 1970 00:00:00 GMT; secure; httponly'' = Inr c \<and>
    c_name c = ''SVPNCOOKIE'' \<and> is_session c \<and> (\<forall>now. \<not> is_expired now c)"
proof -
  let ?date = "''Thu, 01 Jan 1970 00:00:00 GMT''"
  have "date_text (CHR '' '') True epoch_date ''GMT'' = ?date" by code_simp
  moreover have "(date_tm epoch_date)\<lparr>tm_isdst := zone_dst tz ''GMT''\<rparr> = date_tm epoch_date" by (simp add: date_tm_def zone_dst_simps)
  moreover have "date_ok epoch_date" by (simp add: date_ok_def epoch_date_def)
  ultimately have d: "parse_http_date mk tz ?date = mk (date_tm epoch_date)"
    using http_date_read [of epoch_date "CHR '' ''" "''GMT''" True mk tz] by (simp add: NUL_def is_space_def)
  have s: "split_obf_loop ''SVPNCOOKIE=; expires=Thu, 01 Jan 1970 00:00:00 GMT; secure; httponly'' (CHR '';'') =
      [''SVPNCOOKIE='', '' expires=Thu, 01 Jan 1970 00:00:00 GMT'', '' secure'', '' httponly'']" by code_simp
  have t: "trimleft '' expires=Thu, 01 Jan 1970 00:00:00 GMT'' = Inr ''expires=Thu, 01 Jan 1970 00:00:00 GMT''"
    "trimleft '' secure'' = Inr ''secure''" "trimleft '' httponly'' = Inr ''httponly''" by code_simp+
  have p: "find_idx (\<lambda>c. c = CHR ''='') ''expires=Thu, 01 Jan 1970 00:00:00 GMT'' = Some 7"
    "find_idx (\<lambda>c. c = CHR ''='') ''secure'' = None" "find_idx (\<lambda>c. c = CHR ''='') ''httponly'' = None"
    "find_idx (\<lambda>c. c = CHR ''='') ''SVPNCOOKIE='' = Some 10" by code_simp+
  have i: "\<not> iequal ''expires'' ''domain''" "\<not> iequal ''expires'' ''path''" "iequal ''expires'' ''expires''"
    "iequal ''secure'' ''secure''" "\<not> iequal ''httponly'' ''secure''" "iequal ''httponly'' ''httponly''"
    "c_str ''SVPNCOOKIE'' = ''SVPNCOOKIE''" by code_simp+
  have k: "take 7 ''expires=Thu, 01 Jan 1970 00:00:00 GMT'' = ''expires''" "drop 8 ''expires=Thu, 01 Jan 1970 00:00:00 GMT'' = ?date"
    "take 10 ''SVPNCOOKIE='' = ''SVPNCOOKIE''" by code_simp+
  have a: "cookie_attr_loop (parse_http_date mk tz)
      ['' expires=Thu, 01 Jan 1970 00:00:00 GMT'', '' secure'', '' httponly''] no_attrs =
    Inr (no_attrs\<lparr>a_expires := mk (date_tm epoch_date), a_secure := True, a_http_only := True\<rparr>)"
    using d k by (simp only: cookie_attr_loop.simps t try_bind.simps cookie_attr_def p i option.case Let_def if_True if_False) simp
  have "parse_cookie (parse_http_date mk tz) ''SVPNCOOKIE=; expires=Thu, 01 Jan 1970 00:00:00 GMT; secure; httponly'' =
      Inr (make_cookie ''SVPNCOOKIE'' (c_str (drop 11 ''SVPNCOOKIE='')) [] [] (mk (date_tm epoch_date)) True True)"
    unfolding parse_cookie_def s list.case p option.case Let_def k(3) i(7) a try_bind.simps by (simp add: no_attrs_def)
  with assms show ?thesis by (simp add: make_cookie_def is_session_def is_expired_def EXPIRES_UNSPECIFIED_def)
qed

theorem deleted_cookie_survives_witness:
  "\<exists>c. parse_cookie (parse_http_date (\<lambda>t. if tm_year t = 70 then -1 else 0) ([], []))
      ''SVPNCOOKIE=; expires=Thu, 01 Jan 1970 00:00:00 GMT; secure; httponly'' = Inr c \<and> \<not> is_expired 9999 c"
proof -
  have "(\<lambda>t. if tm_year t = 70 then -1 else 0) (date_tm epoch_date) < (0::int)" by (simp add: date_tm_def epoch_date_def)
  from deleted_cookie_survives [of "\<lambda>t. if tm_year t = 70 then -1 else 0", OF this, of "([], [])"] show ?thesis by blast
qed

end
