(* ===== verification/NetSocket.thy ===== *)
theory NetSocket
  imports Prelude
begin

text \<open>
  The socket classes (\<^verbatim>\<open>net/Socket.cpp\<close>, \<^verbatim>\<open>net/TcpSocket.cpp\<close>, \<^verbatim>\<open>net/TlsSocket.cpp\<close>,
  \<^verbatim>\<open>net/TlsContext.cpp\<close>).

  The network behind mbedtls is an environment: \<open>net\<close> carries the script of what the mbedtls
  calls will answer, and every statement is for all scripts.
  \<^item> \<open>recvs\<close> answers \<^verbatim>\<open>mbedtls_net_recv\<close> and \<^verbatim>\<open>mbedtls_ssl_read\<close>: \<open>Data bs\<close> is a run of bytes
    that has arrived (a call takes at most what fits its buffer and leaves the rest), \<open>Ret rc\<close> a
    result that is not positive. When the script is empty nothing has arrived: the call would block.
  \<^item> \<open>sends\<close> answers \<^verbatim>\<open>mbedtls_net_send\<close> and \<^verbatim>\<open>mbedtls_ssl_write\<close>: a positive number is the
    space available, any other number the result. What is accepted is appended to \<open>wire\<close>.
  \<^item> \<open>polls\<close> answers \<^verbatim>\<open>mbedtls_net_poll\<close> (empty: the wait times out), \<open>calls\<close> every other call
    (connect, setup, handshake, ...), a non-negative answer to connect, bind or accept being the
    descriptor the system gives; \<open>elapsed\<close> answers \<^verbatim>\<open>Timer::is_elapsed\<close>.
  \<open>is_tls\<close> is the dynamic type of the object: it selects the overriding \<^verbatim>\<open>recv_data\<close> and
  \<^verbatim>\<open>send_data\<close> of \<^verbatim>\<open>TlsSocket\<close>.
\<close>

section \<open>mbedtls codes\<close>

definition NET_INVALID_CONTEXT :: int where "NET_INVALID_CONTEXT = -0x0045"
definition NET_SOCKET_FAILED :: int where "NET_SOCKET_FAILED = -0x0042"
definition SSL_WANT_READ :: int where "SSL_WANT_READ = -0x6900"
definition SSL_WANT_WRITE :: int where "SSL_WANT_WRITE = -0x6880"
definition SSL_TIMEOUT :: int where "SSL_TIMEOUT = -0x6800"
definition SSL_PEER_CLOSE_NOTIFY :: int where "SSL_PEER_CLOSE_NOTIFY = -0x7880"
definition SSL_BAD_INPUT_DATA :: int where "SSL_BAD_INPUT_DATA = -0x7100"
definition SSL_CRYPTO_IN_PROGRESS :: int where "SSL_CRYPTO_IN_PROGRESS = -0x7000"
definition SSL_ASYNC_IN_PROGRESS :: int where "SSL_ASYNC_IN_PROGRESS = -0x6500"
definition POLL_READ :: int where "POLL_READ = 1"
definition POLL_WRITE :: int where "POLL_WRITE = 2"

lemmas ssl_code_defs = NET_INVALID_CONTEXT_def NET_SOCKET_FAILED_def SSL_WANT_READ_def
  SSL_WANT_WRITE_def SSL_TIMEOUT_def SSL_PEER_CLOSE_NOTIFY_def SSL_BAD_INPUT_DATA_def
  SSL_CRYPTO_IN_PROGRESS_def SSL_ASYNC_IN_PROGRESS_def POLL_READ_def POLL_WRITE_def

section \<open>Status values\<close>

datatype rcv_code = NETCTX_RCV_OK | NETCTX_RCV_ERROR | NETCTX_RCV_RETRY | NETCTX_RCV_EOF

record rcv_status =
  rcv_code :: rcv_code
  rcv_rc :: int
  rbytes :: nat

datatype snd_code = NETCTX_SND_OK | NETCTX_SND_ERROR | NETCTX_SND_RETRY

record snd_status =
  snd_code :: snd_code
  snd_rc :: int
  sbytes :: nat

datatype poll_code = NETCTX_POLL_ERROR | NETCTX_POLL_OK | NETCTX_POLL_TIMEOUT

record poll_status =
  poll_code :: poll_code
  poll_rc :: int

datatype hdk_code = SSLCTX_HDK_OK | SSLCTX_HDK_WAIT_IO | SSLCTX_HDK_WAIT_ASYNC | SSLCTX_HDK_ERROR

record hdk_status =
  hdk_code :: hdk_code
  hdk_rc :: int

datatype close_code = SSLCTX_CLOSE_OK | SSLCTX_CLOSE_RETRY | SSLCTX_CLOSE_ERROR

record close_status =
  close_code :: close_code
  close_rc :: int

section \<open>The environment\<close>

datatype 'b rx = Data "'b list" | Ret int

record 'b net =
  is_tls :: bool
  fd :: int
  blocking :: bool
  recvs :: "'b rx list"
  sends :: "int list"
  polls :: "int list"
  calls :: "int list"
  elapsed :: "bool list"
  wire :: "'b list"

definition raw_recv :: "nat \<Rightarrow> 'b net \<Rightarrow> int \<times> 'b list \<times> 'b net" where
  "raw_recv len w =
     (case recvs w of
        [] \<Rightarrow> (SSL_WANT_READ, [], w)
      | Data bs # r \<Rightarrow>
          (int (length (take len bs)), take len bs,
           w\<lparr>recvs := (if length bs \<le> len then r else Data (drop len bs) # r)\<rparr>)
      | Ret rc # r \<Rightarrow> (min rc 0, [], w\<lparr>recvs := r\<rparr>))"

definition raw_send :: "'b list \<Rightarrow> 'b net \<Rightarrow> int \<times> 'b net" where
  "raw_send buf w =
     (case sends w of
        [] \<Rightarrow> (SSL_WANT_WRITE, w)
      | n # s \<Rightarrow>
          if n > 0 then
            (int (length (take (nat n) buf)), w\<lparr>sends := s, wire := wire w @ take (nat n) buf\<rparr>)
          else (n, w\<lparr>sends := s\<rparr>))"

definition raw_poll :: "'b net \<Rightarrow> int \<times> 'b net" where
  "raw_poll w = (case polls w of [] \<Rightarrow> (0, w) | p # ps \<Rightarrow> (p, w\<lparr>polls := ps\<rparr>))"

definition raw_call :: "'b net \<Rightarrow> int \<times> 'b net" where
  "raw_call w = (case calls w of [] \<Rightarrow> (NET_SOCKET_FAILED, w) | c # cs \<Rightarrow> (c, w\<lparr>calls := cs\<rparr>))"

section \<open>Socket\<close>

definition socket_new :: "bool \<Rightarrow> 'b net \<Rightarrow> 'b net" where
  "socket_new tls w = w\<lparr>is_tls := tls, fd := -1\<rparr>"

definition socket_is_connected :: "'b net \<Rightarrow> bool" where
  "socket_is_connected w \<longleftrightarrow> fd w \<noteq> -1"

text \<open>\<^verbatim>\<open>mbedtls_net_connect\<close>, \<^verbatim>\<open>mbedtls_net_bind\<close>: a descriptor, or an error.\<close>

definition open_fd :: "'b net \<Rightarrow> int \<times> 'b net" where
  "open_fd w = (let (c, w') = raw_call w in if c \<ge> 0 then (0, w'\<lparr>fd := c\<rparr>) else (c, w'))"

definition socket_connect :: "'b net \<Rightarrow> int \<times> 'b net" where
  "socket_connect w = (if socket_is_connected w then (NET_INVALID_CONTEXT, w) else open_fd w)"

definition socket_bind :: "'b net \<Rightarrow> int \<times> 'b net" where
  "socket_bind w = (if \<not> socket_is_connected w then open_fd w else (NET_INVALID_CONTEXT, w))"

definition socket_close :: "'b net \<Rightarrow> 'b net" where
  "socket_close w = w\<lparr>fd := -1\<rparr>"

definition socket_shutdown :: "'b net \<Rightarrow> int \<times> 'b net" where
  "socket_shutdown w = (0, w\<lparr>fd := -1\<rparr>)"

definition set_blocking_mode :: "bool \<Rightarrow> 'b net \<Rightarrow> int \<times> 'b net" where
  "set_blocking_mode enable w =
     (if socket_is_connected w then
        (let (rc, w') = raw_call w in
         if rc \<noteq> 0 then (NET_INVALID_CONTEXT, w') else (rc, w'\<lparr>blocking := enable\<rparr>))
      else (NET_INVALID_CONTEXT, w))"

text \<open>\<^verbatim>\<open>set_nodelay\<close> never assigns \<^verbatim>\<open>rc\<close> after a successful \<^verbatim>\<open>setsockopt\<close>.\<close>

definition set_nodelay :: "bool \<Rightarrow> 'b net \<Rightarrow> int \<times> 'b net" where
  "set_nodelay no_delay w =
     (if socket_is_connected w then
        (let (rc, w') = raw_call w in if rc \<noteq> 0 then (NET_INVALID_CONTEXT, w') else (NET_INVALID_CONTEXT, w'))
      else (NET_INVALID_CONTEXT, w))"

definition socket_recv_status :: "int \<Rightarrow> rcv_status" where
  "socket_recv_status rc =
     (if rc > 0 then \<lparr>rcv_code = NETCTX_RCV_OK, rcv_rc = 0, rbytes = nat rc\<rparr>
      else if rc = 0 then \<lparr>rcv_code = NETCTX_RCV_EOF, rcv_rc = 0, rbytes = 0\<rparr>
      else if rc = SSL_WANT_READ then \<lparr>rcv_code = NETCTX_RCV_RETRY, rcv_rc = POLL_READ, rbytes = 0\<rparr>
      else \<lparr>rcv_code = NETCTX_RCV_ERROR, rcv_rc = rc, rbytes = 0\<rparr>)"

definition socket_send_status :: "int \<Rightarrow> snd_status" where
  "socket_send_status rc =
     (if rc > 0 then \<lparr>snd_code = NETCTX_SND_OK, snd_rc = 0, sbytes = nat rc\<rparr>
      else if rc = SSL_WANT_WRITE then \<lparr>snd_code = NETCTX_SND_RETRY, snd_rc = POLL_WRITE, sbytes = 0\<rparr>
      else \<lparr>snd_code = NETCTX_SND_ERROR, snd_rc = rc, sbytes = 0\<rparr>)"

definition socket_poll :: "'b net \<Rightarrow> poll_status \<times> 'b net" where
  "socket_poll w =
     (let (rc, w') = raw_poll w in
      (if rc < 0 then \<lparr>poll_code = NETCTX_POLL_ERROR, poll_rc = rc\<rparr>
       else if rc = 0 then \<lparr>poll_code = NETCTX_POLL_ERROR, poll_rc = SSL_TIMEOUT\<rparr>
       else \<lparr>poll_code = NETCTX_POLL_OK, poll_rc = rc\<rparr>, w'))"

text \<open>\<^verbatim>\<open>getsockname\<close> answers \<open>Some (family, port)\<close>; 2 is \<^verbatim>\<open>AF_INET\<close>, 23 \<^verbatim>\<open>AF_INET6\<close>. The port is
  in network order (\<^verbatim>\<open>ntohs\<close> swaps the bytes). The result is \<open>None\<close> for \<^verbatim>\<open>false\<close>.\<close>

definition ntohs :: "nat \<Rightarrow> nat" where
  "ntohs p = (p mod 256) * 256 + p div 256 mod 256"

definition socket_get_port :: "(nat \<times> nat) option \<Rightarrow> 'b net \<Rightarrow> nat option" where
  "socket_get_port sockname w =
     (if socket_is_connected w then
        (case sockname of
           None \<Rightarrow> None
         | Some (family, p) \<Rightarrow> if family = 2 \<or> family = 23 then Some (ntohs p) else None)
      else None)"

text \<open>\<^verbatim>\<open>Socket::accept\<close> on the listening socket \<open>w\<close> for the client socket \<open>c\<close>: the call is repeated
  while it answers \<^verbatim>\<open>WANT_READ\<close>.\<close>

fun accept_loop :: "int list \<Rightarrow> int \<times> int list" where
  "accept_loop [] = (NET_SOCKET_FAILED, [])"
| "accept_loop (rc # cs) = (if rc = SSL_WANT_READ then accept_loop cs else (rc, cs))"

definition socket_accept :: "'b net \<Rightarrow> 'c net \<Rightarrow> int \<times> 'b net \<times> 'c net" where
  "socket_accept w c =
     (if \<not> socket_is_connected w then (NET_INVALID_CONTEXT, w, c)
      else if socket_is_connected c then (NET_INVALID_CONTEXT, w, c)
      else (let (rc, cs) = accept_loop (calls w); w' = w\<lparr>calls := cs\<rparr> in
        if rc \<ge> 0 then (0, w', c\<lparr>fd := rc\<rparr>) else (rc, w', c)))"

section \<open>TlsContext\<close>

definition tls_recv_status :: "int \<Rightarrow> rcv_status" where
  "tls_recv_status rc =
     (if rc > 0 then \<lparr>rcv_code = NETCTX_RCV_OK, rcv_rc = 0, rbytes = nat rc\<rparr>
      else if rc = SSL_PEER_CLOSE_NOTIFY \<or> rc = 0 then \<lparr>rcv_code = NETCTX_RCV_EOF, rcv_rc = 0, rbytes = 0\<rparr>
      else if rc = SSL_WANT_READ then \<lparr>rcv_code = NETCTX_RCV_RETRY, rcv_rc = POLL_READ, rbytes = 0\<rparr>
      else if rc = SSL_WANT_WRITE then \<lparr>rcv_code = NETCTX_RCV_RETRY, rcv_rc = POLL_WRITE, rbytes = 0\<rparr>
      else \<lparr>rcv_code = NETCTX_RCV_ERROR, rcv_rc = rc, rbytes = 0\<rparr>)"

definition tls_send_status :: "int \<Rightarrow> snd_status" where
  "tls_send_status rc =
     (if rc > 0 then \<lparr>snd_code = NETCTX_SND_OK, snd_rc = 0, sbytes = nat rc\<rparr>
      else if rc = SSL_WANT_READ then \<lparr>snd_code = NETCTX_SND_RETRY, snd_rc = POLL_READ, sbytes = 0\<rparr>
      else if rc = SSL_WANT_WRITE then \<lparr>snd_code = NETCTX_SND_RETRY, snd_rc = POLL_WRITE, sbytes = 0\<rparr>
      else \<lparr>snd_code = NETCTX_SND_ERROR, snd_rc = rc, sbytes = 0\<rparr>)"

definition tls_close_status :: "int \<Rightarrow> close_status" where
  "tls_close_status rc =
     (if rc = 0 then \<lparr>close_code = SSLCTX_CLOSE_OK, close_rc = 0\<rparr>
      else if rc = SSL_WANT_READ then \<lparr>close_code = SSLCTX_CLOSE_RETRY, close_rc = POLL_READ\<rparr>
      else if rc = SSL_WANT_WRITE then \<lparr>close_code = SSLCTX_CLOSE_RETRY, close_rc = POLL_WRITE\<rparr>
      else \<lparr>close_code = SSLCTX_CLOSE_ERROR, close_rc = rc\<rparr>)"

definition tls_handshake_status :: "int \<Rightarrow> hdk_status" where
  "tls_handshake_status rc =
     (if rc = 0 then \<lparr>hdk_code = SSLCTX_HDK_OK, hdk_rc = 0\<rparr>
      else if rc = SSL_WANT_READ then \<lparr>hdk_code = SSLCTX_HDK_WAIT_IO, hdk_rc = POLL_READ\<rparr>
      else if rc = SSL_WANT_WRITE then \<lparr>hdk_code = SSLCTX_HDK_WAIT_IO, hdk_rc = POLL_WRITE\<rparr>
      else if rc = SSL_ASYNC_IN_PROGRESS \<or> rc = SSL_CRYPTO_IN_PROGRESS then
        \<lparr>hdk_code = SSLCTX_HDK_WAIT_ASYNC, hdk_rc = rc\<rparr>
      else \<lparr>hdk_code = SSLCTX_HDK_ERROR, hdk_rc = rc\<rparr>)"

section \<open>recv_data and send_data\<close>

definition recv_data :: "nat \<Rightarrow> 'b net \<Rightarrow> rcv_status \<times> 'b list \<times> 'b net" where
  "recv_data len w =
     (let (rc, bs, w') = raw_recv len w
      in (if is_tls w then tls_recv_status rc else socket_recv_status rc, bs, w'))"

definition send_data :: "'b list \<Rightarrow> 'b net \<Rightarrow> snd_status \<times> 'b net" where
  "send_data buf w =
     (let (rc, w') = raw_send buf w
      in (if is_tls w then tls_send_status rc else socket_send_status rc, w'))"

lemma recv_data_measure:
  assumes "recv_data len w = (st, bs, w')" and "0 < len"
  shows "rcv_code st = NETCTX_RCV_OK \<Longrightarrow>
      bs \<noteq> [] \<and> rbytes st = length bs \<and> length bs \<le> len \<and> length (recvs w') \<le> length (recvs w)"
    and "rcv_code st \<noteq> NETCTX_RCV_OK \<Longrightarrow> bs = [] \<and> rbytes st = 0"
    and "polls w' = polls w" "sends w' = sends w" "wire w' = wire w" "is_tls w' = is_tls w"
    and "recvs w \<noteq> [] \<Longrightarrow> rcv_code st \<noteq> NETCTX_RCV_OK \<Longrightarrow> length (recvs w') < length (recvs w)"
    and "recvs w = [] \<Longrightarrow> recvs w' = [] \<and> rcv_code st = NETCTX_RCV_RETRY"
    and "fd w' = fd w"
  using assms
  by (auto simp: recv_data_def raw_recv_def tls_recv_status_def socket_recv_status_def Let_def ssl_code_defs
      split: list.splits rx.splits if_splits)

lemma socket_poll_measure:
  assumes "socket_poll w = (p, w')"
  shows "poll_code p = NETCTX_POLL_OK \<Longrightarrow> length (polls w') < length (polls w)"
    and "length (polls w') \<le> length (polls w)"
    and "recvs w' = recvs w" "sends w' = sends w" "wire w' = wire w" "is_tls w' = is_tls w"
  using assms by (auto simp: socket_poll_def raw_poll_def Let_def split: list.splits if_splits)

section \<open>TcpSocket: reading and writing a whole buffer\<close>

text \<open>The loop of \<^verbatim>\<open>TcpSocket::read\<close>: \<open>got\<close> is what is already in the buffer, \<open>len\<close> what is
  still missing. The timer only bounds the wait inside \<^verbatim>\<open>poll\<close>, whose answer is scripted.\<close>

function read_loop :: "nat \<Rightarrow> 'b list \<Rightarrow> 'b net \<Rightarrow> rcv_status \<times> 'b list \<times> 'b net" where
  "read_loop len got w =
     (if len = 0 then (\<lparr>rcv_code = NETCTX_RCV_OK, rcv_rc = 0, rbytes = length got\<rparr>, got, w)
      else
        (case recv_data len w of (st, bs, w') \<Rightarrow>
          (case rcv_code st of
             NETCTX_RCV_OK \<Rightarrow> read_loop (len - rbytes st) (got @ bs) w'
           | NETCTX_RCV_RETRY \<Rightarrow>
               (case socket_poll w' of (p, w'') \<Rightarrow>
                 if poll_code p \<noteq> NETCTX_POLL_OK then
                   (\<lparr>rcv_code = NETCTX_RCV_ERROR, rcv_rc = poll_rc p, rbytes = length got\<rparr>, got, w'')
                 else read_loop len got w'')
           | code \<Rightarrow> (\<lparr>rcv_code = code, rcv_rc = rcv_rc st, rbytes = length got\<rparr>, got, w'))))"
  by pat_completeness auto

lemma read_loop_less:
  assumes "recv_data len w = (st, bs, w')" and "0 < len"
  shows "rcv_code st = NETCTX_RCV_OK \<Longrightarrow>
      len - rbytes st + length (recvs w') + length (polls w') < len + length (recvs w) + length (polls w)"
    and "socket_poll w' = (p, w'') \<Longrightarrow> poll_code p = NETCTX_POLL_OK \<Longrightarrow> rcv_code st = NETCTX_RCV_RETRY \<Longrightarrow>
      len + length (recvs w'') + length (polls w'') < len + length (recvs w) + length (polls w)"
proof -
  assume "rcv_code st = NETCTX_RCV_OK"
  with recv_data_measure(1,3) [OF assms] have "0 < rbytes st" "length (recvs w') \<le> length (recvs w)"
    "polls w' = polls w" by auto
  with assms(2) show "len - rbytes st + length (recvs w') + length (polls w') <
      len + length (recvs w) + length (polls w)" by auto
next
  assume p: "socket_poll w' = (p, w'')" "poll_code p = NETCTX_POLL_OK" and r: "rcv_code st = NETCTX_RCV_RETRY"
  have "length (recvs w') \<le> length (recvs w)"
    using recv_data_measure(7,8) [OF assms] r by (cases "recvs w = []") auto
  with socket_poll_measure(1,3) [OF p(1)] p(2) recv_data_measure(3) [OF assms]
  show "len + length (recvs w'') + length (polls w'') < len + length (recvs w) + length (polls w)"
    by simp
qed

termination read_loop
  by (relation "measure (\<lambda>(len, got, w). len + length (recvs w) + length (polls w))")
    (auto dest: read_loop_less(1) [OF sym] read_loop_less(2) [OF sym _ sym])

declare read_loop.simps [simp del]

definition tcp_read :: "nat \<Rightarrow> 'b net \<Rightarrow> rcv_status \<times> 'b list \<times> 'b net" where
  "tcp_read len w = read_loop len [] w"

text \<open>The loop of \<^verbatim>\<open>TcpSocket::write\<close> on the bytes still to send.\<close>

lemma take_min: "take (min (length xs) n) xs = take n xs"
  by (cases "n \<le> length xs") (simp_all add: min_def)

lemma send_data_measure:
  assumes "send_data buf w = (st, w')" and "buf \<noteq> []"
  shows "snd_code st = NETCTX_SND_OK \<Longrightarrow> 0 < sbytes st \<and> sbytes st \<le> length buf"
    and "snd_code st = NETCTX_SND_OK \<Longrightarrow> wire w' = wire w @ take (sbytes st) buf"
    and "snd_code st \<noteq> NETCTX_SND_OK \<Longrightarrow> wire w' = wire w"
    and "polls w' = polls w" "recvs w' = recvs w" "is_tls w' = is_tls w"
    and "length (sends w') \<le> length (sends w)"
    and "sends w = [] \<Longrightarrow> snd_code st = NETCTX_SND_RETRY"
    and "fd w' = fd w"
  using assms
  by (auto simp: send_data_def raw_send_def tls_send_status_def socket_send_status_def Let_def ssl_code_defs
      take_min split: list.splits if_splits)

function write_all_loop :: "'b list \<Rightarrow> nat \<Rightarrow> 'b net \<Rightarrow> snd_status \<times> 'b net" where
  "write_all_loop buf sent w =
     (if buf = [] then (\<lparr>snd_code = NETCTX_SND_OK, snd_rc = 0, sbytes = sent\<rparr>, w)
      else
        (case send_data buf w of (st, w') \<Rightarrow>
          (case snd_code st of
             NETCTX_SND_OK \<Rightarrow> write_all_loop (drop (sbytes st) buf) (sent + sbytes st) w'
           | NETCTX_SND_RETRY \<Rightarrow>
               (case socket_poll w' of (p, w'') \<Rightarrow>
                 if poll_code p \<noteq> NETCTX_POLL_OK then
                   (\<lparr>snd_code = NETCTX_SND_ERROR, snd_rc = poll_rc p, sbytes = sent\<rparr>, w'')
                 else write_all_loop buf sent w'')
           | NETCTX_SND_ERROR \<Rightarrow> (\<lparr>snd_code = NETCTX_SND_ERROR, snd_rc = snd_rc st, sbytes = sent\<rparr>, w'))))"
  by pat_completeness auto

lemma write_all_less:
  assumes "send_data buf w = (st, w')" and "buf \<noteq> []"
  shows "snd_code st = NETCTX_SND_OK \<Longrightarrow>
      length buf - sbytes st + length (sends w') + length (polls w') < length buf + length (sends w) + length (polls w)"
    and "socket_poll w' = (p, w'') \<Longrightarrow> poll_code p = NETCTX_POLL_OK \<Longrightarrow>
      length (sends w'') + length (polls w'') < length (sends w) + length (polls w)"
proof -
  assume "snd_code st = NETCTX_SND_OK"
  with send_data_measure(1,4,7) [OF assms] assms(2)
  show "length buf - sbytes st + length (sends w') + length (polls w') < length buf + length (sends w) + length (polls w)"
    by auto
next
  assume p: "socket_poll w' = (p, w'')" "poll_code p = NETCTX_POLL_OK"
  with socket_poll_measure(1,4) [OF p(1)] send_data_measure(4,7) [OF assms]
  show "length (sends w'') + length (polls w'') < length (sends w) + length (polls w)"
    by simp
qed

termination write_all_loop
  by (relation "measure (\<lambda>(buf, sent, w). length buf + length (sends w) + length (polls w))")
    (auto dest: write_all_less(1) [OF sym] write_all_less(2) [OF sym _ sym])

declare write_all_loop.simps [simp del]

definition tcp_write :: "'b list \<Rightarrow> 'b net \<Rightarrow> snd_status \<times> 'b net" where
  "tcp_write buf w = write_all_loop buf 0 w"

definition tcp_connect :: "'b net \<Rightarrow> int \<times> 'b net" where
  "tcp_connect w =
     (let (rc, w1) = socket_connect w in
      if rc \<noteq> 0 then (rc, w1) else set_blocking_mode False w1)"

section \<open>TlsSocket\<close>

text \<open>\<^verbatim>\<open>mbedtls_ssl_setup\<close> and \<^verbatim>\<open>mbedtls_ssl_set_hostname\<close> answer from \<open>calls\<close>.\<close>

definition tls_connect :: "'b net \<Rightarrow> int \<times> 'b net" where
  "tls_connect w =
     (let (rc, w1) = tcp_connect w in
      if rc \<noteq> 0 then (rc, w1)
      else (let (rc, w2) = raw_call w1 in
        if rc \<noteq> 0 then (rc, w2) else raw_call w2))"

text \<open>The handshake loop; an exhausted script answers \<^verbatim>\<open>NET_SOCKET_FAILED\<close>, an error.\<close>

function handshake_loop :: "'b net \<Rightarrow> hdk_status \<times> 'b net" where
  "handshake_loop w =
     (case raw_call w of (rc, w1) \<Rightarrow>
       let st = tls_handshake_status rc in
       (case hdk_code st of
          SSLCTX_HDK_WAIT_IO \<Rightarrow>
            (case socket_poll w1 of (p, w2) \<Rightarrow>
              if poll_code p \<noteq> NETCTX_POLL_OK then (\<lparr>hdk_code = SSLCTX_HDK_ERROR, hdk_rc = poll_rc p\<rparr>, w2)
              else handshake_loop w2)
        | SSLCTX_HDK_WAIT_ASYNC \<Rightarrow>
            (case elapsed w1 of
               True # e \<Rightarrow> (\<lparr>hdk_code = SSLCTX_HDK_ERROR, hdk_rc = SSL_TIMEOUT\<rparr>, w1\<lparr>elapsed := e\<rparr>)
             | False # e \<Rightarrow> handshake_loop (w1\<lparr>elapsed := e\<rparr>)
             | [] \<Rightarrow> (\<lparr>hdk_code = SSLCTX_HDK_ERROR, hdk_rc = SSL_TIMEOUT\<rparr>, w1))
        | _ \<Rightarrow> (st, w1)))"
  by pat_completeness auto

lemma raw_call_calls: "raw_call w = (rc, w1) \<Longrightarrow> calls w1 = tl (calls w)"
  by (auto simp: raw_call_def split: list.splits)

lemma socket_poll_calls: "socket_poll w = (p, w2) \<Longrightarrow> calls w2 = calls w"
  by (auto simp: socket_poll_def raw_poll_def Let_def split: list.splits)

lemma handshake_wait_calls:
  "raw_call w = (rc, w1) \<Longrightarrow> hdk_code (tls_handshake_status rc) \<in> {SSLCTX_HDK_WAIT_IO, SSLCTX_HDK_WAIT_ASYNC} \<Longrightarrow>
   length (calls w1) < length (calls w)"
  by (auto simp: raw_call_def tls_handshake_status_def ssl_code_defs split: list.splits if_splits)

termination handshake_loop
  by (relation "measure (\<lambda>w. length (calls w))")
    (auto dest!: handshake_wait_calls [OF sym] socket_poll_calls [OF sym])

declare handshake_loop.simps [simp del]

function close_notify_loop :: "'b net \<Rightarrow> int \<times> 'b net" where
  "close_notify_loop w =
     (case raw_call w of (rc, w1) \<Rightarrow>
       let st = tls_close_status rc in
       if close_code st = SSLCTX_CLOSE_RETRY then
         (case socket_poll w1 of (p, w2) \<Rightarrow>
           if poll_code p \<noteq> NETCTX_POLL_OK then (poll_rc p, w2) else close_notify_loop w2)
       else (close_rc st, w1))"
  by pat_completeness auto

lemma close_retry_calls:
  "raw_call w = (rc, w1) \<Longrightarrow> close_code (tls_close_status rc) = SSLCTX_CLOSE_RETRY \<Longrightarrow>
   length (calls w1) < length (calls w)"
  by (auto simp: raw_call_def tls_close_status_def ssl_code_defs split: list.splits if_splits)

termination close_notify_loop
  by (relation "measure (\<lambda>w. length (calls w))") (auto dest!: close_retry_calls [OF sym] socket_poll_calls [OF sym])

declare close_notify_loop.simps [simp del]

definition tls_shutdown :: "'b net \<Rightarrow> int \<times> 'b net" where
  "tls_shutdown w =
     (if socket_is_connected w then
        (let (rc, w1) = close_notify_loop w; (_, w2) = socket_shutdown w1 in (rc, w2))
      else (0, w))"

section \<open>The byte source behind a connection\<close>

text \<open>What a connection will deliver: the bytes up to the first event that ends a read, and
  how the read ends there. A retry is followed by a wait, which may end the read.\<close>

type_synonym 'b source = "'b list \<times> rcv_code \<times> int"

fun wait_source :: "int list \<Rightarrow> 'b source" where
  "wait_source [] = ([], NETCTX_RCV_ERROR, SSL_TIMEOUT)"
| "wait_source (p # ps) =
     (if p > 0 then wait_source ps else ([], NETCTX_RCV_ERROR, if p < 0 then p else SSL_TIMEOUT))"

fun source_of :: "bool \<Rightarrow> 'b rx list \<Rightarrow> int list \<Rightarrow> 'b source" where
  "source_of tls [] ps = wait_source ps"
| "source_of tls (Data bs # r) ps =
     (if bs = [] then ([], NETCTX_RCV_EOF, 0)
      else (bs @ fst (source_of tls r ps), snd (source_of tls r ps)))"
| "source_of tls (Ret rc # r) ps =
     (let st = (if tls then tls_recv_status (min rc 0) else socket_recv_status (min rc 0)) in
      if rcv_code st = NETCTX_RCV_RETRY then
        (case ps of
           [] \<Rightarrow> ([], NETCTX_RCV_ERROR, SSL_TIMEOUT)
         | p # ps' \<Rightarrow> if p > 0 then source_of tls r ps'
             else ([], NETCTX_RCV_ERROR, if p < 0 then p else SSL_TIMEOUT))
      else ([], rcv_code st, rcv_rc st))"

definition source :: "'b net \<Rightarrow> 'b source" where
  "source w = source_of (is_tls w) (recvs w) (polls w)"

lemma source_recv_ok:
  assumes "recv_data len w = (st, bs, w')" "rcv_code st = NETCTX_RCV_OK" "0 < len"
  shows "source w = (bs @ fst (source w'), snd (source w'))"
  using assms
  by (auto simp: source_def recv_data_def raw_recv_def tls_recv_status_def socket_recv_status_def Let_def
      ssl_code_defs split: list.splits rx.splits if_splits)

lemma source_recv_end:
  assumes "recv_data len w = (st, bs, w')" "rcv_code st \<noteq> NETCTX_RCV_OK" "rcv_code st \<noteq> NETCTX_RCV_RETRY"
    and "0 < len"
  shows "source w = ([], rcv_code st, rcv_rc st)"
  using assms
  by (auto simp: source_def recv_data_def raw_recv_def tls_recv_status_def socket_recv_status_def Let_def
      ssl_code_defs split: list.splits rx.splits if_splits)

lemma recv_status_nonneg:
  "0 \<le> rc \<Longrightarrow> rcv_code (if tls then tls_recv_status rc else socket_recv_status rc) \<noteq> NETCTX_RCV_RETRY"
  by (simp add: tls_recv_status_def socket_recv_status_def ssl_code_defs)

lemma source_retry:
  assumes "recv_data len w = (st, bs, w')" "rcv_code st = NETCTX_RCV_RETRY" "socket_poll w' = (p, w'')" "0 < len"
  shows "source w = (if poll_code p = NETCTX_POLL_OK then source w'' else ([], NETCTX_RCV_ERROR, poll_rc p))"
proof -
  note pd = socket_poll_def raw_poll_def Let_def
  show ?thesis
  proof (cases "recvs w")
    case Nil
    then have "w' = w" using assms(1) by (simp add: recv_data_def raw_recv_def)
    with Nil assms(3) show ?thesis
      by (cases "polls w") (auto simp: source_def pd split: if_splits)
  next
    case (Cons d r)
    show ?thesis
    proof (cases d)
      case (Data xs)
      then have "st = (if is_tls w then tls_recv_status (int (length (take len xs))) else socket_recv_status (int (length (take len xs))))"
        using Cons assms(1) by (auto simp: recv_data_def raw_recv_def)
      with assms(2) recv_status_nonneg [of "int (length (take len xs))" "is_tls w"] show ?thesis by simp
    next
      case (Ret rc)
      then have st: "st = (if is_tls w then tls_recv_status (min rc 0) else socket_recv_status (min rc 0))"
        "w' = w\<lparr>recvs := r\<rparr>"
        using Cons assms(1) by (simp_all add: recv_data_def raw_recv_def)
      with Cons Ret assms(2,3) show ?thesis
        by (cases "polls w") (auto simp: source_def pd split: if_splits)
    qed
  qed
qed

lemma recv_status_not_ok:
  "rcv_code (tls_recv_status (min rc 0)) \<noteq> NETCTX_RCV_OK" "rcv_code (socket_recv_status (min rc 0)) \<noteq> NETCTX_RCV_OK"
  by (simp_all add: tls_recv_status_def socket_recv_status_def)

lemma source_not_retry: "fst (snd (source w)) \<noteq> NETCTX_RCV_RETRY \<and> fst (snd (source w)) \<noteq> NETCTX_RCV_OK"
proof -
  have wt: "fst (snd (wait_source ps)) = NETCTX_RCV_ERROR" for ps :: "int list"
    by (induction ps rule: wait_source.induct) auto
  have "fst (snd (source_of tls r ps)) \<noteq> NETCTX_RCV_RETRY \<and> fst (snd (source_of tls r ps)) \<noteq> NETCTX_RCV_OK"
    for tls ps and r :: "'a rx list"
    by (induction tls r ps rule: source_of.induct)
      (auto simp: wt Let_def recv_status_not_ok split: list.splits, blast+)
  then show ?thesis by (simp add: source_def)
qed

text \<open>The read loop takes exactly what is asked for when the source has it, and everything the
  source has, with its end, otherwise.\<close>

lemma read_loop_spec:
  assumes "read_loop len got w = (st, bs, w')" and "source w = (avail, c, rc)"
  shows "if len \<le> length avail
    then st = \<lparr>rcv_code = NETCTX_RCV_OK, rcv_rc = 0, rbytes = length got + len\<rparr> \<and>
      bs = got @ take len avail \<and> source w' = (drop len avail, c, rc)
    else st = \<lparr>rcv_code = c, rcv_rc = rc, rbytes = length got + length avail\<rparr> \<and> bs = got @ avail"
  using assms
proof (induction len got w arbitrary: avail rule: read_loop.induct)
  case (1 len got w)
  show ?case
  proof (cases "len = 0")
    case True
    with 1(3,4) show ?thesis by (auto simp: read_loop.simps)
  next
    case len: False
    obtain s b w1 where r: "recv_data len w = (s, b, w1)" by (cases "recv_data len w") auto
    obtain p w2 where p: "socket_poll w1 = (p, w2)" by (cases "socket_poll w1") auto
    note m = recv_data_measure [OF r, simplified len]
    show ?thesis
    proof (cases "rcv_code s")
      case NETCTX_RCV_OK
      with 1(3) r len have rec: "read_loop (len - rbytes s) (got @ b) w1 = (st, bs, w')"
        by (simp add: read_loop.simps [of len])
      obtain a where av: "source w1 = (a, c, rc)" "avail = b @ a"
        using source_recv_ok [OF r NETCTX_RCV_OK] 1(4) len by (cases "source w1") auto
      from 1(1) [OF len _ _ NETCTX_RCV_OK rec av(1)] r
      have ih: "if len - rbytes s \<le> length a
        then st = \<lparr>rcv_code = NETCTX_RCV_OK, rcv_rc = 0, rbytes = length (got @ b) + (len - rbytes s)\<rparr> \<and>
          bs = (got @ b) @ take (len - rbytes s) a \<and> source w' = (drop (len - rbytes s) a, c, rc)
        else st = \<lparr>rcv_code = c, rcv_rc = rc, rbytes = length (got @ b) + length a\<rparr> \<and> bs = (got @ b) @ a"
        by simp
      have "rbytes s = length b" "length b \<le> len" using m(1) NETCTX_RCV_OK len by auto
      with ih av(2) show ?thesis by (auto split: if_splits)
    next
      case NETCTX_RCV_RETRY
      show ?thesis
      proof (cases "poll_code p = NETCTX_POLL_OK")
        case True
        with 1(3) r p len NETCTX_RCV_RETRY have "read_loop len got w2 = (st, bs, w')"
          by (simp add: read_loop.simps [of len])
        moreover have "source w2 = (avail, c, rc)"
          using source_retry [OF r NETCTX_RCV_RETRY p] True 1(4) len by simp
        ultimately show ?thesis
          using 1(2) [OF len _ _ NETCTX_RCV_RETRY] r p True
          by auto
      next
        case False
        with source_retry [OF r NETCTX_RCV_RETRY p] 1(3,4) r p len NETCTX_RCV_RETRY
        show ?thesis by (auto simp: read_loop.simps [of len])
      qed
    next
      case NETCTX_RCV_ERROR
      with source_recv_end [OF r] 1(3,4) r len show ?thesis by (auto simp: read_loop.simps [of len])
    next
      case NETCTX_RCV_EOF
      with source_recv_end [OF r] 1(3,4) r len show ?thesis by (auto simp: read_loop.simps [of len])
    qed
  qed
qed

section \<open>Writing\<close>

lemma write_all_spec:
  assumes "write_all_loop buf sent w = (st, w')"
  shows "\<exists>n. n \<le> length buf \<and> sbytes st = sent + n \<and> wire w' = wire w @ take n buf \<and>
     (snd_code st = NETCTX_SND_OK \<longleftrightarrow> n = length buf) \<and> snd_code st \<noteq> NETCTX_SND_RETRY"
  using assms
proof (induction buf sent w rule: write_all_loop.induct)
  case (1 buf sent w)
  show ?case
  proof (cases "buf = []")
    case True
    with 1(3) show ?thesis by (auto simp: write_all_loop.simps)
  next
    case buf: False
    obtain s w1 where r: "send_data buf w = (s, w1)" by (cases "send_data buf w") auto
    obtain p w2 where p: "socket_poll w1 = (p, w2)" by (cases "socket_poll w1") auto
    note m = send_data_measure [OF r buf]
    show ?thesis
    proof (cases "snd_code s")
      case NETCTX_SND_OK
      with 1(3) r buf have rec: "write_all_loop (drop (sbytes s) buf) (sent + sbytes s) w1 = (st, w')"
        by (simp add: write_all_loop.simps [of buf])
      from 1(1) [OF buf _ NETCTX_SND_OK rec] r obtain n where
        n: "n \<le> length (drop (sbytes s) buf)" "sbytes st = sent + sbytes s + n"
          "wire w' = wire w1 @ take n (drop (sbytes s) buf)"
          "snd_code st = NETCTX_SND_OK \<longleftrightarrow> n = length (drop (sbytes s) buf)" "snd_code st \<noteq> NETCTX_SND_RETRY"
        by auto
      have "wire w' = wire w @ take (sbytes s + n) buf"
        using n(3) m(2) [OF NETCTX_SND_OK] by (simp add: take_add)
      moreover have "sbytes s + n \<le> length buf" using n(1) m(1) [OF NETCTX_SND_OK] by auto
      moreover have "snd_code st = NETCTX_SND_OK \<longleftrightarrow> sbytes s + n = length buf"
        using n(4) m(1) [OF NETCTX_SND_OK] by auto
      ultimately show ?thesis using n(2,5) by (intro exI [of _ "sbytes s + n"]) simp
    next
      case NETCTX_SND_RETRY
      have same: "wire w2 = wire w"
        using m(3) NETCTX_SND_RETRY socket_poll_measure(5) [OF p] by simp
      show ?thesis
      proof (cases "poll_code p = NETCTX_POLL_OK")
        case True
        with 1(3) r p buf NETCTX_SND_RETRY have "write_all_loop buf sent w2 = (st, w')"
          by (simp add: write_all_loop.simps [of buf])
        with 1(2) [OF buf _ NETCTX_SND_RETRY] r p True same show ?thesis by auto
      next
        case False
        with 1(3) r p buf NETCTX_SND_RETRY same show ?thesis by (auto simp: write_all_loop.simps [of buf])
      qed
    next
      case NETCTX_SND_ERROR
      with 1(3) r buf m(3) show ?thesis by (auto simp: write_all_loop.simps [of buf])
    qed
  qed
qed

section \<open>Handshake and shutdown\<close>

lemma handshake_loop_ok:
  "handshake_loop w = (st, w') \<Longrightarrow>
     hdk_code st \<noteq> SSLCTX_HDK_WAIT_IO \<and> hdk_code st \<noteq> SSLCTX_HDK_WAIT_ASYNC \<and>
     (hdk_code st = SSLCTX_HDK_OK \<longrightarrow> 0 \<in> set (calls w))"
proof (induction w rule: handshake_loop.induct)
  case (1 w)
  obtain rc w1 where r: "raw_call w = (rc, w1)" by (cases "raw_call w") auto
  obtain p w2 where p: "socket_poll w1 = (p, w2)" by (cases "socket_poll w1") auto
  have sub: "set (calls w1) \<subseteq> set (calls w)"
    using raw_call_calls [OF r] by (cases "calls w") auto
  have ok: "hdk_code (tls_handshake_status rc) = SSLCTX_HDK_OK \<Longrightarrow> 0 \<in> set (calls w)"
    using r by (auto simp: raw_call_def tls_handshake_status_def ssl_code_defs split: list.splits if_splits)
  show ?case
  proof (cases "hdk_code (tls_handshake_status rc)")
    case SSLCTX_HDK_OK
    with 1(3) r ok show ?thesis by (auto simp: handshake_loop.simps [of w] Let_def)
  next
    case SSLCTX_HDK_WAIT_IO
    with 1(1) [OF _ refl SSLCTX_HDK_WAIT_IO] 1(3) r p sub socket_poll_calls [OF p] show ?thesis
      by (auto simp: handshake_loop.simps [of w] Let_def split: if_splits)
  next
    case SSLCTX_HDK_WAIT_ASYNC
    with 1(2) 1(3) r sub show ?thesis
      by (auto simp: handshake_loop.simps [of w] Let_def split: list.splits bool.splits)
  next
    case SSLCTX_HDK_ERROR
    with 1(3) r show ?thesis by (auto simp: handshake_loop.simps [of w] Let_def)
  qed
qed

lemma tls_shutdown_fd: "fd (snd (tls_shutdown w)) = -1"
  by (auto simp: tls_shutdown_def socket_shutdown_def socket_is_connected_def split: prod.splits)

lemma close_notify_wire: "wire (snd (close_notify_loop w)) = wire w"
proof (induction w rule: close_notify_loop.induct)
  case (1 w)
  obtain rc w1 where r: "raw_call w = (rc, w1)" by (cases "raw_call w")
  obtain p w2 where s: "socket_poll w1 = (p, w2)" by (cases "socket_poll w1")
  have "wire w1 = wire w" "wire w2 = wire w1"
    using r s by (auto simp: raw_call_def socket_poll_def raw_poll_def Let_def split: list.splits)
  with 1 [OF r [symmetric] refl _ s [symmetric]] r s show ?case
    by (subst close_notify_loop.simps) (simp add: Let_def)
qed

lemma tls_shutdown_wire: "wire (snd (tls_shutdown w)) = wire w"
  using close_notify_wire [of w] by (auto simp: tls_shutdown_def socket_shutdown_def Let_def split: prod.splits)

section \<open>Properties\<close>

text \<open>C35. \<open>tcp_read\<close> implements reading from a byte source, over a plain or a TLS socket: it
  delivers the next \<open>len\<close> bytes of the source and leaves the rest when the source has them,
  however they arrived in pieces and whatever retries came in between; otherwise it delivers what
  the source has and reports how the source ends.\<close>

theorem tcp_read_refines_source:
  assumes "tcp_read len w = (st, bs, w')" and "source w = (avail, c, rc)"
  shows "if len \<le> length avail
    then st = \<lparr>rcv_code = NETCTX_RCV_OK, rcv_rc = 0, rbytes = len\<rparr> \<and>
      bs = take len avail \<and> source w' = (drop len avail, c, rc)
    else st = \<lparr>rcv_code = c, rcv_rc = rc, rbytes = length avail\<rparr> \<and> bs = avail"
  using read_loop_spec [OF assms(1) [unfolded tcp_read_def] assms(2)] by simp

definition demo_net :: "string net" where
  "demo_net = \<lparr>is_tls = True, fd = 3, blocking = False, recvs = [Data [''a''], Ret SSL_WANT_READ, Data [''b'', ''c'']],
     sends = [1, SSL_WANT_WRITE, 5], polls = [1, 2], calls = [], elapsed = [], wire = []\<rparr>"

theorem tcp_read_refines_source_witness:
  "\<exists>w'. tcp_read 2 demo_net = (\<lparr>rcv_code = NETCTX_RCV_OK, rcv_rc = 0, rbytes = 2\<rparr>, [''a'', ''b''], w') \<and>
     source w' = ([''c''], NETCTX_RCV_ERROR, SSL_TIMEOUT)"
proof -
  have "source demo_net = ([''a'', ''b'', ''c''], NETCTX_RCV_ERROR, SSL_TIMEOUT)" by code_simp
  moreover obtain st bs w' where r: "tcp_read 2 demo_net = (st, bs, w')" by (cases "tcp_read 2 demo_net")
  ultimately show ?thesis using tcp_read_refines_source [OF r] r by simp
qed

text \<open>\<open>tcp_write\<close> puts a prefix of the buffer on the wire, in order and without a gap, and
  reports its length; it reports success exactly when the whole buffer is sent.\<close>

theorem tcp_write_prefix:
  assumes "tcp_write buf w = (st, w')"
  shows "sbytes st \<le> length buf \<and> wire w' = wire w @ take (sbytes st) buf \<and>
     (snd_code st = NETCTX_SND_OK \<longleftrightarrow> sbytes st = length buf)"
  using write_all_spec [OF assms [unfolded tcp_write_def]] by auto

theorem tcp_write_prefix_witness:
  "\<exists>st w'. tcp_write [''x'', ''y''] demo_net = (st, w') \<and> wire w' = take (sbytes st) [''x'', ''y'']"
proof -
  obtain st w' where s: "tcp_write [''x'', ''y''] demo_net = (st, w')" by (cases "tcp_write [''x'', ''y''] demo_net")
  from tcp_write_prefix [OF s] have "wire w' = take (sbytes st) [''x'', ''y'']" by (simp add: demo_net_def)
  with s show ?thesis by blast
qed

text \<open>The TLS life cycle: the handshake loop ends without a pending wait and succeeds only
  when \<^verbatim>\<open>mbedtls_ssl_handshake\<close> returned 0, a socket that connected has a descriptor and is not
  blocking, and after a shutdown it has none, whatever \<^verbatim>\<open>close_notify\<close> answered.\<close>

theorem tls_life_cycle:
  "(let st = fst (handshake_loop w) in hdk_code st \<in> {SSLCTX_HDK_OK, SSLCTX_HDK_ERROR} \<and>
      (0 \<notin> set (calls w) \<longrightarrow> hdk_code st = SSLCTX_HDK_ERROR)) \<and>
   (fst (tls_connect w) = 0 \<longrightarrow> 0 \<le> fd (snd (tls_connect w)) \<and> \<not> blocking (snd (tls_connect w))) \<and>
   fd (snd (tls_shutdown w)) = -1"
proof (intro conjI)
  obtain st w' where "handshake_loop w = (st, w')" by (cases "handshake_loop w")
  from handshake_loop_ok [OF this] this
  show "let st = fst (handshake_loop w) in hdk_code st \<in> {SSLCTX_HDK_OK, SSLCTX_HDK_ERROR} \<and>
      (0 \<notin> set (calls w) \<longrightarrow> hdk_code st = SSLCTX_HDK_ERROR)"
    by (cases "hdk_code st") auto
  show "fst (tls_connect w) = 0 \<longrightarrow> 0 \<le> fd (snd (tls_connect w)) \<and> \<not> blocking (snd (tls_connect w))"
    by (auto simp: tls_connect_def tcp_connect_def socket_connect_def open_fd_def set_blocking_mode_def
        raw_call_def socket_is_connected_def ssl_code_defs Let_def split: list.splits if_splits)
  show "fd (snd (tls_shutdown w)) = -1"
    by (simp add: tls_shutdown_def socket_shutdown_def socket_is_connected_def split: prod.split)
qed

theorem tls_life_cycle_witness:
  "let w = demo_net\<lparr>fd := -1, calls := [7, 0, 0, 0]\<rparr> in
     0 \<le> fd (snd (tls_connect w)) \<and> \<not> blocking (snd (tls_connect w))"
proof -
  let ?w = "demo_net\<lparr>fd := -1, calls := [7, 0, 0, 0]\<rparr>"
  have "fst (tls_connect ?w) = 0" by code_simp
  with tls_life_cycle [of ?w] show ?thesis by (simp add: Let_def)
qed

text \<open>\<open>set_nodelay\<close> never reports success: it returns \<^verbatim>\<open>MBEDTLS_ERR_NET_INVALID_CONTEXT\<close> even when
  \<^verbatim>\<open>setsockopt\<close> succeeded on a connected socket.\<close>

theorem set_nodelay_never_ok: "fst (set_nodelay no_delay w) = NET_INVALID_CONTEXT"
  by (simp add: set_nodelay_def split: prod.split)

end
