(* ===== verification/Pbuf.thy ===== *)
theory Pbuf
  imports Prelude "HOL-Library.Word"
begin

text \<open>
  lwIP packet buffers (\<^verbatim>\<open>lib/lwip/src/core/pbuf.c\<close>), the part FortiRDP uses: allocation of a
  \<^verbatim>\<open>PBUF_RAM\<close> buffer, reference counting, chaining and copying into a chain.

  The heap is an explicit store, since chains share cells: a list of cells whose indices are the
  addresses, \<open>None\<close> being a cell that was freed. A null pointer is \<open>None\<close>. The result \<open>None\<close> of an
  operation is a fault: a null or dangling pointer is dereferenced, an \<^verbatim>\<open>LWIP_ASSERT\<close> fails, or a
  loop walks a cyclic chain for ever. \<^verbatim>\<open>len\<close> is the length of the payload, \<^verbatim>\<open>tot_len\<close> and the
  8-bit reference count wrap as in C.
\<close>

section \<open>Cells and the heap\<close>

type_synonym byte = "8 word"
type_synonym addr = nat

record pbuf =
  pb_next :: "addr option"
  pb_payload :: "byte list"
  pb_tot_len :: nat
  pb_flags :: byte
  pb_ref :: "8 word"

type_synonym pheap = "pbuf option list"

definition pb_len :: "pbuf \<Rightarrow> nat" where
  "pb_len p = length (pb_payload p)"

definition heap_at :: "pheap \<Rightarrow> addr \<Rightarrow> pbuf option" where
  "heap_at h a = (if a < length h then h ! a else None)"

definition heap_put :: "pheap \<Rightarrow> addr \<Rightarrow> pbuf \<Rightarrow> pheap" where
  "heap_put h a p = h[a := Some p]"

lemma heap_at_put [chain_simps]:
  "a < length h \<Longrightarrow> heap_at (heap_put h a p) x = (if x = a then Some p else heap_at h x)"
  by (auto simp: heap_at_def heap_put_def)

lemma heap_at_length: "heap_at h a = Some p \<Longrightarrow> a < length h"
  by (auto simp: heap_at_def split: if_splits)

lemma length_heap_put [simp]: "length (heap_put h a p) = length h"
  by (simp add: heap_put_def)

lemma heap_at_del [chain_simps]: "heap_at (h[a := None]) x = (if x = a then None else heap_at h x)"
  by (auto simp: heap_at_def nth_list_update)

section \<open>The lwIP error codes\<close>

type_synonym lwip_err = int

definition ERR_OK :: lwip_err where "ERR_OK = 0"
definition ERR_MEM :: lwip_err where "ERR_MEM = -1"
definition ERR_BUF :: lwip_err where "ERR_BUF = -2"
definition ERR_VAL :: lwip_err where "ERR_VAL = -6"
definition ERR_CONN :: lwip_err where "ERR_CONN = -11"
definition ERR_IF :: lwip_err where "ERR_IF = -12"
definition ERR_ABRT :: lwip_err where "ERR_ABRT = -13"
definition ERR_ARG :: lwip_err where "ERR_ARG = -16"

lemmas lwip_err_defs = ERR_OK_def ERR_MEM_def ERR_BUF_def ERR_VAL_def ERR_CONN_def ERR_IF_def
  ERR_ABRT_def ERR_ARG_def

section \<open>Allocation and reference counting\<close>

text \<open>\<^verbatim>\<open>pbuf_alloc(PBUF_RAW, length, PBUF_RAM)\<close>. \<open>mem\<close> is what \<^verbatim>\<open>mem_malloc\<close> answers: no memory, or a
  block with some contents, which is not cleared.\<close>

definition pbuf_init_alloced :: "byte list \<Rightarrow> nat \<Rightarrow> pbuf" where
  "pbuf_init_alloced payload len =
     \<lparr>pb_next = None, pb_payload = payload, pb_tot_len = len, pb_flags = 0, pb_ref = 1\<rparr>"

definition pbuf_alloc :: "byte list option \<Rightarrow> nat \<Rightarrow> pheap \<Rightarrow> addr option \<times> pheap" where
  "pbuf_alloc mem len h =
     (case mem of
        None \<Rightarrow> (None, h)
      | Some junk \<Rightarrow>
          (Some (length h),
           h @ [Some (pbuf_init_alloced (take (u16 len) (junk @ replicate (u16 len) 0)) (u16 len))]))"

text \<open>\<^verbatim>\<open>pbuf_free\<close>: drop a reference; a cell that has none left is released and the walk goes on
  with its successor. The result is the number of cells released (an 8-bit counter).\<close>

partial_function (option) pbuf_free_loop :: "pheap \<Rightarrow> addr option \<Rightarrow> nat \<Rightarrow> (nat \<times> pheap) option" where
  "pbuf_free_loop h p count =
     (case p of
        None \<Rightarrow> Some (count, h)
      | Some a \<Rightarrow>
          (case heap_at h a of
             None \<Rightarrow> None
           | Some b \<Rightarrow>
               if pb_ref b = 0 then None
               else if pb_ref b - 1 = 0 then
                 pbuf_free_loop (h[a := None]) (pb_next b) ((count + 1) mod 256)
               else Some (count, heap_put h a (b\<lparr>pb_ref := pb_ref b - 1\<rparr>))))"

definition pbuf_free :: "pheap \<Rightarrow> addr option \<Rightarrow> (nat \<times> pheap) option" where
  "pbuf_free h p = (if p = None then None else pbuf_free_loop h p 0)"

definition pbuf_ref :: "pheap \<Rightarrow> addr option \<Rightarrow> pheap option" where
  "pbuf_ref h p =
     (case p of
        None \<Rightarrow> Some h
      | Some a \<Rightarrow>
          (case heap_at h a of
             None \<Rightarrow> None
           | Some b \<Rightarrow> if pb_ref b + 1 = 0 then None else Some (heap_put h a (b\<lparr>pb_ref := pb_ref b + 1\<rparr>))))"

partial_function (option) pbuf_clen_loop :: "pheap \<Rightarrow> addr option \<Rightarrow> nat \<Rightarrow> nat option" where
  "pbuf_clen_loop h p len =
     (case p of
        None \<Rightarrow> Some len
      | Some a \<Rightarrow> (case heap_at h a of None \<Rightarrow> None | Some b \<Rightarrow> pbuf_clen_loop h (pb_next b) (u16 (len + 1))))"

definition pbuf_clen :: "pheap \<Rightarrow> addr option \<Rightarrow> nat option" where
  "pbuf_clen h p = pbuf_clen_loop h p 0"

section \<open>Chaining\<close>

text \<open>The walk of \<^verbatim>\<open>pbuf_cat\<close>: every cell of the first chain gets the total length of the second
  one added, which is read again from \<open>t\<close> at every step; the last one is linked to \<open>t\<close>.\<close>

partial_function (option) pbuf_cat_loop :: "pheap \<Rightarrow> addr \<Rightarrow> addr \<Rightarrow> pheap option" where
  "pbuf_cat_loop h a t =
     (case heap_at h a of
        None \<Rightarrow> None
      | Some b \<Rightarrow>
          (case heap_at h t of
             None \<Rightarrow> None
           | Some tb \<Rightarrow>
               (case pb_next b of
                  Some n \<Rightarrow>
                    pbuf_cat_loop (heap_put h a (b\<lparr>pb_tot_len := u16 (pb_tot_len b + pb_tot_len tb)\<rparr>)) n t
                | None \<Rightarrow>
                    if pb_tot_len b \<noteq> pb_len b then None
                    else Some (heap_put h a
                      (b\<lparr>pb_tot_len := u16 (pb_tot_len b + pb_tot_len tb), pb_next := Some t\<rparr>)))))"

definition pbuf_cat :: "pheap \<Rightarrow> addr option \<Rightarrow> addr option \<Rightarrow> pheap option" where
  "pbuf_cat h p t =
     (case (p, t) of
        (Some a, Some b) \<Rightarrow> if a = b then None else pbuf_cat_loop h a b
      | _ \<Rightarrow> None)"

definition pbuf_chain :: "pheap \<Rightarrow> addr option \<Rightarrow> addr option \<Rightarrow> pheap option" where
  "pbuf_chain h p t = (case pbuf_cat h p t of None \<Rightarrow> None | Some h' \<Rightarrow> pbuf_ref h' t)"

section \<open>Copying into a chain\<close>

partial_function (option) pbuf_skip :: "pheap \<Rightarrow> addr option \<Rightarrow> nat \<Rightarrow> (addr option \<times> nat) option" where
  "pbuf_skip h q offset =
     (case q of
        None \<Rightarrow> Some (None, offset)
      | Some a \<Rightarrow>
          (case heap_at h a of
             None \<Rightarrow> None
           | Some b \<Rightarrow>
               if pb_len b \<le> offset then pbuf_skip h (pb_next b) (u16 (offset - pb_len b))
               else Some (Some a, offset)))"

text \<open>\<^verbatim>\<open>memcpy\<close> of \<open>bs\<close> at an offset of a payload.\<close>

definition patch :: "byte list \<Rightarrow> nat \<Rightarrow> byte list \<Rightarrow> byte list" where
  "patch xs i bs = take i xs @ bs @ drop (i + length bs) xs"

partial_function (option) pbuf_take_loop :: "pheap \<Rightarrow> addr option \<Rightarrow> byte list \<Rightarrow> pheap option" where
  "pbuf_take_loop h p bs =
     (if bs = [] then Some h
      else
        (case p of
           None \<Rightarrow> None
         | Some a \<Rightarrow>
             (case heap_at h a of
                None \<Rightarrow> None
              | Some b \<Rightarrow>
                  let n = (if length bs > pb_len b then pb_len b else length bs) in
                  pbuf_take_loop (heap_put h a (b\<lparr>pb_payload := patch (pb_payload b) 0 (take n bs)\<rparr>))
                    (pb_next b) (drop n bs))))"

definition pbuf_take :: "pheap \<Rightarrow> addr option \<Rightarrow> byte list \<Rightarrow> (lwip_err \<times> pheap) option" where
  "pbuf_take h p bs =
     (case p of
        None \<Rightarrow> Some (ERR_ARG, h)
      | Some a \<Rightarrow>
          (case heap_at h a of
             None \<Rightarrow> None
           | Some b \<Rightarrow>
               if pb_tot_len b < length bs then Some (ERR_MEM, h)
               else map_option (Pair ERR_OK) (pbuf_take_loop h p bs)))"

definition pbuf_take_at :: "pheap \<Rightarrow> addr option \<Rightarrow> byte list \<Rightarrow> nat \<Rightarrow> (lwip_err \<times> pheap) option" where
  "pbuf_take_at h p bs offset =
     (case pbuf_skip h p offset of
        None \<Rightarrow> None
      | Some (None, _) \<Rightarrow> Some (ERR_MEM, h)
      | Some (Some a, target) \<Rightarrow>
          (case heap_at h a of
             None \<Rightarrow> None
           | Some b \<Rightarrow>
               if pb_tot_len b < target + length bs then Some (ERR_MEM, h)
               else
                 (let n = min (pb_len b - target) (length bs);
                      h' = heap_put h a (b\<lparr>pb_payload := patch (pb_payload b) target (take n bs)\<rparr>)
                  in if n < length bs then pbuf_take h' (pb_next b) (drop n bs) else Some (ERR_OK, h'))))"

section \<open>Well-formed chains\<close>

text \<open>\<open>path h p as\<close>: the chain that starts at \<open>p\<close> visits the cells \<open>as\<close> and ends in a null
  pointer.\<close>

fun path :: "pheap \<Rightarrow> addr option \<Rightarrow> addr list \<Rightarrow> bool" where
  "path h p [] \<longleftrightarrow> p = None"
| "path h p (a # as) \<longleftrightarrow> p = Some a \<and> (case heap_at h a of None \<Rightarrow> False | Some b \<Rightarrow> path h (pb_next b) as)"

definition payload_at :: "pheap \<Rightarrow> addr \<Rightarrow> byte list" where
  "payload_at h a = (case heap_at h a of None \<Rightarrow> [] | Some b \<Rightarrow> pb_payload b)"

definition ref_at :: "pheap \<Rightarrow> addr \<Rightarrow> 8 word" where
  "ref_at h a = (case heap_at h a of None \<Rightarrow> 0 | Some b \<Rightarrow> pb_ref b)"

definition tot_at :: "pheap \<Rightarrow> addr \<Rightarrow> nat" where
  "tot_at h a = (case heap_at h a of None \<Rightarrow> 0 | Some b \<Rightarrow> pb_tot_len b)"

definition chain_bytes :: "pheap \<Rightarrow> addr list \<Rightarrow> byte list" where
  "chain_bytes h as = concat (map (payload_at h) as)"

text \<open>Every cell knows the length of the rest of its packet, which fits 16 bits.\<close>

fun tot_ok :: "pheap \<Rightarrow> addr list \<Rightarrow> bool" where
  "tot_ok h [] \<longleftrightarrow> True"
| "tot_ok h (a # as) \<longleftrightarrow>
     tot_at h a = length (chain_bytes h (a # as)) \<and> tot_at h a < 65536 \<and> tot_ok h as"

definition chain_ok :: "pheap \<Rightarrow> addr option \<Rightarrow> addr list \<Rightarrow> bool" where
  "chain_ok h p as \<longleftrightarrow> path h p as \<and> tot_ok h as"

lemma path_None [simp]: "path h None as \<longleftrightarrow> as = []"
  by (cases as) auto

lemma path_SomeE:
  assumes "path h (Some a) as"
  obtains b bs where "as = a # bs" "heap_at h a = Some b" "path h (pb_next b) bs"
  using assms by (cases as) (auto split: option.splits)

lemma path_unique: "path h p as \<Longrightarrow> path h p bs \<Longrightarrow> as = bs"
proof (induction as arbitrary: p bs)
  case (Cons a as)
  then show ?case by (cases bs) (auto split: option.splits)
qed auto

lemma path_suffix: "path h p (as @ bs) \<Longrightarrow> \<exists>q. path h q bs"
  by (induction as arbitrary: p) (auto split: option.splits)

lemma path_distinct: "path h p as \<Longrightarrow> distinct as"
proof (induction as arbitrary: p)
  case (Cons a as)
  then obtain b where b: "heap_at h a = Some b" "path h (pb_next b) as" by (auto split: option.splits)
  have "a \<notin> set as"
  proof
    assume "a \<in> set as"
    then obtain xs ys where as: "as = xs @ a # ys" by (auto dest: split_list)
    with b(2) obtain q where q: "path h q (a # ys)" using path_suffix by blast
    then have "path h (Some a) (a # ys)" by auto
    moreover have "path h (Some a) (a # as)" using b by simp
    ultimately have "a # ys = a # as" by (rule path_unique)
    with as show False by auto
  qed
  with Cons.IH [OF b(2)] show ?case by simp
qed simp

lemma path_alive: "path h p as \<Longrightarrow> x \<in> set as \<Longrightarrow> heap_at h x \<noteq> None"
  by (induction as arbitrary: p) (auto split: option.splits)

lemma path_cong:
  "(\<And>x. x \<in> set as \<Longrightarrow> heap_at h' x = heap_at h x) \<Longrightarrow> path h' p as = path h p as"
  by (induction as arbitrary: p) (auto split: option.splits)

lemma tot_ok_cong:
  assumes "\<And>x. x \<in> set as \<Longrightarrow> heap_at h' x = heap_at h x"
  shows "tot_ok h' as = tot_ok h as" "chain_bytes h' as = chain_bytes h as"
  using assms
  by (induction as) (auto simp: chain_bytes_def tot_at_def payload_at_def)

lemma chain_ok_cong:
  "(\<And>x. x \<in> set as \<Longrightarrow> heap_at h' x = heap_at h x) \<Longrightarrow> chain_ok h' p as = chain_ok h p as"
  by (simp add: chain_ok_def path_cong [of as h' h] tot_ok_cong [of as h' h])

lemma chain_bytes_simps [chain_simps]:
  "chain_bytes h [] = []" "chain_bytes h (a # as) = payload_at h a @ chain_bytes h as"
  "chain_bytes h (as @ bs) = chain_bytes h as @ chain_bytes h bs"
  by (simp_all add: chain_bytes_def)

text \<open>Two heaps that differ in the links and total lengths only.\<close>

definition unlink :: "pbuf \<Rightarrow> pbuf" where
  "unlink b = b\<lparr>pb_next := None, pb_tot_len := 0\<rparr>"

definition same_cells :: "pheap \<Rightarrow> pheap \<Rightarrow> bool" where
  "same_cells h h' \<longleftrightarrow> length h' = length h \<and> (\<forall>x. map_option unlink (heap_at h' x) = map_option unlink (heap_at h x))"

lemma unlink_eq_iff:
  "unlink b = unlink c \<longleftrightarrow> pb_payload b = pb_payload c \<and> pb_flags b = pb_flags c \<and> pb_ref b = pb_ref c"
  by (cases b, cases c) (auto simp: unlink_def)

lemma same_cells_refl [simp]: "same_cells h h"
  by (simp add: same_cells_def)

lemma same_cells_trans: "same_cells h h' \<Longrightarrow> same_cells h' h'' \<Longrightarrow> same_cells h h''"
  by (simp add: same_cells_def)

lemma same_cells_put:
  "heap_at h a = Some b \<Longrightarrow> unlink b' = unlink b \<Longrightarrow> same_cells h (heap_put h a b')"
  by (auto simp: same_cells_def heap_at_put heap_at_length)

lemma same_cells_at:
  assumes "same_cells h h'"
  shows "payload_at h' x = payload_at h x" "ref_at h' x = ref_at h x"
    "chain_bytes h' as = chain_bytes h as" "heap_at h' x = None \<longleftrightarrow> heap_at h x = None"
proof -
  have *: "map_option unlink (heap_at h' y) = map_option unlink (heap_at h y)" for y
    using assms by (simp add: same_cells_def)
  show "payload_at h' x = payload_at h x" "ref_at h' x = ref_at h x" "heap_at h' x = None \<longleftrightarrow> heap_at h x = None"
    using * [of x] by (auto simp: payload_at_def ref_at_def unlink_eq_iff split: option.splits)
  have "payload_at h' y = payload_at h y" for y
    using * [of y] by (auto simp: payload_at_def unlink_eq_iff split: option.splits)
  then have "payload_at h' = payload_at h" by (rule ext)
  then show "chain_bytes h' as = chain_bytes h as" by (simp add: chain_bytes_def)
qed

section \<open>pbuf_cat and pbuf_chain\<close>

lemma pbuf_cat_loop_ok:
  assumes "chain_ok h (Some a) as" "chain_ok h (Some t) ts" "set as \<inter> set ts = {}"
    and "length (chain_bytes h (as @ ts)) < 65536"
  shows "\<exists>h'. pbuf_cat_loop h a t = Some h' \<and> chain_ok h' (Some a) (as @ ts) \<and> same_cells h h' \<and>
    (\<forall>x. x \<notin> set as \<longrightarrow> heap_at h' x = heap_at h x)"
  using assms
proof (induction as arbitrary: h a)
  case Nil
  then show ?case by (simp add: chain_ok_def)
next
  case (Cons a' as)
  from Cons.prems(1) obtain b where b: "a' = a" "heap_at h a = Some b" "path h (pb_next b) as"
    by (auto simp: chain_ok_def split: option.splits)
  have dist: "a \<notin> set as" using path_distinct [of h "Some a" "a' # as"] Cons.prems(1) b(1) by (simp add: chain_ok_def)
  from Cons.prems(2) obtain tb rest where tb: "ts = t # rest" "heap_at h t = Some tb"
    by (auto simp: chain_ok_def elim: path_SomeE)
  have ta: "t \<noteq> a" "a \<notin> set ts" using Cons.prems(3) tb b(1) by auto
  have tot: "pb_tot_len b = length (chain_bytes h (a # as))" "pb_tot_len tb = length (chain_bytes h ts)"
    using Cons.prems(1,2) b tb by (auto simp: chain_ok_def tot_at_def)
  let ?b' = "b\<lparr>pb_tot_len := u16 (pb_tot_len b + pb_tot_len tb)\<rparr>"
  let ?h = "heap_put h a ?b'"
  have sum: "pb_tot_len b + pb_tot_len tb < 65536"
    using Cons.prems(4) tot b(1) by (simp add: chain_simps)
  have al: "a < length h" using b heap_at_length by blast
  show ?case
  proof (cases "pb_next b")
    case None
    with b(3) have as: "as = []" by simp
    let ?h' = "heap_put h a (b\<lparr>pb_tot_len := u16 (pb_tot_len b + pb_tot_len tb), pb_next := Some t\<rparr>)"
    have len: "pb_tot_len b = pb_len b"
      using tot(1) as b by (simp add: chain_simps payload_at_def pb_len_def)
    have "pbuf_cat_loop h a t = Some ?h'"
      using None b tb len by (simp add: pbuf_cat_loop.simps [of h])
    moreover have same: "same_cells h ?h'" using b by (intro same_cells_put) (auto simp: unlink_def)
    moreover have fr: "\<forall>x. x \<notin> set (a' # as) \<longrightarrow> heap_at ?h' x = heap_at h x"
      using al b(1) by (auto simp: heap_at_put)
    moreover have "chain_ok ?h' (Some a) (a # ts)"
    proof -
      have "chain_ok ?h' (Some t) ts" using Cons.prems(2) fr ta b(1) as
        by (subst chain_ok_cong [of ts ?h' h]) auto
      then show ?thesis using al sum tot same_cells_at(3) [OF same, of "a # ts"] as
        by (simp add: chain_ok_def heap_at_put tot_at_def) (simp add: chain_simps)
    qed
    ultimately show ?thesis using as b(1) by simp
  next
    case (Some n)
    have step: "pbuf_cat_loop h a t = pbuf_cat_loop ?h n t"
      using Some b tb by (simp add: pbuf_cat_loop.simps [of h])
    have same: "same_cells h ?h" using b by (intro same_cells_put) (auto simp: unlink_def)
    have fr: "x \<noteq> a \<Longrightarrow> heap_at ?h x = heap_at h x" for x using al by (simp add: heap_at_put)
    have "x \<in> set as \<Longrightarrow> heap_at ?h x = heap_at h x" for x using fr [of x] dist by blast
    then have "chain_ok ?h (Some n) as" using Cons.prems(1) b Some
      by (subst chain_ok_cong [of as ?h h]) (simp_all add: chain_ok_def)
    moreover have "x \<in> set ts \<Longrightarrow> heap_at ?h x = heap_at h x" for x using fr [of x] ta by blast
    then have "chain_ok ?h (Some t) ts" using Cons.prems(2)
      by (subst chain_ok_cong [of ts ?h h]) simp_all
    moreover have "set as \<inter> set ts = {}" using Cons.prems(3) by auto
    moreover have "length (chain_bytes ?h (as @ ts)) < 65536"
      using Cons.prems(4) same_cells_at(3) [OF same] by (simp add: chain_simps)
    ultimately obtain h' where h': "pbuf_cat_loop ?h n t = Some h'" "chain_ok h' (Some n) (as @ ts)"
      "same_cells ?h h'" "\<forall>x. x \<notin> set as \<longrightarrow> heap_at h' x = heap_at ?h x"
      using Cons.IH [of ?h n] by blast
    have same': "same_cells h h'" using same h'(3) by (rule same_cells_trans)
    have "heap_at h' a = Some ?b'" using h'(4) dist al by (simp add: heap_at_put)
    then have "chain_ok h' (Some a) (a # as @ ts)"
      using h'(2) Some sum tot same_cells_at(3) [OF same', of "a # as @ ts"]
      by (simp add: chain_ok_def tot_at_def) (simp add: chain_simps)
    moreover have "\<forall>x. x \<notin> set (a' # as) \<longrightarrow> heap_at h' x = heap_at h x"
      using h'(4) fr b(1) by auto
    ultimately show ?thesis using step h'(1) same' b(1) by auto
  qed
qed

lemma chain_head_alive: "chain_ok h (Some a) as \<Longrightarrow> \<exists>b bs. heap_at h a = Some b \<and> as = a # bs"
  by (auto simp: chain_ok_def elim: path_SomeE)

text \<open>A change of reference counts keeps the chains and their bytes.\<close>

lemma put_ref_chain:
  assumes "heap_at h a = Some b"
  shows "chain_ok (heap_put h a (b\<lparr>pb_ref := r\<rparr>)) p as = chain_ok h p as"
    "chain_bytes (heap_put h a (b\<lparr>pb_ref := r\<rparr>)) as = chain_bytes h as"
proof -
  let ?h = "heap_put h a (b\<lparr>pb_ref := r\<rparr>)"
  have al: "a < length h" using assms heap_at_length by blast
  have pay: "payload_at ?h = payload_at h" and tot: "tot_at ?h = tot_at h"
    using assms al by (auto simp: payload_at_def tot_at_def heap_at_put)
  show bytes: "chain_bytes ?h as = chain_bytes h as" for as by (simp add: chain_bytes_def pay)
  have "path ?h p as = path h p as"
    using assms al by (induction as arbitrary: p) (auto simp: heap_at_put split: option.splits)
  moreover have "tot_ok ?h as = tot_ok h as" by (induction as) (simp_all add: tot bytes)
  ultimately show "chain_ok ?h p as = chain_ok h p as" by (simp add: chain_ok_def)
qed

lemma pbuf_ref_ok:
  assumes "heap_at h a = Some b" "pb_ref b + 1 \<noteq> 0"
  shows "pbuf_ref h (Some a) = Some (heap_put h a (b\<lparr>pb_ref := pb_ref b + 1\<rparr>))"
  using assms by (simp add: pbuf_ref_def)

lemma pbuf_chain_ok:
  assumes "chain_ok h (Some a) as" "chain_ok h (Some t) ts" "set as \<inter> set ts = {}"
    and "length (chain_bytes h (as @ ts)) < 65536" and "ref_at h t + 1 \<noteq> 0"
  shows "\<exists>h'. pbuf_chain h (Some a) (Some t) = Some h' \<and> chain_ok h' (Some a) (as @ ts) \<and>
    (\<forall>xs. chain_bytes h' xs = chain_bytes h xs) \<and>
    (\<forall>x. ref_at h' x = (if x = t then ref_at h t + 1 else ref_at h x)) \<and>
    (\<forall>x. heap_at h' x = None \<longleftrightarrow> heap_at h x = None) \<and>
    (\<forall>x. x \<notin> set as \<longrightarrow> x \<noteq> t \<longrightarrow> heap_at h' x = heap_at h x)"
proof -
  obtain ta tr where ts: "heap_at h t = Some ta" "ts = t # tr" using chain_head_alive assms(2) by blast
  have "a \<noteq> t" using assms(1,3) ts chain_head_alive by fastforce
  obtain h1 where h1: "pbuf_cat h (Some a) (Some t) = Some h1" "chain_ok h1 (Some a) (as @ ts)"
    "same_cells h h1" "\<forall>x. x \<notin> set as \<longrightarrow> heap_at h1 x = heap_at h x"
    using pbuf_cat_loop_ok [OF assms(1-4)] \<open>a \<noteq> t\<close> by (auto simp: pbuf_cat_def)
  have t1: "heap_at h1 t = Some ta" using h1(4) assms(3) ts by auto
  have al: "t < length h1" using t1 heap_at_length by blast
  have r: "pb_ref ta + 1 \<noteq> 0" using assms(5) ts by (simp add: ref_at_def)
  let ?h = "heap_put h1 t (ta\<lparr>pb_ref := pb_ref ta + 1\<rparr>)"
  have "pbuf_chain h (Some a) (Some t) = Some ?h"
    using h1(1) pbuf_ref_ok [OF t1 r] by (simp add: pbuf_chain_def)
  moreover have "chain_ok ?h (Some a) (as @ ts)" using h1(2) put_ref_chain(1) [OF t1] by simp
  moreover have "chain_bytes ?h xs = chain_bytes h xs" for xs
    using put_ref_chain(2) [OF t1] same_cells_at(3) [OF h1(3)] by simp
  moreover have "ref_at ?h x = (if x = t then ref_at h t + 1 else ref_at h x)" for x
    using same_cells_at(2) [OF h1(3), of x] ts al by (simp add: ref_at_def heap_at_put)
  moreover have "heap_at ?h x = None \<longleftrightarrow> heap_at h x = None" for x
    using same_cells_at(4) [OF h1(3), of x] ts al by (simp add: heap_at_put)
  moreover have "x \<notin> set as \<longrightarrow> x \<noteq> t \<longrightarrow> heap_at ?h x = heap_at h x" for x
    using h1(4) al by (simp add: heap_at_put)
  ultimately show ?thesis by blast
qed

section \<open>pbuf_free\<close>

text \<open>The leading cells with a single reference are released, the next one loses a reference, the
  others stay.\<close>

definition freed :: "pheap \<Rightarrow> addr list \<Rightarrow> addr list" where
  "freed h as = takeWhile (\<lambda>a. ref_at h a = 1) as"

definition kept :: "pheap \<Rightarrow> addr list \<Rightarrow> addr list" where
  "kept h as = dropWhile (\<lambda>a. ref_at h a = 1) as"

definition freed_heap :: "pheap \<Rightarrow> addr list \<Rightarrow> addr \<Rightarrow> pbuf option" where
  "freed_heap h as x =
     (if x \<in> set (freed h as) then None
      else if kept h as \<noteq> [] \<and> x = hd (kept h as)
        then map_option (\<lambda>b. b\<lparr>pb_ref := pb_ref b - 1\<rparr>) (heap_at h x)
      else heap_at h x)"

lemma pbuf_free_loop_ok:
  assumes "path h p as" "\<forall>a \<in> set as. ref_at h a \<noteq> 0" "n < 256"
  shows "\<exists>h'. pbuf_free_loop h p n = Some ((n + length (freed h as)) mod 256, h') \<and>
    (\<forall>x. heap_at h' x = freed_heap h as x)"
  using assms
proof (induction as arbitrary: h p n)
  case Nil
  then show ?case by (simp add: pbuf_free_loop.simps freed_def kept_def freed_heap_def)
next
  case (Cons a as)
  then obtain b where b: "p = Some a" "heap_at h a = Some b" "path h (pb_next b) as" "pb_ref b \<noteq> 0"
    by (auto simp: ref_at_def split: option.splits)
  have al: "a < length h" using b heap_at_length by blast
  have ref: "ref_at h a = pb_ref b" using b by (simp add: ref_at_def)
  have dist: "a \<notin> set as" using path_distinct [OF Cons.prems(1)] by simp
  show ?case
  proof (cases "pb_ref b = 1")
    case False
    then have "pbuf_free_loop h p n = Some (n, heap_put h a (b\<lparr>pb_ref := pb_ref b - 1\<rparr>))"
      using b by (simp add: pbuf_free_loop.simps [of h])
    moreover have "freed h (a # as) = []" "kept h (a # as) = a # as"
      using False ref by (simp_all add: freed_def kept_def)
    ultimately show ?thesis using al b Cons.prems(3) by (auto simp: freed_heap_def heap_at_put)
  next
    case True
    let ?h = "h[a := None]"
    have other: "x \<noteq> a \<Longrightarrow> heap_at ?h x = heap_at h x" for x by (simp add: heap_at_del)
    have refs: "x \<in> set as \<Longrightarrow> ref_at ?h x = ref_at h x" for x
      using other [of x] dist by (cases "x = a") (auto simp: ref_at_def)
    then have fr: "freed ?h as = freed h as" "kept ?h as = kept h as"
      unfolding freed_def kept_def by (auto cong: takeWhile_cong dropWhile_cong)
    have fr': "freed h (a # as) = a # freed h as" "kept h (a # as) = kept h as"
      using True ref by (simp_all add: freed_def kept_def)
    have "x \<in> set as \<Longrightarrow> heap_at ?h x = heap_at h x" for x using other [of x] dist by blast
    then have "path ?h (pb_next b) as" using b(3) by (subst path_cong [of as ?h h]) auto
    moreover have "\<forall>x \<in> set as. ref_at ?h x \<noteq> 0" using refs Cons.prems(2) by auto
    ultimately obtain h' where h': "pbuf_free_loop ?h (pb_next b) ((n + 1) mod 256) =
        Some (((n + 1) mod 256 + length (freed h as)) mod 256, h')" "\<forall>x. heap_at h' x = freed_heap ?h as x"
      using Cons.IH [of ?h "pb_next b" "(n + 1) mod 256"] fr by auto
    have "pbuf_free_loop h p n = Some ((n + length (freed h (a # as))) mod 256, h')"
      using b True h'(1) fr' by (simp add: pbuf_free_loop.simps [of h] mod_simps)
    moreover have "a \<notin> set (kept h as)" using dist by (auto simp: kept_def dest: set_dropWhileD)
    then have "freed_heap ?h as x = freed_heap h (a # as) x" for x
      using fr fr' other [of x] by (cases "x = a") (auto simp: freed_heap_def heap_at_del)
    ultimately show ?thesis using h'(2) by auto
  qed
qed

lemma pbuf_free_ok:
  assumes "path h (Some a) as" "\<forall>a \<in> set as. ref_at h a \<noteq> 0"
  shows "\<exists>h'. pbuf_free h (Some a) = Some (length (freed h as) mod 256, h') \<and>
    (\<forall>x. heap_at h' x = freed_heap h as x)"
  using pbuf_free_loop_ok [OF assms, of 0] by (simp add: pbuf_free_def)

lemma pbuf_clen_loop_ok: "path h p as \<Longrightarrow> n < 65536 \<Longrightarrow> pbuf_clen_loop h p n = Some (u16 (n + length as))"
proof (induction as arbitrary: p n)
  case Nil
  then show ?case by (simp add: pbuf_clen_loop.simps)
next
  case (Cons a as)
  then show ?case
    by (auto simp: pbuf_clen_loop.simps [of h "Some a"] u16_def mod_simps split: option.splits)
qed

lemma pbuf_clen_ok: "path h p as \<Longrightarrow> pbuf_clen h p = Some (u16 (length as))"
  by (simp add: pbuf_clen_def pbuf_clen_loop_ok)

section \<open>pbuf_take and pbuf_take_at\<close>

text \<open>Two heaps that differ in payload contents only.\<close>

definition blank :: "pbuf \<Rightarrow> pbuf" where
  "blank b = b\<lparr>pb_payload := replicate (pb_len b) 0\<rparr>"

definition same_links :: "pheap \<Rightarrow> pheap \<Rightarrow> bool" where
  "same_links h h' \<longleftrightarrow> length h' = length h \<and> (\<forall>x. map_option blank (heap_at h' x) = map_option blank (heap_at h x))"

lemma blank_eq_iff:
  "blank b = blank c \<longleftrightarrow> pb_next b = pb_next c \<and> pb_len b = pb_len c \<and> pb_tot_len b = pb_tot_len c \<and>
     pb_flags b = pb_flags c \<and> pb_ref b = pb_ref c"
  by (cases b, cases c) (auto simp: blank_def pb_len_def replicate_eq_replicate)

lemma same_links_refl [simp]: "same_links h h"
  by (simp add: same_links_def)

lemma same_links_trans: "same_links h h' \<Longrightarrow> same_links h' h'' \<Longrightarrow> same_links h h''"
  by (simp add: same_links_def)

lemma same_links_put:
  "heap_at h a = Some b \<Longrightarrow> length bs = pb_len b \<Longrightarrow> same_links h (heap_put h a (b\<lparr>pb_payload := bs\<rparr>))"
  by (auto simp: same_links_def heap_at_put heap_at_length blank_eq_iff) (simp_all add: pb_len_def)

lemma same_links_at:
  assumes "same_links h h'"
  shows "path h' p as = path h p as" "tot_at h' x = tot_at h x" "ref_at h' x = ref_at h x"
    "length (payload_at h' x) = length (payload_at h x)" "heap_at h' x = None \<longleftrightarrow> heap_at h x = None"
proof -
  have *: "map_option blank (heap_at h' y) = map_option blank (heap_at h y)" for y
    using assms by (simp add: same_links_def)
  show "tot_at h' x = tot_at h x" "ref_at h' x = ref_at h x" "heap_at h' x = None \<longleftrightarrow> heap_at h x = None"
    "length (payload_at h' x) = length (payload_at h x)"
    using * [of x]
    by (cases "heap_at h x"; cases "heap_at h' x";
      simp add: tot_at_def ref_at_def payload_at_def blank_eq_iff pb_len_def)+
  show "path h' p as = path h p as"
  proof (induction as arbitrary: p)
    case (Cons a as)
    show ?case using * [of a] Cons
      by (cases "heap_at h a"; cases "heap_at h' a"; simp add: blank_eq_iff)
  qed simp
qed

lemma same_links_chain:
  assumes "same_links h h'"
  shows "chain_ok h' p as = chain_ok h p as" "length (chain_bytes h' as) = length (chain_bytes h as)"
proof -
  show len: "length (chain_bytes h' as) = length (chain_bytes h as)" for as
    by (induction as) (simp_all add: chain_simps same_links_at(4) [OF assms])
  have "tot_ok h' as = tot_ok h as" by (induction as) (simp_all add: len same_links_at(2) [OF assms])
  then show "chain_ok h' p as = chain_ok h p as" by (simp add: chain_ok_def same_links_at(1) [OF assms])
qed

lemma patch_length [simp]: "i + length bs \<le> length xs \<Longrightarrow> length (patch xs i bs) = length xs"
  by (simp add: patch_def)

lemma pbuf_take_loop_ok:
  assumes "path h p as" "length bs \<le> length (chain_bytes h as)"
  shows "\<exists>h'. pbuf_take_loop h p bs = Some h' \<and> same_links h h' \<and>
    chain_bytes h' as = bs @ drop (length bs) (chain_bytes h as) \<and>
    (\<forall>x. x \<notin> set as \<longrightarrow> heap_at h' x = heap_at h x)"
  using assms
proof (induction as arbitrary: h p bs)
  case Nil
  then show ?case by (simp add: pbuf_take_loop.simps chain_simps)
next
  case (Cons a as)
  show ?case
  proof (cases "bs = []")
    case True
    then show ?thesis by (simp add: pbuf_take_loop.simps)
  next
    case bs: False
    from Cons.prems(1) obtain b where b: "p = Some a" "heap_at h a = Some b" "path h (pb_next b) as"
      by (auto split: option.splits)
    have al: "a < length h" using b heap_at_length by blast
    have dist: "a \<notin> set as" using path_distinct [OF Cons.prems(1)] by simp
    let ?n = "min (pb_len b) (length bs)"
    let ?pay = "patch (pb_payload b) 0 (take ?n bs)"
    let ?h = "heap_put h a (b\<lparr>pb_payload := ?pay\<rparr>)"
    have step: "pbuf_take_loop h p bs = pbuf_take_loop ?h (pb_next b) (drop ?n bs)"
      using b bs by (simp add: pbuf_take_loop.simps [of h] Let_def min_def)
    have lp: "length ?pay = pb_len b" by (simp add: pb_len_def)
    have same: "same_links h ?h" by (rule same_links_put [OF b(2) lp])
    have other: "x \<noteq> a \<Longrightarrow> heap_at ?h x = heap_at h x" for x using al by (simp add: heap_at_put)
    have "x \<in> set as \<Longrightarrow> heap_at ?h x = heap_at h x" for x using other [of x] dist by blast
    then have rest: "path ?h (pb_next b) as" "chain_bytes ?h as = chain_bytes h as"
      using b(3) path_cong [of as ?h h] tot_ok_cong(2) [of as ?h h] by auto
    have pa: "payload_at h a = pb_payload b" using b by (simp add: payload_at_def)
    have "length (drop ?n bs) \<le> length (chain_bytes ?h as)"
      using Cons.prems(2) rest(2) pa by (simp add: chain_simps pb_len_def)
    then obtain h' where h': "pbuf_take_loop ?h (pb_next b) (drop ?n bs) = Some h'" "same_links ?h h'"
      "chain_bytes h' as = drop ?n bs @ drop (length (drop ?n bs)) (chain_bytes ?h as)"
      "\<forall>x. x \<notin> set as \<longrightarrow> heap_at h' x = heap_at ?h x"
      using Cons.IH [OF rest(1)] by blast
    have "payload_at h' a = ?pay" using h'(4) dist al by (simp add: payload_at_def heap_at_put)
    then have "chain_bytes h' (a # as) = bs @ drop (length bs) (chain_bytes h (a # as))"
      using h'(3) rest(2) pa
      by (cases "pb_len b \<le> length bs") (simp_all add: chain_simps patch_def pb_len_def min_def)
    moreover have "\<forall>x. x \<notin> set (a # as) \<longrightarrow> heap_at h' x = heap_at h x"
      using h'(4) other by auto
    ultimately show ?thesis using step h'(1) same_links_trans [OF same h'(2)] by auto
  qed
qed

lemma chain_tot:
  assumes "chain_ok h (Some a) as" "heap_at h a = Some b"
  shows "pb_tot_len b = length (chain_bytes h as)"
  using assms by (cases as) (auto simp: chain_ok_def tot_at_def)

lemma pbuf_take_ok:
  assumes "chain_ok h (Some a) as" "length bs \<le> length (chain_bytes h as)"
  shows "\<exists>h'. pbuf_take h (Some a) bs = Some (ERR_OK, h') \<and> same_links h h' \<and>
    chain_bytes h' as = bs @ drop (length bs) (chain_bytes h as) \<and>
    (\<forall>x. x \<notin> set as \<longrightarrow> heap_at h' x = heap_at h x)"
proof -
  obtain b where b: "heap_at h a = Some b" using chain_head_alive [OF assms(1)] by blast
  have "path h (Some a) as" using assms(1) by (simp add: chain_ok_def)
  from pbuf_take_loop_ok [OF this assms(2)] chain_tot [OF assms(1) b] assms(2) b
  show ?thesis by (auto simp: pbuf_take_def)
qed

text \<open>An offset at or past the end of the chain: nothing is written, \<^verbatim>\<open>ERR_MEM\<close>.\<close>

lemma pbuf_skip_ok:
  assumes "path h p as" "n < 65536" "length (chain_bytes h as) < 65536"
  shows "if length (chain_bytes h as) \<le> n then pbuf_skip h p n = Some (None, n - length (chain_bytes h as))
    else \<exists>xs a ys. as = xs @ a # ys \<and> length (chain_bytes h xs) \<le> n \<and>
      n - length (chain_bytes h xs) < length (payload_at h a) \<and>
      pbuf_skip h p n = Some (Some a, n - length (chain_bytes h xs))"
  using assms
proof (induction as arbitrary: p n)
  case Nil
  then show ?case by (simp add: pbuf_skip.simps chain_simps)
next
  case (Cons a as)
  then obtain b where b: "p = Some a" "heap_at h a = Some b" "path h (pb_next b) as"
    by (auto split: option.splits)
  have pa: "payload_at h a = pb_payload b" using b by (simp add: payload_at_def)
  show ?case
  proof (cases "pb_len b \<le> n")
    case False
    then have "pbuf_skip h p n = Some (Some a, n)" using b by (simp add: pbuf_skip.simps [of h])
    moreover have "a # as = [] @ a # as" "length (chain_bytes h []) \<le> n"
      "n - length (chain_bytes h []) < length (payload_at h a)"
      using False pa by (simp_all add: chain_simps pb_len_def)
    moreover have "\<not> length (chain_bytes h (a # as)) \<le> n" using False pa by (simp add: chain_simps pb_len_def)
    ultimately show ?thesis by (metis chain_simps(3) list.size(3) minus_nat.diff_0)
  next
    case True
    then have step: "pbuf_skip h p n = pbuf_skip h (pb_next b) (n - pb_len b)"
      using b Cons.prems(2) by (simp add: pbuf_skip.simps [of h "Some a"])
    have bd: "n - pb_len b < 65536" "length (chain_bytes h as) < 65536"
      using Cons.prems by (simp_all add: chain_simps)
    show ?thesis
    proof (cases "length (chain_bytes h as) \<le> n - pb_len b")
      case short: True
      with Cons.IH [OF b(3) bd] True step pa show ?thesis
        by (simp add: chain_simps pb_len_def)
    next
      case False
      with Cons.IH [OF b(3) bd] obtain xs c ys where ih: "as = xs @ c # ys"
        "length (chain_bytes h xs) \<le> n - pb_len b"
        "n - pb_len b - length (chain_bytes h xs) < length (payload_at h c)"
        "pbuf_skip h (pb_next b) (n - pb_len b) = Some (Some c, n - pb_len b - length (chain_bytes h xs))"
        by auto
      have "\<not> length (chain_bytes h (a # as)) \<le> n" using False True pa by (simp add: chain_simps pb_len_def)
      moreover have "a # as = (a # xs) @ c # ys" "length (chain_bytes h (a # xs)) \<le> n"
        "n - length (chain_bytes h (a # xs)) < length (payload_at h c)"
        "pbuf_skip h p n = Some (Some c, n - length (chain_bytes h (a # xs)))"
        using ih True pa step by (simp_all add: chain_simps pb_len_def)
      ultimately show ?thesis by metis
    qed
  qed
qed

lemma take_drop_append: "take n xs @ drop n xs @ r = xs @ r"
  by (metis append.assoc append_take_drop_id)

lemma chain_ok_append:
  "path h p (xs @ a # ys) \<Longrightarrow> tot_ok h (xs @ a # ys) \<Longrightarrow> chain_ok h (Some a) (a # ys)"
proof (induction xs arbitrary: p)
  case Nil
  then show ?case by (auto simp: chain_ok_def)
qed (auto split: option.splits)

text \<open>Inside a packet, \<^verbatim>\<open>pbuf_take_at\<close> overwrites exactly the bytes at the offset.\<close>

lemma pbuf_take_at_ok:
  assumes ok: "chain_ok h (Some a) as" and room: "offset + length bs \<le> length (chain_bytes h as)"
    and off: "offset < length (chain_bytes h as)"
  shows "\<exists>h'. pbuf_take_at h (Some a) bs offset = Some (ERR_OK, h') \<and> same_links h h' \<and>
    chain_bytes h' as = patch (chain_bytes h as) offset bs \<and>
    (\<forall>x. x \<notin> set as \<longrightarrow> heap_at h' x = heap_at h x)"
proof -
  have pth: "path h (Some a) as" "tot_ok h as" using ok by (simp_all add: chain_ok_def)
  have small: "length (chain_bytes h as) < 65536"
    using chain_head_alive [OF ok] ok by (auto simp: chain_ok_def)
  from pbuf_skip_ok [OF pth(1) _ small, of offset] off small obtain xs c ys where sk:
    "as = xs @ c # ys" "length (chain_bytes h xs) \<le> offset"
    "offset - length (chain_bytes h xs) < length (payload_at h c)"
    "pbuf_skip h (Some a) offset = Some (Some c, offset - length (chain_bytes h xs))"
    by auto
  let ?t = "offset - length (chain_bytes h xs)"
  have c_ok: "chain_ok h (Some c) (c # ys)" using chain_ok_append pth sk(1) by metis
  then obtain b where b: "heap_at h c = Some b" "path h (pb_next b) ys"
    by (auto simp: chain_ok_def split: option.splits)
  have cl: "c < length h" using b heap_at_length by blast
  have pc: "payload_at h c = pb_payload b" using b by (simp add: payload_at_def)
  have dist: "c \<notin> set xs" "c \<notin> set ys" "set xs \<inter> set ys = {}"
    using path_distinct [OF pth(1)] sk(1) by auto
  have tot: "\<not> pb_tot_len b < ?t + length bs"
    using chain_tot [OF c_ok b(1)] room sk(1,2) by (simp add: chain_simps)
  let ?n = "min (pb_len b - ?t) (length bs)"
  let ?pay = "patch (pb_payload b) ?t (take ?n bs)"
  let ?h = "heap_put h c (b\<lparr>pb_payload := ?pay\<rparr>)"
  have lp: "length ?pay = pb_len b" using sk(3) pc by (simp add: pb_len_def)
  have same: "same_links h ?h" by (rule same_links_put [OF b(1) lp])
  have other: "x \<noteq> c \<Longrightarrow> heap_at ?h x = heap_at h x" for x using cl by (simp add: heap_at_put)
  have "x \<in> set xs \<union> set ys \<Longrightarrow> heap_at ?h x = heap_at h x" for x using other [of x] dist by blast
  then have rest: "path ?h (pb_next b) ys" "chain_bytes ?h ys = chain_bytes h ys" "chain_bytes ?h xs = chain_bytes h xs"
    using b(2) path_cong [of ys ?h h] tot_ok_cong(2) [of ys ?h h] tot_ok_cong(2) [of xs ?h h] by auto
  have payc: "payload_at ?h c = ?pay" using cl by (simp add: payload_at_def heap_at_put)
  show ?thesis
  proof (cases "?n < length bs")
    case False
    then have n: "?n = length bs" "length bs \<le> pb_len b - ?t" by auto
    have "pbuf_take_at h (Some a) bs offset = Some (ERR_OK, ?h)"
      using sk(4) b tot False by (simp add: pbuf_take_at_def Let_def)
    moreover have "chain_bytes ?h as = patch (chain_bytes h as) offset bs"
      using sk(2,3) n rest payc pc by (simp add: sk(1) chain_simps patch_def pb_len_def)
    ultimately show ?thesis using same other sk(1) by auto
  next
    case True
    then have n: "?n = pb_len b - ?t" and lt: "pb_len b - ?t < length bs" by auto
    have len: "length (drop ?n bs) \<le> length (chain_bytes ?h ys)"
      using room sk(1-3) pc rest(2) n by (simp add: chain_simps pb_len_def)
    have ne: "drop ?n bs \<noteq> []" using True by simp
    have "ys \<noteq> []" using len ne by (auto simp: chain_simps)
    then obtain d zs where ys: "ys = d # zs" "pb_next b = Some d" using b(2) by (cases ys) auto
    have "chain_ok h (Some d) ys" using c_ok b ys by (simp add: chain_ok_def)
    then have "chain_ok ?h (Some d) ys" using same_links_chain(1) [OF same] by simp
    from pbuf_take_ok [OF this len] obtain h' where h': "pbuf_take ?h (Some d) (drop ?n bs) = Some (ERR_OK, h')"
      "same_links ?h h'" "chain_bytes h' ys = drop ?n bs @ drop (length (drop ?n bs)) (chain_bytes ?h ys)"
      "\<forall>x. x \<notin> set ys \<longrightarrow> heap_at h' x = heap_at ?h x" by blast
    have "pbuf_take_at h (Some a) bs offset = Some (ERR_OK, h')"
      using sk(4) b(1) tot lt h'(1) ys(2) by (simp add: pbuf_take_at_def Let_def)
    moreover have "chain_bytes h' xs = chain_bytes h xs" "payload_at h' c = ?pay"
      using h'(4) dist tot_ok_cong(2) [of xs h' ?h] rest(3) payc by (auto simp: payload_at_def)
    then have "chain_bytes h' as = patch (chain_bytes h as) offset bs"
      using sk(1-3) n rest(2) h'(3) pc
      by (simp add: chain_simps patch_def pb_len_def take_drop_append add.commute)
    moreover have "\<forall>x. x \<notin> set as \<longrightarrow> heap_at h' x = heap_at h x"
      using h'(4) other sk(1) by auto
    ultimately show ?thesis using same_links_trans [OF same h'(2)] by blast
  qed
qed

lemma pbuf_take_at_end:
  assumes "chain_ok h (Some a) as" and "length (chain_bytes h as) \<le> offset" "offset < 65536"
  shows "pbuf_take_at h (Some a) bs offset = Some (ERR_MEM, h)"
proof -
  have "path h (Some a) as" "length (chain_bytes h as) < 65536"
    using assms by (auto simp: chain_ok_def)
  from pbuf_skip_ok [OF this(1) assms(3) this(2)] assms(2) show ?thesis
    by (simp add: pbuf_take_at_def)
qed

section \<open>Fresh cells and frames\<close>

lemma pbuf_alloc_cell:
  assumes "pbuf_alloc (Some junk) n h = (p, h')" "n < 65536"
  obtains a where "p = Some a" "chain_ok h' (Some a) [a]" "ref_at h' a = 1" "length (payload_at h' a) = n"
    "\<forall>x. x \<noteq> a \<longrightarrow> heap_at h' x = heap_at h x" "a = length h"
proof -
  let ?c = "pbuf_init_alloced (take n (junk @ replicate n 0)) n"
  from assms have h': "p = Some (length h)" "h' = h @ [Some ?c]" by (simp_all add: pbuf_alloc_def)
  have at: "heap_at h' (length h) = Some ?c" by (simp add: h' heap_at_def)
  have other: "\<forall>x. x \<noteq> length h \<longrightarrow> heap_at h' x = heap_at h x" by (auto simp: h' heap_at_def nth_append)
  have "length (payload_at h' (length h)) = n" by (simp add: payload_at_def at pbuf_init_alloced_def)
  moreover have "chain_ok h' (Some (length h)) [length h]" "ref_at h' (length h) = 1"
    using assms(2) by (auto simp: chain_ok_def at pbuf_init_alloced_def tot_at_def ref_at_def chain_bytes_def payload_at_def)
  ultimately show ?thesis using that h'(1) other by blast
qed

text \<open>Freeing a chain changes its own cells only.\<close>

lemma freed_heap_cong:
  assumes "\<forall>x \<in> set as. heap_at h' x = heap_at h x" "x \<in> set as"
  shows "freed_heap h' as x = freed_heap h as x"
proof -
  have r: "\<And>a. a \<in> set as \<Longrightarrow> ref_at h' a = ref_at h a" using assms(1) by (simp add: ref_at_def)
  have "freed h' as = freed h as" "kept h' as = kept h as"
    unfolding freed_def kept_def by (auto intro!: takeWhile_cong dropWhile_cong simp: r)
  moreover have "heap_at h' x = heap_at h x" using assms by blast
  ultimately show ?thesis unfolding freed_heap_def by (simp only:)
qed

lemma pbuf_free_frame:
  assumes "path h (Some a) as" "\<forall>x \<in> set as. ref_at h x \<noteq> 0"
  shows "\<exists>n h'. pbuf_free h (Some a) = Some (n, h') \<and> (\<forall>x. x \<notin> set as \<longrightarrow> heap_at h' x = heap_at h x) \<and>
    (\<forall>x \<in> set as. heap_at h' x = freed_heap h as x)"
proof -
  obtain h' where h': "pbuf_free h (Some a) = Some (length (freed h as) mod 256, h')"
    "\<forall>x. heap_at h' x = freed_heap h as x" using pbuf_free_ok [OF assms] by blast
  have "heap_at h' x = heap_at h x" if x: "x \<notin> set as" for x
  proof -
    have "x \<notin> set (freed h as)" using x by (auto simp: freed_def dest: set_takeWhileD)
    moreover have "\<not> (kept h as \<noteq> [] \<and> x = hd (kept h as))"
      using x by (metis hd_in_set kept_def set_dropWhileD)
    ultimately show ?thesis using h'(2) by (auto simp: freed_heap_def)
  qed
  with h' show ?thesis by blast
qed

lemma pbuf_free_frame_cong:
  assumes "chain_ok h (Some a) as" "\<forall>x \<in> set as. ref_at h x \<noteq> 0" "\<forall>x \<in> set as. heap_at h5 x = heap_at h x"
  shows "\<exists>n h'. pbuf_free h5 (Some a) = Some (n, h') \<and> (\<forall>x. x \<notin> set as \<longrightarrow> heap_at h' x = heap_at h5 x) \<and>
    (\<forall>x \<in> set as. heap_at h' x = freed_heap h as x)"
proof -
  have "path h5 (Some a) as" using assms path_cong [of as h5 h] by (simp add: chain_ok_def)
  moreover have "\<forall>x \<in> set as. ref_at h5 x \<noteq> 0" using assms(2,3) by (simp add: ref_at_def)
  ultimately show ?thesis using pbuf_free_frame [of h5 a as] freed_heap_cong [OF assms(3)] by auto
qed

text \<open>A buffer in front of a chain that is referenced from elsewhere is released alone.\<close>

lemma freed_heap_shared:
  assumes "ref_at h n = 1" "ref_at h a \<noteq> 1" "n \<notin> set (a # as)" "x \<in> set (a # as)"
  shows "freed_heap h (n # a # as) x =
    (if x = a then map_option (\<lambda>b. b\<lparr>pb_ref := pb_ref b - 1\<rparr>) (heap_at h x) else heap_at h x)"
  using assms by (auto simp: freed_heap_def freed_def kept_def)

end
