(* ===== verification/PBufQueue.thy ===== *)
theory PBufQueue
  imports Pbuf "HOL-Library.Monad_Syntax"
begin

text \<open>
  The queue of packet buffers \<^verbatim>\<open>util/PBufQueue.cpp\<close>: a chain of pbufs of the lwIP heap, with an
  offset into the first one. The operations take and return the heap and the queue; \<open>None\<close> is a
  memory fault, as in \<open>Pbuf\<close>.
\<close>

section \<open>State and operations\<close>

record pbqueue =
  capacity :: nat
  qchain :: "addr option"
  qoffset :: nat

definition q_new :: "nat \<Rightarrow> pbqueue" where
  "q_new cap = \<lparr>capacity = cap, qchain = None, qoffset = 0\<rparr>"

definition q_is_empty :: "pbqueue \<Rightarrow> bool" where
  "q_is_empty q \<longleftrightarrow> qchain q = None"

definition q_size :: "pheap \<Rightarrow> pbqueue \<Rightarrow> nat option" where
  "q_size h q = (case qchain q of None \<Rightarrow> Some 0 | Some a \<Rightarrow> do { b \<leftarrow> heap_at h a; Some (pb_tot_len b) })"

definition q_remaining_space :: "pheap \<Rightarrow> pbqueue \<Rightarrow> nat option" where
  "q_remaining_space h q = do { n \<leftarrow> q_size h q; Some (size_sub (capacity q) n) }"

definition q_is_full :: "pheap \<Rightarrow> pbqueue \<Rightarrow> bool option" where
  "q_is_full h q = do { n \<leftarrow> q_remaining_space h q; Some (n = 0) }"

definition q_count :: "pheap \<Rightarrow> pbqueue \<Rightarrow> nat option" where
  "q_count h q = pbuf_clen h (qchain q)"

definition q_clear :: "pheap \<Rightarrow> pbqueue \<Rightarrow> (pheap \<times> pbqueue) option" where
  "q_clear h q =
     (if qchain q = None then Some (h, q)
      else do { (_, h') \<leftarrow> pbuf_free h (qchain q); Some (h', q\<lparr>qchain := None, qoffset := 0\<rparr>) })"

definition q_push :: "pheap \<Rightarrow> pbqueue \<Rightarrow> addr option \<Rightarrow> (bool \<times> pheap \<times> pbqueue) option" where
  "q_push h q buffer =
     (case buffer of
        None \<Rightarrow> Some (False, h, q)
      | Some t \<Rightarrow> do {
          b \<leftarrow> heap_at h t;
          full \<leftarrow> q_is_full h q;
          sz \<leftarrow> q_size h q;
          if pb_tot_len b > 0 \<and> \<not> full then
            (if qchain q \<noteq> None then
               (if sz + pb_tot_len b \<le> capacity q
                then do { h' \<leftarrow> pbuf_chain h (qchain q) (Some t); Some (True, h', q) }
                else Some (False, h, q))
             else do { h' \<leftarrow> pbuf_ref h (Some t); Some (True, h', q\<lparr>qchain := Some t, qoffset := 0\<rparr>) })
          else Some (False, h, q)
        })"

definition q_pop :: "pheap \<Rightarrow> pbqueue \<Rightarrow> (addr option \<times> pheap \<times> pbqueue) option" where
  "q_pop h q =
     (case qchain q of
        None \<Rightarrow> Some (None, h, q)
      | Some a \<Rightarrow> do {
          b \<leftarrow> heap_at h a;
          Some (Some a, heap_put h a (b\<lparr>pb_tot_len := pb_len b, pb_next := None\<rparr>),
            q\<lparr>qchain := pb_next b, qoffset := 0\<rparr>)
        })"

text \<open>A contiguous block: \<open>pdata\<close> are the bytes at the pointer, \<open>more_data\<close> tells the receiver that
  data follow. The tests \<^verbatim>\<open>(flags && PBUF_FLAG_PUSH) == 0\<close> of the source are logical, not bitwise:
  they hold exactly when \<^verbatim>\<open>flags\<close> is 0.\<close>

record cblock =
  pdata :: "byte list"
  clen :: nat
  more_data :: bool

definition q_get_cblock_n :: "pheap \<Rightarrow> pbqueue \<Rightarrow> nat \<Rightarrow> cblock option" where
  "q_get_cblock_n h q len =
     (case qchain q of
        None \<Rightarrow> Some \<lparr>pdata = [], clen = 0, more_data = False\<rparr>
      | Some a \<Rightarrow> do {
          b \<leftarrow> heap_at h a;
          let available = size_sub (pb_len b) (qoffset q);
          next_unflagged \<leftarrow> (case pb_next b of
             None \<Rightarrow> Some False
           | Some n \<Rightarrow> do { nb \<leftarrow> heap_at h n; Some (pb_flags nb = 0) });
          let cblock_len = u16 (min len available);
          Some \<lparr>pdata = take cblock_len (drop (qoffset q) (pb_payload b)), clen = cblock_len,
            more_data = (len < available \<or> pb_flags b = 0 \<and> next_unflagged)\<rparr>
        })"

definition q_get_cblock :: "pheap \<Rightarrow> pbqueue \<Rightarrow> cblock option" where
  "q_get_cblock h q =
     (case qchain q of
        None \<Rightarrow> None
      | Some a \<Rightarrow> do { b \<leftarrow> heap_at h a; q_get_cblock_n h q (size_sub (pb_len b) (qoffset q)) })"

definition q_move :: "pheap \<Rightarrow> pbqueue \<Rightarrow> nat \<Rightarrow> (bool \<times> pheap \<times> pbqueue) option" where
  "q_move h q len =
     (case qchain q of
        None \<Rightarrow> Some (False, h, q)
      | Some a \<Rightarrow> do {
          b \<leftarrow> heap_at h a;
          if qoffset q + len \<le> pb_len b then
            (let q' = q\<lparr>qoffset := qoffset q + len\<rparr> in
             if pb_len b - qoffset q' = 0 then do {
               (p, h1, q1) \<leftarrow> q_pop h q';
               (_, h2) \<leftarrow> pbuf_free h1 p;
               Some (True, h2, q1)
             } else Some (True, h, q'))
          else Some (False, h, q)
        })"

section \<open>The invariant\<close>

text \<open>The cells of the queue form a well-formed chain of non-empty, referenced buffers, and the
  offset is inside the first one. The content is what has not been consumed.\<close>

definition live_cells :: "pheap \<Rightarrow> addr list \<Rightarrow> bool" where
  "live_cells h as \<longleftrightarrow> (\<forall>a \<in> set as. ref_at h a \<noteq> 0 \<and> payload_at h a \<noteq> [])"

definition q_ok :: "pheap \<Rightarrow> pbqueue \<Rightarrow> addr list \<Rightarrow> bool" where
  "q_ok h q as \<longleftrightarrow> chain_ok h (qchain q) as \<and> live_cells h as \<and> capacity q < 65536 \<and>
     (if as = [] then qoffset q = 0 else qoffset q < length (payload_at h (hd as)))"

definition q_bytes :: "pheap \<Rightarrow> pbqueue \<Rightarrow> addr list \<Rightarrow> byte list" where
  "q_bytes h q as = drop (qoffset q) (chain_bytes h as)"

lemma live_cells_simps [simp]:
  "live_cells h []" "live_cells h (a # as) \<longleftrightarrow> ref_at h a \<noteq> 0 \<and> payload_at h a \<noteq> [] \<and> live_cells h as"
  "live_cells h (as @ bs) \<longleftrightarrow> live_cells h as \<and> live_cells h bs"
  by (auto simp: live_cells_def)

lemma q_ok_new: "cap < 65536 \<Longrightarrow> q_ok h (q_new cap) []"
  by (simp add: q_ok_def q_new_def chain_ok_def)

lemma q_ok_empty_iff: "q_ok h q as \<Longrightarrow> q_is_empty q \<longleftrightarrow> as = []"
  by (cases as) (auto simp: q_ok_def q_is_empty_def chain_ok_def)

lemma q_ok_ConsE:
  assumes "q_ok h q (a # as)"
  obtains b where "qchain q = Some a" "heap_at h a = Some b" "chain_ok h (pb_next b) as"
    "pb_payload b = payload_at h a" "pb_ref b = ref_at h a" "pb_tot_len b = length (chain_bytes h (a # as))"
    "qoffset q < pb_len b" "a \<notin> set as"
proof -
  from assms obtain b where b: "qchain q = Some a" "heap_at h a = Some b" "chain_ok h (pb_next b) as"
    by (auto simp: q_ok_def chain_ok_def split: option.splits)
  moreover have "pb_tot_len b = length (chain_bytes h (a # as))"
    using assms b by (intro chain_tot [of h a]) (simp_all add: q_ok_def)
  moreover have "a \<notin> set as"
    using path_distinct [of h "qchain q" "a # as"] assms by (simp add: q_ok_def chain_ok_def)
  ultimately show ?thesis
    using assms by (intro that [of b]) (auto simp: q_ok_def payload_at_def ref_at_def pb_len_def)
qed

lemma q_size_ok:
  assumes "q_ok h q as"
  shows "q_size h q = Some (length (chain_bytes h as))"
proof (cases as)
  case Nil
  with q_ok_empty_iff [OF assms] show ?thesis by (simp add: q_size_def q_is_empty_def chain_simps)
next
  case (Cons a bs)
  with assms show ?thesis by (auto simp: q_size_def elim!: q_ok_ConsE)
qed

lemma q_bytes_Nil_iff: "q_ok h q as \<Longrightarrow> q_bytes h q as = [] \<longleftrightarrow> as = []"
  by (cases as) (auto simp: q_ok_def q_bytes_def chain_simps)

lemma q_count_ok: "q_ok h q as \<Longrightarrow> q_count h q = Some (u16 (length as))"
  by (simp add: q_count_def q_ok_def chain_ok_def pbuf_clen_ok)

section \<open>push\<close>

lemma live_cells_cong:
  "(\<And>x. x \<in> set as \<Longrightarrow> payload_at h' x = payload_at h x) \<Longrightarrow> (\<And>x. x \<in> set as \<Longrightarrow> ref_at h' x \<noteq> 0) \<Longrightarrow>
   live_cells h as \<Longrightarrow> live_cells h' as"
  by (simp add: live_cells_def)

text \<open>What a caller may push: a well-formed chain of its own, whose first cell can take one more
  reference.\<close>

definition pushable :: "pheap \<Rightarrow> addr \<Rightarrow> addr list \<Rightarrow> addr list \<Rightarrow> bool" where
  "pushable h t ts as \<longleftrightarrow> chain_ok h (Some t) ts \<and> live_cells h ts \<and> set as \<inter> set ts = {} \<and> ref_at h t + 1 \<noteq> 0"

lemma pushable_head:
  assumes "pushable h t ts as"
  obtains b tr where "heap_at h t = Some b" "ts = t # tr" "pb_tot_len b = length (chain_bytes h ts)" "0 < pb_tot_len b"
proof -
  from assms chain_head_alive obtain b tr where b: "heap_at h t = Some b" "ts = t # tr"
    unfolding pushable_def by blast
  moreover have "pb_tot_len b = length (chain_bytes h ts)"
    using assms b by (intro chain_tot [of h t]) (simp_all add: pushable_def)
  moreover have "payload_at h t \<noteq> []" using assms b by (simp add: pushable_def)
  ultimately show ?thesis by (intro that [of b tr]) (simp_all add: chain_simps)
qed

lemma payload_at_eq:
  assumes "\<forall>xs. chain_bytes h' xs = chain_bytes h xs"
  shows "payload_at h' x = payload_at h x"
  using assms [rule_format, of "[x]"] by (simp add: chain_simps)

lemma q_push_nonempty:
  assumes q: "q_ok h q as" "as \<noteq> []" and p: "pushable h t ts as"
    and fits: "length (chain_bytes h (as @ ts)) \<le> capacity q"
  shows "\<exists>h'. q_push h q (Some t) = Some (True, h', q) \<and> q_ok h' q (as @ ts) \<and>
    q_bytes h' q (as @ ts) = q_bytes h q as @ chain_bytes h ts \<and> ref_at h' t = ref_at h t + 1 \<and>
    chain_bytes h' (as @ ts) = chain_bytes h (as @ ts) \<and>
    (\<forall>x. x \<notin> set as \<longrightarrow> x \<noteq> t \<longrightarrow> heap_at h' x = heap_at h x)"
proof -
  obtain a as' where as: "as = a # as'" using q(2) by (cases as) auto
  from q(1) [unfolded as] obtain b where b: "qchain q = Some a" by (rule q_ok_ConsE)
  from p obtain tb tr where tb: "heap_at h t = Some tb" "ts = t # tr" "pb_tot_len tb = length (chain_bytes h ts)"
    "0 < pb_tot_len tb" by (rule pushable_head)
  have cap: "capacity q < 65536" using q(1) by (simp add: q_ok_def)
  have "chain_ok h (Some a) as" using q(1) b by (simp add: q_ok_def)
  from pbuf_chain_ok [OF this, of t ts] p fits cap obtain h' where h':
    "pbuf_chain h (Some a) (Some t) = Some h'" "chain_ok h' (Some a) (as @ ts)"
    "\<forall>xs. chain_bytes h' xs = chain_bytes h xs"
    "\<forall>x. ref_at h' x = (if x = t then ref_at h t + 1 else ref_at h x)"
    "\<forall>x. x \<notin> set as \<longrightarrow> x \<noteq> t \<longrightarrow> heap_at h' x = heap_at h x"
    by (auto simp: pushable_def)
  note pay = payload_at_eq [OF h'(3)]
  have lt: "length (chain_bytes h as) < capacity q"
    using fits tb(3,4) unfolding chain_bytes_simps length_append by linarith
  then have "q_push h q (Some t) = Some (True, h', q)"
    using b tb q_size_ok [OF q(1)] fits h'(1)
    by (simp add: q_push_def q_is_full_def q_remaining_space_def chain_simps)
  moreover have "live_cells h (as @ ts)" using q(1) p by (simp add: q_ok_def pushable_def)
  then have "live_cells h' (as @ ts)"
    using h'(4) p by (intro live_cells_cong [of _ h' h]) (auto simp: pay pushable_def live_cells_def)
  then have "q_ok h' q (as @ ts)"
    using q h'(2) b as by (simp add: q_ok_def pay)
  moreover have "q_bytes h' q (as @ ts) = q_bytes h q as @ chain_bytes h ts"
    using q(1) as unfolding q_bytes_def h'(3) [rule_format] by (simp add: q_ok_def chain_simps)
  ultimately show ?thesis using h'(3-5) by auto
qed

lemma q_push_full:
  assumes q: "q_ok h q as" "as \<noteq> []" and p: "pushable h t ts as"
    and big: "capacity q < length (chain_bytes h (as @ ts))"
  shows "q_push h q (Some t) = Some (False, h, q)"
proof -
  obtain a as' where as: "as = a # as'" using q(2) by (cases as) auto
  from q(1) [unfolded as] obtain b where b: "qchain q = Some a" by (rule q_ok_ConsE)
  from p obtain tb tr where tb: "heap_at h t = Some tb" "pb_tot_len tb = length (chain_bytes h ts)"
    by (rule pushable_head)
  show ?thesis
    using b tb q_size_ok [OF q(1)] big
    by (simp add: q_push_def q_is_full_def q_remaining_space_def chain_simps)
qed

text \<open>The first buffer is accepted whatever its length.\<close>

lemma q_push_first:
  assumes q: "q_ok h q []" and p: "pushable h t ts []" and cap: "0 < capacity q"
  shows "\<exists>h' q'. q_push h q (Some t) = Some (True, h', q') \<and> q_ok h' q' ts \<and>
    capacity q' = capacity q \<and> q_bytes h' q' ts = chain_bytes h ts \<and> ref_at h' t = ref_at h t + 1 \<and>
    chain_bytes h' ts = chain_bytes h ts \<and> (\<forall>x. x \<noteq> t \<longrightarrow> heap_at h' x = heap_at h x)"
proof -
  from p obtain tb tr where tb: "heap_at h t = Some tb" "ts = t # tr" "pb_tot_len tb = length (chain_bytes h ts)"
    "0 < pb_tot_len tb" by (rule pushable_head)
  let ?h = "heap_put h t (tb\<lparr>pb_ref := pb_ref tb + 1\<rparr>)" and ?q = "q\<lparr>qchain := Some t, qoffset := 0\<rparr>"
  have r: "pb_ref tb + 1 \<noteq> 0" using p tb by (simp add: pushable_def ref_at_def)
  have none: "qchain q = None" using q_ok_empty_iff [OF q] by (simp add: q_is_empty_def)
  have "q_push h q (Some t) = Some (True, ?h, ?q)"
    using none tb cap pbuf_ref_ok [OF tb(1) r] q_size_ok [OF q]
    by (simp add: q_push_def q_is_full_def q_remaining_space_def chain_simps)
  moreover have pay: "payload_at ?h x = payload_at h x" for x
    using put_ref_chain(2) [OF tb(1), of _ "[x]"] by (simp add: chain_simps)
  have tl: "t < length h" using tb heap_at_length by blast
  have "live_cells ?h ts"
    using p tl r by (intro live_cells_cong [of _ ?h h])
      (auto simp: pay pushable_def live_cells_def ref_at_def heap_at_put)
  then have "q_ok ?h ?q ts"
    using q p put_ref_chain(1) [OF tb(1)] tb(2) by (simp add: q_ok_def pushable_def pay)
  moreover have "q_bytes ?h ?q ts = chain_bytes h ts"
    using put_ref_chain(2) [OF tb(1)] by (simp add: q_bytes_def)
  moreover have "ref_at ?h t = ref_at h t + 1" "chain_bytes ?h ts = chain_bytes h ts"
    "\<forall>x. x \<noteq> t \<longrightarrow> heap_at ?h x = heap_at h x"
    using tb(1) tl put_ref_chain(2) [OF tb(1)] by (simp_all add: ref_at_def heap_at_put)
  ultimately show ?thesis by auto
qed

section \<open>pop, move and clear\<close>

lemma heap_put_detach:
  assumes q: "q_ok h q (a # as)" and b: "heap_at h a = Some b"
  shows "chain_ok (heap_put h a b') p as = chain_ok h p as" "chain_bytes (heap_put h a b') as = chain_bytes h as"
    "live_cells (heap_put h a b') as = live_cells h as"
proof -
  from q have "a \<notin> set as" by (rule q_ok_ConsE)
  then have *: "x \<in> set as \<Longrightarrow> heap_at (heap_put h a b') x = heap_at h x" for x
    using b heap_at_length [OF b] by (auto simp: heap_at_put)
  show "chain_ok (heap_put h a b') p as = chain_ok h p as" by (rule chain_ok_cong) (rule *)
  show "chain_bytes (heap_put h a b') as = chain_bytes h as" by (rule tot_ok_cong(2)) (rule *)
  show "live_cells (heap_put h a b') as = live_cells h as"
    using * by (auto simp: live_cells_def payload_at_def ref_at_def)
qed

lemma q_pop_ok:
  assumes "q_ok h q (a # as)" "heap_at h a = Some b"
  shows "\<exists>h' q'. q_pop h q = Some (Some a, h', q') \<and> q_ok h' q' as \<and> capacity q' = capacity q \<and>
    q_bytes h' q' as = chain_bytes h as \<and>
    heap_at h' a = Some (b\<lparr>pb_tot_len := pb_len b, pb_next := None\<rparr>) \<and> length h' = length h \<and>
    (\<forall>x. x \<noteq> a \<longrightarrow> heap_at h' x = heap_at h x)"
proof -
  from assms obtain b' where b': "qchain q = Some a" "heap_at h a = Some b'" "chain_ok h (pb_next b') as"
    by (auto elim: q_ok_ConsE)
  with assms(2) have b: "b' = b" by simp
  have al: "a < length h" using assms(2) heap_at_length by blast
  let ?h = "heap_put h a (b\<lparr>pb_tot_len := pb_len b, pb_next := None\<rparr>)"
  let ?q = "q\<lparr>qchain := pb_next b, qoffset := 0\<rparr>"
  have "q_pop h q = Some (Some a, ?h, ?q)" using b' b by (simp add: q_pop_def)
  moreover have "q_ok ?h ?q as" and "q_bytes ?h ?q as = chain_bytes h as"
    using heap_put_detach [OF assms] assms(1) b' b by (auto simp: q_ok_def q_bytes_def payload_at_def live_cells_def)
  ultimately show ?thesis using al by (auto simp: heap_at_put)
qed

text \<open>\<open>move\<close> consumes bytes of the first buffer; at its end the buffer is taken off the queue and
  its reference dropped.\<close>

lemma q_move_ok:
  assumes q: "q_ok h q (a # as)" and n: "qoffset q + n \<le> length (payload_at h a)"
  shows "\<exists>h' q' as'. q_move h q n = Some (True, h', q') \<and> q_ok h' q' as' \<and> capacity q' = capacity q \<and>
    q_bytes h' q' as' = drop n (q_bytes h q (a # as)) \<and> (\<forall>x. x \<noteq> a \<longrightarrow> heap_at h' x = heap_at h x) \<and>
    (as' = as \<or> as' = a # as) \<and> chain_bytes h' as' = chain_bytes h as'"
proof -
  from q obtain b where b: "qchain q = Some a" "heap_at h a = Some b" "pb_payload b = payload_at h a"
    "qoffset q < pb_len b" "pb_ref b = ref_at h a" by (rule q_ok_ConsE)
  let ?q = "q\<lparr>qoffset := qoffset q + n\<rparr>"
  have len: "length (payload_at h a) = pb_len b" using b(3) by (simp add: pb_len_def)
  show ?thesis
  proof (cases "pb_len b - (qoffset q + n) = 0")
    case False
    then have "q_move h q n = Some (True, h, ?q)" using b n len by (simp add: q_move_def)
    moreover have "q_ok h ?q (a # as)" using q False len by (simp add: q_ok_def)
    moreover have "q_bytes h ?q (a # as) = drop n (q_bytes h q (a # as))"
      by (simp add: q_bytes_def add.commute)
    ultimately show ?thesis by (intro exI [of _ h] exI [of _ ?q] exI [of _ "a # as"]) simp
  next
    case True
    with n len have full: "qoffset q + n = pb_len b" by simp
    have same: "q_pop h ?q = q_pop h q" using b(1,2) by (cases q) (simp add: q_pop_def)
    obtain h1 q1 where p: "q_pop h q = Some (Some a, h1, q1)" "q_ok h1 q1 as" "capacity q1 = capacity q"
      "q_bytes h1 q1 as = chain_bytes h as" "heap_at h1 a = Some (b\<lparr>pb_tot_len := pb_len b, pb_next := None\<rparr>)"
      "\<forall>x. x \<noteq> a \<longrightarrow> heap_at h1 x = heap_at h x"
      using q_pop_ok [OF q b(2)] by blast
    have r: "ref_at h1 a \<noteq> 0" using p(5) b(5) q by (simp add: ref_at_def q_ok_def)
    have "path h1 (Some a) [a]" using p(5) by simp
    from pbuf_free_ok [OF this] r obtain h2 where h2: "pbuf_free h1 (Some a) = Some (length (freed h1 [a]) mod 256, h2)"
      "\<forall>x. heap_at h2 x = freed_heap h1 [a] x" by auto
    have fr: "x \<noteq> a \<Longrightarrow> heap_at h2 x = heap_at h1 x" for x
      using h2(2) by (auto simp: freed_heap_def freed_def kept_def)
    from q have nas: "a \<notin> set as" by (rule q_ok_ConsE)
    then have fra: "x \<in> set as \<Longrightarrow> heap_at h2 x = heap_at h1 x" for x by (cases "x = a") (simp_all add: fr)
    have "q_move h q n = Some (True, h2, q1)"
      using b n len full p(1) same h2(1) by (simp add: q_move_def)
    moreover have "chain_ok h2 (qchain q1) as = chain_ok h1 (qchain q1) as" by (rule chain_ok_cong) (rule fra)
    moreover have "live_cells h2 as = live_cells h1 as"
      using fra by (auto simp: live_cells_def payload_at_def ref_at_def)
    moreover have "as \<noteq> [] \<Longrightarrow> payload_at h2 (hd as) = payload_at h1 (hd as)"
      using fra [of "hd as"] by (simp add: payload_at_def)
    ultimately have "q_ok h2 q1 as" using p(2) by (simp add: q_ok_def)
    moreover have eq1: "q_bytes h2 q1 as = q_bytes h1 q1 as"
      using tot_ok_cong(2) [of as h2 h1] fra by (simp add: q_bytes_def)
    have eq2: "chain_bytes h as = drop n (q_bytes h q (a # as))"
      using full len by (simp add: q_bytes_def chain_simps add.commute)
    have "x \<in> set as \<Longrightarrow> heap_at h2 x = heap_at h x" for x
      using fra p(6) nas by (cases "x = a") auto
    then have "chain_bytes h2 as = chain_bytes h as" using tot_ok_cong(2) [of as h2 h] by simp
    ultimately show ?thesis
      using \<open>q_move h q n = Some (True, h2, q1)\<close> p(3,4,6) fr eq1 eq2
      by (intro exI [of _ h2] exI [of _ q1] exI [of _ as]) simp
  qed
qed

lemma q_move_past:
  assumes q: "q_ok h q (a # as)" and n: "length (payload_at h a) < qoffset q + n"
  shows "q_move h q n = Some (False, h, q)"
proof -
  from q obtain b where "qchain q = Some a" "heap_at h a = Some b" "pb_payload b = payload_at h a"
    by (rule q_ok_ConsE)
  with n show ?thesis by (simp add: q_move_def pb_len_def)
qed

lemma q_move_empty: "q_ok h q [] \<Longrightarrow> q_move h q n = Some (False, h, q)"
  by (simp add: q_move_def q_ok_def chain_ok_def)

lemma q_clear_ok:
  assumes "q_ok h q as"
  shows "\<exists>h' q'. q_clear h q = Some (h', q') \<and> q_ok h' q' [] \<and> capacity q' = capacity q \<and>
    (\<forall>x. heap_at h' x = freed_heap h as x)"
proof (cases as)
  case Nil
  with assms have "qchain q = None" by (simp add: q_ok_def chain_ok_def)
  with assms Nil show ?thesis
    by (simp add: q_clear_def freed_heap_def freed_def kept_def q_ok_def chain_ok_def)
next
  case (Cons a bs)
  with assms have a: "qchain q = Some a" "path h (Some a) as" "\<forall>a \<in> set as. ref_at h a \<noteq> 0" "capacity q < 65536"
    by (auto simp: q_ok_def chain_ok_def live_cells_def split: option.splits)
  from pbuf_free_ok [OF a(2,3)] obtain h' n where "pbuf_free h (Some a) = Some (n, h')" "\<forall>x. heap_at h' x = freed_heap h as x"
    by auto
  with a show ?thesis by (simp add: q_clear_def q_ok_def chain_ok_def)
qed

section \<open>Blocks\<close>

lemma q_get_cblock_ok:
  assumes q: "q_ok h q (a # as)"
  shows "\<exists>c. q_get_cblock_n h q len = Some c \<and> clen c = length (pdata c) \<and>
      pdata c = take (min len (length (payload_at h a) - qoffset q)) (drop (qoffset q) (payload_at h a)) \<and>
      qoffset q + clen c \<le> length (payload_at h a) \<and> clen c \<le> len \<and>
      pdata c = take (clen c) (q_bytes h q (a # as)) \<and> (0 < len \<longrightarrow> 0 < clen c)"
    and "\<exists>c. q_get_cblock h q = Some c \<and> clen c = length (pdata c) \<and>
      pdata c = drop (qoffset q) (payload_at h a) \<and> qoffset q + clen c \<le> length (payload_at h a) \<and>
      pdata c = take (clen c) (q_bytes h q (a # as)) \<and> 0 < clen c"
proof -
  from q obtain b where b: "qchain q = Some a" "heap_at h a = Some b" "pb_payload b = payload_at h a"
    "qoffset q < pb_len b" "pb_tot_len b = length (chain_bytes h (a # as))" "chain_ok h (pb_next b) as"
    by (rule q_ok_ConsE)
  have nx: "\<exists>u. (case pb_next b of None \<Rightarrow> Some False
      | Some n \<Rightarrow> Option.bind (heap_at h n) (\<lambda>nb. Some (pb_flags nb = 0))) = Some u"
    using b(6) by (cases as) (auto simp: chain_ok_def split: option.splits)
  have len: "pb_len b = length (payload_at h a)" using b(3) by (simp add: pb_len_def)
  have "pb_len b < 65536" using q b(5) len by (auto simp: q_ok_def chain_ok_def chain_simps)
  then have u: "u16 (min l (pb_len b - qoffset q)) = min l (pb_len b - qoffset q)" for l
    by (intro u16_id) linarith
  have main: "\<exists>c. q_get_cblock_n h q l = Some c \<and> clen c = length (pdata c) \<and>
      clen c = min l (pb_len b - qoffset q) \<and> pdata c = take (clen c) (drop (qoffset q) (payload_at h a))" for l
    using b nx u [of l] len by (auto simp: q_get_cblock_n_def Let_def)
  have pre: "n \<le> pb_len b - qoffset q \<Longrightarrow>
      take n (drop (qoffset q) (payload_at h a)) = take n (q_bytes h q (a # as))" for n
    using b(4) len by (simp add: q_bytes_def chain_simps)
  from main [of len] pre len b(4)
  show "\<exists>c. q_get_cblock_n h q len = Some c \<and> clen c = length (pdata c) \<and>
      pdata c = take (min len (length (payload_at h a) - qoffset q)) (drop (qoffset q) (payload_at h a)) \<and>
      qoffset q + clen c \<le> length (payload_at h a) \<and> clen c \<le> len \<and>
      pdata c = take (clen c) (q_bytes h q (a # as)) \<and> (0 < len \<longrightarrow> 0 < clen c)"
    by auto
  from main [of "pb_len b - qoffset q"] pre [of "pb_len b - qoffset q"] len b
  show "\<exists>c. q_get_cblock h q = Some c \<and> clen c = length (pdata c) \<and>
      pdata c = drop (qoffset q) (payload_at h a) \<and> qoffset q + clen c \<le> length (payload_at h a) \<and>
      pdata c = take (clen c) (q_bytes h q (a # as)) \<and> 0 < clen c"
    by (auto simp: q_get_cblock_def)
qed

section \<open>Invariant and content as functions of the state\<close>

text \<open>The cells of a chain, at most as many as the heap has.\<close>

fun cells :: "nat \<Rightarrow> pheap \<Rightarrow> addr option \<Rightarrow> addr list" where
  "cells 0 h p = []"
| "cells (Suc n) h p =
     (case p of
        None \<Rightarrow> []
      | Some a \<Rightarrow> a # (case heap_at h a of None \<Rightarrow> [] | Some b \<Rightarrow> cells n h (pb_next b)))"

definition q_cells :: "pheap \<Rightarrow> pbqueue \<Rightarrow> addr list" where
  "q_cells h q = cells (length h) h (qchain q)"

definition q_inv :: "pheap \<times> pbqueue \<Rightarrow> bool" where
  "q_inv s = (case s of (h, q) \<Rightarrow> q_ok h q (q_cells h q))"

definition q_content :: "pheap \<times> pbqueue \<Rightarrow> byte list" where
  "q_content s = (case s of (h, q) \<Rightarrow> q_bytes h q (q_cells h q))"

lemma cells_path: "path h p as \<Longrightarrow> length as \<le> n \<Longrightarrow> cells n h p = as"
proof (induction as arbitrary: p n)
  case Nil
  then show ?case by (cases n) auto
next
  case (Cons a as)
  then show ?case by (cases n) (auto split: option.splits)
qed

lemma path_length: "path h p as \<Longrightarrow> length as \<le> length h"
proof -
  assume p: "path h p as"
  have "set as \<subseteq> {..<length h}" by (auto dest!: path_alive [OF p] heap_at_length)
  then have "card (set as) \<le> length h" using card_mono [of "{..<length h}"] by fastforce
  then show ?thesis using path_distinct [OF p] by (simp add: distinct_card)
qed

lemma q_cells_eq: "q_ok h q as \<Longrightarrow> q_cells h q = as"
  unfolding q_cells_def q_ok_def chain_ok_def using cells_path path_length by blast

lemma q_inv_iff: "q_inv (h, q) \<longleftrightarrow> (\<exists>as. q_ok h q as)"
  using q_cells_eq by (auto simp: q_inv_def)

lemma q_inv_ok: "q_ok h q as \<Longrightarrow> q_inv (h, q) \<and> q_content (h, q) = q_bytes h q as"
  using q_cells_eq [of h q as] by (auto simp: q_inv_def q_content_def)

section \<open>Aliasing\<close>

text \<open>The queue does not depend on foreign cells, nor on the reference counts of its own.\<close>

lemma single_cell:
  assumes "chain_ok h (Some a) [a]"
  shows "cells (length h) h (Some a) = [a]" "path h (Some a) [a]"
proof -
  show p: "path h (Some a) [a]" using assms by (simp add: chain_ok_def)
  show "cells (length h) h (Some a) = [a]" using cells_path [OF p path_length [OF p]] .
qed

lemma live_put_ref:
  assumes "heap_at h f = Some b" "r \<noteq> 0" "live_cells h as"
  shows "live_cells (heap_put h f (b\<lparr>pb_ref := r\<rparr>)) as"
proof -
  have "f < length h" using assms(1) heap_at_length by blast
  with assms show ?thesis by (auto simp: live_cells_def ref_at_def payload_at_def heap_at_put)
qed

lemma q_ok_put_ref:
  assumes "q_ok h q as" "heap_at h f = Some b" "r \<noteq> 0"
  shows "q_ok (heap_put h f (b\<lparr>pb_ref := r\<rparr>)) q as" "q_bytes (heap_put h f (b\<lparr>pb_ref := r\<rparr>)) q as = q_bytes h q as"
proof -
  let ?h = "heap_put h f (b\<lparr>pb_ref := r\<rparr>)"
  have "payload_at ?h x = payload_at h x" for x
    using put_ref_chain(2) [OF assms(2), of r "[x]"] by (simp add: chain_simps)
  then show "q_ok ?h q as" using assms put_ref_chain(1) [OF assms(2)] live_put_ref [OF assms(2,3)]
    by (simp add: q_ok_def)
  show "q_bytes ?h q as = q_bytes h q as" using put_ref_chain(2) [OF assms(2)] by (simp add: q_bytes_def)
qed

lemma q_ok_frame:
  assumes "q_ok h q as" "\<And>x. x \<in> set as \<Longrightarrow> heap_at h' x = heap_at h x"
  shows "q_ok h' q as" "q_bytes h' q as = q_bytes h q as"
proof -
  have "payload_at h' (hd as) = payload_at h (hd as)" if "as \<noteq> []"
    using assms(2) [of "hd as"] that by (simp add: payload_at_def)
  moreover have "live_cells h' as = live_cells h as"
    using assms(2) by (auto simp: live_cells_def payload_at_def ref_at_def)
  ultimately show "q_ok h' q as" using assms(1) chain_ok_cong [of as h' h] assms(2) by (simp add: q_ok_def)
  show "q_bytes h' q as = q_bytes h q as" using tot_ok_cong(2) [of as h' h] assms(2) by (simp add: q_bytes_def)
qed

lemma q_push_chain:
  assumes "q_push h q (Some f) = Some (True, h', q')" "qchain q = Some a"
  shows "pbuf_chain h (Some a) (Some f) = Some h'"
  using assms by (auto simp: q_push_def bind_eq_Some_conv split: if_splits)

lemma cell_next:
  assumes "chain_ok h p (as @ [f])"
  shows "\<exists>b. heap_at h f = Some b \<and> pb_next b = None \<and> pb_tot_len b = length (payload_at h f)"
proof -
  have "chain_ok h (Some f) [f]" using assms chain_ok_append [of h p as f "[]"] by (simp add: chain_ok_def)
  then obtain b where b: "heap_at h f = Some b" "pb_next b = None" by (auto simp: chain_ok_def split: option.splits)
  moreover have "pb_tot_len b = length (payload_at h f)"
    using chain_tot [OF \<open>chain_ok h (Some f) [f]\<close> b(1)] by (simp add: chain_simps)
  ultimately show ?thesis by blast
qed

text \<open>Pushing a fresh cell: accepted behind the content, sharing the cell, or refused.\<close>

lemma q_push_cell:
  assumes q: "q_ok h q as" "0 < capacity q" and c: "chain_ok h (Some f) [f]" "ref_at h f = 1" "payload_at h f \<noteq> []"
    and f: "f \<notin> set as"
  shows "(\<exists>h' q'. q_push h q (Some f) = Some (True, h', q') \<and> q_ok h' q' (as @ [f]) \<and> capacity q' = capacity q \<and>
      q_bytes h' q' (as @ [f]) = q_bytes h q as @ payload_at h f \<and> ref_at h' f = 2 \<and> payload_at h' f = payload_at h f \<and>
      (\<forall>x. x \<notin> set as \<longrightarrow> x \<noteq> f \<longrightarrow> heap_at h' x = heap_at h x)) \<or>
    q_push h q (Some f) = Some (False, h, q)"
proof (cases "as = []")
  case True
  have p: "pushable h f [f] as" using c f by (simp add: pushable_def)
  obtain tb where tb: "heap_at h f = Some tb" using c(1) chain_head_alive by blast
  have r: "pb_ref tb = 1" using c(2) tb by (simp add: ref_at_def)
  let ?h = "heap_put h f (tb\<lparr>pb_ref := 2\<rparr>)" and ?q = "q\<lparr>qchain := Some f, qoffset := 0\<rparr>"
  have fl: "f < length h" using tb heap_at_length by blast
  from q_push_first [of h q f "[f]"] q p True obtain h' q' where
    pu: "q_push h q (Some f) = Some (True, h', q')" "q_ok h' q' [f]" "capacity q' = capacity q"
      "q_bytes h' q' [f] = chain_bytes h [f]" by auto
  have "qchain q = None" using q_ok_empty_iff [OF q(1)] True by (simp add: q_is_empty_def)
  then have "pbuf_ref h (Some f) = Some h'"
    using pu(1) by (auto simp: q_push_def bind_eq_Some_conv split: if_splits)
  then have h': "h' = ?h" using pbuf_ref_ok [OF tb] r by simp
  have "ref_at ?h f = 2" "payload_at ?h f = payload_at h f" using fl tb by (simp_all add: ref_at_def payload_at_def heap_at_put)
  with pu True h' q(1) fl show ?thesis by (auto simp: q_bytes_def q_ok_def chain_simps heap_at_put)
next
  case False
  then obtain a as' where as: "as = a # as'" by (cases as) auto
  have p: "pushable h f [f] as" using c f by (simp add: pushable_def)
  from q(1) [unfolded as] obtain b where qc: "qchain q = Some a" by (rule q_ok_ConsE)
  show ?thesis
  proof (cases "length (chain_bytes h (as @ [f])) \<le> capacity q")
    case fits: True
    from q_push_nonempty [OF q(1) False p fits] obtain h' where
      pu: "q_push h q (Some f) = Some (True, h', q)" "q_ok h' q (as @ [f])"
        "q_bytes h' q (as @ [f]) = q_bytes h q as @ chain_bytes h [f]" by blast
    have "chain_ok h (Some a) as" "capacity q < 65536" using q(1) qc by (simp_all add: q_ok_def)
    with pbuf_chain_ok [of h a as f "[f]"] c f fits q_push_chain [OF pu(1) qc]
    have "\<forall>x. x \<notin> set as \<longrightarrow> x \<noteq> f \<longrightarrow> heap_at h' x = heap_at h x" "ref_at h' f = 2"
      "chain_bytes h' [f] = chain_bytes h [f]" by auto
    with pu show ?thesis by (auto simp: chain_simps)
  next
    case False
    with q_push_full [OF q(1) _ p] as show ?thesis by simp
  qed
qed

text \<open>Dropping one of several references keeps the cell.\<close>

lemma pbuf_free_shared:
  assumes "heap_at h t = Some b" "pb_ref b \<noteq> 0" "pb_ref b \<noteq> 1" "path h (Some t) ts" "live_cells h ts"
  shows "\<exists>n. pbuf_free h (Some t) = Some (n, heap_put h t (b\<lparr>pb_ref := pb_ref b - 1\<rparr>))"
  using assms by (auto simp: pbuf_free_def pbuf_free_loop.simps [of h "Some t"] heap_put_def ref_at_def split: if_splits)

text \<open>What every producer does: push a buffer and, when it was taken, drop the own reference. The
  queue then is its only owner.\<close>

lemma q_push_buffer:
  assumes q: "q_ok h q as" and cap: "0 < capacity q" and p: "pushable h t ts as"
  shows "(\<exists>h1 q' n h2. q_push h q (Some t) = Some (True, h1, q') \<and> pbuf_free h1 (Some t) = Some (n, h2) \<and>
      q_ok h2 q' (as @ ts) \<and> capacity q' = capacity q \<and>
      q_bytes h2 q' (as @ ts) = q_bytes h q as @ chain_bytes h ts \<and>
      chain_bytes h2 (as @ ts) = chain_bytes h (as @ ts) \<and>
      (as \<noteq> [] \<longrightarrow> length (chain_bytes h (as @ ts)) \<le> capacity q) \<and>
      (\<forall>x. x \<notin> set (as @ ts) \<longrightarrow> heap_at h2 x = heap_at h x)) \<or>
    as \<noteq> [] \<and> q_push h q (Some t) = Some (False, h, q)"
proof -
  from p obtain tr where ts: "ts = t # tr" by (rule pushable_head)
  with p have t: "t \<in> set ts" "ref_at h t \<noteq> 0" "ref_at h t + 1 \<noteq> 0" by (auto simp: pushable_def)
  have "(\<exists>h1 q'. q_push h q (Some t) = Some (True, h1, q') \<and> q_ok h1 q' (as @ ts) \<and> capacity q' = capacity q \<and>
      q_bytes h1 q' (as @ ts) = q_bytes h q as @ chain_bytes h ts \<and> ref_at h1 t = ref_at h t + 1 \<and>
      chain_bytes h1 (as @ ts) = chain_bytes h (as @ ts) \<and>
      (as \<noteq> [] \<longrightarrow> length (chain_bytes h (as @ ts)) \<le> capacity q) \<and>
      (\<forall>x. x \<notin> set as \<longrightarrow> x \<noteq> t \<longrightarrow> heap_at h1 x = heap_at h x)) \<or>
    as \<noteq> [] \<and> q_push h q (Some t) = Some (False, h, q)"
  proof (cases "as = []")
    case True
    with q_push_first [of h q t ts] q p cap show ?thesis
      by (auto simp: q_bytes_def q_ok_def chain_bytes_simps)
  next
    case False
    show ?thesis
    proof (cases "length (chain_bytes h (as @ ts)) \<le> capacity q")
      case True
      with q_push_nonempty [OF q False p] False show ?thesis by blast
    next
      case big: False
      with q_push_full [OF q False p] False show ?thesis by simp
    qed
  qed
  then show ?thesis
  proof (elim disjE exE conjE)
    fix h1 q'
    assume pu: "q_push h q (Some t) = Some (True, h1, q')" "q_ok h1 q' (as @ ts)" "capacity q' = capacity q"
      "q_bytes h1 q' (as @ ts) = q_bytes h q as @ chain_bytes h ts" "ref_at h1 t = ref_at h t + 1"
      "chain_bytes h1 (as @ ts) = chain_bytes h (as @ ts)"
      "as \<noteq> [] \<longrightarrow> length (chain_bytes h (as @ ts)) \<le> capacity q"
      "\<forall>x. x \<notin> set as \<longrightarrow> x \<noteq> t \<longrightarrow> heap_at h1 x = heap_at h x"
    obtain b where b: "heap_at h1 t = Some b" using pu(5) t by (cases "heap_at h1 t") (auto simp: ref_at_def)
    with pu(5) have r: "pb_ref b = ref_at h t + 1" by (simp add: ref_at_def)
    have us: "path h1 (Some t) ts" "live_cells h1 ts"
      using pu(2) chain_ok_append [of h1 "qchain q'" as t tr] by (auto simp: q_ok_def chain_ok_def ts)
    let ?h = "heap_put h1 t (b\<lparr>pb_ref := ref_at h t\<rparr>)"
    have "pb_ref b - 1 = ref_at h t" "pb_ref b \<noteq> 0" "pb_ref b \<noteq> 1" using r t by auto
    then obtain n where fr: "pbuf_free h1 (Some t) = Some (n, ?h)"
      using pbuf_free_shared [OF b _ _ us] by auto
    have tl: "t < length h1" using b heap_at_length by blast
    have fin: "q_ok ?h q' (as @ ts)" "q_bytes ?h q' (as @ ts) = q_bytes h q as @ chain_bytes h ts"
      "chain_bytes ?h (as @ ts) = chain_bytes h (as @ ts)"
      using q_ok_put_ref [OF pu(2) b t(2)] put_ref_chain(2) [OF b] pu(4,6) by simp_all
    have "\<forall>x. x \<notin> set (as @ ts) \<longrightarrow> heap_at ?h x = heap_at h x"
      using pu(8) t(1) tl by (auto simp: heap_at_put)
    with pu(1,3,7) fr fin show ?thesis by blast
  qed (rule disjI2, simp)
qed

section \<open>The interface of the writers\<close>

text \<open>What a writer may rely on: a block is a non-empty prefix of the content, any part of it can be
  consumed, and doing so keeps what does not belong to the queue (\<open>keeps\<close>, a preorder).\<close>

locale byte_queue =
  fixes inv :: "'s \<Rightarrow> bool" and content :: "'s \<Rightarrow> byte list" and empty :: "'s \<Rightarrow> bool"
    and block :: "nat option \<Rightarrow> 's \<Rightarrow> cblock option" and move :: "'s \<Rightarrow> nat \<Rightarrow> (bool \<times> 's) option"
    and keeps :: "'s \<Rightarrow> 's \<Rightarrow> bool"
  assumes empty_iff: "inv s \<Longrightarrow> empty s \<longleftrightarrow> content s = []"
    and block_ok: "inv s \<Longrightarrow> \<not> empty s \<Longrightarrow> lim \<noteq> Some 0 \<Longrightarrow>
      \<exists>c. block lim s = Some c \<and> clen c = length (pdata c) \<and> 0 < clen c \<and>
        pdata c = take (clen c) (content s) \<and> (case lim of None \<Rightarrow> True | Some n \<Rightarrow> clen c \<le> n)"
    and move_ok: "inv s \<Longrightarrow> \<not> empty s \<Longrightarrow> block lim s = Some c \<Longrightarrow> n \<le> clen c \<Longrightarrow>
      \<exists>s'. move s n = Some (True, s') \<and> inv s' \<and> content s' = drop n (content s) \<and> keeps s s'"
    and keeps_refl: "keeps s s"
    and keeps_trans: "keeps s s' \<Longrightarrow> keeps s' s'' \<Longrightarrow> keeps s s''"
begin

lemma step:
  assumes "inv s" "\<not> empty s" "lim \<noteq> Some 0"
  obtains c where "block lim s = Some c" "clen c = length (pdata c)" "0 < clen c"
    "case lim of None \<Rightarrow> True | Some n \<Rightarrow> clen c \<le> n"
    "\<And>n. n \<le> clen c \<Longrightarrow> \<exists>s'. move s n = Some (True, s') \<and> inv s' \<and>
       take n (pdata c) @ content s' = content s \<and> length (content s') = length (content s) - n \<and> keeps s s'"
proof -
  from block_ok [OF assms] obtain c where c: "block lim s = Some c" "clen c = length (pdata c)" "0 < clen c"
    "pdata c = take (clen c) (content s)" "case lim of None \<Rightarrow> True | Some n \<Rightarrow> clen c \<le> n" by blast
  have "\<exists>s'. move s n = Some (True, s') \<and> inv s' \<and> take n (pdata c) @ content s' = content s \<and>
      length (content s') = length (content s) - n \<and> keeps s s'" if n: "n \<le> clen c" for n
  proof -
    obtain s' where s': "move s n = Some (True, s')" "inv s'" "content s' = drop n (content s)" "keeps s s'"
      using move_ok [OF assms(1,2) c(1) n] by blast
    have "take n (pdata c) = take n (content s)" using c(4) n by (metis min.absorb1 take_take)
    with s' show ?thesis by auto
  qed
  with c show ?thesis by (intro that) auto
qed

end

definition q_block :: "nat option \<Rightarrow> pheap \<times> pbqueue \<Rightarrow> cblock option" where
  "q_block lim s = (case s of (h, q) \<Rightarrow>
     (case lim of None \<Rightarrow> q_get_cblock h q | Some n \<Rightarrow> q_get_cblock_n h q n))"

definition q_move_s :: "pheap \<times> pbqueue \<Rightarrow> nat \<Rightarrow> (bool \<times> pheap \<times> pbqueue) option" where
  "q_move_s s n = (case s of (h, q) \<Rightarrow> q_move h q n)"

lemma q_block_ok:
  assumes "q_ok h q (a # as)" "lim \<noteq> Some 0"
  shows "\<exists>c. q_block lim (h, q) = Some c \<and> clen c = length (pdata c) \<and> 0 < clen c \<and>
    pdata c = take (clen c) (q_bytes h q (a # as)) \<and> qoffset q + clen c \<le> length (payload_at h a) \<and>
    (case lim of None \<Rightarrow> True | Some n \<Rightarrow> clen c \<le> n)"
proof (cases lim)
  case None
  with q_get_cblock_ok(2) [OF assms(1)] show ?thesis by (auto simp: q_block_def)
next
  case (Some n)
  with q_get_cblock_ok(1) [OF assms(1), of n] assms(2) show ?thesis by (fastforce simp: q_block_def)
qed

text \<open>Consuming bytes changes no foreign cell and acquires none.\<close>

definition q_keeps :: "pheap \<times> pbqueue \<Rightarrow> pheap \<times> pbqueue \<Rightarrow> bool" where
  "q_keeps s s' = (case s of (h, q) \<Rightarrow> (case s' of (h', q') \<Rightarrow>
     capacity q' = capacity q \<and> set (q_cells h' q') \<subseteq> set (q_cells h q) \<and>
     (\<forall>x. x \<notin> set (q_cells h q) \<longrightarrow> heap_at h' x = heap_at h x) \<and>
     length (chain_bytes h' (q_cells h' q')) \<le> length (chain_bytes h (q_cells h q))))"

interpretation outq: byte_queue q_inv q_content "\<lambda>s. q_is_empty (snd s)" q_block q_move_s q_keeps
proof
  fix s :: "pheap \<times> pbqueue" and lim :: "nat option" and c :: cblock and n :: nat
  assume i: "q_inv s"
  obtain h q where s: "s = (h, q)" by (cases s)
  with i obtain as where q: "q_ok h q as" by (auto simp: q_inv_iff)
  note co = q_inv_ok [OF q]
  show "q_is_empty (snd s) \<longleftrightarrow> q_content s = []"
    using q_ok_empty_iff [OF q] q_bytes_Nil_iff [OF q] co s by simp
  assume ne: "\<not> q_is_empty (snd s)"
  then obtain a bs where as: "as = a # bs" using q_ok_empty_iff [OF q] s by (cases as) auto
  {
    assume "lim \<noteq> Some 0"
    from q_block_ok [OF q [unfolded as] this]
    show "\<exists>c. q_block lim s = Some c \<and> clen c = length (pdata c) \<and> 0 < clen c \<and>
        pdata c = take (clen c) (q_content s) \<and> (case lim of None \<Rightarrow> True | Some n \<Rightarrow> clen c \<le> n)"
      using co s as by auto
  next
    assume b: "q_block lim s = Some c" and n: "n \<le> clen c"
    have "qoffset q + clen c \<le> length (payload_at h a)"
      using b s q_get_cblock_ok(1) [OF q [unfolded as], of "the lim"] q_get_cblock_ok(2) [OF q [unfolded as]]
      by (cases lim) (auto simp: q_block_def)
    with n have "qoffset q + n \<le> length (payload_at h a)" by simp
    from q_move_ok [OF q [unfolded as] this] obtain h' q' as' where
      m: "q_move h q n = Some (True, h', q')" "q_ok h' q' as'" "q_bytes h' q' as' = drop n (q_bytes h q as)"
      "capacity q' = capacity q" "\<forall>x. x \<noteq> a \<longrightarrow> heap_at h' x = heap_at h x" "as' = bs \<or> as' = as"
      "chain_bytes h' as' = chain_bytes h as'"
      using as by auto
    have "q_keeps (h, q) (h', q')"
      using m(4-7) as by (auto simp: q_keeps_def q_cells_eq [OF q] q_cells_eq [OF m(2)] chain_simps)
    with q_inv_ok [OF m(2)] co s m(1,3)
    show "\<exists>s'. q_move_s s n = Some (True, s') \<and> q_inv s' \<and> q_content s' = drop n (q_content s) \<and> q_keeps s s'"
      by (auto simp: q_move_s_def)
  }
next
  fix s s' s'' :: "pheap \<times> pbqueue"
  show "q_keeps s s" by (auto simp: q_keeps_def split: prod.split)
  assume "q_keeps s s'" "q_keeps s' s''"
  then show "q_keeps s s''" by (fastforce simp: q_keeps_def split: prod.splits)
qed

section \<open>Properties\<close>

text \<open>\<open>push\<close> appends: it never faults on a well-formed queue, refuses a chain that does not fit
  next to what the queue already holds and leaves the queue as it is, accepts any other chain,
  and then the bytes of the chain follow the content of the queue.\<close>

theorem push_appends:
  assumes "q_ok h q as" and "pushable h t ts as" and "0 < capacity q"
  shows "\<exists>ok h' q'. q_push h q (Some t) = Some (ok, h', q') \<and> q_inv (h', q') \<and> capacity q' = capacity q \<and>
    (ok \<longleftrightarrow> as = [] \<or> length (chain_bytes h as) + length (chain_bytes h ts) \<le> capacity q) \<and>
    q_content (h', q') = q_content (h, q) @ (if ok then chain_bytes h ts else [])"
proof (cases "as = []")
  case True
  with q_push_first [of h q t ts] assms obtain h' q' where p: "q_push h q (Some t) = Some (True, h', q')"
    "q_ok h' q' ts" "capacity q' = capacity q" "q_bytes h' q' ts = chain_bytes h ts" by auto
  with q_inv_ok [OF p(2)] q_inv_ok [OF assms(1)] True show ?thesis
    by (auto simp: q_bytes_def chain_simps)
next
  case ne: False
  show ?thesis
  proof (cases "length (chain_bytes h (as @ ts)) \<le> capacity q")
    case True
    with q_push_nonempty [OF assms(1) ne assms(2)] obtain h' where p: "q_push h q (Some t) = Some (True, h', q)"
      "q_ok h' q (as @ ts)" "q_bytes h' q (as @ ts) = q_bytes h q as @ chain_bytes h ts" by auto
    with q_inv_ok [OF p(2)] q_inv_ok [OF assms(1)] True show ?thesis by (auto simp: chain_simps)
  next
    case False
    with q_push_full [OF assms(1) ne assms(2)] q_inv_ok [OF assms(1)] ne show ?thesis
      by (auto simp: chain_simps)
  qed
qed

definition demo_pbuf :: "byte list \<Rightarrow> pbuf" where
  "demo_pbuf bs = pbuf_init_alloced bs (length bs)"

theorem push_appends_witness:
  "\<exists>h' q'. q_push [Some (demo_pbuf [1, 2])] (q_new 8) (Some 0) = Some (True, h', q') \<and> q_content (h', q') = [1, 2]"
proof -
  let ?h = "[Some (demo_pbuf [1, 2])]"
  have "q_ok ?h (q_new 8) []" by (simp add: q_ok_new)
  moreover have "pushable ?h 0 [0] []"
    by (simp add: pushable_def chain_ok_def heap_at_def demo_pbuf_def pbuf_init_alloced_def chain_bytes_def
        payload_at_def tot_at_def ref_at_def)
  ultimately obtain ok h' q' where p: "q_push ?h (q_new 8) (Some 0) = Some (ok, h', q')" "ok"
    "q_content (h', q') = q_content (?h, q_new 8) @ chain_bytes ?h [0]"
    using push_appends [of ?h "q_new 8" "[]" 0 "[0]"] by (auto simp: q_new_def)
  moreover have "q_content (?h, q_new 8) = []" by code_simp
  moreover have "chain_bytes ?h [0] = [1, 2]" by code_simp
  ultimately show ?thesis by auto
qed

text \<open>The capacity is not checked for the first chain: a queue of 4 bytes accepts 6, and
  \<open>remaining_space\<close>, a difference of unsigned numbers, then wraps to more than \<open>2 ^ 63\<close> instead of
  reporting a full queue.\<close>

theorem push_first_exceeds_capacity:
  "\<exists>h' q'. q_push [Some (demo_pbuf [1, 2, 3, 4, 5, 6])] (q_new 4) (Some 0) = Some (True, h', q') \<and>
     q_size h' q' = Some 6 \<and> q_remaining_space h' q' = Some (2 ^ 64 - 2) \<and> q_is_full h' q' = Some False"
  by (simp add: q_push_def q_is_full_def q_remaining_space_def q_size_def q_new_def heap_at_def heap_put_def
      demo_pbuf_def pbuf_init_alloced_def pbuf_ref_def size_sub_def)

text \<open>\<open>move\<close> consumes a prefix: up to the end of the first buffer it drops exactly \<open>len\<close> bytes
  of the content, keeps the queue well-formed and touches no cell but the first; past it, or on
  an empty queue, it changes nothing and reports failure.\<close>

theorem move_consumes:
  assumes "q_ok h q as"
  shows "if as \<noteq> [] \<and> qoffset q + len \<le> length (payload_at h (hd as))
    then \<exists>h' q'. q_move h q len = Some (True, h', q') \<and> q_inv (h', q') \<and>
      q_content (h', q') = drop len (q_content (h, q)) \<and> (\<forall>x. x \<noteq> hd as \<longrightarrow> heap_at h' x = heap_at h x)
    else q_move h q len = Some (False, h, q)"
proof (cases as)
  case Nil
  with assms q_move_empty [of h q len] show ?thesis by simp
next
  case (Cons a bs)
  note q = assms [unfolded Cons]
  show ?thesis
  proof (cases "qoffset q + len \<le> length (payload_at h a)")
    case True
    from q_move_ok [OF q this] obtain h' q' as' where m: "q_move h q len = Some (True, h', q')" "q_ok h' q' as'"
      "q_bytes h' q' as' = drop len (q_bytes h q (a # bs))" "\<forall>x. x \<noteq> a \<longrightarrow> heap_at h' x = heap_at h x" by blast
    with q_inv_ok [OF m(2)] q_inv_ok [OF q] True Cons show ?thesis by auto
  next
    case False
    with q_move_past [OF q] Cons show ?thesis by simp
  qed
qed

theorem move_consumes_witness:
  "let h = [Some (demo_pbuf [1, 2, 3])]; q = \<lparr>capacity = 8, qchain = Some 0, qoffset = 1\<rparr> in
     \<exists>h' q'. q_move h q 1 = Some (True, h', q') \<and> q_content (h', q') = [3]"
proof -
  let ?h = "[Some (demo_pbuf [1, 2, 3])]" and ?q = "\<lparr>capacity = 8, qchain = Some 0, qoffset = 1\<rparr>"
  have "q_ok ?h ?q [0]"
    by (simp add: q_ok_def chain_ok_def heap_at_def demo_pbuf_def pbuf_init_alloced_def chain_bytes_def
        payload_at_def tot_at_def ref_at_def)
  moreover have "payload_at ?h 0 = [1, 2, 3]" by (simp add: payload_at_def heap_at_def demo_pbuf_def pbuf_init_alloced_def)
  moreover have "q_content (?h, ?q) = [2, 3]" by code_simp
  ultimately show ?thesis using move_consumes [of ?h ?q "[0]" 1] by auto
qed

end
