(* ===== verification/OutputQueue.thy ===== *)
theory OutputQueue
  imports PBufQueue NetSocket
begin

text \<open>
  The two writers of \<^verbatim>\<open>net/OutputQueue.cpp\<close>: they send the content of a packet queue to a socket
  of the system or to a lwIP connection. The state is the lwIP heap, the queue and the peer.
\<close>

section \<open>To a socket\<close>

definition NET_SND_OK :: snd_status where
  "NET_SND_OK = \<lparr>snd_code = NETCTX_SND_OK, snd_rc = 0, sbytes = 0\<rparr>"

text \<open>The loop of \<^verbatim>\<open>write(net::Socket&, size_t&)\<close>; it goes on while the last call succeeded.\<close>

partial_function (option) oq_write_loop ::
  "pheap \<Rightarrow> pbqueue \<Rightarrow> byte net \<Rightarrow> snd_status \<Rightarrow> nat \<Rightarrow> (snd_status \<times> nat \<times> pheap \<times> pbqueue \<times> byte net) option" where
  "oq_write_loop h q w st written =
     (if \<not> q_is_empty q \<and> snd_code st = NETCTX_SND_OK then do {
        c \<leftarrow> q_get_cblock h q;
        case send_data (pdata c) w of (st', w') \<Rightarrow>
          if snd_code st' = NETCTX_SND_OK then do {
            (ok, h', q') \<leftarrow> q_move h q (sbytes st');
            if ok then oq_write_loop h' q' w' st' (written + sbytes st')
            else oq_write_loop h' q' w' (st'\<lparr>snd_code := NETCTX_SND_ERROR, snd_rc := NET_SOCKET_FAILED\<rparr>) written
          }
          else oq_write_loop h q w' st' written
      }
      else Some (st, written, h, q, w))"

definition oq_write :: "pheap \<Rightarrow> pbqueue \<Rightarrow> byte net \<Rightarrow> (int \<times> nat \<times> pheap \<times> pbqueue \<times> byte net) option" where
  "oq_write h q w = do {
     (st, written, h', q', w') \<leftarrow> oq_write_loop h q w NET_SND_OK 0;
     Some (if snd_code st = NETCTX_SND_RETRY then 0 else snd_rc st, written, h', q', w')
   }"

section \<open>To a lwIP connection\<close>

text \<open>The part of a lwIP \<^verbatim>\<open>tcp_pcb\<close> the writer uses: the free space of the send buffer, whether
  segments are waiting to be sent, and the bytes accepted so far. \<open>writes\<close> are the answers of
  \<^verbatim>\<open>tcp_write\<close> (empty: \<^verbatim>\<open>ERR_OK\<close>); \<open>outputs\<close> those of \<^verbatim>\<open>tcp_output\<close>, with what remains unsent.\<close>

record pcb =
  snd_buf :: nat
  unsent :: bool
  accepted :: "byte list"
  writes :: "lwip_err list"
  outputs :: "(lwip_err \<times> bool) list"

definition TCP_WRITE_FLAG_COPY :: nat where "TCP_WRITE_FLAG_COPY = 1"
definition TCP_WRITE_FLAG_MORE :: nat where "TCP_WRITE_FLAG_MORE = 2"

definition lwip_tcp_write :: "byte list \<Rightarrow> nat \<Rightarrow> pcb \<Rightarrow> lwip_err \<times> pcb" where
  "lwip_tcp_write bs flags s =
     (let (rc, s1) = (case writes s of [] \<Rightarrow> (ERR_OK, s) | r # rs \<Rightarrow> (r, s\<lparr>writes := rs\<rparr>)) in
      if rc = ERR_OK then
        (rc, s1\<lparr>snd_buf := snd_buf s1 - length bs, unsent := True, accepted := accepted s1 @ bs\<rparr>)
      else (rc, s1))"

definition lwip_tcp_output :: "pcb \<Rightarrow> lwip_err \<times> pcb" where
  "lwip_tcp_output s =
     (case outputs s of [] \<Rightarrow> (ERR_OK, s\<lparr>unsent := False\<rparr>) | (rc, u) # r \<Rightarrow> (rc, s\<lparr>outputs := r, unsent := u\<rparr>))"

partial_function (option) oq_tcp_loop ::
  "pheap \<Rightarrow> pbqueue \<Rightarrow> pcb \<Rightarrow> lwip_err \<Rightarrow> nat \<Rightarrow> (lwip_err \<times> nat \<times> pheap \<times> pbqueue \<times> pcb) option" where
  "oq_tcp_loop h q s rc written =
     (if \<not> q_is_empty q \<and> rc = ERR_OK then
        (if snd_buf s = 0 then Some (rc, written, h, q, s)
         else do {
           c \<leftarrow> q_get_cblock_n h q (snd_buf s);
           let flags = TCP_WRITE_FLAG_COPY + (if more_data c then TCP_WRITE_FLAG_MORE else 0);
           case lwip_tcp_write (pdata c) flags s of (rc', s') \<Rightarrow>
             if rc' = ERR_OK then do {
               (ok, h', q') \<leftarrow> q_move h q (clen c);
               if ok then oq_tcp_loop h' q' s' rc' (written + clen c)
               else oq_tcp_loop h' q' s' ERR_VAL written
             }
             else oq_tcp_loop h q s' rc' written
         })
      else Some (rc, written, h, q, s))"

definition oq_write_tcp :: "pheap \<Rightarrow> pbqueue \<Rightarrow> pcb \<Rightarrow> (lwip_err \<times> nat \<times> pheap \<times> pbqueue \<times> pcb) option" where
  "oq_write_tcp h q s = do {
     (rc, written, h', q', s') \<leftarrow> oq_tcp_loop h q s ERR_OK 0;
     case (if rc = ERR_OK \<and> (written > 0 \<or> unsent s') then lwip_tcp_output s' else (rc, s')) of
       (rc', s'') \<Rightarrow> Some (if rc' = ERR_IF then ERR_OK else rc', written, h', q', s'')
   }"

section \<open>Writing to a socket\<close>

lemma send_data_empty_fields:
  assumes "send_data buf w = (st, w')"
  shows "snd_code st = NETCTX_SND_OK \<Longrightarrow> 0 < sbytes st"
  using assms
  by (auto simp: send_data_def raw_send_def tls_send_status_def socket_send_status_def Let_def ssl_code_defs
      split: list.splits if_splits)

lemma oq_write_loop_done:
  "q_is_empty q \<or> snd_code st \<noteq> NETCTX_SND_OK \<Longrightarrow> oq_write_loop h q w st n = Some (st, n, h, q, w)"
  by (auto simp: oq_write_loop.simps)

text \<open>Every run ends, without a fault; what it put on the wire and what is left in the queue are
  together what was in the queue.\<close>

lemma oq_write_loop_ok:
  assumes "q_inv (h, q)"
  shows "\<exists>st' sent h' q' w'. oq_write_loop h q w st n = Some (st', n + length sent, h', q', w') \<and>
    q_inv (h', q') \<and> sent @ q_content (h', q') = q_content (h, q) \<and> wire w' = wire w @ sent \<and> fd w' = fd w \<and>
    (snd_code st = NETCTX_SND_OK \<longrightarrow> snd_code st' = NETCTX_SND_OK \<longrightarrow> q_is_empty q') \<and> q_keeps (h, q) (h', q')"
  using assms
proof (induction "length (q_content (h, q))" arbitrary: h q w st n rule: less_induct)
  case less
  show ?case
  proof (cases "q_is_empty q \<or> snd_code st \<noteq> NETCTX_SND_OK")
    case True
    then have "oq_write_loop h q w st n = Some (st, n + length ([] :: byte list), h, q, w)"
      by (simp add: oq_write_loop_done)
    with less.prems True show ?thesis
      by (intro exI [of _ st] exI [of _ "[]"] exI [of _ h] exI [of _ q] exI [of _ w]) (auto intro: outq.keeps_refl)
  next
    case False
    then have ne: "\<not> q_is_empty q" and ok: "snd_code st = NETCTX_SND_OK" by auto
    obtain c where c: "q_block None (h, q) = Some c" "clen c = length (pdata c)" "0 < clen c"
      and mv: "\<And>k. k \<le> clen c \<Longrightarrow> \<exists>s'. q_move_s (h, q) k = Some (True, s') \<and> q_inv s' \<and>
         take k (pdata c) @ q_content s' = q_content (h, q) \<and> length (q_content s') = length (q_content (h, q)) - k \<and>
         q_keeps (h, q) s'"
      using outq.step [of "(h, q)" None] less.prems ne by auto
    have cb: "q_get_cblock h q = Some c" using c(1) by (simp add: q_block_def)
    have pd: "pdata c \<noteq> []" using c(2,3) by auto
    obtain st1 w1 where s: "send_data (pdata c) w = (st1, w1)" by (cases "send_data (pdata c) w")
    note m = send_data_measure [OF s pd]
    show ?thesis
    proof (cases "snd_code st1 = NETCTX_SND_OK")
      case False
      then have "oq_write_loop h q w st n = Some (st1, n + length ([] :: byte list), h, q, w1)"
        using ne ok cb s by (subst oq_write_loop.simps) (simp add: oq_write_loop_done)
      with less.prems False m(3,9) show ?thesis
        by (intro exI [of _ st1] exI [of _ "[]"] exI [of _ h] exI [of _ q] exI [of _ w1]) (auto intro: outq.keeps_refl)
    next
      case True
      have k: "0 < sbytes st1" "sbytes st1 \<le> clen c" using m(1) [OF True] c(2) by auto
      obtain h1 q1 where q1: "q_move h q (sbytes st1) = Some (True, h1, q1)" "q_inv (h1, q1)"
        "take (sbytes st1) (pdata c) @ q_content (h1, q1) = q_content (h, q)"
        "length (q_content (h1, q1)) = length (q_content (h, q)) - sbytes st1" "q_keeps (h, q) (h1, q1)"
        using mv [OF k(2)] by (auto simp: q_move_s_def)
      have step: "oq_write_loop h q w st n = oq_write_loop h1 q1 w1 st1 (n + sbytes st1)"
        using ne ok cb s True q1(1) by (subst oq_write_loop.simps) simp
      have "q_content (h, q) \<noteq> []" using q1(3) k pd by auto
      then have "length (q_content (h1, q1)) < length (q_content (h, q))" using q1(4) k by simp
      from less.hyps [OF this q1(2), of w1 st1 "n + sbytes st1"] obtain st' sent h' q' w' where
        ih: "oq_write_loop h1 q1 w1 st1 (n + sbytes st1) = Some (st', n + sbytes st1 + length sent, h', q', w')"
          "q_inv (h', q')" "sent @ q_content (h', q') = q_content (h1, q1)" "wire w' = wire w1 @ sent" "fd w' = fd w1"
          "snd_code st' = NETCTX_SND_OK \<longrightarrow> q_is_empty q'" "q_keeps (h1, q1) (h', q')"
        using True by auto
      let ?sent = "take (sbytes st1) (pdata c) @ sent"
      have "oq_write_loop h q w st n = Some (st', n + length ?sent, h', q', w')"
        using step ih(1) k(2) c(2) by simp
      moreover have "?sent @ q_content (h', q') = q_content (h, q)" using q1(3) ih(3) by simp
      moreover have "wire w' = wire w @ ?sent" using ih(4) m(2) [OF True] by simp
      ultimately show ?thesis using ih(2,6) outq.keeps_trans [OF q1(5) ih(7)] trans [OF ih(5) m(9)] by blast
    qed
  qed
qed

section \<open>Writing to a lwIP connection\<close>

lemma oq_tcp_loop_done:
  "q_is_empty q \<or> rc \<noteq> ERR_OK \<or> snd_buf s = 0 \<Longrightarrow> oq_tcp_loop h q s rc n = Some (rc, n, h, q, s)"
  by (auto simp: oq_tcp_loop.simps)

lemma lwip_tcp_write_ok:
  assumes "lwip_tcp_write bs flags s = (rc, s')"
  shows "if rc = ERR_OK then accepted s' = accepted s @ bs \<and> snd_buf s' = snd_buf s - length bs
    else accepted s' = accepted s \<and> snd_buf s' = snd_buf s"
  using assms by (auto simp: lwip_tcp_write_def Let_def split: list.splits if_splits)

lemma oq_tcp_loop_ok:
  assumes "q_inv (h, q)"
  shows "\<exists>rc' sent h' q' s'. oq_tcp_loop h q s rc n = Some (rc', n + length sent, h', q', s') \<and>
    q_inv (h', q') \<and> sent @ q_content (h', q') = q_content (h, q) \<and> accepted s' = accepted s @ sent \<and>
    snd_buf s' + length sent = snd_buf s \<and>
    (rc = ERR_OK \<longrightarrow> rc' = ERR_OK \<longrightarrow> q_is_empty q' \<or> snd_buf s' = 0) \<and> q_keeps (h, q) (h', q')"
  using assms
proof (induction "length (q_content (h, q))" arbitrary: h q s rc n rule: less_induct)
  case less
  show ?case
  proof (cases "q_is_empty q \<or> rc \<noteq> ERR_OK \<or> snd_buf s = 0")
    case True
    then have "oq_tcp_loop h q s rc n = Some (rc, n + length ([] :: byte list), h, q, s)"
      by (simp add: oq_tcp_loop_done)
    with less.prems True show ?thesis
      by (intro exI [of _ rc] exI [of _ "[]"] exI [of _ h] exI [of _ q] exI [of _ s]) (auto intro: outq.keeps_refl)
  next
    case False
    then have ne: "\<not> q_is_empty q" and ok: "rc = ERR_OK" and sb: "snd_buf s \<noteq> 0" by auto
    obtain c where c: "q_block (Some (snd_buf s)) (h, q) = Some c" "clen c = length (pdata c)" "0 < clen c"
      "clen c \<le> snd_buf s"
      and mv: "\<And>k. k \<le> clen c \<Longrightarrow> \<exists>s'. q_move_s (h, q) k = Some (True, s') \<and> q_inv s' \<and>
         take k (pdata c) @ q_content s' = q_content (h, q) \<and> length (q_content s') = length (q_content (h, q)) - k \<and>
         q_keeps (h, q) s'"
      using outq.step [of "(h, q)" "Some (snd_buf s)"] less.prems ne sb by auto
    have cb: "q_get_cblock_n h q (snd_buf s) = Some c" using c(1) by (simp add: q_block_def)
    define flags where "flags = TCP_WRITE_FLAG_COPY + (if more_data c then TCP_WRITE_FLAG_MORE else 0)"
    obtain rc1 s1 where w: "lwip_tcp_write (pdata c) flags s = (rc1, s1)"
      by (cases "lwip_tcp_write (pdata c) flags s")
    note m = lwip_tcp_write_ok [OF w]
    show ?thesis
    proof (cases "rc1 = ERR_OK")
      case False
      then have "oq_tcp_loop h q s rc n = Some (rc1, n + length ([] :: byte list), h, q, s1)"
        using ne ok sb cb w by (subst oq_tcp_loop.simps) (simp add: oq_tcp_loop_done Let_def flags_def)
      with less.prems False m show ?thesis
        by (intro exI [of _ rc1] exI [of _ "[]"] exI [of _ h] exI [of _ q] exI [of _ s1]) (auto intro: outq.keeps_refl)
    next
      case True
      obtain h1 q1 where q1: "q_move h q (clen c) = Some (True, h1, q1)" "q_inv (h1, q1)"
        "pdata c @ q_content (h1, q1) = q_content (h, q)"
        "length (q_content (h1, q1)) = length (q_content (h, q)) - clen c" "q_keeps (h, q) (h1, q1)"
        using mv [of "clen c"] c(2) by (auto simp: q_move_s_def)
      have step: "oq_tcp_loop h q s rc n = oq_tcp_loop h1 q1 s1 rc1 (n + clen c)"
        using ne ok sb cb w True q1(1) by (subst oq_tcp_loop.simps) (simp add: Let_def flags_def)
      have "q_content (h, q) \<noteq> []" using q1(3) c(2,3) by auto
      then have "length (q_content (h1, q1)) < length (q_content (h, q))" using q1(4) c(3) by simp
      from less.hyps [OF this q1(2), of s1 rc1 "n + clen c"] True obtain rc' sent h' q' s' where
        ih: "oq_tcp_loop h1 q1 s1 rc1 (n + clen c) = Some (rc', n + clen c + length sent, h', q', s')"
          "q_inv (h', q')" "sent @ q_content (h', q') = q_content (h1, q1)" "accepted s' = accepted s1 @ sent"
          "snd_buf s' + length sent = snd_buf s1" "rc' = ERR_OK \<longrightarrow> q_is_empty q' \<or> snd_buf s' = 0"
          "q_keeps (h1, q1) (h', q')"
        by auto
      let ?sent = "pdata c @ sent"
      have "oq_tcp_loop h q s rc n = Some (rc', n + length ?sent, h', q', s')"
        using step ih(1) c(2) by simp
      moreover have "?sent @ q_content (h', q') = q_content (h, q)" using q1(3) ih(3) by simp
      moreover have "accepted s' = accepted s @ ?sent" "snd_buf s' + length ?sent = snd_buf s"
        using ih(4,5) m True c(2,4) by simp_all
      ultimately show ?thesis using ih(2,6) outq.keeps_trans [OF q1(5) ih(7)] by blast
    qed
  qed
qed

lemma lwip_tcp_output_keeps: "lwip_tcp_output s = (rc, s') \<Longrightarrow> accepted s' = accepted s \<and> snd_buf s' = snd_buf s"
  by (auto simp: lwip_tcp_output_def split: list.splits)

section \<open>Properties\<close>

text \<open>C32. Writing a queue to a socket never faults and always returns; the bytes it puts on the
  wire are a prefix of the content of the queue, \<open>written\<close> is their number, and the queue keeps
  exactly the rest: nothing is lost, repeated or reordered, whatever the socket answers.\<close>

theorem write_socket_conserves:
  assumes "q_inv (h, q)"
  shows "\<exists>rc sent h' q' w'. oq_write h q w = Some (rc, length sent, h', q', w') \<and> q_inv (h', q') \<and>
    sent @ q_content (h', q') = q_content (h, q) \<and> wire w' = wire w @ sent"
  using oq_write_loop_ok [OF assms, of w NET_SND_OK 0] by (fastforce simp: oq_write_def)

definition demo_queue :: "pheap \<times> pbqueue" where
  "demo_queue = ([Some \<lparr>pb_next = Some 1, pb_payload = [1, 2], pb_tot_len = 3, pb_flags = 0, pb_ref = 1\<rparr>,
     Some \<lparr>pb_next = None, pb_payload = [3], pb_tot_len = 1, pb_flags = 0, pb_ref = 1\<rparr>],
     \<lparr>capacity = 16, qchain = Some 0, qoffset = 0\<rparr>)"

lemma demo_queue_inv: "q_inv demo_queue" "q_content demo_queue = [1, 2, 3]"
  by (simp_all add: demo_queue_def q_inv_def q_content_def q_bytes_def q_cells_def heap_at_def numeral_2_eq_2
      q_ok_def chain_ok_def live_cells_def chain_bytes_def payload_at_def tot_at_def ref_at_def)

theorem write_socket_conserves_witness:
  "\<exists>rc sent h' q' w'. oq_write (fst demo_queue) (snd demo_queue)
      \<lparr>is_tls = False, fd = 1, blocking = False, recvs = [], sends = [1, 5], polls = [], calls = [], elapsed = [], wire = []\<rparr>
      = Some (rc, length sent, h', q', w') \<and> sent @ q_content (h', q') = [1, 2, 3] \<and> wire w' = sent"
  using write_socket_conserves [of "fst demo_queue" "snd demo_queue"
      "\<lparr>is_tls = False, fd = 1, blocking = False, recvs = [], sends = [1, 5], polls = [], calls = [], elapsed = [], wire = []\<rparr>"]
  using demo_queue_inv by auto

text \<open>C33. Writing a queue to a lwIP connection has the same property for the bytes lwIP accepts,
  and takes from the send buffer of the connection exactly the room of those bytes.\<close>

theorem write_tcp_conserves:
  assumes "q_inv (h, q)"
  shows "\<exists>rc sent h' q' s'. oq_write_tcp h q s = Some (rc, length sent, h', q', s') \<and> q_inv (h', q') \<and>
    sent @ q_content (h', q') = q_content (h, q) \<and> accepted s' = accepted s @ sent \<and>
    snd_buf s' + length sent = snd_buf s"
proof -
  obtain rc sent h' q' s1 where l: "oq_tcp_loop h q s ERR_OK 0 = Some (rc, 0 + length sent, h', q', s1)"
    "q_inv (h', q')" "sent @ q_content (h', q') = q_content (h, q)" "accepted s1 = accepted s @ sent"
    "snd_buf s1 + length sent = snd_buf s"
    using oq_tcp_loop_ok [OF assms, of s ERR_OK 0] by auto
  obtain rc2 s2 where o: "(if rc = ERR_OK \<and> (length sent > 0 \<or> unsent s1) then lwip_tcp_output s1 else (rc, s1)) = (rc2, s2)"
    by fastforce
  have "accepted s2 = accepted s1 \<and> snd_buf s2 = snd_buf s1"
    using o lwip_tcp_output_keeps [of s1 rc2 s2] by (auto split: if_splits)
  with l o show ?thesis by (auto simp: oq_write_tcp_def)
qed

theorem write_tcp_conserves_witness:
  "\<exists>rc sent h' q' s'. oq_write_tcp (fst demo_queue) (snd demo_queue)
      \<lparr>snd_buf = 2, unsent = False, accepted = [], writes = [], outputs = []\<rparr> = Some (rc, length sent, h', q', s') \<and>
      sent @ q_content (h', q') = [1, 2, 3] \<and> accepted s' = sent"
  using write_tcp_conserves [of "fst demo_queue" "snd demo_queue"
      "\<lparr>snd_buf = 2, unsent = False, accepted = [], writes = [], outputs = []\<rparr>"]
  using demo_queue_inv by auto

end
