(* ===== verification/HeapObject.thy ===== *)
theory HeapObject
  imports Pbuf "HOL-Library.Monad_Syntax"
begin

text \<open>
  Objects that live in the shared lwIP heap. Every queue, every forwarder and the PPP link own some
  cells of it; an operation on one of them must not disturb the others. The interface
  \<open>heap_object\<close> states what is needed of an object for that (its invariant and its value depend on
  its own cells only, and those are allocated), \<open>heap_move\<close> what an operation guarantees: cells it
  does not own stay as they are, and the cells it owns afterwards were its own or free.
\<close>

definition heap_move :: "addr set \<Rightarrow> pheap \<Rightarrow> addr set \<Rightarrow> pheap \<Rightarrow> bool" where
  "heap_move A h B h' \<longleftrightarrow>
     (\<forall>x. x \<notin> A \<longrightarrow> heap_at h x \<noteq> None \<longrightarrow> heap_at h' x = heap_at h x) \<and>
     (\<forall>x \<in> B. x \<in> A \<or> heap_at h x = None)"

lemma heap_move_refl: "heap_move A h A h"
  by (simp add: heap_move_def)

lemma heap_move_shrink: "heap_move A h B h' \<Longrightarrow> C \<subseteq> B \<Longrightarrow> heap_move A h C h'"
  by (auto simp: heap_move_def)

lemma heap_move_frame:
  "(\<And>x. x \<notin> A \<Longrightarrow> heap_at h' x = heap_at h x) \<Longrightarrow> B \<subseteq> A \<Longrightarrow> heap_move A h B h'"
  by (auto simp: heap_move_def)

lemma heap_move_trans:
  assumes "heap_move A h B h'" "heap_move B h' C h''"
  shows "heap_move A h C h''"
  unfolding heap_move_def
proof (intro conjI allI ballI impI)
  fix x assume x: "x \<notin> A" "heap_at h x \<noteq> None"
  then have "x \<notin> B" using assms(1) by (auto simp: heap_move_def)
  with x assms show "heap_at h'' x = heap_at h x" by (auto simp: heap_move_def)
next
  fix x assume "x \<in> C"
  with assms(2) have "x \<in> B \<or> heap_at h' x = None" by (auto simp: heap_move_def)
  with assms(1) show "x \<in> A \<or> heap_at h x = None" by (auto simp: heap_move_def)
qed

lemma heap_move_both:
  assumes "heap_move A h B h'"
  shows "heap_move (A \<union> C) h (B \<union> C) h'"
  using assms by (auto simp: heap_move_def)

text \<open>The same operation on every object of a list, in order.\<close>

fun heap_each :: "(pheap \<Rightarrow> 's \<Rightarrow> (pheap \<times> 's) option) \<Rightarrow> pheap \<Rightarrow> 's list \<Rightarrow> (pheap \<times> 's list) option" where
  "heap_each f h [] = Some (h, [])"
| "heap_each f h (s # ss) = do {
     (h1, s') \<leftarrow> f h s;
     (h2, ss') \<leftarrow> heap_each f h1 ss;
     Some (h2, s' # ss')
   }"

locale heap_object =
  fixes inv :: "pheap \<Rightarrow> 's \<Rightarrow> bool" and own :: "pheap \<Rightarrow> 's \<Rightarrow> addr set" and val :: "pheap \<Rightarrow> 's \<Rightarrow> 'v"
  assumes frame: "inv h s \<Longrightarrow> (\<And>x. x \<in> own h s \<Longrightarrow> heap_at h' x = heap_at h x) \<Longrightarrow>
      inv h' s \<and> own h' s = own h s \<and> val h' s = val h s"
    and alive: "inv h s \<Longrightarrow> x \<in> own h s \<Longrightarrow> heap_at h x \<noteq> None"
begin

lemma undisturbed:
  assumes "inv h s" "own h s \<inter> A = {}" "heap_move A h B h'"
  shows "inv h' s" "own h' s = own h s" "val h' s = val h s" "own h' s \<inter> B = {}"
proof -
  have same: "x \<in> own h s \<Longrightarrow> heap_at h' x = heap_at h x" for x
    using assms alive [OF assms(1)] by (auto simp: heap_move_def)
  with frame [OF assms(1)] show "inv h' s" "val h' s = val h s" and *: "own h' s = own h s" by blast+
  show "own h' s \<inter> B = {}" unfolding * using assms alive [OF assms(1)] unfolding heap_move_def by blast
qed

text \<open>A list of objects with disjoint cells.\<close>

primrec all_inv :: "pheap \<Rightarrow> 's list \<Rightarrow> bool" where
  "all_inv h [] \<longleftrightarrow> True"
| "all_inv h (s # ss) \<longleftrightarrow> inv h s \<and> (\<forall>t \<in> set ss. own h s \<inter> own h t = {}) \<and> all_inv h ss"

definition all_own :: "pheap \<Rightarrow> 's list \<Rightarrow> addr set" where
  "all_own h ss = (\<Union>s \<in> set ss. own h s)"

lemma all_own_simps [simp]: "all_own h [] = {}" "all_own h (s # ss) = own h s \<union> all_own h ss"
  "all_own h (ss @ ts) = all_own h ss \<union> all_own h ts"
  by (auto simp: all_own_def)

lemma all_inv_Cons [simp]: "all_inv h (s # ss) \<longleftrightarrow> inv h s \<and> own h s \<inter> all_own h ss = {} \<and> all_inv h ss"
  by (auto simp: all_own_def)

declare all_inv.simps(2) [simp del]

lemma all_inv_append:
  "all_inv h (ss @ ts) \<longleftrightarrow> all_inv h ss \<and> all_inv h ts \<and> all_own h ss \<inter> all_own h ts = {}"
  by (induction ss) (auto simp: all_inv_Cons all_own_def)

lemma all_undisturbed:
  assumes "all_inv h ss" "all_own h ss \<inter> A = {}" "heap_move A h B h'"
  shows "all_inv h' ss" "all_own h' ss = all_own h ss" "all_own h' ss \<inter> B = {}"
    "map (val h') ss = map (val h) ss"
proof -
  have "all_inv h' ss \<and> all_own h' ss = all_own h ss \<and> all_own h' ss \<inter> B = {} \<and> map (val h') ss = map (val h) ss"
    using assms
  proof (induction ss)
    case (Cons s ss)
    then have s: "inv h s" "own h s \<inter> A = {}" and d: "own h s \<inter> all_own h ss = {}"
      by (auto simp: all_inv_Cons)
    note u = undisturbed [OF s Cons.prems(3)]
    have "all_inv h' ss \<and> all_own h' ss = all_own h ss \<and> all_own h' ss \<inter> B = {} \<and> map (val h') ss = map (val h) ss"
      using Cons by (auto simp: all_inv_Cons)
    with u d show ?case unfolding all_inv_Cons all_own_simps list.map by auto
  qed simp
  then show "all_inv h' ss" "all_own h' ss = all_own h ss" "all_own h' ss \<inter> B = {}"
    "map (val h') ss = map (val h) ss" by auto
qed

lemma all_alive: "all_inv h ss \<Longrightarrow> x \<in> all_own h ss \<Longrightarrow> heap_at h x \<noteq> None"
  by (induction ss) (auto simp: all_inv_Cons alive)

lemma all_inv_nth: "all_inv h ss \<Longrightarrow> k < length ss \<Longrightarrow> inv h (ss ! k)"
  by (induction ss arbitrary: k) (auto simp: nth_Cons split: nat.splits)

text \<open>An operation on one object of the list, and the removal of one.\<close>

lemma all_update:
  assumes "all_inv h (ss @ s # ts)" "inv h' s'" "heap_move (own h s) h (own h' s') h'"
  shows "all_inv h' (ss @ s' # ts)" "heap_move (all_own h (ss @ s # ts)) h (all_own h' (ss @ s' # ts)) h'"
proof -
  from assms(1) have i: "all_inv h ss" "all_inv h ts" "inv h s" and
    d: "all_own h ss \<inter> own h s = {}" "all_own h ts \<inter> own h s = {}" "all_own h ss \<inter> all_own h ts = {}"
    by (auto simp: all_inv_append all_inv_Cons)
  note u = all_undisturbed [OF i(1) d(1) assms(3)] all_undisturbed [OF i(2) d(2) assms(3)]
  show "all_inv h' (ss @ s' # ts)"
    using u d(3) assms(2) unfolding all_inv_append all_inv_Cons all_own_simps by auto
  show "heap_move (all_own h (ss @ s # ts)) h (all_own h' (ss @ s' # ts)) h'"
    using heap_move_both [OF assms(3), of "all_own h ss \<union> all_own h ts"] u by (simp add: Un_ac)
qed

lemma all_nth_update:
  assumes "all_inv h ss" "k < length ss" "inv h' s'" "heap_move (own h (ss ! k) \<union> C) h (own h' s') h'"
    and "C \<inter> all_own h ss = {}"
  shows "all_inv h' (ss[k := s'])" "heap_move (all_own h ss \<union> C) h (all_own h' (ss[k := s'])) h'"
proof -
  let ?a = "take k ss" and ?b = "drop (Suc k) ss" and ?s = "ss ! k"
  have eq: "ss = ?a @ ?s # ?b" "ss[k := s'] = ?a @ s' # ?b"
    using assms(2) by (simp_all add: id_take_nth_drop upd_conv_take_nth_drop)
  have own: "all_own h ss = all_own h ?a \<union> own h ?s \<union> all_own h ?b" by (subst eq(1)) (simp add: Un_assoc)
  have "all_inv h (?a @ ?s # ?b)" using assms(1) eq(1) by simp
  then have i: "all_inv h ?a" "all_inv h ?b" "inv h ?s" and
    d: "all_own h ?a \<inter> (own h ?s \<union> C) = {}" "all_own h ?b \<inter> (own h ?s \<union> C) = {}" "all_own h ?a \<inter> all_own h ?b = {}"
    using assms(5) own unfolding all_inv_append all_inv_Cons all_own_simps by auto
  note u = all_undisturbed [OF i(1) d(1) assms(4)] all_undisturbed [OF i(2) d(2) assms(4)]
  show "all_inv h' (ss[k := s'])" unfolding eq(2)
    using u d(3) assms(3) unfolding all_inv_append all_inv_Cons all_own_simps by auto
  show "heap_move (all_own h ss \<union> C) h (all_own h' (ss[k := s'])) h'"
    using heap_move_both [OF assms(4), of "all_own h ?a \<union> all_own h ?b"] u own unfolding eq(2) by (simp add: Un_ac)
qed

lemma all_each:
  assumes step: "\<And>h s. inv h s \<Longrightarrow>
      \<exists>h' s'. f h s = Some (h', s') \<and> inv h' s' \<and> heap_move (own h s) h (own h' s') h' \<and> R s s'"
    and "all_inv h ss"
  shows "\<exists>h' ss'. heap_each f h ss = Some (h', ss') \<and> all_inv h' ss' \<and>
    heap_move (all_own h ss) h (all_own h' ss') h' \<and> list_all2 R ss ss'"
  using assms(2)
proof (induction ss arbitrary: h)
  case Nil
  then show ?case by (simp add: heap_move_refl)
next
  case (Cons s ss)
  then have i: "inv h s" "all_inv h ss" and d: "own h s \<inter> all_own h ss = {}" by simp_all
  from step [OF i(1)] obtain h1 s' where s: "f h s = Some (h1, s')" "inv h1 s'" "heap_move (own h s) h (own h1 s') h1" "R s s'"
    by blast
  have "all_own h ss \<inter> own h s = {}" using d by auto
  note u = all_undisturbed [OF i(2) this s(3)]
  from Cons.IH [OF u(1)] obtain h2 ss' where r: "heap_each f h1 ss = Some (h2, ss')" "all_inv h2 ss'"
    "heap_move (all_own h1 ss) h1 (all_own h2 ss') h2" "list_all2 R ss ss'" by blast
  have "own h1 s' \<inter> all_own h1 ss = {}" using u(3) by auto
  note v = undisturbed [OF s(2) this r(3)]
  have "heap_move (own h s \<union> all_own h ss) h (own h1 s' \<union> all_own h1 ss) h1"
    using heap_move_both [OF s(3), of "all_own h ss"] u(2) by simp
  moreover have "heap_move (own h1 s' \<union> all_own h1 ss) h1 (own h2 s' \<union> all_own h2 ss') h2"
    using heap_move_both [OF r(3), of "own h1 s'"] v(2) by (simp add: Un_ac)
  ultimately have "heap_move (all_own h (s # ss)) h (all_own h2 (s' # ss')) h2"
    unfolding all_own_simps by (rule heap_move_trans)
  with s(1,4) r v show ?case by auto
qed

lemma all_filter: "all_inv h ss \<Longrightarrow> all_inv h (filter P ss) \<and> all_own h (filter P ss) \<subseteq> all_own h ss"
  by (induction ss) (auto simp: all_own_def)

end

end
