(* ===== verification/QueueObject.thy ===== *)
theory QueueObject
  imports HeapObject PBufQueue
begin

text \<open>
  The packet queue as an object of the shared heap: what it owns, its value, and its operations as
  moves of cells between the queue, its user and the free memory.
\<close>

section \<open>The queue as an object\<close>

definition q_own :: "pheap \<Rightarrow> pbqueue \<Rightarrow> addr set" where
  "q_own h q = set (q_cells h q)"

definition q_valid :: "pheap \<Rightarrow> pbqueue \<Rightarrow> bool" where
  "q_valid h q \<longleftrightarrow> q_inv (h, q)"

definition q_value :: "pheap \<Rightarrow> pbqueue \<Rightarrow> byte list" where
  "q_value h q = q_content (h, q)"

definition q_total :: "pheap \<Rightarrow> pbqueue \<Rightarrow> nat" where
  "q_total h q = length (chain_bytes h (q_cells h q))"

lemma q_valid_ok: "q_valid h q \<longleftrightarrow> q_ok h q (q_cells h q)"
  by (simp add: q_valid_def q_inv_def)

lemma q_value_ok: "q_value h q = q_bytes h q (q_cells h q)"
  by (simp add: q_value_def q_content_def)

lemma q_ok_valid:
  assumes "q_ok h q as"
  shows "q_valid h q" "q_own h q = set as" "q_value h q = q_bytes h q as" "q_total h q = length (chain_bytes h as)"
  using assms q_cells_eq [OF assms] by (auto simp: q_valid_ok q_value_ok q_own_def q_total_def)

interpretation hq: heap_object q_valid q_own "\<lambda>h q. (q_value h q, q_total h q)"
proof
  fix h h' :: pheap and q x
  assume v: "q_valid h q"
  then have q: "q_ok h q (q_cells h q)" by (simp add: q_valid_def q_inv_def)
  show "x \<in> q_own h q \<Longrightarrow> heap_at h x \<noteq> None"
    using q path_alive unfolding q_own_def q_ok_def chain_ok_def by blast
  assume same: "\<And>x. x \<in> q_own h q \<Longrightarrow> heap_at h' x = heap_at h x"
  then have s: "heap_at h' x = heap_at h x" if "x \<in> set (q_cells h q)" for x
    using that unfolding q_own_def by blast
  note fr = q_ok_frame [OF q s]
  have "chain_bytes h' (q_cells h q) = chain_bytes h (q_cells h q)"
    by (rule tot_ok_cong(2)) (rule s)
  then show "q_valid h' q \<and> q_own h' q = q_own h q \<and> (q_value h' q, q_total h' q) = (q_value h q, q_total h q)"
    using q_ok_valid [OF fr(1)] q_ok_valid [OF q] fr(2) by simp
qed

section \<open>The queue operations as moves\<close>

lemma q_new_valid: "cap < 65536 \<Longrightarrow> q_valid h (q_new cap) \<and> q_own h (q_new cap) = {} \<and>
    q_value h (q_new cap) = [] \<and> q_total h (q_new cap) = 0"
  using q_ok_valid [OF q_ok_new [of cap h]] by (simp add: q_bytes_def chain_simps)

lemma q_keeps_move: "q_keeps (h, q) (h', q') \<Longrightarrow> heap_move (q_own h q) h (q_own h' q') h'"
  by (auto simp: q_keeps_def heap_move_def q_own_def)

lemma q_clear_move:
  assumes "q_valid h q"
  shows "\<exists>h' q'. q_clear h q = Some (h', q') \<and> q_valid h' q' \<and> q_own h' q' = {} \<and> capacity q' = capacity q \<and>
    q_value h' q' = [] \<and> q_total h' q' = 0 \<and> q_is_empty q' \<and> heap_move (q_own h q) h {} h'"
proof -
  from assms have q: "q_ok h q (q_cells h q)" by (simp add: q_valid_ok)
  from q_clear_ok [OF q] obtain h' q' where c: "q_clear h q = Some (h', q')" "q_ok h' q' []"
    "capacity q' = capacity q" "\<forall>x. heap_at h' x = freed_heap h (q_cells h q) x" by blast
  have k: "kept h (q_cells h q) \<noteq> [] \<Longrightarrow> hd (kept h (q_cells h q)) \<in> set (q_cells h q)"
    unfolding kept_def by (metis hd_in_set set_dropWhileD)
  have "freed_heap h (q_cells h q) x = heap_at h x" if "x \<notin> set (q_cells h q)" for x
    using that k by (auto simp: freed_heap_def freed_def dest: set_takeWhileD)
  then have "heap_move (q_own h q) h {} h'" using c(4) by (auto simp: heap_move_def q_own_def)
  with c q_ok_valid [OF c(2)] q_ok_empty_iff [OF c(2)] show ?thesis
    by (auto simp: q_bytes_def chain_simps)
qed

lemma q_push_move:
  assumes q: "q_valid h q" and cap: "0 < capacity q" and p: "pushable h t ts (q_cells h q)"
  shows "(\<exists>h1 q' n h2. q_push h q (Some t) = Some (True, h1, q') \<and> pbuf_free h1 (Some t) = Some (n, h2) \<and>
      q_valid h2 q' \<and> q_own h2 q' = q_own h q \<union> set ts \<and> capacity q' = capacity q \<and>
      q_value h2 q' = q_value h q @ chain_bytes h ts \<and> q_total h2 q' = q_total h q + length (chain_bytes h ts) \<and>
      (\<not> q_is_empty q \<longrightarrow> q_total h2 q' \<le> capacity q) \<and> heap_move (q_own h q \<union> set ts) h (q_own h2 q') h2) \<or>
    q_push h q (Some t) = Some (False, h, q)"
proof -
  from q have ok: "q_ok h q (q_cells h q)" by (simp add: q_valid_ok)
  note e = q_ok_empty_iff [OF ok]
  from q_push_buffer [OF ok cap p] show ?thesis
  proof (elim disjE exE conjE)
    fix h1 q' n h2
    assume c: "q_push h q (Some t) = Some (True, h1, q')" "pbuf_free h1 (Some t) = Some (n, h2)"
      "q_ok h2 q' (q_cells h q @ ts)" "capacity q' = capacity q"
      "q_bytes h2 q' (q_cells h q @ ts) = q_bytes h q (q_cells h q) @ chain_bytes h ts"
      "chain_bytes h2 (q_cells h q @ ts) = chain_bytes h (q_cells h q @ ts)"
      "q_cells h q \<noteq> [] \<longrightarrow> length (chain_bytes h (q_cells h q @ ts)) \<le> capacity q"
      "\<forall>x. x \<notin> set (q_cells h q @ ts) \<longrightarrow> heap_at h2 x = heap_at h x"
    note v = q_ok_valid [OF c(3)]
    have own: "q_own h2 q' = q_own h q \<union> set ts" using v(2) by (simp add: q_own_def)
    have val: "q_value h2 q' = q_value h q @ chain_bytes h ts" using v(3) c(5) by (simp add: q_value_ok)
    have tot: "q_total h2 q' = q_total h q + length (chain_bytes h ts)"
      using v(4) unfolding c(6) by (simp add: q_total_def chain_simps)
    have lim: "\<not> q_is_empty q \<longrightarrow> q_total h2 q' \<le> capacity q" using e c(6,7) v(4) by simp
    have "heap_move (q_own h q \<union> set ts) h (q_own h2 q') h2"
      using c(8) own by (auto simp: heap_move_def q_own_def)
    with c(1,2,4) v(1) own val tot lim show ?thesis by blast
  qed (simp add: e)
qed

end
