(* ===== verification/Pppossl.thy ===== *)
theory Pppossl
  imports PBufQueue HeapObject
begin

text \<open>
  The FortiGate PPP framing of \<^verbatim>\<open>net/pppossl.c\<close>: PPP packets travel in frames with a header of
  three 16-bit numbers (frame length, the magic \<^verbatim>\<open>0x5050\<close>, packet length).

  The output callback is a parameter of the operations; it may change the heap and a state of its
  own (\<open>'o\<close>). \<open>mems\<close> is the script of what \<^verbatim>\<open>mem_malloc\<close> answers (empty: zeroed memory). A packet
  passed to \<^verbatim>\<open>ppp_input\<close> belongs to the PPP stack from then on: its bytes are recorded in
  \<open>delivered\<close>. \<open>None\<close> is a memory fault.
\<close>

section \<open>State\<close>

datatype pp_state = PP_HEADER | PP_DATA

record pppossl =
  last_xmit :: nat
  in_state :: pp_state
  in_header :: "byte list"
  in_counter :: nat
  in_data :: "addr option"
  mems :: "byte list option list"
  delivered :: "byte list list"

definition PPPERR_NONE :: int where "PPPERR_NONE = 0"
definition PPPERR_ALLOC :: int where "PPPERR_ALLOC = 4"
definition PPPERR_PROTOCOL :: int where "PPPERR_PROTOCOL = 8"

lemmas ppperr_defs = PPPERR_NONE_def PPPERR_ALLOC_def PPPERR_PROTOCOL_def

definition PPP_HEADER_SIZE :: nat where "PPP_HEADER_SIZE = 6"

text \<open>\<^verbatim>\<open>lwip_htons\<close> followed by a store, and a load followed by \<^verbatim>\<open>lwip_ntohs\<close>.\<close>

definition be16 :: "nat \<Rightarrow> byte list" where
  "be16 n = [of_nat (n div 256), of_nat n]"

definition from_be16 :: "byte \<Rightarrow> byte \<Rightarrow> nat" where
  "from_be16 hi lo = unat hi * 256 + unat lo"

definition next_mem :: "pppossl \<Rightarrow> byte list option \<times> pppossl" where
  "next_mem p = (case mems p of [] \<Rightarrow> (Some [], p) | m # ms \<Rightarrow> (m, p\<lparr>mems := ms\<rparr>))"

definition in_reset :: "pppossl \<Rightarrow> pppossl" where
  "in_reset p = p\<lparr>in_state := PP_HEADER, in_header := replicate 6 0, in_counter := 0, in_data := None\<rparr>"

section \<open>Output\<close>

text \<open>\<^verbatim>\<open>memcpy\<close> into the payload of a cell: out of bounds is a fault.\<close>

definition heap_store :: "pheap \<Rightarrow> addr \<Rightarrow> nat \<Rightarrow> byte list \<Rightarrow> pheap option" where
  "heap_store h a i bs = do {
     b \<leftarrow> heap_at h a;
     if i + length bs \<le> pb_len b then Some (heap_put h a (b\<lparr>pb_payload := patch (pb_payload b) i bs\<rparr>)) else None
   }"

partial_function (option) copy_chain :: "pheap \<Rightarrow> addr \<Rightarrow> addr option \<Rightarrow> nat \<Rightarrow> pheap option" where
  "copy_chain h frame p offset =
     (case p of
        None \<Rightarrow> Some h
      | Some a \<Rightarrow>
          (case heap_at h a of
             None \<Rightarrow> None
           | Some b \<Rightarrow>
               (case heap_store h frame offset (pb_payload b) of
                  None \<Rightarrow> None
                | Some h' \<Rightarrow> copy_chain h' frame (pb_next b) (offset + pb_len b))))"

definition ppp_header :: "nat \<Rightarrow> byte list" where
  "ppp_header n = be16 (n + PPP_HEADER_SIZE) @ [0x50, 0x50] @ be16 n"

definition pppossl_write ::
  "(pheap \<Rightarrow> addr \<Rightarrow> 'o \<Rightarrow> (nat \<times> pheap \<times> 'o) option) \<Rightarrow> nat \<Rightarrow> pppossl \<Rightarrow> pheap \<Rightarrow> 'o \<Rightarrow> addr option \<Rightarrow>
   (lwip_err \<times> pppossl \<times> pheap \<times> 'o) option" where
  "pppossl_write output_cb now ppp h out pbuf =
     (case pbuf of
        None \<Rightarrow> Some (ERR_BUF, ppp, h, out)
      | Some a \<Rightarrow> do {
          b \<leftarrow> heap_at h a;
          if pb_tot_len b > 0 then
            (case next_mem ppp of (mem, ppp1) \<Rightarrow>
              (case pbuf_alloc mem (PPP_HEADER_SIZE + pb_tot_len b) h of
                 (None, h1) \<Rightarrow> do { (_, h2) \<leftarrow> pbuf_free h1 (Some a); Some (ERR_MEM, ppp1, h2, out) }
               | (Some frame, h1) \<Rightarrow> do {
                   h2 \<leftarrow> heap_store h1 frame 0 (ppp_header (pb_tot_len b));
                   h3 \<leftarrow> copy_chain h2 frame (Some a) PPP_HEADER_SIZE;
                   (lp, h4, out') \<leftarrow> output_cb h3 frame out;
                   (_, h5) \<leftarrow> pbuf_free h4 (Some frame);
                   (_, h6) \<leftarrow> pbuf_free h5 (Some a);
                   if lp \<noteq> pb_tot_len b + PPP_HEADER_SIZE
                   then Some (ERR_IF, ppp1\<lparr>last_xmit := 0\<rparr>, h6, out')
                   else Some (ERR_OK, ppp1\<lparr>last_xmit := now\<rparr>, h6, out')
                 }))
          else do {
            (_, h1) \<leftarrow> pbuf_free h (Some a);
            Some (ERR_OK, ppp\<lparr>last_xmit := now\<rparr>, h1, out)
          }
        })"

text \<open>The PPP address, control and protocol fields are prepended in a buffer of their own.\<close>

definition PPP_ALLSTATIONS :: byte where "PPP_ALLSTATIONS = 0xff"
definition PPP_UI :: byte where "PPP_UI = 0x03"

definition pppossl_netif_output ::
  "(pheap \<Rightarrow> addr \<Rightarrow> 'o \<Rightarrow> (nat \<times> pheap \<times> 'o) option) \<Rightarrow> nat \<Rightarrow> pppossl \<Rightarrow> pheap \<Rightarrow> 'o \<Rightarrow> addr \<Rightarrow> nat \<Rightarrow>
   (lwip_err \<times> pppossl \<times> pheap \<times> 'o) option" where
  "pppossl_netif_output output_cb now ppp h out pb protocol =
     (case next_mem ppp of (mem, ppp1) \<Rightarrow>
       (case pbuf_alloc mem 4 h of
          (None, h1) \<Rightarrow> Some (ERR_MEM, ppp1, h1, out)
        | (Some nb, h1) \<Rightarrow> do {
            (_, h2) \<leftarrow> pbuf_take h1 (Some nb) ([PPP_ALLSTATIONS, PPP_UI] @ be16 protocol);
            h3 \<leftarrow> pbuf_chain h2 (Some nb) (Some pb);
            pppossl_write output_cb now ppp1 h3 out (Some nb)
          }))"

text \<open>The keep-alive: an LCP discard request with the next identifier. The magic number is stored
  in the byte order of the machine (little endian). \<open>lcp\<close> is the state of the LCP automaton.\<close>

record lcp =
  fsm_opened :: bool
  fsm_id :: nat
  magicnumber :: "32 word"

definition DISCREQ :: byte where "DISCREQ = 11"

definition le32 :: "32 word \<Rightarrow> byte list" where
  "le32 w = map (\<lambda>i. ucast (drop_bit (8 * i) w)) [0, 1, 2, 3]"

definition discard_request :: "nat \<Rightarrow> 32 word \<Rightarrow> byte list" where
  "discard_request ident magic = [DISCREQ, of_nat ident] @ be16 8 @ le32 magic"

definition pppossl_send_ka ::
  "(pheap \<Rightarrow> addr \<Rightarrow> 'o \<Rightarrow> (nat \<times> pheap \<times> 'o) option) \<Rightarrow> nat \<Rightarrow> lcp \<Rightarrow> pppossl \<Rightarrow> pheap \<Rightarrow> 'o \<Rightarrow>
   (lcp \<times> pppossl \<times> pheap \<times> 'o) option" where
  "pppossl_send_ka output_cb now l ppp h out =
     (if \<not> fsm_opened l then Some (l, ppp, h, out)
      else
        (case next_mem ppp of (mem, ppp1) \<Rightarrow>
          (case pbuf_alloc mem 8 h of
             (None, h1) \<Rightarrow> Some (l, ppp1, h1, out)
           | (Some a, h1) \<Rightarrow> do {
               let l1 = l\<lparr>fsm_id := (fsm_id l + 1) mod 256\<rparr>;
               h2 \<leftarrow> heap_store h1 a 0 (discard_request (fsm_id l1) (magicnumber l1));
               (_, ppp2, h3, out') \<leftarrow> pppossl_netif_output output_cb now ppp1 h2 out a 0xC021;
               (_, h4) \<leftarrow> pbuf_free h3 (Some a);
               Some (l1, ppp2, h4, out')
             })))"

section \<open>Connection\<close>

text \<open>\<^verbatim>\<open>pppossl_connect\<close>: the control block is reset; the rest starts the PPP automaton.\<close>

definition pppossl_connect :: "pppossl \<Rightarrow> pppossl" where
  "pppossl_connect p = in_reset (p\<lparr>last_xmit := 0\<rparr>)"

definition free_current_packet :: "pheap \<Rightarrow> pppossl \<Rightarrow> (pheap \<times> pppossl) option" where
  "free_current_packet h p =
     (if in_data p \<noteq> None then do { (_, h') \<leftarrow> pbuf_free h (in_data p); Some (h', p\<lparr>in_data := None\<rparr>) }
      else Some (h, p\<lparr>in_data := None\<rparr>))"

text \<open>The memory of the control block itself is not part of the heap.\<close>

definition pppossl_destroy :: "pheap \<Rightarrow> pppossl \<Rightarrow> pheap option" where
  "pppossl_destroy h p = do { (h', _) \<leftarrow> free_current_packet h p; Some h' }"

section \<open>Input\<close>

text \<open>The label \<^verbatim>\<open>drop\<close>: release the packet under construction and reset the parser.\<close>

definition input_drop :: "int \<Rightarrow> pheap \<Rightarrow> pppossl \<Rightarrow> (int \<times> pheap \<times> pppossl) option" where
  "input_drop err h p =
     (if in_data p \<noteq> None then do { (_, h') \<leftarrow> pbuf_free h (in_data p); Some (err, h', in_reset p) }
      else Some (err, h, in_reset p))"

definition header_len :: "byte list \<Rightarrow> nat" where
  "header_len hdr = from_be16 (hdr ! 0) (hdr ! 1)"

definition frame_size :: "byte list \<Rightarrow> nat" where
  "frame_size hdr = from_be16 (hdr ! 4) (hdr ! 5)"

definition header_valid :: "byte list \<Rightarrow> bool" where
  "header_valid hdr \<longleftrightarrow> header_len hdr = frame_size hdr + PPP_HEADER_SIZE \<and> hdr ! 2 = 0x50 \<and> hdr ! 3 = 0x50"

text \<open>The loop of \<^verbatim>\<open>pppossl_input\<close> on the received bytes; the two length fields of the header stay in
  network order and are decoded where they are read.\<close>

partial_function (option) pppossl_input ::
  "pheap \<Rightarrow> pppossl \<Rightarrow> byte list \<Rightarrow> (int \<times> pheap \<times> pppossl) option" where
  "pppossl_input h p s =
     (case s of
        [] \<Rightarrow> Some (PPPERR_NONE, h, p)
      | c # r \<Rightarrow>
          if in_state p = PP_HEADER then
            (let p1 = p\<lparr>in_header := (in_header p)[in_counter p := c], in_counter := in_counter p + 1\<rparr> in
             if in_counter p1 = PPP_HEADER_SIZE then
               (let p2 = p1\<lparr>in_state := PP_DATA, in_counter := 0\<rparr>; n = frame_size (in_header p2) in
                if \<not> header_valid (in_header p2) then input_drop PPPERR_PROTOCOL h p2
                else if n > 16 * 1024 then input_drop PPPERR_PROTOCOL h p2
                else
                  (case next_mem p2 of (mem, p3) \<Rightarrow>
                    (case pbuf_alloc mem n h of
                       (None, h1) \<Rightarrow> input_drop PPPERR_ALLOC h1 p3
                     | (Some a, h1) \<Rightarrow> pppossl_input h1 (p3\<lparr>in_data := Some a\<rparr>) r)))
             else pppossl_input h p1 r)
          else
            (let n = frame_size (in_header p); len = min (n - in_counter p) (length s) in do {
               (e, h1) \<leftarrow> pbuf_take_at h (in_data p) (take len s) (in_counter p);
               if e = ERR_MEM then input_drop PPPERR_ALLOC h1 p
               else
                 (let p1 = p\<lparr>in_counter := u16 (in_counter p + len)\<rparr> in
                  if in_counter p1 = n then
                    pppossl_input h1
                      (in_reset (p1\<lparr>delivered := delivered p1 @ [chain_bytes h1 (cells (length h1) h1 (in_data p1))]\<rparr>))
                      (drop len s)
                  else pppossl_input h1 p1 (drop len s))
             }))"

section \<open>The reference parser\<close>

text \<open>What a byte stream means: the packets of the complete frames, and either the incomplete rest
  or the error the stream runs into. A frame announcing an empty packet is an error as soon as one
  more byte arrives.\<close>

function deframe :: "byte list \<Rightarrow> byte list list \<times> (int + byte list)" where
  "deframe bs =
     (if length bs < 6 then ([], Inr bs)
      else if \<not> header_valid (take 6 bs) \<or> frame_size (take 6 bs) > 16384 then ([], Inl PPPERR_PROTOCOL)
      else if length bs = 6 then ([], Inr bs)
      else if frame_size (take 6 bs) = 0 then ([], Inl PPPERR_ALLOC)
      else if length bs - 6 < frame_size (take 6 bs) then ([], Inr bs)
      else (take (frame_size (take 6 bs)) (drop 6 bs) # fst (deframe (drop (6 + frame_size (take 6 bs)) bs)),
            snd (deframe (drop (6 + frame_size (take 6 bs)) bs))))"
  by pat_completeness auto
termination
  by (relation "measure length") auto

declare deframe.simps [simp del]

definition in_packet :: "pheap \<Rightarrow> pppossl \<Rightarrow> byte list" where
  "in_packet h p = chain_bytes h (cells (length h) h (in_data p))"

definition pending :: "pheap \<Rightarrow> pppossl \<Rightarrow> byte list" where
  "pending h p = (if in_state p = PP_HEADER then take (in_counter p) (in_header p)
     else in_header p @ take (in_counter p) (in_packet h p))"

text \<open>The parser invariant: in the data state the packet under construction is a single cell of
  exactly the announced length.\<close>

definition in_cell_ok :: "pheap \<Rightarrow> pppossl \<Rightarrow> bool" where
  "in_cell_ok h p \<longleftrightarrow>
     (case in_data p of
        None \<Rightarrow> False
      | Some a \<Rightarrow> chain_ok h (Some a) [a] \<and> ref_at h a = 1 \<and> length (payload_at h a) = frame_size (in_header p))"

definition ppp_in_ok :: "pheap \<Rightarrow> pppossl \<Rightarrow> bool" where
  "ppp_in_ok h p \<longleftrightarrow> length (in_header p) = 6 \<and>
     (if in_state p = PP_HEADER then in_counter p < 6 \<and> in_data p = None
      else header_valid (in_header p) \<and> frame_size (in_header p) \<le> 16384 \<and> in_cell_ok h p \<and>
        (in_counter p < frame_size (in_header p) \<or> in_counter p = 0))"

definition mems_ok :: "pppossl \<Rightarrow> bool" where
  "mems_ok p \<longleftrightarrow> list_all (\<lambda>m. m \<noteq> None) (mems p)"

lemma in_reset_simps [simp]:
  "in_state (in_reset p) = PP_HEADER" "in_counter (in_reset p) = 0" "in_data (in_reset p) = None"
  "in_header (in_reset p) = replicate 6 0" "delivered (in_reset p) = delivered p" "mems (in_reset p) = mems p"
  by (simp_all add: in_reset_def)

lemma ppp_in_ok_reset [simp]: "ppp_in_ok h (in_reset p)" "pending h (in_reset p) = []"
  by (simp_all add: ppp_in_ok_def pending_def)

lemma in_packet_cell: "in_data p = Some a \<Longrightarrow> chain_ok h (Some a) [a] \<Longrightarrow> in_packet h p = payload_at h a"
  by (simp add: in_packet_def single_cell chain_simps)

lemma input_drop_ok:
  assumes "in_data p = None \<or> (\<exists>a. in_data p = Some a \<and> chain_ok h (Some a) [a] \<and> ref_at h a = 1)"
  shows "\<exists>h'. input_drop err h p = Some (err, h', in_reset p)"
  using assms
proof
  assume "\<exists>a. in_data p = Some a \<and> chain_ok h (Some a) [a] \<and> ref_at h a = 1"
  then obtain a where a: "in_data p = Some a" "chain_ok h (Some a) [a]" "ref_at h a = 1" by blast
  from pbuf_free_ok [OF single_cell(2) [OF a(2)]] a(3) obtain n h' where "pbuf_free h (Some a) = Some (n, h')"
    by auto
  with a(1) show ?thesis by (simp add: input_drop_def)
qed (simp add: input_drop_def)

lemma take_at_empty_cell:
  assumes "chain_ok h (Some a) [a]" "payload_at h a = []"
  shows "pbuf_take_at h (Some a) bs 0 = Some (ERR_MEM, h)"
  using pbuf_take_at_end [OF assms(1), of 0] assms(2) by (simp add: chain_simps)

text \<open>One round in the data state writes the next bytes of the packet.\<close>

lemma take_at_cell:
  assumes "chain_ok h (Some a) [a]" "ref_at h a = 1" "i < length (payload_at h a)" "i + length bs \<le> length (payload_at h a)"
  obtains h' where "pbuf_take_at h (Some a) bs i = Some (ERR_OK, h')" "chain_ok h' (Some a) [a]" "ref_at h' a = 1"
    "payload_at h' a = patch (payload_at h a) i bs"
proof -
  have "i + length bs \<le> length (chain_bytes h [a])" "i < length (chain_bytes h [a])"
    using assms(3,4) by (simp_all add: chain_simps)
  from pbuf_take_at_ok [OF assms(1) this] obtain h' where h': "pbuf_take_at h (Some a) bs i = Some (ERR_OK, h')"
    "same_links h h'" "chain_bytes h' [a] = patch (chain_bytes h [a]) i bs" by blast
  then show ?thesis
    using same_links_chain(1) [OF h'(2)] same_links_at(3) [OF h'(2)] assms(1,2)
    by (intro that [of h']) (simp_all add: chain_simps)
qed

section \<open>The parser implements the reference\<close>

lemma in_cellE:
  assumes "ppp_in_ok h p" "in_state p \<noteq> PP_HEADER"
  obtains a where "in_data p = Some a" "chain_ok h (Some a) [a]" "ref_at h a = 1"
    "length (payload_at h a) = frame_size (in_header p)" "in_packet h p = payload_at h a"
    "length (in_header p) = 6" "header_valid (in_header p)" "frame_size (in_header p) \<le> 16384"
    "in_counter p < frame_size (in_header p) \<or> in_counter p = 0"
    "pending h p = in_header p @ take (in_counter p) (payload_at h a)"
  using assms in_packet_cell
  by (auto simp: ppp_in_ok_def in_cell_ok_def pending_def split: option.splits if_splits)

lemma pending_stop:
  assumes "ppp_in_ok h p"
  shows "deframe (pending h p) = ([], Inr (pending h p))"
proof (cases "in_state p = PP_HEADER")
  case True
  with assms have "length (pending h p) < 6" by (simp add: pending_def ppp_in_ok_def)
  then show ?thesis by (simp add: deframe.simps)
next
  case False
  with assms obtain a where a: "length (payload_at h a) = frame_size (in_header p)" "length (in_header p) = 6"
    "header_valid (in_header p)" "frame_size (in_header p) \<le> 16384"
    "in_counter p < frame_size (in_header p) \<or> in_counter p = 0"
    "pending h p = in_header p @ take (in_counter p) (payload_at h a)" by (rule in_cellE)
  show ?thesis
    using a(1-5) by (subst deframe.simps) (auto simp: a(6))
qed

definition refines :: "pheap \<Rightarrow> pppossl \<Rightarrow> byte list \<Rightarrow> int \<Rightarrow> pheap \<Rightarrow> pppossl \<Rightarrow> bool" where
  "refines h p s err h' p' \<longleftrightarrow> ppp_in_ok h' p' \<and> mems_ok p' \<and>
     delivered p' = delivered p @ fst (deframe (pending h p @ s)) \<and>
     (case snd (deframe (pending h p @ s)) of
        Inl e \<Rightarrow> err = e \<and> pending h' p' = []
      | Inr rest \<Rightarrow> err = PPPERR_NONE \<and> pending h' p' = rest)"

lemma refines_step:
  assumes "refines h1 p1 s1 err h' p'" "pending h1 p1 @ s1 = pending h p @ s" "delivered p1 = delivered p"
  shows "refines h p s err h' p'"
  using assms by (simp add: refines_def)

lemma refines_drop:
  assumes "in_data p1 = None \<or> (\<exists>a. in_data p1 = Some a \<and> chain_ok h1 (Some a) [a] \<and> ref_at h1 a = 1)"
    and "deframe (pending h p @ s) = ([], Inl err)" "delivered p1 = delivered p" "mems_ok p1"
  shows "\<exists>e h' p'. input_drop err h1 p1 = Some (e, h', p') \<and> refines h p s e h' p'"
  using input_drop_ok [OF assms(1), of err] assms(2-4) by (auto simp: refines_def mems_ok_def)

lemma next_mem_ok:
  assumes "next_mem p = (m, p')" "mems_ok p"
  shows "\<exists>junk. m = Some junk" "mems_ok p'" "delivered p' = delivered p" "in_header p' = in_header p"
    "in_state p' = in_state p" "in_counter p' = in_counter p" "in_data p' = in_data p"
  using assms by (auto simp: next_mem_def mems_ok_def split: list.splits)

text \<open>The output does not touch the state of the parser.\<close>

definition in_same :: "pppossl \<Rightarrow> pppossl \<Rightarrow> bool" where
  "in_same p p' \<longleftrightarrow> in_state p' = in_state p \<and> in_header p' = in_header p \<and> in_counter p' = in_counter p \<and>
     in_data p' = in_data p \<and> delivered p' = delivered p \<and> (mems_ok p \<longrightarrow> mems_ok p')"

lemma next_mem_same: "next_mem p = (m, p') \<Longrightarrow> in_same p p'"
  by (auto simp: next_mem_def in_same_def mems_ok_def split: list.splits)

lemma input_header_byte:
  assumes ok: "ppp_in_ok h p" "mems_ok p" and st: "in_state p = PP_HEADER"
    and ih: "\<And>h' p'. ppp_in_ok h' p' \<Longrightarrow> mems_ok p' \<Longrightarrow>
      \<exists>err h'' p''. pppossl_input h' p' r = Some (err, h'', p'') \<and> refines h' p' r err h'' p''"
  shows "\<exists>err h' p'. pppossl_input h p (c # r) = Some (err, h', p') \<and> refines h p (c # r) err h' p'"
proof -
  let ?p1 = "p\<lparr>in_header := (in_header p)[in_counter p := c], in_counter := in_counter p + 1\<rparr>"
  have hdr: "length (in_header p) = 6" "in_counter p < 6" "in_data p = None"
    using ok(1) st by (simp_all add: ppp_in_ok_def)
  have pend: "take (in_counter p + 1) ((in_header p)[in_counter p := c]) = pending h p @ [c]"
    using hdr st by (simp add: pending_def take_Suc_conv_app_nth)
  show ?thesis
  proof (cases "in_counter p + 1 = 6")
    case False
    then have "pppossl_input h p (c # r) = pppossl_input h ?p1 r"
      using st by (subst pppossl_input.simps) (simp add: PPP_HEADER_SIZE_def)
    moreover have "ppp_in_ok h ?p1" using hdr st False by (simp add: ppp_in_ok_def)
    moreover have "mems_ok ?p1" using ok(2) by (simp add: mems_ok_def)
    moreover have "pending h ?p1 = pending h p @ [c]" using pend st by (simp add: pending_def)
    ultimately show ?thesis using ih [of h ?p1] refines_step [of h ?p1 r _ _ _ h p "c # r"] by force
  next
    case full: True
    let ?hdr = "(in_header p)[in_counter p := c]"
    let ?p2 = "?p1\<lparr>in_state := PP_DATA, in_counter := 0\<rparr>"
    have all: "?hdr = pending h p @ [c]" using pend full hdr by simp
    have len: "length (pending h p) = 5" using arg_cong [OF all, of length] hdr by simp
    then have pre: "take 6 (pending h p @ c # r) = ?hdr" "\<not> length (pending h p @ c # r) < 6"
      using len by (simp_all add: all)
    have ok2: "mems_ok ?p2" using ok(2) by (simp add: mems_ok_def)
    show ?thesis
    proof (cases "header_valid ?hdr \<and> frame_size ?hdr \<le> 16384")
      case False
      then have "pppossl_input h p (c # r) = input_drop PPPERR_PROTOCOL h ?p2"
        using st full by (subst pppossl_input.simps) (auto simp: PPP_HEADER_SIZE_def Let_def)
      moreover have "deframe (pending h p @ c # r) = ([], Inl PPPERR_PROTOCOL)"
        using False pre by (subst deframe.simps) auto
      ultimately show ?thesis using refines_drop [of ?p2 h h p "c # r"] hdr ok2 by simp
    next
      case True
      obtain m p3 where m: "next_mem ?p2 = (m, p3)" by (cases "next_mem ?p2")
      note m3 = next_mem_ok [OF m ok2]
      from m3(1) obtain junk where junk: "m = Some junk" by blast
      obtain q h1 where al: "pbuf_alloc (Some junk) (frame_size ?hdr) h = (q, h1)" by (cases "pbuf_alloc (Some junk) (frame_size ?hdr) h")
      have "frame_size ?hdr < 65536" using True by simp
      from pbuf_alloc_cell [OF al this] obtain a where a: "q = Some a" "chain_ok h1 (Some a) [a]" "ref_at h1 a = 1"
        "length (payload_at h1 a) = frame_size ?hdr" by metis
      let ?p4 = "p3\<lparr>in_data := Some a\<rparr>"
      have "pppossl_input h p (c # r) = pppossl_input h1 ?p4 r"
        using st full True m junk al a(1) by (subst pppossl_input.simps) (simp add: PPP_HEADER_SIZE_def Let_def)
      moreover have "ppp_in_ok h1 ?p4" using m3 a True hdr by (simp add: ppp_in_ok_def in_cell_ok_def)
      moreover have "mems_ok ?p4" using m3(2) by (simp add: mems_ok_def)
      moreover have "pending h1 ?p4 @ r = pending h p @ c # r"
        using m3 all by (simp add: pending_def)
      moreover have "delivered ?p4 = delivered p" using m3(3) by simp
      ultimately show ?thesis using ih [of h1 ?p4] refines_step [of h1 ?p4 r _ _ _ h p "c # r"] by force
    qed
  qed
qed

lemma deframe_packet:
  assumes "header_valid hdr" "frame_size hdr = length body" "length hdr = 6" "0 < length body" "length body \<le> 16384"
  shows "deframe (hdr @ body @ rest) = (body # fst (deframe rest), snd (deframe rest))"
  using assms by (subst deframe.simps) simp

lemma input_data_block:
  assumes ok: "ppp_in_ok h p" "mems_ok p" and st: "in_state p \<noteq> PP_HEADER" and s: "s \<noteq> []"
    and ih: "\<And>h' p' s'. length s' < length s \<Longrightarrow> ppp_in_ok h' p' \<Longrightarrow> mems_ok p' \<Longrightarrow>
      \<exists>err h'' p''. pppossl_input h' p' s' = Some (err, h'', p'') \<and> refines h' p' s' err h'' p''"
  shows "\<exists>err h' p'. pppossl_input h p s = Some (err, h', p') \<and> refines h p s err h' p'"
proof -
  from ok(1) st obtain a where a: "in_data p = Some a" "chain_ok h (Some a) [a]" "ref_at h a = 1"
    "length (payload_at h a) = frame_size (in_header p)" "in_packet h p = payload_at h a"
    "length (in_header p) = 6" "header_valid (in_header p)" "frame_size (in_header p) \<le> 16384"
    "in_counter p < frame_size (in_header p) \<or> in_counter p = 0"
    "pending h p = in_header p @ take (in_counter p) (payload_at h a)" by (rule in_cellE)
  let ?n = "frame_size (in_header p)" and ?i = "in_counter p"
  let ?len = "min (?n - ?i) (length s)"
  obtain c r where cr: "s = c # r" using s by (cases s) auto
  show ?thesis
  proof (cases "?n = 0")
    case True
    then have z: "?i = 0" "payload_at h a = []" using a(4,9) by auto
    have "pppossl_input h p s = input_drop PPPERR_ALLOC h p"
      using st cr True z a(1) take_at_empty_cell [OF a(2) z(2)]
      by (subst pppossl_input.simps) (simp add: Let_def)
    moreover have "deframe (pending h p @ s) = ([], Inl PPPERR_ALLOC)"
      using a(6-8,10) True cr z by (subst deframe.simps) simp
    ultimately show ?thesis using refines_drop [of p h h p s PPPERR_ALLOC] a(1-3) ok(2) by simp
  next
    case False
    then have i: "?i < ?n" using a(9) by auto
    have len: "0 < ?len" "?i + ?len \<le> ?n" using i s by auto
    have tl: "length (take ?len s) = ?len" by simp
    from take_at_cell [OF a(2,3), of ?i "take ?len s"] i a(4) len tl obtain h1 where
      h1: "pbuf_take_at h (Some a) (take ?len s) ?i = Some (ERR_OK, h1)" "chain_ok h1 (Some a) [a]" "ref_at h1 a = 1"
        "payload_at h1 a = patch (payload_at h a) ?i (take ?len s)" by (metis a(4))
    have u: "u16 (?i + ?len) = ?i + ?len" using len a(8) by (intro u16_id) linarith
    have pay: "length (payload_at h1 a) = ?n" "take (?i + ?len) (payload_at h1 a) = take ?i (payload_at h a) @ take ?len s"
      using h1(4) len tl a(4) i by (simp_all add: patch_def)
    let ?p1 = "p\<lparr>in_counter := ?i + ?len\<rparr>"
    have noerr: "ERR_OK \<noteq> ERR_MEM" by (simp add: lwip_err_defs)
    have sm: "length (drop ?len s) < length s" using len s by simp
    show ?thesis
    proof (cases "?i + ?len = ?n")
      case True
      let ?body = "payload_at h1 a"
      let ?p2 = "in_reset (?p1\<lparr>delivered := delivered p @ [?body]\<rparr>)"
      have pk: "chain_bytes h1 (cells (length h1) h1 (in_data p)) = ?body"
        using in_packet_cell [OF a(1) h1(2)] by (simp add: in_packet_def)
      have step: "pppossl_input h p s = pppossl_input h1 ?p2 (drop ?len s)"
        using st cr a(1) h1(1) noerr u True pk by (subst pppossl_input.simps) (simp add: Let_def)
      have "mems_ok ?p2" using ok(2) by (simp add: mems_ok_def)
      from ih [OF sm _ this, of h1] obtain err h2 p2 where
        r: "pppossl_input h1 ?p2 (drop ?len s) = Some (err, h2, p2)" "refines h1 ?p2 (drop ?len s) err h2 p2" by auto
      have "?body = take ?i (payload_at h a) @ take ?len s" using pay True by simp
      then have "pending h p @ s = in_header p @ ?body @ drop ?len s" by (simp add: a(10))
      moreover have "deframe (in_header p @ ?body @ drop ?len s) =
          (?body # fst (deframe (drop ?len s)), snd (deframe (drop ?len s)))"
        using a(6-8) pay(1) i by (intro deframe_packet) auto
      ultimately have "refines h p s err h2 p2" using r(2) by (simp add: refines_def)
      with step r(1) show ?thesis by auto
    next
      case part: False
      then have all: "?len = length s" using len by auto
      have step: "pppossl_input h p s = pppossl_input h1 ?p1 []"
        using st cr a(1) h1(1) noerr u part all by (subst pppossl_input.simps) (simp add: Let_def)
      have ok1: "ppp_in_ok h1 ?p1" "mems_ok ?p1"
        using ok st a(1) h1(2,3) pay(1) part len by (auto simp: ppp_in_ok_def in_cell_ok_def mems_ok_def)
      from ih [OF _ ok1, of "[]"] s obtain err h2 p2 where
        r: "pppossl_input h1 ?p1 [] = Some (err, h2, p2)" "refines h1 ?p1 [] err h2 p2" by auto
      have "pending h1 ?p1 = pending h p @ s"
        using st in_packet_cell [of ?p1 a h1] a(1,10) h1(2) pay(2) all by (simp add: pending_def)
      with r step show ?thesis using refines_step [of h1 ?p1 "[]" err h2 p2 h p s] by simp
    qed
  qed
qed

lemma pppossl_input_refines:
  assumes "ppp_in_ok h p" "mems_ok p"
  shows "\<exists>err h' p'. pppossl_input h p s = Some (err, h', p') \<and> refines h p s err h' p'"
  using assms
proof (induction "length s" arbitrary: h p s rule: less_induct)
  case less
  show ?case
  proof (cases s)
    case Nil
    then show ?thesis using less.prems pending_stop [OF less.prems(1)]
      by (simp add: pppossl_input.simps refines_def)
  next
    case (Cons c r)
    show ?thesis
    proof (cases "in_state p = PP_HEADER")
      case True
      show ?thesis unfolding Cons
        by (rule input_header_byte [OF less.prems True less.hyps]) (simp_all add: Cons)
    next
      case False
      show ?thesis by (rule input_data_block [OF less.prems False _ less.hyps]) (simp_all add: Cons)
    qed
  qed
qed

text \<open>The parser owns the packet under construction and nothing else; it never faults, whatever the
  allocator answers.\<close>

definition in_own :: "pppossl \<Rightarrow> addr set" where
  "in_own p = (case in_data p of None \<Rightarrow> {} | Some a \<Rightarrow> {a})"

lemma input_drop_move:
  assumes "in_data p = None \<or> (\<exists>a. in_data p = Some a \<and> chain_ok h (Some a) [a] \<and> ref_at h a = 1)"
  shows "\<exists>h'. input_drop err h p = Some (err, h', in_reset p) \<and> heap_move (in_own p) h {} h'"
  using assms
proof
  assume "\<exists>a. in_data p = Some a \<and> chain_ok h (Some a) [a] \<and> ref_at h a = 1"
  then obtain a where a: "in_data p = Some a" "chain_ok h (Some a) [a]" "ref_at h a = 1" by blast
  from pbuf_free_frame [OF single_cell(2) [OF a(2)]] a(3) obtain n h' where "pbuf_free h (Some a) = Some (n, h')"
    "\<forall>x. x \<noteq> a \<longrightarrow> heap_at h' x = heap_at h x" by auto
  with a(1) show ?thesis by (simp add: input_drop_def in_own_def heap_move_def)
qed (simp add: input_drop_def heap_move_def)

definition input_moves :: "pheap \<Rightarrow> pppossl \<Rightarrow> byte list \<Rightarrow> bool" where
  "input_moves h p s \<longleftrightarrow> (\<exists>err h' p'. pppossl_input h p s = Some (err, h', p') \<and> ppp_in_ok h' p' \<and>
     heap_move (in_own p) h (in_own p') h')"

lemma input_moves_step:
  "pppossl_input h p s = pppossl_input h1 p1 s1 \<Longrightarrow> heap_move (in_own p) h (in_own p1) h1 \<Longrightarrow>
   input_moves h1 p1 s1 \<Longrightarrow> input_moves h p s"
  unfolding input_moves_def by (metis heap_move_trans)

lemma input_moves_drop:
  assumes "pppossl_input h p s = input_drop err h p1" "in_own p1 = in_own p"
    and "in_data p1 = None \<or> (\<exists>a. in_data p1 = Some a \<and> chain_ok h (Some a) [a] \<and> ref_at h a = 1)"
  shows "input_moves h p s"
  using input_drop_move [OF assms(3), of err] assms(1,2) by (auto simp: input_moves_def in_own_def)

lemma input_header_moves:
  assumes ok: "ppp_in_ok h p" and st: "in_state p = PP_HEADER"
    and ih: "\<And>h' p'. ppp_in_ok h' p' \<Longrightarrow> input_moves h' p' r"
  shows "input_moves h p (c # r)"
proof -
  let ?p1 = "p\<lparr>in_header := (in_header p)[in_counter p := c], in_counter := in_counter p + 1\<rparr>"
  let ?hdr = "(in_header p)[in_counter p := c]"
  let ?p2 = "?p1\<lparr>in_state := PP_DATA, in_counter := 0\<rparr>"
  have hdr: "length (in_header p) = 6" "in_counter p < 6" "in_data p = None"
    using ok st by (simp_all add: ppp_in_ok_def)
  have own: "in_own p = {}" using hdr by (simp add: in_own_def)
  consider "in_counter p + 1 \<noteq> 6" | "in_counter p + 1 = 6" "\<not> (header_valid ?hdr \<and> frame_size ?hdr \<le> 16384)"
    | "in_counter p + 1 = 6" "header_valid ?hdr" "frame_size ?hdr \<le> 16384" by blast
  then show ?thesis
  proof cases
    case 1
    then have "pppossl_input h p (c # r) = pppossl_input h ?p1 r"
      using st by (subst pppossl_input.simps) (simp add: PPP_HEADER_SIZE_def)
    moreover have "ppp_in_ok h ?p1" using hdr st 1 by (simp add: ppp_in_ok_def)
    ultimately show ?thesis using ih input_moves_step [of h p "c # r" h ?p1 r] heap_move_refl
      by (simp add: in_own_def)
  next
    case 2
    then have "pppossl_input h p (c # r) = input_drop PPPERR_PROTOCOL h ?p2"
      using st by (subst pppossl_input.simps) (auto simp: PPP_HEADER_SIZE_def Let_def)
    then show ?thesis by (rule input_moves_drop) (simp_all add: hdr in_own_def)
  next
    case 3
    obtain m p3 where m: "next_mem ?p2 = (m, p3)" by (cases "next_mem ?p2")
    have p3: "in_state p3 = PP_DATA" "in_counter p3 = 0" "in_header p3 = ?hdr" "in_data p3 = None"
      using next_mem_same [OF m] hdr by (simp_all add: in_same_def)
    show ?thesis
    proof (cases m)
      case None
      then have "pppossl_input h p (c # r) = input_drop PPPERR_ALLOC h p3"
        using st 3 m by (subst pppossl_input.simps) (simp add: PPP_HEADER_SIZE_def Let_def pbuf_alloc_def)
      then show ?thesis by (rule input_moves_drop) (simp_all add: p3 hdr in_own_def)
    next
      case (Some junk)
      obtain q h1 where al: "pbuf_alloc (Some junk) (frame_size ?hdr) h = (q, h1)" by (cases "pbuf_alloc (Some junk) (frame_size ?hdr) h")
      have "frame_size ?hdr < 65536" using 3 by simp
      from pbuf_alloc_cell [OF al this] obtain a where a: "q = Some a" "chain_ok h1 (Some a) [a]" "ref_at h1 a = 1"
        "length (payload_at h1 a) = frame_size ?hdr" "\<forall>x. x \<noteq> a \<longrightarrow> heap_at h1 x = heap_at h x" "a = length h" by metis
      let ?p4 = "p3\<lparr>in_data := Some a\<rparr>"
      have "pppossl_input h p (c # r) = pppossl_input h1 ?p4 r"
        using st 3 m Some al a(1) by (subst pppossl_input.simps) (simp add: PPP_HEADER_SIZE_def Let_def)
      moreover have "ppp_in_ok h1 ?p4" using p3 a 3 hdr by (simp add: ppp_in_ok_def in_cell_ok_def)
      moreover have "heap_move (in_own p) h (in_own ?p4) h1"
        using a(5,6) own by (auto simp: in_own_def heap_move_def heap_at_def)
      ultimately show ?thesis using ih input_moves_step by blast
    qed
  qed
qed

lemma input_data_moves:
  assumes ok: "ppp_in_ok h p" and st: "in_state p \<noteq> PP_HEADER" and s: "s \<noteq> []"
    and ih: "\<And>h' p' s'. length s' < length s \<Longrightarrow> ppp_in_ok h' p' \<Longrightarrow> input_moves h' p' s'"
  shows "input_moves h p s"
proof -
  from ok st obtain a where a: "in_data p = Some a" "chain_ok h (Some a) [a]" "ref_at h a = 1"
    "length (payload_at h a) = frame_size (in_header p)" "length (in_header p) = 6" "header_valid (in_header p)"
    "frame_size (in_header p) \<le> 16384" "in_counter p < frame_size (in_header p) \<or> in_counter p = 0" by (rule in_cellE)
  let ?n = "frame_size (in_header p)" and ?i = "in_counter p"
  let ?len = "min (?n - ?i) (length s)"
  obtain c r where cr: "s = c # r" using s by (cases s) auto
  have own: "in_own p = {a}" using a(1) by (simp add: in_own_def)
  show ?thesis
  proof (cases "?n = 0")
    case True
    then have z: "?i = 0" "payload_at h a = []" using a(4,8) by auto
    have "pppossl_input h p s = input_drop PPPERR_ALLOC h p"
      using st cr True z a(1) take_at_empty_cell [OF a(2) z(2)]
      by (subst pppossl_input.simps) (simp add: Let_def)
    then show ?thesis by (rule input_moves_drop) (use a in auto)
  next
    case False
    then have i: "?i < ?n" using a(8) by auto
    have len: "0 < ?len" "?i + ?len \<le> ?n" "length (take ?len s) = ?len" using i s by auto
    have cb: "chain_bytes h [a] = payload_at h a" by (simp add: chain_simps)
    have "?i + length (take ?len s) \<le> length (chain_bytes h [a])" "?i < length (chain_bytes h [a])"
      using len i a(4) unfolding cb by linarith+
    from pbuf_take_at_ok [OF a(2) this] obtain h1 where h1: "pbuf_take_at h (Some a) (take ?len s) ?i = Some (ERR_OK, h1)"
      "same_links h h1" "\<forall>x. x \<notin> set [a] \<longrightarrow> heap_at h1 x = heap_at h x" by blast
    have cell: "chain_ok h1 (Some a) [a]" "ref_at h1 a = 1" "length (payload_at h1 a) = ?n"
      using same_links_chain(1) [OF h1(2)] same_links_at(3,4) [OF h1(2)] a(2,3,4) by simp_all
    have u: "u16 (?i + ?len) = ?i + ?len" using len a(7) by (intro u16_id) linarith
    have noerr: "ERR_OK \<noteq> ERR_MEM" by (simp add: lwip_err_defs)
    have sm: "length (drop ?len s) < length s" using len s by simp
    have mv: "heap_move {a} h {a} h1" "heap_move {a} h {} h1" using h1(3) by (auto simp: heap_move_def)
    let ?p1 = "p\<lparr>in_counter := ?i + ?len\<rparr>"
    show ?thesis
    proof (cases "?i + ?len = ?n")
      case True
      let ?p2 = "in_reset (?p1\<lparr>delivered := delivered p @ [chain_bytes h1 (cells (length h1) h1 (in_data p))]\<rparr>)"
      have "pppossl_input h p s = pppossl_input h1 ?p2 (drop ?len s)"
        using st cr a(1) h1(1) noerr u True by (subst pppossl_input.simps) (simp add: Let_def)
      moreover have "heap_move (in_own p) h (in_own ?p2) h1" using mv own by (simp add: in_own_def)
      ultimately show ?thesis using ih [OF sm, of h1 ?p2] input_moves_step by simp
    next
      case part: False
      have "pppossl_input h p s = pppossl_input h1 ?p1 (drop ?len s)"
        using st cr a(1) h1(1) noerr u part by (subst pppossl_input.simps) (simp add: Let_def)
      moreover have "heap_move (in_own p) h (in_own ?p1) h1" using mv own by (simp add: in_own_def)
      moreover have "ppp_in_ok h1 ?p1"
        using ok st a(1) cell part len by (auto simp: ppp_in_ok_def in_cell_ok_def)
      ultimately show ?thesis using ih [OF sm, of h1 ?p1] input_moves_step by blast
    qed
  qed
qed

lemma pppossl_input_moves: "ppp_in_ok h p \<Longrightarrow> input_moves h p s"
proof (induction "length s" arbitrary: h p s rule: less_induct)
  case less
  show ?case
  proof (cases s)
    case Nil
    then show ?thesis using less.prems by (simp add: input_moves_def pppossl_input.simps heap_move_refl)
  next
    case (Cons c r)
    show ?thesis
    proof (cases "in_state p = PP_HEADER")
      case True
      show ?thesis unfolding Cons by (rule input_header_moves [OF less.prems True less.hyps]) (simp_all add: Cons)
    next
      case False
      show ?thesis by (rule input_data_moves [OF less.prems False _ less.hyps]) (simp_all add: Cons)
    qed
  qed
qed

section \<open>Frames\<close>

definition frame_of :: "byte list \<Rightarrow> byte list" where
  "frame_of bs = ppp_header (length bs) @ bs"

lemma from_be16_be16: "n < 65536 \<Longrightarrow> from_be16 (of_nat (n div 256)) (of_nat n) = n"
  by (simp add: from_be16_def unat_of_nat div_mult_mod_eq)

lemma ppp_header_valid:
  assumes "n + 6 < 65536"
  shows "length (ppp_header n) = 6" "header_valid (ppp_header n)" "frame_size (ppp_header n) = n"
proof -
  have fs: "frame_size (ppp_header n) = n" "header_len (ppp_header n) = n + 6"
    using assms from_be16_be16 [of n] from_be16_be16 [of "n + 6"]
    by (simp_all add: frame_size_def header_len_def ppp_header_def be16_def PPP_HEADER_SIZE_def)
  then show "frame_size (ppp_header n) = n" by simp
  show "length (ppp_header n) = 6" by (simp add: ppp_header_def be16_def)
  show "header_valid (ppp_header n)"
    using fs by (simp add: header_valid_def PPP_HEADER_SIZE_def) (simp add: ppp_header_def be16_def)
qed

definition packet_ok :: "byte list \<Rightarrow> bool" where
  "packet_ok bs \<longleftrightarrow> 0 < length bs \<and> length bs \<le> 16384"

lemma deframe_frames:
  "list_all packet_ok ps \<Longrightarrow> deframe (concat (map frame_of ps) @ rest) = (ps @ fst (deframe rest), snd (deframe rest))"
proof (induction ps)
  case (Cons p ps)
  then have "header_valid (ppp_header (length p))" "frame_size (ppp_header (length p)) = length p"
    "length (ppp_header (length p)) = 6"
    using ppp_header_valid [of "length p"] by (simp_all add: packet_ok_def)
  with Cons show ?case
    using deframe_packet [of "ppp_header (length p)" p "concat (map frame_of ps) @ rest"]
    by (simp add: frame_of_def [of p] packet_ok_def)
qed simp

lemma deframe_Nil [simp]: "deframe [] = ([], Inr [])"
  by (simp add: deframe.simps)

text \<open>Feeding received chunks one after the other, as \<^verbatim>\<open>PPInterface::recv\<close> does until an error.\<close>

fun pppossl_feed :: "pheap \<Rightarrow> pppossl \<Rightarrow> byte list list \<Rightarrow> (int \<times> pheap \<times> pppossl) option" where
  "pppossl_feed h p [] = Some (PPPERR_NONE, h, p)"
| "pppossl_feed h p (c # cs) = do {
     (err, h', p') \<leftarrow> pppossl_input h p c;
     if err \<noteq> PPPERR_NONE then Some (err, h', p') else pppossl_feed h' p' cs
   }"

text \<open>Cutting the stream anywhere makes no difference.\<close>

lemma deframe_append:
  "deframe (bs @ s) = (case deframe bs of (ps, e) \<Rightarrow>
     (case e of Inl err \<Rightarrow> (ps, Inl err) | Inr rest \<Rightarrow> (ps @ fst (deframe (rest @ s)), snd (deframe (rest @ s)))))"
proof (induction bs rule: deframe.induct)
  case (1 bs)
  let ?hd = "take 6 bs"
  let ?n = "frame_size ?hd"
  consider "length bs < 6" | "6 \<le> length bs" "\<not> header_valid ?hd \<or> ?n > 16384"
    | "length bs = 6" "header_valid ?hd" "?n \<le> 16384"
    | "6 < length bs" "header_valid ?hd" "?n \<le> 16384" "?n = 0"
    | "6 < length bs" "header_valid ?hd" "?n \<le> 16384" "0 < ?n" "length bs - 6 < ?n"
    | "6 < length bs" "header_valid ?hd" "?n \<le> 16384" "0 < ?n" "?n \<le> length bs - 6"
    by linarith
  then show ?case
  proof cases
    case 1
    then have "deframe bs = ([], Inr bs)" by (simp add: deframe.simps)
    then show ?thesis by simp
  next
    case 2
    then have "deframe bs = ([], Inl PPPERR_PROTOCOL)" "deframe (bs @ s) = ([], Inl PPPERR_PROTOCOL)"
      by (simp_all add: deframe.simps [of bs] deframe.simps [of "bs @ s"])
    then show ?thesis by simp
  next
    case 3
    then have "deframe bs = ([], Inr bs)" by (simp add: deframe.simps)
    then show ?thesis by simp
  next
    case 4
    then have "deframe bs = ([], Inl PPPERR_ALLOC)" "deframe (bs @ s) = ([], Inl PPPERR_ALLOC)"
      by (simp_all add: deframe.simps [of bs] deframe.simps [of "bs @ s"])
    then show ?thesis by simp
  next
    case 5
    then have "deframe bs = ([], Inr bs)" by (simp add: deframe.simps)
    then show ?thesis by simp
  next
    case 6
    have d: "deframe bs = (take ?n (drop 6 bs) # fst (deframe (drop (6 + ?n) bs)), snd (deframe (drop (6 + ?n) bs)))"
      using 6 by (subst deframe.simps) simp
    have "deframe (bs @ s) = (take ?n (drop 6 bs) # fst (deframe (drop (6 + ?n) bs @ s)), snd (deframe (drop (6 + ?n) bs @ s)))"
      using 6 by (subst deframe.simps) simp
    with d 1 6 show ?thesis by (auto split: prod.splits sum.splits)
  qed
qed

lemma deframe_err: "snd (deframe bs) = Inl e \<Longrightarrow> e = PPPERR_PROTOCOL \<or> e = PPPERR_ALLOC"
proof (induction bs rule: deframe.induct)
  case (1 bs)
  show ?case
    using 1 by (simp add: deframe.simps [of bs] split: if_splits)
qed

lemma pppossl_feed_refines:
  assumes "ppp_in_ok h p" "mems_ok p"
  shows "\<exists>err h' p'. pppossl_feed h p cs = Some (err, h', p') \<and>
    delivered p' = delivered p @ fst (deframe (pending h p @ concat cs)) \<and>
    (case snd (deframe (pending h p @ concat cs)) of Inl e \<Rightarrow> err = e | Inr rest \<Rightarrow> err = PPPERR_NONE \<and> pending h' p' = rest)"
  using assms
proof (induction cs arbitrary: h p)
  case Nil
  then show ?case using pending_stop [OF Nil(1)] by simp
next
  case (Cons c cs)
  from pppossl_input_refines [OF Cons.prems, of c] obtain err h1 p1 where
    i: "pppossl_input h p c = Some (err, h1, p1)" "refines h p c err h1 p1" by blast
  note r = i(2) [unfolded refines_def]
  note app = deframe_append [of "pending h p @ c" "concat cs"]
  show ?case
  proof (cases "snd (deframe (pending h p @ c))")
    case (Inl e)
    then have "e = PPPERR_PROTOCOL \<or> e = PPPERR_ALLOC" by (rule deframe_err)
    with i r Inl app show ?thesis by (auto simp: ppperr_defs split: prod.splits)
  next
    case (Inr rest)
    with r i Cons.IH [of h1 p1] app show ?thesis by (auto split: prod.splits)
  qed
qed

section \<open>What the output writes\<close>

lemma heap_store_ok:
  assumes "heap_at h a = Some b" "i + length bs \<le> pb_len b"
  shows "heap_store h a i bs = Some (heap_put h a (b\<lparr>pb_payload := patch (pb_payload b) i bs\<rparr>))"
  using assms by (simp add: heap_store_def)

lemma patch_append: "i + length xs + length ys \<le> length bs \<Longrightarrow> patch (patch bs i xs) (i + length xs) ys = patch bs i (xs @ ys)"
  by (simp add: patch_def add.commute add.left_commute)

lemma copy_chain_ok:
  assumes "path h p as" "f \<notin> set as" "heap_at h f = Some c" "i + length (chain_bytes h as) \<le> pb_len c"
  shows "\<exists>h'. copy_chain h f p i = Some h' \<and> payload_at h' f = patch (pb_payload c) i (chain_bytes h as) \<and>
    same_links h h' \<and> (\<forall>x. x \<noteq> f \<longrightarrow> heap_at h' x = heap_at h x)"
  using assms
proof (induction as arbitrary: h p i c)
  case Nil
  then show ?case by (simp add: copy_chain.simps chain_simps patch_def payload_at_def)
next
  case (Cons a as)
  from Cons.prems(1) obtain b where b: "p = Some a" "heap_at h a = Some b" "path h (pb_next b) as"
    by (auto split: option.splits)
  have pa: "payload_at h a = pb_payload b" using b by (simp add: payload_at_def)
  have fl: "f < length h" using Cons.prems(3) heap_at_length by blast
  let ?c = "c\<lparr>pb_payload := patch (pb_payload c) i (pb_payload b)\<rparr>"
  let ?h = "heap_put h f ?c"
  have room: "i + length (pb_payload b) \<le> pb_len c" "i + length (pb_payload b) + length (chain_bytes h as) \<le> length (pb_payload c)"
    using Cons.prems(4) pa by (simp_all add: chain_simps pb_len_def)
  have st: "heap_store h f i (pb_payload b) = Some ?h" by (rule heap_store_ok [OF Cons.prems(3) room(1)])
  have same: "same_links h ?h" using room by (intro same_links_put [OF Cons.prems(3)]) (simp add: pb_len_def)
  have other: "x \<noteq> f \<Longrightarrow> heap_at ?h x = heap_at h x" for x using fl by (simp add: heap_at_put)
  have asf: "x \<in> set as \<Longrightarrow> heap_at ?h x = heap_at h x" for x using other [of x] Cons.prems(2) by auto
  have "path ?h (pb_next b) as" using b(3) path_cong [of as ?h h] asf by auto
  moreover have "heap_at ?h f = Some ?c" using fl by (simp add: heap_at_put)
  moreover have bytes: "chain_bytes ?h as = chain_bytes h as" using tot_ok_cong(2) [of as ?h h] asf by auto
  moreover have "i + pb_len b + length (chain_bytes ?h as) \<le> pb_len ?c"
    using room bytes by (simp add: pb_len_def)
  ultimately obtain h' where h': "copy_chain ?h f (pb_next b) (i + pb_len b) = Some h'"
    "payload_at h' f = patch (pb_payload ?c) (i + pb_len b) (chain_bytes h as)" "same_links ?h h'"
    "\<forall>x. x \<noteq> f \<longrightarrow> heap_at h' x = heap_at ?h x"
    using Cons.IH [of ?h "pb_next b" ?c "i + pb_len b"] Cons.prems(2) bytes by auto
  have "copy_chain h f p i = Some h'" using b st h'(1) by (simp add: copy_chain.simps [of h])
  moreover have "payload_at h' f = patch (pb_payload c) i (chain_bytes h (a # as))"
    using h'(2) room(2) pa patch_append [of i "pb_payload b" "chain_bytes h as" "pb_payload c"]
    by (simp add: pb_len_def chain_simps)
  ultimately show ?case using same_links_trans [OF same h'(3)] h'(4) other by auto
qed

text \<open>The frame the output builds: a new cell with the header and a copy of the packet.\<close>

lemma build_frame_ok:
  assumes ok: "chain_ok h (Some a) as" and len: "length (chain_bytes h as) + 6 < 65536"
  shows "\<exists>f h1 h2 h3. pbuf_alloc (Some junk) (6 + length (chain_bytes h as)) h = (Some f, h1) \<and>
    heap_store h1 f 0 (ppp_header (length (chain_bytes h as))) = Some h2 \<and> copy_chain h2 f (Some a) 6 = Some h3 \<and>
    chain_ok h3 (Some f) [f] \<and> ref_at h3 f = 1 \<and> payload_at h3 f = frame_of (chain_bytes h as) \<and>
    heap_at h f = None \<and> (\<forall>x. x \<noteq> f \<longrightarrow> heap_at h3 x = heap_at h x)"
proof -
  let ?n = "6 + length (chain_bytes h as)"
  obtain q h1 where al: "pbuf_alloc (Some junk) ?n h = (q, h1)" by (cases "pbuf_alloc (Some junk) ?n h")
  from pbuf_alloc_cell [OF al] len obtain f where f: "q = Some f" "chain_ok h1 (Some f) [f]" "ref_at h1 f = 1"
    "length (payload_at h1 f) = ?n" "\<forall>x. x \<noteq> f \<longrightarrow> heap_at h1 x = heap_at h x" "f = length h" by auto
  have fnew: "heap_at h f = None" using f(6) by (simp add: heap_at_def)
  have fas: "f \<notin> set as" using path_alive [of h "Some a" as f] ok fnew by (auto simp: chain_ok_def)
  obtain c1 where c1: "heap_at h1 f = Some c1" using f(2) chain_head_alive by blast
  have pc1: "pb_payload c1 = payload_at h1 f" "pb_len c1 = ?n" using c1 f(4) by (simp_all add: payload_at_def pb_len_def)
  let ?hdr = "ppp_header (length (chain_bytes h as))"
  have hl: "length ?hdr = 6" using ppp_header_valid(1) len by blast
  let ?c2 = "c1\<lparr>pb_payload := patch (pb_payload c1) 0 ?hdr\<rparr>"
  let ?h2 = "heap_put h1 f ?c2"
  have st: "heap_store h1 f 0 ?hdr = Some ?h2" using heap_store_ok [OF c1, of 0 ?hdr] hl pc1(2) by simp
  have s2: "same_links h1 ?h2" using hl pc1 by (intro same_links_put [OF c1]) (simp add: pb_len_def)
  have fl: "f < length h1" using c1 heap_at_length by blast
  have o2: "x \<noteq> f \<Longrightarrow> heap_at ?h2 x = heap_at h x" for x using fl f(5) by (simp add: heap_at_put)
  have ash: "x \<in> set as \<Longrightarrow> heap_at ?h2 x = heap_at h x" for x using o2 [of x] fas by auto
  have p2: "path ?h2 (Some a) as" using ok path_cong [of as ?h2 h] ash by (simp add: chain_ok_def)
  have by2: "chain_bytes ?h2 as = chain_bytes h as" using tot_ok_cong(2) [of as ?h2 h] ash by auto
  have c2: "heap_at ?h2 f = Some ?c2" using fl by (simp add: heap_at_put)
  have "6 + length (chain_bytes ?h2 as) \<le> pb_len ?c2" using by2 hl pc1 by (simp add: pb_len_def)
  from copy_chain_ok [OF p2 fas c2 this] obtain h3 where h3: "copy_chain ?h2 f (Some a) 6 = Some h3"
    "payload_at h3 f = patch (pb_payload ?c2) 6 (chain_bytes h as)" "same_links ?h2 h3"
    "\<forall>x. x \<noteq> f \<longrightarrow> heap_at h3 x = heap_at ?h2 x" using by2 by auto
  have "payload_at h3 f = frame_of (chain_bytes h as)"
    using h3(2) hl pc1 f(4) by (simp add: patch_def frame_of_def)
  moreover have s3: "same_links h1 h3" by (rule same_links_trans [OF s2 h3(3)])
  have "chain_ok h3 (Some f) [f]" "ref_at h3 f = 1"
    using same_links_chain(1) [OF s3] same_links_at(3) [OF s3] f(2,3) by auto
  ultimately show ?thesis using al f(1) st h3(1,4) fnew o2 by auto
qed

lemma path_next_cong:
  assumes "path h p as" "\<And>x. x \<in> set as \<Longrightarrow> map_option pb_next (heap_at h' x) = map_option pb_next (heap_at h x)"
  shows "path h' p as"
  using assms by (induction as arbitrary: p) (fastforce simp: map_option_case split: option.splits)+

section \<open>The output interface\<close>

text \<open>What the framing needs from the callback it outputs frames to: it takes the whole frame,
  keeping a reference, and returns its length, or refuses it, returns 0 and leaves everything as
  it is; and its content depends on the cells it owns only.\<close>

locale ppp_output =
  fixes cb :: "pheap \<Rightarrow> addr \<Rightarrow> 'o \<Rightarrow> (nat \<times> pheap \<times> 'o) option"
    and inv :: "pheap \<Rightarrow> 'o \<Rightarrow> bool" and content :: "pheap \<Rightarrow> 'o \<Rightarrow> byte list" and owns :: "pheap \<Rightarrow> 'o \<Rightarrow> addr list"
  assumes accept: "inv h out \<Longrightarrow> chain_ok h (Some f) [f] \<Longrightarrow> ref_at h f = 1 \<Longrightarrow> payload_at h f \<noteq> [] \<Longrightarrow>
      f \<notin> set (owns h out) \<Longrightarrow>
      \<exists>lp h' out'. cb h f out = Some (lp, h', out') \<and>
        (lp = length (payload_at h f) \<and> inv h' out' \<and> content h' out' = content h out @ payload_at h f \<and>
           ref_at h' f = 2 \<and> (\<exists>b. heap_at h' f = Some b \<and> pb_next b = None) \<and>
           set (owns h' out') = insert f (set (owns h out)) \<and>
           (\<forall>x. x \<notin> set (owns h out) \<longrightarrow> x \<noteq> f \<longrightarrow> heap_at h' x = heap_at h x)
         \<or> lp = 0 \<and> h' = h \<and> out' = out)"
    and frame: "inv h out \<Longrightarrow> (\<And>x. x \<in> set (owns h out) \<Longrightarrow> heap_at h' x = heap_at h x) \<Longrightarrow>
      inv h' out \<and> content h' out = content h out \<and> owns h' out = owns h out"
    and owned_alive: "inv h out \<Longrightarrow> x \<in> set (owns h out) \<Longrightarrow> heap_at h x \<noteq> None"
    and release: "inv h out \<Longrightarrow> heap_at h f = Some b \<Longrightarrow> pb_ref b = 2 \<Longrightarrow>
      inv (heap_put h f (b\<lparr>pb_ref := 1\<rparr>)) out \<and> content (heap_put h f (b\<lparr>pb_ref := 1\<rparr>)) out = content h out \<and>
      owns (heap_put h f (b\<lparr>pb_ref := 1\<rparr>)) out = owns h out"
begin

lemma frame':
  "inv h out \<Longrightarrow> \<forall>x. x \<notin> S \<longrightarrow> heap_at h' x = heap_at h x \<Longrightarrow> set (owns h out) \<inter> S = {} \<Longrightarrow>
   inv h' out \<and> content h' out = content h out \<and> owns h' out = owns h out"
  by (rule frame) auto

text \<open>After the callback: the frame and the packet are released.\<close>

lemma accepted_ok:
  assumes acc: "inv h4 out'" "ref_at h4 f = 2" "heap_at h4 f = Some c" "pb_next c = None"
    and ok: "chain_ok h (Some a) as" "\<forall>x \<in> set as. ref_at h x \<noteq> 0" "\<forall>x \<in> set as. heap_at h4 x = heap_at h x"
    and dis: "set (owns h4 out') \<inter> set as = {}" "f \<notin> set as"
  shows "\<exists>n h5 n' h6. pbuf_free h4 (Some f) = Some (n, h5) \<and> pbuf_free h5 (Some a) = Some (n', h6) \<and>
    inv h6 out' \<and> content h6 out' = content h4 out' \<and> owns h6 out' = owns h4 out' \<and>
    (\<forall>x. x \<notin> insert f (set as) \<longrightarrow> heap_at h6 x = heap_at h4 x) \<and> (\<forall>x \<in> set as. heap_at h6 x = freed_heap h as x)"
proof -
  have c: "pb_ref c = 2" using acc by (simp add: ref_at_def)
  let ?h5 = "heap_put h4 f (c\<lparr>pb_ref := 1\<rparr>)"
  have fr: "pbuf_free h4 (Some f) = Some (0, ?h5)"
    using acc c by (simp add: pbuf_free_def pbuf_free_loop.simps [of h4])
  have r5: "inv ?h5 out' \<and> content ?h5 out' = content h4 out' \<and> owns ?h5 out' = owns h4 out'"
    using release [OF acc(1,3) c] .
  have "\<forall>x \<in> set as. heap_at ?h5 x = heap_at h x"
    using ok(3) dis(2) heap_at_length [OF acc(3)] by (auto simp: heap_at_put)
  from pbuf_free_frame_cong [OF ok(1,2) this] obtain n h6 where h6: "pbuf_free ?h5 (Some a) = Some (n, h6)"
    "\<forall>x. x \<notin> set as \<longrightarrow> heap_at h6 x = heap_at ?h5 x" "\<forall>x \<in> set as. heap_at h6 x = freed_heap h as x" by blast
  then have "inv h6 out' \<and> content h6 out' = content ?h5 out' \<and> owns h6 out' = owns ?h5 out'"
    using frame' [of ?h5 out' "set as" h6] r5 dis(1) by auto
  moreover have "\<forall>x. x \<notin> insert f (set as) \<longrightarrow> heap_at h6 x = heap_at h4 x"
    using h6(2) heap_at_length [OF acc(3)] by (simp add: heap_at_put)
  ultimately show ?thesis using fr h6(1,3) r5 by auto
qed

lemma refused_ok:
  assumes o: "inv h out" and f: "chain_ok h3 (Some f) [f]" "ref_at h3 f = 1" "f \<notin> set (owns h out)" "f \<notin> set as"
    and oth: "\<forall>x. x \<noteq> f \<longrightarrow> heap_at h3 x = heap_at h x"
    and ok: "chain_ok h (Some a) as" "\<forall>x \<in> set as. ref_at h x \<noteq> 0" and dis: "set (owns h out) \<inter> set as = {}"
  shows "\<exists>n h5 n' h6. pbuf_free h3 (Some f) = Some (n, h5) \<and> pbuf_free h5 (Some a) = Some (n', h6) \<and>
    inv h6 out \<and> content h6 out = content h out \<and> owns h6 out = owns h out \<and>
    (\<forall>x. x \<notin> insert f (set as) \<longrightarrow> heap_at h6 x = heap_at h x) \<and> (\<forall>x \<in> set as. heap_at h6 x = freed_heap h as x)"
proof -
  from pbuf_free_frame [of h3 f "[f]"] f(1,2) obtain n h5 where h5: "pbuf_free h3 (Some f) = Some (n, h5)"
    "\<forall>x. x \<noteq> f \<longrightarrow> heap_at h5 x = heap_at h3 x" by (auto simp: chain_ok_def)
  have "\<forall>x \<in> set as. heap_at h5 x = heap_at h x" using h5(2) oth f(4) by auto
  from pbuf_free_frame_cong [OF ok this] obtain n' h6 where h6: "pbuf_free h5 (Some a) = Some (n', h6)"
    "\<forall>x. x \<notin> set as \<longrightarrow> heap_at h6 x = heap_at h5 x" "\<forall>x \<in> set as. heap_at h6 x = freed_heap h as x" by blast
  have fr: "\<forall>x. x \<notin> insert f (set as) \<longrightarrow> heap_at h6 x = heap_at h x" using h6(2) h5(2) oth by auto
  then have "inv h6 out \<and> content h6 out = content h out \<and> owns h6 out = owns h out"
    using frame' [OF o, of "insert f (set as)" h6] f(3) dis by auto
  with h5(1) h6(1,3) fr show ?thesis by auto
qed

text \<open>A packet goes out as one whole frame, or not at all, and the packet is released.\<close>

lemma write_ok:
  assumes o: "inv h out" and ok: "chain_ok h (Some a) as" and live: "\<forall>x \<in> set as. ref_at h x \<noteq> 0"
    and dis: "set (owns h out) \<inter> set as = {}" and len: "0 < length (chain_bytes h as)" "length (chain_bytes h as) + 6 < 65536"
  shows "\<exists>err ppp' h' out'. pppossl_write cb now ppp h out (Some a) = Some (err, ppp', h', out') \<and>
    inv h' out' \<and> heap_move (set (owns h out) \<union> set as) h (set (owns h' out')) h' \<and> in_same ppp ppp' \<and>
    set (owns h' out') \<inter> set as = {} \<and> (\<forall>x \<in> set as. heap_at h' x = freed_heap h as x) \<and>
    (err = ERR_OK \<and> content h' out' = content h out @ frame_of (chain_bytes h as) \<and> last_xmit ppp' = now
     \<or> err = ERR_IF \<and> content h' out' = content h out \<and> last_xmit ppp' = 0
     \<or> err = ERR_MEM \<and> content h' out' = content h out \<and> \<not> mems_ok ppp)"
proof -
  obtain b bs where b: "heap_at h a = Some b" "as = a # bs" using chain_head_alive [OF ok] by blast
  have tot: "pb_tot_len b = length (chain_bytes h as)" by (rule chain_tot [OF ok b(1)])
  obtain m ppp1 where m: "next_mem ppp = (m, ppp1)" by (cases "next_mem ppp")
  show ?thesis
  proof (cases m)
    case None
    then have nm: "\<not> mems_ok ppp" using next_mem_ok(1) [OF m] by auto
    have "path h (Some a) as" using ok by (simp add: chain_ok_def)
    from pbuf_free_frame [OF this live] obtain n h' where fr: "pbuf_free h (Some a) = Some (n, h')"
      "\<forall>x. x \<notin> set as \<longrightarrow> heap_at h' x = heap_at h x" "\<forall>x \<in> set as. heap_at h' x = freed_heap h as x" by blast
    have "pppossl_write cb now ppp h out (Some a) = Some (ERR_MEM, ppp1, h', out)"
      using b m None fr(1) tot len(1) by (simp add: pppossl_write_def pbuf_alloc_def)
    moreover have "inv h' out \<and> content h' out = content h out \<and> owns h' out = owns h out"
      using frame' [OF o, of "set as" h'] fr(2) dis by auto
    moreover have "heap_move (set (owns h out) \<union> set as) h (set (owns h out)) h'"
      using fr(2) by (auto simp: heap_move_def)
    ultimately show ?thesis using nm next_mem_same [OF m] fr(3) dis by auto
  next
  case (Some junk)
  note m = m [unfolded Some]
  from build_frame_ok [OF ok len(2), of junk] obtain f h1 h2 h3 where
    bf: "pbuf_alloc (Some junk) (6 + length (chain_bytes h as)) h = (Some f, h1)"
      "heap_store h1 f 0 (ppp_header (length (chain_bytes h as))) = Some h2" "copy_chain h2 f (Some a) 6 = Some h3"
    and cell: "chain_ok h3 (Some f) [f]" "ref_at h3 f = 1" "payload_at h3 f = frame_of (chain_bytes h as)"
    and fresh: "heap_at h f = None" and oth: "\<forall>x. x \<noteq> f \<longrightarrow> heap_at h3 x = heap_at h x" by blast
  have fas: "f \<notin> set as" using path_alive [of h "Some a" as f] ok fresh by (auto simp: chain_ok_def)
  have fown: "f \<notin> set (owns h out)" using owned_alive [OF o, of f] fresh by auto
  have o3: "inv h3 out \<and> content h3 out = content h out \<and> owns h3 out = owns h out"
    using frame' [OF o, of "{f}" h3] oth fown by auto
  have fl: "length (payload_at h3 f) = 6 + length (chain_bytes h as)"
    using cell(3) ppp_header_valid(1) len(2) by (simp add: frame_of_def)
  then have ne: "payload_at h3 f \<noteq> []" by auto
  have fown3: "f \<notin> set (owns h3 out)" using fown o3 by simp
  from accept [OF conjunct1 [OF o3] cell(1,2) ne fown3] obtain lp h4 out' where cb: "cb h3 f out = Some (lp, h4, out')"
    and alt: "lp = length (payload_at h3 f) \<and> inv h4 out' \<and> content h4 out' = content h3 out @ payload_at h3 f \<and>
       ref_at h4 f = 2 \<and> (\<exists>b. heap_at h4 f = Some b \<and> pb_next b = None) \<and>
       set (owns h4 out') = insert f (set (owns h3 out)) \<and>
       (\<forall>x. x \<notin> set (owns h3 out) \<longrightarrow> x \<noteq> f \<longrightarrow> heap_at h4 x = heap_at h3 x)
     \<or> lp = 0 \<and> h4 = h3 \<and> out' = out" by blast
  have pre: "pppossl_write cb now ppp h out (Some a) =
      Option.bind (pbuf_free h4 (Some f)) (\<lambda>(_, h5). Option.bind (pbuf_free h5 (Some a)) (\<lambda>(_, h6).
        if lp \<noteq> 6 + length (chain_bytes h as) then Some (ERR_IF, ppp1\<lparr>last_xmit := 0\<rparr>, h6, out')
        else Some (ERR_OK, ppp1\<lparr>last_xmit := now\<rparr>, h6, out')))"
    using b m bf cb len(1) by (simp add: pppossl_write_def tot PPP_HEADER_SIZE_def add.commute)
  have mm: "in_same ppp (ppp1\<lparr>last_xmit := k\<rparr>)" for k using next_mem_same [OF m] by (simp add: in_same_def mems_ok_def)
  from alt show ?thesis
  proof (elim disjE)
    assume acc: "lp = length (payload_at h3 f) \<and> inv h4 out' \<and> content h4 out' = content h3 out @ payload_at h3 f \<and>
       ref_at h4 f = 2 \<and> (\<exists>b. heap_at h4 f = Some b \<and> pb_next b = None) \<and>
       set (owns h4 out') = insert f (set (owns h3 out)) \<and>
       (\<forall>x. x \<notin> set (owns h3 out) \<longrightarrow> x \<noteq> f \<longrightarrow> heap_at h4 x = heap_at h3 x)"
    then obtain c where c: "heap_at h4 f = Some c" "pb_next c = None" by blast
    have "\<forall>x \<in> set as. heap_at h4 x = heap_at h x" using acc o3 dis fas oth by auto
    then obtain n h5 n' h6 where fin: "pbuf_free h4 (Some f) = Some (n, h5)" "pbuf_free h5 (Some a) = Some (n', h6)"
      "inv h6 out'" "content h6 out' = content h4 out'" "owns h6 out' = owns h4 out'"
      "\<forall>x. x \<notin> insert f (set as) \<longrightarrow> heap_at h6 x = heap_at h4 x"
      "\<forall>x \<in> set as. heap_at h6 x = freed_heap h as x"
      using accepted_ok [of h4 out' f c h a as] acc c ok live o3 dis fas by auto
    have "x \<noteq> f \<and> heap_at h6 x = heap_at h x" if "x \<notin> set (owns h out)" "x \<notin> set as" "heap_at h x \<noteq> None" for x
      using that fin(6) acc o3 oth fresh by (cases "x = f") auto
    moreover have own6: "set (owns h6 out') = insert f (set (owns h out))" using fin(5) acc o3 by simp
    ultimately have "heap_move (set (owns h out) \<union> set as) h (set (owns h6 out')) h6"
      using fresh by (auto simp: heap_move_def)
    moreover have "set (owns h6 out') \<inter> set as = {}" using own6 dis fas by auto
    ultimately show ?thesis using fin pre acc o3 cell(3) fl mm by simp
  next
    assume ref: "lp = 0 \<and> h4 = h3 \<and> out' = out"
    from refused_ok [OF o cell(1,2) fown fas oth ok live dis] obtain n h5 n' h6 where
      "pbuf_free h3 (Some f) = Some (n, h5)" "pbuf_free h5 (Some a) = Some (n', h6)"
      "inv h6 out" "content h6 out = content h out" "owns h6 out = owns h out"
      "\<forall>x. x \<notin> insert f (set as) \<longrightarrow> heap_at h6 x = heap_at h x"
      "\<forall>x \<in> set as. heap_at h6 x = freed_heap h as x" by blast
    moreover have "heap_move (set (owns h out) \<union> set as) h (set (owns h6 out)) h6"
      using calculation(5,6) fresh unfolding heap_move_def by (metis Un_iff insert_iff)
    ultimately show ?thesis using pre ref mm dis by simp
  qed
  qed
qed

text \<open>The PPP address, control and protocol bytes travel in front of the packet, in the same frame;
  without memory for them nothing is sent.\<close>

lemma netif_output_ok:
  assumes o: "inv h out" and ok: "chain_ok h (Some a) as" and live: "\<forall>x \<in> set as. ref_at h x \<noteq> 0"
    and share: "ref_at h a + 1 \<noteq> 0"
    and dis: "set (owns h out) \<inter> set as = {}" and len: "length (chain_bytes h as) + 10 < 65536"
  shows "\<exists>err ppp' h' out'. pppossl_netif_output cb now ppp h out a protocol = Some (err, ppp', h', out') \<and>
    inv h' out' \<and> in_same ppp ppp' \<and> heap_move (set (owns h out) \<union> set as) h (set (owns h' out')) h' \<and>
    set (owns h' out') \<inter> set as = {} \<and> path h' (Some a) as \<and> (\<forall>x \<in> set as. ref_at h' x = ref_at h x) \<and>
    (err = ERR_OK \<and> content h' out' = content h out @ frame_of ([PPP_ALLSTATIONS, PPP_UI] @ be16 protocol @ chain_bytes h as)
     \<or> err = ERR_IF \<and> content h' out' = content h out
     \<or> err = ERR_MEM \<and> content h' out' = content h out \<and> \<not> mems_ok ppp)"
proof -
  let ?hdr = "[PPP_ALLSTATIONS, PPP_UI] @ be16 protocol"
  obtain m ppp1 where m: "next_mem ppp = (m, ppp1)" by (cases "next_mem ppp")
  show ?thesis
  proof (cases m)
    case None
    then have "\<not> mems_ok ppp" using next_mem_ok(1) [OF m] by auto
    with None m o next_mem_same [OF m] dis ok show ?thesis
      by (auto simp: chain_ok_def pppossl_netif_output_def pbuf_alloc_def heap_move_def)
  next
  case (Some junk)
  note junk = Some
  obtain q h1 where al: "pbuf_alloc (Some junk) 4 h = (q, h1)" by (cases "pbuf_alloc (Some junk) 4 h")
  from pbuf_alloc_cell [OF al] obtain n where n: "q = Some n" "chain_ok h1 (Some n) [n]" "ref_at h1 n = 1"
    "length (payload_at h1 n) = 4" "\<forall>x. x \<noteq> n \<longrightarrow> heap_at h1 x = heap_at h x" "n = length h" by auto
  have fresh: "heap_at h n = None" using n(6) by (simp add: heap_at_def)
  have nas: "n \<notin> set as" using path_alive [of h "Some a" as n] ok fresh by (auto simp: chain_ok_def)
  have nown: "n \<notin> set (owns h out)" using owned_alive [OF o, of n] fresh by auto
  have "length ?hdr \<le> length (chain_bytes h1 [n])" using n(4) by (simp add: be16_def chain_simps)
  from pbuf_take_ok [OF n(2) this] obtain h2 where h2: "pbuf_take h1 (Some n) ?hdr = Some (ERR_OK, h2)" "same_links h1 h2"
    "chain_bytes h2 [n] = ?hdr @ drop (length ?hdr) (chain_bytes h1 [n])" "\<forall>x. x \<notin> set [n] \<longrightarrow> heap_at h2 x = heap_at h1 x"
    by blast
  have b2: "chain_bytes h2 [n] = ?hdr" using h2(3) n(4) by (simp add: be16_def chain_simps)
  have oth2: "\<forall>x. x \<noteq> n \<longrightarrow> heap_at h2 x = heap_at h x" using h2(4) n(5) by simp
  have as2: "x \<in> set as \<Longrightarrow> heap_at h2 x = heap_at h x" for x using oth2 nas by auto
  have c2: "chain_ok h2 (Some n) [n]" "ref_at h2 n = 1"
    using same_links_chain(1) [OF h2(2)] same_links_at(3) [OF h2(2)] n(2,3) by auto
  have a2: "chain_ok h2 (Some a) as" "chain_bytes h2 as = chain_bytes h as" "ref_at h2 a = ref_at h a"
    using ok chain_ok_cong [of as h2 h] tot_ok_cong(2) [of as h2 h] as2 chain_head_alive [OF ok]
    by (auto simp: ref_at_def)
  have hl: "length ?hdr = 4" by (simp add: be16_def)
  have "length (chain_bytes h2 ([n] @ as)) < 65536" using a2(2) b2 hl len by (simp add: chain_simps)
  from pbuf_chain_ok [OF c2(1) a2(1) _ this] nas share a2(3) obtain h3 where
    h3: "pbuf_chain h2 (Some n) (Some a) = Some h3" "chain_ok h3 (Some n) ([n] @ as)"
      "\<forall>xs. chain_bytes h3 xs = chain_bytes h2 xs" "\<forall>x. ref_at h3 x = (if x = a then ref_at h2 a + 1 else ref_at h2 x)"
      "\<forall>x. x \<notin> set [n] \<longrightarrow> x \<noteq> a \<longrightarrow> heap_at h3 x = heap_at h2 x" by auto
  have aas: "a \<in> set as" using chain_head_alive [OF ok] by auto
  have "\<forall>x. x \<notin> insert n (set as) \<longrightarrow> heap_at h3 x = heap_at h x" using h3(5) oth2 aas by auto
  then have o3: "inv h3 out \<and> content h3 out = content h out \<and> owns h3 out = owns h out"
    using frame' [OF o, of "insert n (set as)" h3] nown dis by auto
  have "\<forall>x \<in> set ([n] @ as). ref_at h3 x \<noteq> 0"
    using h3(4) c2(2) live as2 share a2(3) nas by (auto simp: ref_at_def)
  moreover have "set (owns h3 out) \<inter> set ([n] @ as) = {}" using o3 nown dis by auto
  moreover have by3: "chain_bytes h3 ([n] @ as) = ?hdr @ chain_bytes h as" 
    unfolding h3(3) [rule_format] using b2 a2(2) by (simp add: chain_simps)
  moreover have "0 < length (chain_bytes h3 ([n] @ as))" "length (chain_bytes h3 ([n] @ as)) + 6 < 65536"
    using by3 hl len by auto
  ultimately obtain err ppp' h' out' where w: "pppossl_write cb now ppp1 h3 out (Some n) = Some (err, ppp', h', out')"
    "inv h' out'" "in_same ppp1 ppp'" "heap_move (set (owns h3 out) \<union> set ([n] @ as)) h3 (set (owns h' out')) h'"
    "set (owns h' out') \<inter> set ([n] @ as) = {}" "\<forall>x \<in> set ([n] @ as). heap_at h' x = freed_heap h3 ([n] @ as) x"
    "err = ERR_OK \<and> content h' out' = content h3 out @ frame_of (?hdr @ chain_bytes h as) \<or>
      err = ERR_IF \<and> content h' out' = content h3 out \<or>
      err = ERR_MEM \<and> content h' out' = content h3 out \<and> \<not> mems_ok ppp1"
    using write_ok [of h3 out n "[n] @ as" now ppp1] o3 h3(2) by auto
  have "heap_move (set (owns h out) \<union> set as) h (set (owns h3 out) \<union> set ([n] @ as)) h3"
  proof -
    have "heap_at h3 x = heap_at h x" if "x \<notin> set as" "heap_at h x \<noteq> None" for x
      using that fresh h3(5) oth2 aas by (cases "x = n") auto
    then show ?thesis using o3 fresh by (auto simp: heap_move_def)
  qed
  note mv = heap_move_trans [OF this w(4)]
  obtain bs where bs: "as = a # bs" using chain_head_alive [OF ok] by blast
  have r3: "ref_at h3 n = 1" "ref_at h3 a \<noteq> 1" using h3(4) c2(2) a2(3) nas live aas by auto
  have own: "heap_at h' x = (if x = a then map_option (\<lambda>b. b\<lparr>pb_ref := pb_ref b - 1\<rparr>) (heap_at h3 x) else heap_at h3 x)"
    if "x \<in> set as" for x
  proof -
    have "heap_at h' x = freed_heap h3 (n # a # bs) x" using w(6) that unfolding bs by auto
    with freed_heap_shared [OF r3, of bs x] nas that show ?thesis unfolding bs by simp
  qed
  have "ref_at h' x = ref_at h x" if x: "x \<in> set as" for x
  proof -
    have "heap_at h3 x \<noteq> None" using path_alive [of h3 "Some n" "[n] @ as" x] h3(2) x by (auto simp: chain_ok_def)
    then have "ref_at h' x = (if x = a then ref_at h3 x - 1 else ref_at h3 x)"
      using own [OF x] by (auto simp: ref_at_def)
    moreover have "ref_at h2 x = ref_at h x" using as2 [OF x] by (simp add: ref_at_def)
    ultimately show ?thesis using h3(4) a2(3) by auto
  qed
  moreover have "path h' (Some a) as"
  proof (rule path_next_cong)
    show "path h3 (Some a) as" using h3(2) bs by (auto simp: chain_ok_def split: option.splits)
  qed (auto simp: own option.map_comp comp_def)
  moreover have "set (owns h' out') \<inter> set as = {}" using w(5) by auto
  ultimately show ?thesis using mv w(1-3,7) next_mem_same [OF m]
    using m junk al n(1) h2(1) h3(1) o3 by (auto simp: pppossl_netif_output_def in_same_def)
  qed
qed

end

section \<open>Properties\<close>

text \<open>C18. Whatever bytes arrive, \<open>pppossl_input\<close> never faults and always returns; it agrees with
  the reference parser run on everything received so far: the same packets are delivered, the same
  error is reported, and what it keeps between two calls is the incomplete rest of the stream.\<close>

theorem input_refines_deframe:
  assumes "ppp_in_ok h p" and "mems_ok p"
  shows "\<exists>err h' p'. pppossl_input h p s = Some (err, h', p') \<and> ppp_in_ok h' p' \<and>
     delivered p' = delivered p @ fst (deframe (pending h p @ s)) \<and>
     (case snd (deframe (pending h p @ s)) of
        Inl e \<Rightarrow> err = e \<and> pending h' p' = []
      | Inr rest \<Rightarrow> err = PPPERR_NONE \<and> pending h' p' = rest)"
  using pppossl_input_refines [OF assms, of s] unfolding refines_def by blast

definition ppp_start :: pppossl where
  "ppp_start = \<lparr>last_xmit = 0, in_state = PP_HEADER, in_header = replicate 6 0, in_counter = 0, in_data = None,
     mems = [], delivered = []\<rparr>"

lemma ppp_start_ok: "ppp_in_ok h ppp_start" "mems_ok ppp_start" "pending h ppp_start = []" "delivered ppp_start = []"
  by (simp_all add: ppp_start_def ppp_in_ok_def mems_ok_def pending_def)

theorem input_refines_deframe_witness:
  "\<exists>err h' p'. pppossl_input [] ppp_start (frame_of [7, 8] @ [0]) = Some (err, h', p') \<and> ppp_in_ok h' p' \<and>
     delivered p' = [[7, 8]] \<and> err = PPPERR_NONE \<and> pending h' p' = [0]"
proof -
  have d: "deframe (frame_of [7, 8] @ [0]) = ([[7, 8]], Inr [0])"
    using deframe_frames [of "[[7, 8]]" "[0]"] by (simp add: packet_ok_def deframe.simps [of "[0]"])
  from input_refines_deframe [OF ppp_start_ok(1,2), of "[]" "frame_of [7, 8] @ [0]"] d
  show ?thesis by (auto simp: ppp_start_ok)
qed

text \<open>C31. Framing and parsing are inverse: when the stream is the frames of a list of packets of 1
  to 16384 bytes, then however it is cut into chunks, feeding the chunks delivers exactly these
  packets in order, without an error and with nothing left over.\<close>

theorem frames_round_trip:
  assumes "list_all packet_ok ps" and "concat cs = concat (map frame_of ps)"
  shows "\<exists>h' p'. pppossl_feed h ppp_start cs = Some (PPPERR_NONE, h', p') \<and> delivered p' = ps \<and> pending h' p' = []"
  using pppossl_feed_refines [OF ppp_start_ok(1,2), of h cs] deframe_frames [OF assms(1), of "[]"] assms(2)
  by (auto simp: ppp_start_ok)

theorem frames_round_trip_witness:
  "\<exists>h' p'. pppossl_feed [] ppp_start [take 3 (frame_of [1]), drop 3 (frame_of [1])] = Some (PPPERR_NONE, h', p') \<and>
     delivered p' = [[1]] \<and> pending h' p' = []"
proof (rule frames_round_trip)
  show "concat [take 3 (frame_of [1]), drop 3 (frame_of [1])] = concat (map frame_of [[1]])" by simp
qed (simp add: packet_ok_def)

text \<open>A frame with an empty packet, which the header check accepts, is refused at the next byte
  with \<^verbatim>\<open>PPPERR_ALLOC\<close>: \<^verbatim>\<open>pbuf_take_at\<close> fails on a buffer without room.\<close>

theorem empty_frame_is_an_error:
  "header_valid (frame_of []) \<and> (\<exists>h' p'. pppossl_input h ppp_start (frame_of [] @ [c]) = Some (PPPERR_ALLOC, h', p'))"
proof -
  have f: "frame_of [] = ppp_header 0" by (simp add: frame_of_def)
  have v: "header_valid (ppp_header 0)" "frame_size (ppp_header 0) = 0" "length (ppp_header 0) = 6"
    using ppp_header_valid [of 0] by simp_all
  then have "deframe (frame_of [] @ [c]) = ([], Inl PPPERR_ALLOC)" by (subst deframe.simps) (simp add: f)
  with pppossl_input_refines [OF ppp_start_ok(1,2), of h "frame_of [] @ [c]"] v(1) f show ?thesis
    by (auto simp: refines_def ppp_start_ok)
qed

end
