(* ===== verification/PPInterface.thy ===== *)
theory PPInterface
  imports Pppossl OutputQueue
begin

text \<open>
  The PPP interface of the tunnel, \<^verbatim>\<open>net/PPInterface.cpp\<close>: lwIP's PPP packets are framed and
  queued for the TLS socket, received bytes are passed to the frame parser.

  The lwIP PPP control block is reduced to what the interface reads of it: whether the automaton
  is dead, whether the interface is up, the LCP state, and the framing state of \<open>Pppossl\<close>. What
  \<^verbatim>\<open>pppossl_create\<close>, \<^verbatim>\<open>ppp_connect\<close> and \<^verbatim>\<open>ppp_close\<close> answer is a parameter.
\<close>

section \<open>State\<close>

record ppp_pcb =
  pcb_dead :: bool
  pcb_if4_up :: bool
  pcb_lcp :: lcp
  pcb_link :: pppossl

record ppif =
  pp_queue :: pbqueue
  pp_pcb :: "ppp_pcb option"
  cnt_sent :: nat
  cnt_received :: nat

definition pp_new :: ppif where
  "pp_new = \<lparr>pp_queue = q_new (32 * 1024), pp_pcb = None, cnt_sent = 0, cnt_received = 0\<rparr>"

definition pp_if4_up :: "ppif \<Rightarrow> bool" where
  "pp_if4_up i \<longleftrightarrow> (case pp_pcb i of None \<Rightarrow> False | Some b \<Rightarrow> pcb_if4_up b)"

definition pp_dead :: "ppif \<Rightarrow> bool" where
  "pp_dead i \<longleftrightarrow> (case pp_pcb i of None \<Rightarrow> True | Some b \<Rightarrow> pcb_dead b)"

definition pp_must_transmit :: "ppif \<Rightarrow> bool" where
  "pp_must_transmit i \<longleftrightarrow> \<not> q_is_empty (pp_queue i)"

section \<open>Opening and closing\<close>

text \<open>\<open>created\<close> is the block \<^verbatim>\<open>pppossl_create\<close> returns, \<open>rc_con\<close> the answer of \<^verbatim>\<open>ppp_connect\<close>, which
  calls \<^verbatim>\<open>pppossl_connect\<close> when it succeeds.\<close>

definition pp_open :: "ppp_pcb option \<Rightarrow> int \<Rightarrow> 'b net \<Rightarrow> ppif \<Rightarrow> bool \<times> ppif" where
  "pp_open created rc_con w i =
     (if \<not> socket_is_connected w then (False, i)
      else if pp_pcb i \<noteq> None then (False, i)
      else
        (case created of
           None \<Rightarrow> (False, i\<lparr>pp_pcb := None\<rparr>)
         | Some b \<Rightarrow>
             if rc_con \<noteq> PPPERR_NONE then (rc_con = PPPERR_NONE, i\<lparr>pp_pcb := None\<rparr>)
             else (rc_con = PPPERR_NONE, i\<lparr>pp_pcb := Some (b\<lparr>pcb_link := pppossl_connect (pcb_link b)\<rparr>)\<rparr>)))"

text \<open>\<open>closed\<close> is the control block after \<^verbatim>\<open>ppp_close\<close>.\<close>

definition pp_close :: "(bool \<Rightarrow> ppp_pcb \<Rightarrow> ppp_pcb) \<Rightarrow> bool \<Rightarrow> ppif \<Rightarrow> ppif" where
  "pp_close closed nocarrier i = (if \<not> pp_dead i then i\<lparr>pp_pcb := map_option (closed nocarrier) (pp_pcb i)\<rparr> else i)"

text \<open>\<^verbatim>\<open>ppp_free\<close> refuses an interface that is not dead, and calls \<^verbatim>\<open>pppossl_destroy\<close> otherwise; its
  answer is ignored.\<close>

definition pp_release :: "pheap \<Rightarrow> ppif \<Rightarrow> (pheap \<times> ppif) option" where
  "pp_release h i =
     (case pp_pcb i of
        None \<Rightarrow> Some (h, i)
      | Some b \<Rightarrow>
          if pcb_dead b then do { h' \<leftarrow> pppossl_destroy h (pcb_link b); Some (h', i\<lparr>pp_pcb := None\<rparr>) }
          else Some (h, i\<lparr>pp_pcb := None\<rparr>))"

text \<open>The size of the netmask: the bits of the address the mask \<^verbatim>\<open>0x8000\<close>, shifted right at most 31
  times, meets. \<^verbatim>\<open>mask->addr\<close> is in network order, read on a little endian machine.\<close>

fun netmask_loop :: "nat \<Rightarrow> 32 word \<Rightarrow> 32 word \<Rightarrow> nat \<Rightarrow> nat" where
  "netmask_loop 0 addr mask_test mask_size = mask_size"
| "netmask_loop (Suc i) addr mask_test mask_size =
     netmask_loop i addr (drop_bit 1 mask_test) (if and addr mask_test \<noteq> 0 then mask_size + 1 else mask_size)"

definition pp_netmask :: "32 word \<Rightarrow> nat" where
  "pp_netmask addr = netmask_loop 32 addr 0x8000 0"

section \<open>Traffic\<close>

definition pp_send :: "pheap \<Rightarrow> ppif \<Rightarrow> byte net \<Rightarrow> (bool \<times> pheap \<times> ppif \<times> byte net) option" where
  "pp_send h i w =
     (if \<not> q_is_empty (pp_queue i) then do {
        (rc, written, h', q', w') \<leftarrow> oq_write h (pp_queue i) w;
        let i' = i\<lparr>pp_queue := q'\<rparr>;
        Some (rc = 0, h', if rc = 0 then i'\<lparr>cnt_sent := cnt_sent i' + written\<rparr> else i', w')
      }
      else Some (True, h, i, w))"

definition pp_recv :: "pheap \<Rightarrow> ppif \<Rightarrow> byte net \<Rightarrow> (bool \<times> pheap \<times> ppif \<times> byte net) option" where
  "pp_recv h i w =
     (case recv_data 4096 w of (st, bs, w') \<Rightarrow>
       (case rcv_code st of
          NETCTX_RCV_OK \<Rightarrow> do {
            b \<leftarrow> pp_pcb i;
            let i1 = i\<lparr>cnt_received := cnt_received i + rbytes st\<rparr>;
            (ppp_rc, h', l) \<leftarrow> pppossl_input h (pcb_link b) bs;
            Some (ppp_rc = PPPERR_NONE, h', i1\<lparr>pp_pcb := Some (b\<lparr>pcb_link := l\<rparr>)\<rparr>, w')
          }
        | NETCTX_RCV_RETRY \<Rightarrow> Some (True, h, i, w')
        | NETCTX_RCV_EOF \<Rightarrow> Some (False, h, i, w')
        | NETCTX_RCV_ERROR \<Rightarrow> Some (False, h, i, w')))"

definition ppp_output_cb :: "pheap \<Rightarrow> addr \<Rightarrow> pbqueue \<Rightarrow> (nat \<times> pheap \<times> pbqueue) option" where
  "ppp_output_cb h pbuf q = do {
     (ok, h', q') \<leftarrow> q_push h q (Some pbuf);
     b \<leftarrow> heap_at h' pbuf;
     Some (if ok then pb_tot_len b else 0, h', q')
   }"

text \<open>\<^verbatim>\<open>sys_now() - last_xmit() > PPP_MAXIDLE\<close> is computed on unsigned 32-bit numbers.\<close>

definition PPP_MAXIDLE :: nat where "PPP_MAXIDLE = 60 * 1000"

definition pp_send_keep_alive :: "nat \<Rightarrow> pheap \<Rightarrow> ppif \<Rightarrow> (pheap \<times> ppif) option" where
  "pp_send_keep_alive now h i =
     (case pp_pcb i of
        None \<Rightarrow> Some (h, i)
      | Some b \<Rightarrow>
          if fsm_opened (pcb_lcp b) \<and> unat (of_nat now - of_nat (last_xmit (pcb_link b)) :: 32 word) > PPP_MAXIDLE
          then do {
            (l, p, h', q') \<leftarrow> pppossl_send_ka ppp_output_cb now (pcb_lcp b) (pcb_link b) h (pp_queue i);
            Some (h', i\<lparr>pp_queue := q', pp_pcb := Some (b\<lparr>pcb_lcp := l, pcb_link := p\<rparr>)\<rparr>)
          }
          else Some (h, i))"

section \<open>The queue as the output of the framing\<close>

definition pq_inv :: "pheap \<Rightarrow> pbqueue \<Rightarrow> bool" where
  "pq_inv h q \<longleftrightarrow> q_inv (h, q) \<and> capacity q = 32 * 1024"

interpretation ppo: ppp_output ppp_output_cb pq_inv "\<lambda>h q. q_content (h, q)" q_cells
proof
  fix h :: pheap and out :: pbqueue and f :: addr
  assume i: "pq_inv h out" and c: "chain_ok h (Some f) [f]" "ref_at h f = 1" "payload_at h f \<noteq> []"
    and f: "f \<notin> set (q_cells h out)"
  from i have q: "q_ok h out (q_cells h out)" "0 < capacity out" by (simp_all add: pq_inv_def q_inv_def)
  from q_push_cell [OF q c f]
  show "\<exists>lp h' out'. ppp_output_cb h f out = Some (lp, h', out') \<and>
        (lp = length (payload_at h f) \<and> pq_inv h' out' \<and> q_content (h', out') = q_content (h, out) @ payload_at h f \<and>
           ref_at h' f = 2 \<and> (\<exists>b. heap_at h' f = Some b \<and> pb_next b = None) \<and>
           set (q_cells h' out') = insert f (set (q_cells h out)) \<and>
           (\<forall>x. x \<notin> set (q_cells h out) \<longrightarrow> x \<noteq> f \<longrightarrow> heap_at h' x = heap_at h x)
         \<or> lp = 0 \<and> h' = h \<and> out' = out)"
  proof (elim disjE exE conjE)
    fix h' q'
    assume pu: "q_push h out (Some f) = Some (True, h', q')" "q_ok h' q' (q_cells h out @ [f])" "capacity q' = capacity out"
      "q_bytes h' q' (q_cells h out @ [f]) = q_bytes h out (q_cells h out) @ payload_at h f" "ref_at h' f = 2"
      "payload_at h' f = payload_at h f"
      "\<forall>x. x \<notin> set (q_cells h out) \<longrightarrow> x \<noteq> f \<longrightarrow> heap_at h' x = heap_at h x"
    from cell_next pu(2) obtain b where b: "heap_at h' f = Some b" "pb_next b = None" "pb_tot_len b = length (payload_at h' f)"
      unfolding q_ok_def by blast
    have "q_cells h' q' = q_cells h out @ [f]" by (rule q_cells_eq [OF pu(2)])
    with pu b i q_inv_ok [OF pu(2)] q_inv_ok [OF q(1)] show ?thesis
      by (auto simp: ppp_output_cb_def pq_inv_def)
  next
    assume "q_push h out (Some f) = Some (False, h, out)"
    moreover obtain b where "heap_at h f = Some b" using c(1) chain_head_alive by blast
    ultimately show ?thesis by (simp add: ppp_output_cb_def)
  qed
next
  fix h h' :: pheap and out :: pbqueue
  assume i: "pq_inv h out" and same: "\<And>x. x \<in> set (q_cells h out) \<Longrightarrow> heap_at h' x = heap_at h x"
  from i have q: "q_ok h out (q_cells h out)" by (simp add: pq_inv_def q_inv_def)
  note fr = q_ok_frame [OF q same]
  show "pq_inv h' out \<and> q_content (h', out) = q_content (h, out) \<and> q_cells h' out = q_cells h out"
    using i fr q_inv_ok [OF fr(1)] q_inv_ok [OF q] q_cells_eq [OF fr(1)] by (simp add: pq_inv_def)
next
  fix h :: pheap and out :: pbqueue and x
  assume "pq_inv h out" "x \<in> set (q_cells h out)"
  then show "heap_at h x \<noteq> None" using path_alive by (auto simp: pq_inv_def q_inv_def q_ok_def chain_ok_def)
next
  fix h :: pheap and out :: pbqueue and f b
  assume i: "pq_inv h out" and b: "heap_at h f = Some b" "pb_ref b = 2"
  from i have q: "q_ok h out (q_cells h out)" by (simp add: pq_inv_def q_inv_def)
  have r: "(1 :: 8 word) \<noteq> 0" by simp
  note fr = q_ok_put_ref [OF q b(1) r]
  let ?h = "heap_put h f (b\<lparr>pb_ref := 1\<rparr>)"
  show "pq_inv ?h out \<and> q_content (?h, out) = q_content (h, out) \<and> q_cells ?h out = q_cells h out"
    using i fr q_inv_ok [OF fr(1)] q_inv_ok [OF q] q_cells_eq [OF fr(1)] by (simp add: pq_inv_def)
qed

section \<open>Properties\<close>

text \<open>Every packet lwIP hands to the interface leaves as one whole frame or not at all: without
  a fault, the output queue either receives the frame of the address, control and protocol bytes
  followed by the packet, or is unchanged and \<^verbatim>\<open>ERR_IF\<close> is returned; the queue stays well-formed
  although the frame buffer is shared with it, and later released.\<close>

theorem output_whole_frames:
  assumes "pq_inv h q" and "chain_ok h (Some a) as" and "\<forall>x \<in> set as. ref_at h x \<noteq> 0" and "ref_at h a + 1 \<noteq> 0"
    and "set (q_cells h q) \<inter> set as = {}" and "length (chain_bytes h as) + 10 < 65536" and "mems_ok ppp"
  shows "\<exists>err ppp' h' q'. pppossl_netif_output ppp_output_cb now ppp h q a protocol = Some (err, ppp', h', q') \<and>
    pq_inv h' q' \<and>
    (err = ERR_OK \<and> q_content (h', q') = q_content (h, q) @ frame_of ([0xff, 0x03] @ be16 protocol @ chain_bytes h as)
     \<or> err = ERR_IF \<and> q_content (h', q') = q_content (h, q))"
  using ppo.netif_output_ok [where now = now and protocol = protocol and ppp = ppp, OF assms(1-6)] assms(7)
  by (simp add: PPP_ALLSTATIONS_def PPP_UI_def) blast

theorem output_whole_frames_witness:
  "\<exists>err ppp' h' q'. pppossl_netif_output ppp_output_cb 0 ppp_start [Some (demo_pbuf [1, 2])] (q_new (32 * 1024)) 0 0x21 =
     Some (err, ppp', h', q') \<and>
    (err = ERR_OK \<and> q_content (h', q') = frame_of ([0xff, 0x03] @ be16 0x21 @ [1, 2]) \<or>
     err = ERR_IF \<and> q_content (h', q') = [])"
proof -
  let ?h = "[Some (demo_pbuf [1, 2])]" and ?q = "q_new (32 * 1024)"
  have q: "q_ok ?h ?q []" by (simp add: q_ok_new)
  have "pq_inv ?h ?q" using q_inv_ok [OF q] by (simp add: pq_inv_def q_new_def)
  moreover have "chain_ok ?h (Some 0) [0]" "ref_at ?h 0 = 1" and b: "chain_bytes ?h [0] = [1, 2]"
    by (simp_all add: chain_ok_def heap_at_def demo_pbuf_def pbuf_init_alloced_def chain_bytes_def
        payload_at_def tot_at_def ref_at_def)
  moreover have "q_cells ?h ?q = []" "q_content (?h, ?q) = []"
    using q_cells_eq [OF q] q_inv_ok [OF q] by (simp_all add: q_bytes_def chain_simps)
  ultimately show ?thesis
    using output_whole_frames [where h = ?h and q = ?q and a = 0 and as = "[0]" and ppp = ppp_start and now = 0
        and protocol = "0x21"] ppp_start_ok(2) by auto
qed

lemma netmask_loop_zero: "netmask_loop n addr 0 k = k"
  by (induction n) auto

lemma netmask_loop_numeral:
  "netmask_loop (numeral k) addr t n =
     netmask_loop (pred_numeral k) addr (drop_bit 1 t) (if and addr t \<noteq> 0 then n + 1 else n)"
  by (simp add: numeral_eq_Suc)

lemma netmask_loop_add: "netmask_loop (m + n) addr t k = netmask_loop n addr (drop_bit m t) (netmask_loop m addr t k)"
  by (induction m addr t k rule: netmask_loop.induct) (simp_all add: drop_bit_Suc drop_bit_drop_bit)

lemma netmask_loop_le: "netmask_loop n addr t k \<le> k + n"
proof (induction n arbitrary: t k)
  case (Suc n)
  then show ?case using le_trans [OF Suc [of _ "k + 1"]] le_trans [OF Suc [of _ k]]
    by (simp add: Suc_leD)
qed simp

text \<open>The reported size of the netmask never exceeds 16, since only the first two bytes are
  examined: \<^verbatim>\<open>255.255.255.0\<close>, which is \<^verbatim>\<open>0x00ffffff\<close> on a little endian machine, is reported as 16.\<close>

theorem netmask_at_most_16: "pp_netmask addr \<le> 16 \<and> pp_netmask 0x00ffffff = 16"
proof
  have "pp_netmask addr = netmask_loop 16 addr 0 (netmask_loop 16 addr 0x8000 0)" for addr
    using netmask_loop_add [of 16 16 addr "0x8000" 0] by (simp add: pp_netmask_def)
  then have *: "pp_netmask addr = netmask_loop 16 addr 0x8000 0" for addr by (simp add: netmask_loop_zero)
  show "pp_netmask addr \<le> 16" using netmask_loop_le [of 16 addr "0x8000" 0] * by simp
  show "pp_netmask 0x00ffffff = 16" unfolding * by (simp add: netmask_loop_numeral)
qed

text \<open>\<open>pp_send\<close> sends a prefix of the queue over the tunnel, keeps the rest, and counts exactly
  the bytes sent when it succeeds.\<close>

theorem pp_send_counts:
  assumes "q_inv (h, pp_queue i)"
  shows "\<exists>ok sent h' i' w'. pp_send h i w = Some (ok, h', i', w') \<and> q_inv (h', pp_queue i') \<and>
    sent @ q_content (h', pp_queue i') = q_content (h, pp_queue i) \<and> wire w' = wire w @ sent \<and>
    cnt_sent i' = cnt_sent i + (if ok then length sent else 0)"
proof (cases "q_is_empty (pp_queue i)")
  case True
  with assms show ?thesis
    by (intro exI [of _ True] exI [of _ "[]"] exI [of _ h] exI [of _ i] exI [of _ w]) (simp add: pp_send_def)
next
  case False
  from oq_write_loop_ok [OF assms, of w NET_SND_OK 0] obtain st sent h' q' w' where
    "oq_write_loop h (pp_queue i) w NET_SND_OK 0 = Some (st, length sent, h', q', w')" "q_inv (h', q')"
    "sent @ q_content (h', q') = q_content (h, pp_queue i)" "wire w' = wire w @ sent" by auto
  with False show ?thesis by (fastforce simp: pp_send_def oq_write_def Let_def)
qed

theorem pp_send_counts_witness:
  "\<exists>ok sent h' i' w'. pp_send (fst demo_queue) (pp_new\<lparr>pp_queue := snd demo_queue\<rparr>)
      \<lparr>is_tls = True, fd = 1, blocking = False, recvs = [], sends = [2], polls = [], calls = [], elapsed = [], wire = []\<rparr>
     = Some (ok, h', i', w') \<and> sent @ q_content (h', pp_queue i') = [1, 2, 3] \<and> wire w' = sent"
  using pp_send_counts [of "fst demo_queue" "pp_new\<lparr>pp_queue := snd demo_queue\<rparr>"
      "\<lparr>is_tls = True, fd = 1, blocking = False, recvs = [], sends = [2], polls = [], calls = [], elapsed = [], wire = []\<rparr>"]
  using demo_queue_inv by auto

end
