(* ===== verification/PortForwarder.thy ===== *)
theory PortForwarder
  imports QueueObject OutputQueue Endpoint "HOL-Library.Sublist"
begin

text \<open>
  The port forwarder \<^verbatim>\<open>net/PortForwarder.cpp\<close>: it relays bytes between a local TCP client of the
  machine and a remote host behind the firewall, reached over a lwIP connection through the tunnel.

  The state is the lwIP heap, shared by everything, and the forwarder. The pointer to the lwIP
  connection may be null, valid, or dangling after lwIP freed the block: an operation that follows
  it must find it valid, anything else is the fault \<open>None\<close>. Timers are the flags they set; which
  callbacks are registered with lwIP is part of the state (\<open>pf_reg\<close>). The keep-alive options of the
  connection are set once and do not concern the model.
\<close>

section \<open>State\<close>

datatype pf_state = READY | FAILED | CONNECTING | CONNECTED | DISCONNECTING | DISCONNECTED

datatype client = Null | Live pcb | Freed

datatype timer = Connect_timer | Fflush_timer | Rflush_timer

record pf =
  pf_state :: pf_state
  pf_endpoint :: endpoint
  pf_nodelay :: bool
  pf_server :: "byte net"
  pf_client :: client
  pf_reg :: bool
  pf_timers :: "timer list"
  pf_connect_timeout :: bool
  pf_fflush_timeout :: bool
  pf_rflush_timeout :: bool
  pf_reply :: pbqueue
  pf_forward :: pbqueue
  pf_forwarded :: nat

definition pf_new :: "endpoint \<Rightarrow> bool \<Rightarrow> byte net \<Rightarrow> pf" where
  "pf_new ep nodelay w =
     \<lparr>pf_state = READY, pf_endpoint = ep, pf_nodelay = nodelay, pf_server = socket_new False w,
      pf_client = Null, pf_reg = False, pf_timers = [], pf_connect_timeout = False, pf_fflush_timeout = False,
      pf_rflush_timeout = False, pf_reply = q_new (8 * 1024), pf_forward = q_new (8 * 1024), pf_forwarded = 0\<rparr>"

definition pf_is_connected :: "pf \<Rightarrow> bool" where
  "pf_is_connected p \<longleftrightarrow> pf_state p = CONNECTED"

definition pf_is_connecting :: "pf \<Rightarrow> bool" where
  "pf_is_connecting p \<longleftrightarrow> pf_state p = CONNECTING"

definition pf_is_disconnecting :: "pf \<Rightarrow> bool" where
  "pf_is_disconnecting p \<longleftrightarrow> pf_state p = DISCONNECTING"

definition pf_has_failed :: "pf \<Rightarrow> bool" where
  "pf_has_failed p \<longleftrightarrow> pf_state p = FAILED"

definition pf_is_disconnected :: "pf \<Rightarrow> bool" where
  "pf_is_disconnected p \<longleftrightarrow> pf_state p = DISCONNECTED"

definition pf_has_connection_timed_out :: "pf \<Rightarrow> bool" where
  "pf_has_connection_timed_out p \<longleftrightarrow> pf_is_connecting p \<and> pf_connect_timeout p"

definition pf_can_receive_data :: "pheap \<Rightarrow> pf \<Rightarrow> bool option" where
  "pf_can_receive_data h p = do { full \<leftarrow> q_is_full h (pf_forward p); Some (\<not> full) }"

text \<open>\<^verbatim>\<open>has_data_to_forward\<close> follows the pointer to the lwIP connection.\<close>

definition pf_has_data_to_forward :: "pf \<Rightarrow> bool option" where
  "pf_has_data_to_forward p =
     (case pf_client p of
        Live s \<Rightarrow> Some (unsent s \<or> \<not> q_is_empty (pf_forward p) \<and> snd_buf s \<noteq> 0)
      | _ \<Rightarrow> None)"

definition pf_has_data_to_reply :: "pf \<Rightarrow> bool" where
  "pf_has_data_to_reply p \<longleftrightarrow> \<not> q_is_empty (pf_reply p)"

definition pf_can_flush_reply_queue :: "pf \<Rightarrow> bool" where
  "pf_can_flush_reply_queue p \<longleftrightarrow> socket_is_connected (pf_server p)"

definition pf_can_flush_forward_queue :: "pf \<Rightarrow> bool" where
  "pf_can_flush_forward_queue p \<longleftrightarrow> pf_client p \<noteq> Null"

section \<open>lwIP callbacks\<close>

text \<open>Before \<^verbatim>\<open>tcp_err_cb\<close> is called lwIP has freed the connection.\<close>

definition tcp_err_cb :: "pf \<Rightarrow> pf" where
  "tcp_err_cb p =
     p\<lparr>pf_client := Freed, pf_reg := False, pf_state := DISCONNECTED,
       pf_server := (if socket_is_connected (pf_server p) then socket_close (pf_server p) else pf_server p)\<rparr>"

text \<open>The answer of DNS: \<open>resolved\<close> says whether an address was found, \<open>rc_con\<close> what
  \<^verbatim>\<open>tcp_connect\<close> answers; on failure \<^verbatim>\<open>tcp_close\<close> frees the block. Both calls check for a null
  pointer and answer \<^verbatim>\<open>ERR_ARG\<close>.\<close>

definition dns_found_cb :: "string \<Rightarrow> bool \<Rightarrow> lwip_err \<Rightarrow> pf \<Rightarrow> pf option" where
  "dns_found_cb name resolved rc_con p =
     (if hostname (pf_endpoint p) \<noteq> name then Some (p\<lparr>pf_state := FAILED\<rparr>)
      else if \<not> resolved then Some (p\<lparr>pf_state := FAILED\<rparr>)
      else
        (case pf_client p of
           Live s \<Rightarrow>
             if rc_con = ERR_OK then Some (p\<lparr>pf_timers := Connect_timer # pf_timers p, pf_reg := True\<rparr>)
             else Some (p\<lparr>pf_state := FAILED, pf_client := Freed, pf_server := socket_close (pf_server p)\<rparr>)
         | Null \<Rightarrow> Some (p\<lparr>pf_state := FAILED, pf_server := socket_close (pf_server p)\<rparr>)
         | Freed \<Rightarrow> None))"

definition tcp_connected_cb :: "pf \<Rightarrow> pf" where
  "tcp_connected_cb p =
     p\<lparr>pf_state := CONNECTED, pf_timers := removeAll Connect_timer (pf_timers p), pf_connect_timeout := False\<rparr>"

definition tcp_sent_cb :: "nat \<Rightarrow> pf \<Rightarrow> pf" where
  "tcp_sent_cb len p = p\<lparr>pf_forwarded := size_sub (pf_forwarded p) len\<rparr>"

text \<open>\<^verbatim>\<open>tcp_recved\<close> reopens the receive window and does not concern the model. The result is the
  error code for lwIP, which keeps the buffer and offers it again after \<^verbatim>\<open>ERR_MEM\<close>.\<close>

definition tcp_recv_cb :: "pheap \<Rightarrow> pf \<Rightarrow> addr option \<Rightarrow> lwip_err \<Rightarrow> (lwip_err \<times> pheap \<times> pf) option" where
  "tcp_recv_cb h p buffer err =
     (case buffer of
        Some a \<Rightarrow>
          if \<not> socket_is_connected (pf_server p) then do {
            (_, h') \<leftarrow> pbuf_free h (Some a);
            Some (ERR_OK, h', p)
          }
          else do {
            (ok, h1, q) \<leftarrow> q_push h (pf_reply p) (Some a);
            if \<not> ok then Some (ERR_MEM, h1, p\<lparr>pf_reply := q\<rparr>)
            else do { (_, h2) \<leftarrow> pbuf_free h1 (Some a); Some (ERR_OK, h2, p\<lparr>pf_reply := q\<rparr>) }
          }
      | None \<Rightarrow>
          if err = ERR_OK \<and> pf_state p = CONNECTED then
            (case pf_client p of
               Live s \<Rightarrow> do {
                 (h', q) \<leftarrow> q_clear h (pf_forward p);
                 Some (ERR_OK, h', p\<lparr>pf_state := DISCONNECTING, pf_client := Null, pf_reg := False,
                   pf_forward := q, pf_timers := Rflush_timer # pf_timers p\<rparr>)
               }
             | _ \<Rightarrow> None)
          else Some (ERR_OK, h, p))"

text \<open>A timer that expires sets its flag.\<close>

definition timeout_cb :: "timer \<Rightarrow> pf \<Rightarrow> pf" where
  "timeout_cb t p =
     (let p1 = p\<lparr>pf_timers := removeAll t (pf_timers p)\<rparr> in
      case t of
        Connect_timer \<Rightarrow> p1\<lparr>pf_connect_timeout := True\<rparr>
      | Fflush_timer \<Rightarrow> p1\<lparr>pf_fflush_timeout := True\<rparr>
      | Rflush_timer \<Rightarrow> p1\<lparr>pf_rflush_timeout := True\<rparr>)"

section \<open>Operations\<close>

text \<open>\<^verbatim>\<open>connect\<close>: \<open>rc_query\<close> is the answer of \<^verbatim>\<open>DnsClient::query\<close>, \<open>new_pcb\<close> of \<^verbatim>\<open>tcp_new\<close>, \<open>rc_con\<close>
  of \<^verbatim>\<open>tcp_connect\<close> when the name is already resolved.\<close>

definition ERR_INPROGRESS :: lwip_err where "ERR_INPROGRESS = -5"

definition pf_connect ::
  "lwip_err \<Rightarrow> pcb option \<Rightarrow> lwip_err \<Rightarrow> byte net \<Rightarrow> pf \<Rightarrow> (bool \<times> byte net \<times> pf) option" where
  "pf_connect rc_query new_pcb rc_con listener p =
     (if pf_state p \<noteq> READY then Some (False, listener, p)
      else
        (case socket_accept listener (pf_server p) of
           (rc_accept, l', srv) \<Rightarrow>
             if rc_accept \<noteq> 0 then Some (False, l', p\<lparr>pf_server := srv, pf_state := FAILED\<rparr>)
             else
               (let p1 = p\<lparr>pf_server := snd (set_nodelay (pf_nodelay p) srv)\<rparr> in
                if rc_query = ERR_OK \<or> rc_query = ERR_INPROGRESS then
                  (let p2 = p1\<lparr>pf_state := CONNECTING\<rparr> in
                   (case new_pcb of
                      None \<Rightarrow> Some (False, l', p2\<lparr>pf_client := Null, pf_state := FAILED\<rparr>)
                    | Some s \<Rightarrow>
                        (let p3 = p2\<lparr>pf_client := Live s\<rparr> in
                         if rc_query = ERR_OK then
                           map_option (\<lambda>p4. (True, l', p4)) (dns_found_cb (hostname (pf_endpoint p3)) True rc_con p3)
                         else Some (True, l', p3))))
                else Some (False, l', p1\<lparr>pf_state := FAILED\<rparr>))))"

definition pf_disconnect :: "pheap \<Rightarrow> pf \<Rightarrow> (pheap \<times> pf) option" where
  "pf_disconnect h p =
     (if pf_state p \<noteq> CONNECTED then Some (h, p)
      else do {
        (h', q) \<leftarrow> q_clear h (pf_reply p);
        Some (h', p\<lparr>pf_state := DISCONNECTING, pf_server := socket_close (pf_server p), pf_reply := q,
          pf_timers := Fflush_timer # pf_timers p\<rparr>)
      })"

text \<open>\<^verbatim>\<open>tcp_abort\<close> frees the connection and calls \<^verbatim>\<open>tcp_err_cb\<close> when it is registered; it does
  nothing for a null pointer.\<close>

definition pf_abort :: "pheap \<Rightarrow> pf \<Rightarrow> (pheap \<times> pf) option" where
  "pf_abort h p =
     (if \<not> (pf_state p = CONNECTED \<or> pf_state p = CONNECTING) then Some (h, p)
      else if pf_client p = Freed then None
      else
        (let p1 = p\<lparr>pf_state := DISCONNECTING\<rparr>;
             p2 = (if pf_client p1 \<noteq> Null \<and> pf_reg p1 then tcp_err_cb p1 else p1);
             p3 = p2\<lparr>pf_client := Null, pf_reg := False\<rparr>
         in do {
           (h1, qf) \<leftarrow> q_clear h (pf_forward p3);
           (h2, qr) \<leftarrow> q_clear h1 (pf_reply p3);
           Some (h2, p3\<lparr>pf_forward := qf, pf_reply := qr\<rparr>)
         }))"

definition PBUF_FLAG_PUSH :: byte where "PBUF_FLAG_PUSH = 1"

definition pf_recv :: "byte list option \<Rightarrow> pheap \<Rightarrow> pf \<Rightarrow> (bool \<times> pheap \<times> pf) option" where
  "pf_recv mem h p =
     (if pf_state p \<noteq> CONNECTED then Some (False, h, p)
      else do {
        space \<leftarrow> q_remaining_space h (pf_forward p);
        let available_space = min 2048 space;
        if available_space = 0 then Some (True, h, p)
        else (case recv_data available_space (pf_server p) of (st, bs, w) \<Rightarrow>
          let p1 = p\<lparr>pf_server := w\<rparr> in
          if rcv_code st \<noteq> NETCTX_RCV_OK then Some (False, h, p1)
          else
            (let len = u16 (rbytes st) in
             case pbuf_alloc mem len h of
               (None, h1) \<Rightarrow> Some (False, h1, p1)
             | (Some a, h1) \<Rightarrow> do {
                 (_, h2) \<leftarrow> pbuf_take h1 (Some a) (take len bs);
                 b \<leftarrow> heap_at h2 a;
                 let h3 = (if len \<noteq> available_space then heap_put h2 a (b\<lparr>pb_flags := PBUF_FLAG_PUSH\<rparr>) else h2);
                 (ok, h4, q) \<leftarrow> q_push h3 (pf_forward p) (Some a);
                 if \<not> ok then Some (False, h4, p1\<lparr>pf_forward := q\<rparr>)
                 else do {
                   (_, h5) \<leftarrow> pbuf_free h4 (Some a);
                   Some (True, h5, p1\<lparr>pf_forward := q\<rparr>)
                 }
               }))
      })"

definition pf_forward_op :: "pheap \<Rightarrow> pf \<Rightarrow> (bool \<times> pheap \<times> pf) option" where
  "pf_forward_op h p =
     (if pf_state p \<noteq> CONNECTED then Some (False, h, p)
      else
        (case pf_client p of
           Live s \<Rightarrow> do {
             (rc, written, h', q, s') \<leftarrow> oq_write_tcp h (pf_forward p) s;
             let p' = p\<lparr>pf_forward := q, pf_client := Live s'\<rparr>;
             Some (rc = 0, h', if rc \<noteq> 0 then p' else p'\<lparr>pf_forwarded := (pf_forwarded p' + written) mod 2 ^ 64\<rparr>)
           }
         | _ \<Rightarrow> None))"

definition pf_reply_op :: "pheap \<Rightarrow> pf \<Rightarrow> (bool \<times> pheap \<times> pf) option" where
  "pf_reply_op h p =
     (if pf_state p \<noteq> CONNECTED then Some (False, h, p)
      else do {
        (rc, written, h', q, w) \<leftarrow> oq_write h (pf_reply p) (pf_server p);
        Some (rc = 0, h', p\<lparr>pf_reply := q, pf_server := w\<rparr>)
      })"

definition pf_flush_forward_queue :: "pheap \<Rightarrow> pf \<Rightarrow> (pheap \<times> pf) option" where
  "pf_flush_forward_queue h p =
     (if pf_state p \<noteq> DISCONNECTING then Some (h, p)
      else
        (case pf_client p of
           Live s \<Rightarrow> do {
             (rc, written, h1, q1, s1) \<leftarrow> oq_write_tcp h (pf_forward p) s;
             let p1 = p\<lparr>pf_forward := q1, pf_client := Live s1\<rparr>;
             if rc \<noteq> ERR_OK \<or> pf_fflush_timeout p1 \<or> q_is_empty (pf_forward p1) then do {
               (h2, q2) \<leftarrow> q_clear h1 (pf_forward p1);
               Some (h2, p1\<lparr>pf_forward := q2, pf_reg := False, pf_client := Null, pf_state := DISCONNECTED\<rparr>)
             }
             else Some (h1, p1)
           }
         | _ \<Rightarrow> None))"

text \<open>\<^verbatim>\<open>flush_reply_queue\<close> tests and clears the forward queue.\<close>

definition pf_flush_reply_queue :: "pheap \<Rightarrow> pf \<Rightarrow> (pheap \<times> pf) option" where
  "pf_flush_reply_queue h p =
     (if pf_state p \<noteq> DISCONNECTING then Some (h, p)
      else do {
        (rc, written, h1, q1, w) \<leftarrow> oq_write h (pf_reply p) (pf_server p);
        let p1 = p\<lparr>pf_reply := q1, pf_server := w\<rparr>;
        if rc \<noteq> 0 \<or> pf_rflush_timeout p1 \<or> q_is_empty (pf_forward p1) then do {
          (h2, q2) \<leftarrow> q_clear h1 (pf_forward p1);
          Some (h2, p1\<lparr>pf_forward := q2, pf_server := socket_close (pf_server p1), pf_state := DISCONNECTED\<rparr>)
        }
        else Some (h1, p1)
      })"

section \<open>What the loop of the tunneler does with a forwarder\<close>

text \<open>After \<^verbatim>\<open>select\<close>: receive and reply, or flush (\<^verbatim>\<open>net/Tunneler.cpp\<close>). \<open>mem\<close> is the memory of
  \<^verbatim>\<open>pbuf_alloc\<close>.\<close>

definition pf_service :: "bool \<Rightarrow> bool \<Rightarrow> byte list option \<Rightarrow> pheap \<Rightarrow> pf \<Rightarrow> (pheap \<times> pf) option" where
  "pf_service readable writable mem h p =
     (if pf_is_connected p then do {
        (h1, p1) \<leftarrow> (if readable then do {
            (ok, h1, p1) \<leftarrow> pf_recv mem h p;
            if \<not> ok then pf_disconnect h1 p1 else Some (h1, p1)
          } else Some (h, p));
        if writable then do {
          (ok, h2, p2) \<leftarrow> pf_reply_op h1 p1;
          if \<not> ok then pf_disconnect h2 p2 else Some (h2, p2)
        } else Some (h1, p1)
      }
      else if pf_is_disconnecting p then
        (if writable \<and> pf_can_flush_reply_queue p then pf_flush_reply_queue h p else Some (h, p))
      else Some (h, p))"

text \<open>Before the timers are checked: abort after a connection timeout, forward, or flush.\<close>

definition pf_transmit :: "pheap \<Rightarrow> pf \<Rightarrow> (pheap \<times> pf) option" where
  "pf_transmit h p = do {
     (h1, p1) \<leftarrow> (if pf_has_connection_timed_out p then pf_abort h p else Some (h, p));
     if pf_is_connected p1 then do {
       data \<leftarrow> pf_has_data_to_forward p1;
       if data then do {
         (ok, h2, p2) \<leftarrow> pf_forward_op h1 p1;
         if \<not> ok then pf_disconnect h2 p2 else Some (h2, p2)
       } else Some (h1, p1)
     }
     else if pf_is_disconnecting p1 then
       (if pf_can_flush_forward_queue p1 then pf_flush_forward_queue h1 p1 else Some (h1, p1))
     else Some (h1, p1)
   }"

section \<open>The queues\<close>

definition two_ok :: "pheap \<Rightarrow> pbqueue \<Rightarrow> pbqueue \<Rightarrow> bool" where
  "two_ok h f r \<longleftrightarrow> q_valid h f \<and> q_valid h r \<and> q_own h f \<inter> q_own h r = {} \<and>
     capacity f = 8192 \<and> capacity r = 8192 \<and> q_total h f \<le> 8192"

definition own2 :: "pheap \<Rightarrow> pbqueue \<Rightarrow> pbqueue \<Rightarrow> addr set" where
  "own2 h f r = q_own h f \<union> q_own h r"

text \<open>An operation on one queue, which may take in the cells \<open>T\<close>, leaves the other one alone.\<close>

lemma two_forward:
  assumes "two_ok h f r" "q_valid h' f'" "capacity f' = 8192" "q_total h' f' \<le> 8192"
    and "heap_move (q_own h f \<union> T) h (q_own h' f') h'" "T \<inter> q_own h r = {}"
  shows "two_ok h' f' r" "heap_move (own2 h f r \<union> T) h (own2 h' f' r) h'" "q_value h' r = q_value h r"
proof -
  have r: "q_valid h r" "q_own h r \<inter> (q_own h f \<union> T) = {}" using assms by (auto simp: two_ok_def)
  note u = hq.undisturbed [OF r assms(5)]
  show "two_ok h' f' r" "q_value h' r = q_value h r" using assms u by (auto simp: two_ok_def)
  show "heap_move (own2 h f r \<union> T) h (own2 h' f' r) h'"
    using heap_move_both [OF assms(5), of "q_own h r"] u by (simp add: own2_def Un_ac)
qed

lemma two_reply:
  assumes "two_ok h f r" "q_valid h' r'" "capacity r' = 8192"
    and "heap_move (q_own h r \<union> T) h (q_own h' r') h'" "T \<inter> q_own h f = {}"
  shows "two_ok h' f r'" "heap_move (own2 h f r \<union> T) h (own2 h' f r') h'" "q_value h' f = q_value h f"
proof -
  have r: "q_valid h f" "q_own h f \<inter> (q_own h r \<union> T) = {}" using assms by (auto simp: two_ok_def)
  note u = hq.undisturbed [OF r assms(4)]
  show "two_ok h' f r'" "q_value h' f = q_value h f" using assms u by (auto simp: two_ok_def)
  show "heap_move (own2 h f r \<union> T) h (own2 h' f r') h'"
    using heap_move_both [OF assms(4), of "q_own h f"] u by (simp add: own2_def Un_ac)
qed

lemma two_clear_forward:
  assumes "two_ok h f r"
  shows "\<exists>h' f'. q_clear h f = Some (h', f') \<and> two_ok h' f' r \<and> q_is_empty f' \<and> q_value h' f' = [] \<and>
    q_value h' r = q_value h r \<and> heap_move (own2 h f r) h (own2 h' f' r) h'"
proof -
  from assms have "q_valid h f" "capacity f = 8192" by (simp_all add: two_ok_def)
  with q_clear_move [of h f] obtain h' f' where c: "q_clear h f = Some (h', f')" "q_valid h' f'" "q_own h' f' = {}"
    "capacity f' = 8192" "q_value h' f' = []" "q_total h' f' = 0" "q_is_empty f'" "heap_move (q_own h f) h {} h'"
    by auto
  with two_forward [OF assms c(2,4), of "{}"] show ?thesis by auto
qed

lemma two_clear_reply:
  assumes "two_ok h f r"
  shows "\<exists>h' r'. q_clear h r = Some (h', r') \<and> two_ok h' f r' \<and> q_value h' r' = [] \<and>
    q_value h' f = q_value h f \<and> heap_move (own2 h f r) h (own2 h' f r') h'"
proof -
  from assms have "q_valid h r" "capacity r = 8192" by (simp_all add: two_ok_def)
  with q_clear_move [of h r] obtain h' r' where c: "q_clear h r = Some (h', r')" "q_valid h' r'" "q_own h' r' = {}"
    "capacity r' = 8192" "q_value h' r' = []" "heap_move (q_own h r) h {} h'"
    by auto
  with two_reply [OF assms c(2,4), of "{}"] show ?thesis by auto
qed

lemma two_write_forward:
  assumes "two_ok h f r"
  shows "\<exists>rc sent h' f' s'. oq_write_tcp h f s = Some (rc, length sent, h', f', s') \<and> two_ok h' f' r \<and>
    sent @ q_value h' f' = q_value h f \<and> accepted s' = accepted s @ sent \<and> q_value h' r = q_value h r \<and>
    heap_move (own2 h f r) h (own2 h' f' r) h'"
proof -
  have v: "q_valid h f" "capacity f = 8192" "q_total h f \<le> 8192" using assms by (simp_all add: two_ok_def)
  then obtain rc sent h' f' s1 where l: "oq_tcp_loop h f s ERR_OK 0 = Some (rc, 0 + length sent, h', f', s1)"
    "q_inv (h', f')" "sent @ q_content (h', f') = q_content (h, f)" "accepted s1 = accepted s @ sent"
    "q_keeps (h, f) (h', f')"
    using oq_tcp_loop_ok [of h f s ERR_OK 0] by (auto simp: q_valid_def)
  obtain rc2 s2 where o: "(if rc = ERR_OK \<and> (length sent > 0 \<or> unsent s1) then lwip_tcp_output s1 else (rc, s1)) = (rc2, s2)"
    by fastforce
  have a: "accepted s2 = accepted s1"
    using o lwip_tcp_output_keeps [of s1 rc2 s2] by (auto split: if_splits)
  have k: "q_valid h' f'" "capacity f' = 8192" "q_total h' f' \<le> 8192"
    using l(2,5) v by (auto simp: q_valid_def q_keeps_def q_total_def)
  show ?thesis
    using two_forward [OF assms k, of "{}"] q_keeps_move [OF l(5)] l o a
    by (auto simp: oq_write_tcp_def q_value_def)
qed

lemma two_write_reply:
  assumes "two_ok h f r"
  shows "\<exists>rc sent h' r' w'. oq_write h r w = Some (rc, length sent, h', r', w') \<and> two_ok h' f r' \<and>
    sent @ q_value h' r' = q_value h r \<and> wire w' = wire w @ sent \<and> fd w' = fd w \<and> q_value h' f = q_value h f \<and>
    heap_move (own2 h f r) h (own2 h' f r') h'"
proof -
  have v: "q_valid h r" "capacity r = 8192" using assms by (simp_all add: two_ok_def)
  then obtain st sent h' r' w' where l: "oq_write_loop h r w NET_SND_OK 0 = Some (st, 0 + length sent, h', r', w')"
    "q_inv (h', r')" "sent @ q_content (h', r') = q_content (h, r)" "wire w' = wire w @ sent" "fd w' = fd w"
    "q_keeps (h, r) (h', r')"
    using oq_write_loop_ok [of h r w NET_SND_OK 0] by (auto simp: q_valid_def)
  have k: "q_valid h' r'" "capacity r' = 8192" using l(2,6) v by (auto simp: q_valid_def q_keeps_def)
  show ?thesis
    using two_reply [OF assms k, of "{}"] q_keeps_move [OF l(6)] l
    by (auto simp: oq_write_def q_value_def)
qed

lemmas two_laws = two_clear_forward two_clear_reply two_write_forward two_write_reply

lemma two_push_forward:
  assumes two: "two_ok h f r" and p: "pushable h t ts (q_cells h f)" "set ts \<inter> q_own h r = {}"
    and len: "length (chain_bytes h ts) \<le> 8192"
  shows "(\<exists>h1 f' n h2. q_push h f (Some t) = Some (True, h1, f') \<and> pbuf_free h1 (Some t) = Some (n, h2) \<and>
      two_ok h2 f' r \<and> q_value h2 f' = q_value h f @ chain_bytes h ts \<and> q_value h2 r = q_value h r \<and>
      heap_move (own2 h f r \<union> set ts) h (own2 h2 f' r) h2) \<or>
    q_push h f (Some t) = Some (False, h, f)"
proof -
  have v: "q_valid h f" "0 < capacity f" "capacity f = 8192" using two by (simp_all add: two_ok_def)
  from q_push_move [OF v(1,2) p(1)] show ?thesis
  proof (elim disjE exE conjE)
    fix h1 q' n h2
    assume c: "q_push h f (Some t) = Some (True, h1, q')" "pbuf_free h1 (Some t) = Some (n, h2)"
      "q_valid h2 q'" "q_value h2 q' = q_value h f @ chain_bytes h ts" "capacity q' = capacity f"
      "heap_move (q_own h f \<union> set ts) h (q_own h2 q') h2" "\<not> q_is_empty f \<longrightarrow> q_total h2 q' \<le> capacity f"
      "q_total h2 q' = q_total h f + length (chain_bytes h ts)"
    have "q_total h f = 0" if "q_is_empty f"
      using that v(1) q_ok_empty_iff by (auto simp: q_valid_ok q_total_def chain_bytes_simps)
    then have "q_total h2 q' \<le> 8192" using c(7,8) v(3) len by auto
    with two_forward [OF two c(3) _ _ c(6) p(2)] c v(3) show ?thesis by auto
  qed simp
qed

lemma two_push_reply:
  assumes two: "two_ok h f r" and p: "pushable h t ts (q_cells h r)" "set ts \<inter> q_own h f = {}"
  shows "(\<exists>h1 r' n h2. q_push h r (Some t) = Some (True, h1, r') \<and> pbuf_free h1 (Some t) = Some (n, h2) \<and>
      two_ok h2 f r' \<and> q_value h2 r' = q_value h r @ chain_bytes h ts \<and> q_value h2 f = q_value h f \<and>
      heap_move (own2 h f r \<union> set ts) h (own2 h2 f r') h2) \<or>
    q_push h r (Some t) = Some (False, h, r)"
proof -
  have v: "q_valid h r" "0 < capacity r" "capacity r = 8192" using two by (simp_all add: two_ok_def)
  from q_push_move [OF v(1,2) p(1)] show ?thesis
  proof (elim disjE exE conjE)
    fix h1 q' n h2
    assume c: "q_push h r (Some t) = Some (True, h1, q')" "pbuf_free h1 (Some t) = Some (n, h2)"
      "q_valid h2 q'" "q_value h2 q' = q_value h r @ chain_bytes h ts" "capacity q' = capacity r"
      "heap_move (q_own h r \<union> set ts) h (q_own h2 q') h2"
    with two_reply [OF two c(3) _ c(6) p(2)] v(3) show ?thesis by auto
  qed simp
qed

text \<open>A change of the heap that only takes in free cells.\<close>

lemma two_undisturbed:
  assumes "two_ok h f r" "heap_move A h B h'" "own2 h f r \<inter> A = {}"
  shows "two_ok h' f r" "own2 h' f r = own2 h f r" "q_value h' f = q_value h f" "q_value h' r = q_value h r"
    "own2 h' f r \<inter> B = {}" "q_cells h' f = q_cells h f" "q_cells h' r = q_cells h r"
proof -
  have v: "q_valid h f" "q_own h f \<inter> A = {}" "q_valid h r" "q_own h r \<inter> A = {}"
    using assms by (auto simp: two_ok_def own2_def)
  note u = hq.undisturbed [OF v(1,2) assms(2)] hq.undisturbed [OF v(3,4) assms(2)]
  show "two_ok h' f r" "own2 h' f r = own2 h f r" "q_value h' f = q_value h f" "q_value h' r = q_value h r"
    "own2 h' f r \<inter> B = {}"
    using u assms(1) by (auto simp: two_ok_def own2_def)
  have "q_cells h' q = q_cells h q" if q: "q_valid h q" "q_own h q \<inter> A = {}" for q
  proof -
    have "heap_at h' x = heap_at h x" if "x \<in> set (q_cells h q)" for x
      using that q hq.alive [OF q(1)] assms(2) by (auto simp: heap_move_def q_own_def)
    from q_ok_frame(1) [OF _ this] q(1) show ?thesis by (intro q_cells_eq) (simp add: q_valid_ok)
  qed
  with v show "q_cells h' f = q_cells h f" "q_cells h' r = q_cells h r" by blast+
qed

text \<open>The buffer of \<^verbatim>\<open>recv\<close>: allocated, filled and flagged.\<close>

lemma recv_buffer:
  assumes "pbuf_alloc (Some junk) n h = (p, h1)" "n < 65536" "length bs = n"
  obtains a h2 b where "p = Some a" "pbuf_take h1 (Some a) bs = Some (ERR_OK, h2)" "heap_at h2 a = Some b"
    "\<And>fl h3. h3 = (if fl then heap_put h2 a (b\<lparr>pb_flags := PBUF_FLAG_PUSH\<rparr>) else h2) \<Longrightarrow>
       chain_ok h3 (Some a) [a] \<and> ref_at h3 a = 1 \<and> chain_bytes h3 [a] = bs \<and> heap_move {} h {a} h3"
proof -
  from pbuf_alloc_cell [OF assms(1,2)] obtain a where
    a: "p = Some a" "chain_ok h1 (Some a) [a]" "ref_at h1 a = 1" "length (payload_at h1 a) = n"
      "\<forall>x. x \<noteq> a \<longrightarrow> heap_at h1 x = heap_at h x" "a = length h" .
  have "length bs \<le> length (chain_bytes h1 [a])" using a assms(3) by (simp add: chain_simps)
  from pbuf_take_ok [OF a(2) this] obtain h2 where h2: "pbuf_take h1 (Some a) bs = Some (ERR_OK, h2)"
    "same_links h1 h2" "chain_bytes h2 [a] = bs @ drop (length bs) (chain_bytes h1 [a])"
    "\<forall>x. x \<notin> set [a] \<longrightarrow> heap_at h2 x = heap_at h1 x" by blast
  have c2: "chain_ok h2 (Some a) [a]" "ref_at h2 a = 1" "chain_bytes h2 [a] = bs"
    using same_links_chain [OF h2(2)] same_links_at(3) [OF h2(2)] a h2(3) assms(3) by (simp_all add: chain_simps)
  obtain b where b: "heap_at h2 a = Some b" using chain_head_alive [OF c2(1)] by blast
  have al: "a < length h2" using heap_at_length [OF b] .
  have fl: "chain_ok h3 (Some a) [a] \<and> ref_at h3 a = 1 \<and> chain_bytes h3 [a] = bs \<and> heap_move {} h {a} h3"
    if h3: "h3 = (if fl then heap_put h2 a (b\<lparr>pb_flags := PBUF_FLAG_PUSH\<rparr>) else h2)" for fl h3
  proof -
    have "heap_at h3 x = (if x = a then Some (if fl then b\<lparr>pb_flags := PBUF_FLAG_PUSH\<rparr> else b) else heap_at h x)" for x
      using h3 al b h2(4) a(5) by (simp add: heap_at_put)
    with c2 b show ?thesis
      by (auto simp: chain_ok_def ref_at_def chain_simps payload_at_def tot_at_def heap_move_def a(6) heap_at_def [of h])
  qed
  show ?thesis by (rule that [OF a(1) h2(1) b fl])
qed

section \<open>The invariant\<close>

text \<open>Control: where the lwIP connection is valid, and when its callbacks are registered.\<close>

definition pf_ctrl :: "pf \<Rightarrow> bool" where
  "pf_ctrl p \<longleftrightarrow>
     (pf_state p = READY \<longrightarrow> pf_client p = Null \<and> \<not> pf_reg p \<and> pf_timers p = [] \<and> \<not> pf_connect_timeout p) \<and>
     (pf_state p = CONNECTING \<or> pf_state p = CONNECTED \<longrightarrow> (\<exists>s. pf_client p = Live s)) \<and>
     (pf_state p = CONNECTED \<longrightarrow> pf_reg p) \<and>
     (pf_state p = DISCONNECTING \<longrightarrow> pf_client p \<noteq> Freed) \<and>
     (pf_state p = DISCONNECTING \<and> socket_is_connected (pf_server p) \<longrightarrow> pf_client p = Null) \<and>
     (pf_reg p \<longrightarrow> (\<exists>s. pf_client p = Live s) \<and> pf_state p \<in> {CONNECTING, CONNECTED, DISCONNECTING}) \<and>
     (pf_state p = CONNECTING \<and> (pf_connect_timeout p \<or> Connect_timer \<in> set (pf_timers p)) \<longrightarrow> pf_reg p)"

text \<open>Data: what lwIP accepted and what waits in the forward queue are the bytes read from the local
  client so far (\<open>ins\<close>), complete as long as the forwarder is connected; what was written to the
  local client and what waits in the reply queue are the bytes received from the remote host
  (\<open>outs\<close>), complete as long as the local client is there.\<close>

definition pf_data :: "pheap \<Rightarrow> pf \<Rightarrow> byte list \<Rightarrow> byte list \<Rightarrow> bool" where
  "pf_data h p ins outs \<longleftrightarrow>
     (case pf_client p of
        Live s \<Rightarrow> prefix (accepted s @ q_value h (pf_forward p)) ins \<and>
          (pf_state p = CONNECTING \<or> pf_state p = CONNECTED \<longrightarrow> accepted s @ q_value h (pf_forward p) = ins)
      | _ \<Rightarrow> True) \<and>
     prefix (wire (pf_server p) @ q_value h (pf_reply p)) outs \<and>
     (socket_is_connected (pf_server p) \<or> pf_state p = READY \<longrightarrow> wire (pf_server p) @ q_value h (pf_reply p) = outs) \<and>
     (pf_state p = READY \<longrightarrow> q_value h (pf_forward p) = [] \<and> ins = [])"

definition pf_inv :: "pheap \<Rightarrow> pf \<Rightarrow> byte list \<Rightarrow> byte list \<Rightarrow> bool" where
  "pf_inv h p ins outs \<longleftrightarrow> two_ok h (pf_forward p) (pf_reply p) \<and> pf_ctrl p \<and> pf_data h p ins outs"

definition pf_own :: "pheap \<Rightarrow> pf \<Rightarrow> addr set" where
  "pf_own h p = own2 h (pf_forward p) (pf_reply p)"

section \<open>Every operation keeps the invariant\<close>

lemma socket_close_simps [simp]:
  "wire (socket_close w) = wire w" "\<not> socket_is_connected (socket_close w)"
  by (simp_all add: socket_close_def socket_is_connected_def)

lemmas pf_inv_defs = pf_inv_def pf_ctrl_def pf_data_def

lemma tcp_err_inv: "pf_inv h p ins outs \<Longrightarrow> pf_reg p \<Longrightarrow> pf_inv h (tcp_err_cb p) ins outs"
  by (auto simp: pf_inv_defs tcp_err_cb_def split: client.splits)

lemma tcp_connected_inv:
  "pf_inv h p ins outs \<Longrightarrow> pf_reg p \<Longrightarrow> pf_state p = CONNECTING \<Longrightarrow> pf_inv h (tcp_connected_cb p) ins outs"
  by (auto simp: pf_inv_defs tcp_connected_cb_def split: client.splits)

lemma tcp_sent_inv: "pf_inv h p ins outs \<Longrightarrow> pf_inv h (tcp_sent_cb n p) ins outs"
  by (auto simp: pf_inv_defs tcp_sent_cb_def split: client.splits)

lemma timeout_inv: "pf_inv h p ins outs \<Longrightarrow> t \<in> set (pf_timers p) \<Longrightarrow> pf_inv h (timeout_cb t p) ins outs"
  by (cases t) (auto simp: pf_inv_defs timeout_cb_def Let_def split: client.splits)

lemma dns_found_inv:
  assumes "pf_inv h p ins outs" "pf_state p = CONNECTING" "\<not> pf_reg p"
  shows "\<exists>p'. dns_found_cb name res rc p = Some p' \<and> pf_inv h p' ins outs \<and> pf_own h p' = pf_own h p"
  using assms by (auto simp: pf_inv_defs dns_found_cb_def pf_own_def)

lemma pf_connect_inv:
  assumes "pf_inv h p ins outs" "\<And>s. np = Some s \<Longrightarrow> accepted s = []"
  shows "\<exists>b l' p'. pf_connect rq np rc l p = Some (b, l', p') \<and> pf_inv h p' ins outs \<and> pf_own h p' = pf_own h p"
proof (cases "pf_state p = READY")
  case False
  with assms(1) show ?thesis by (auto simp: pf_connect_def)
next
  case True
  obtain ra l' srv where a: "socket_accept l (pf_server p) = (ra, l', srv)" by (cases "socket_accept l (pf_server p)")
  then have w: "wire srv = wire (pf_server p)" by (auto simp: socket_accept_def Let_def split: if_splits prod.splits)
  have w2: "wire (snd (set_nodelay nd srv)) = wire srv" for nd
    by (auto simp: set_nodelay_def raw_call_def split: list.splits)
  define p2 where "p2 = p\<lparr>pf_server := snd (set_nodelay (pf_nodelay p) srv), pf_state := CONNECTING\<rparr>"
  have i2: "pf_inv h (p2\<lparr>pf_client := Live s\<rparr>) ins outs" if "accepted s = []" for s
    using assms(1) True that w w2 by (auto simp: pf_inv_defs p2_def)
  have r2: "\<not> pf_reg p2" "pf_state p2 = CONNECTING" using assms(1) True by (auto simp: pf_inv_defs p2_def)
  have own: "pf_own h (p2\<lparr>pf_client := c\<rparr>) = pf_own h p" for c by (simp add: pf_own_def p2_def)
  have fail: "pf_inv h (p\<lparr>pf_server := srv, pf_state := FAILED\<rparr>) ins outs"
    "pf_inv h (p\<lparr>pf_server := snd (set_nodelay nd srv), pf_state := FAILED\<rparr>) ins outs"
    "pf_inv h (p\<lparr>pf_server := snd (set_nodelay nd srv), pf_client := Null, pf_state := FAILED\<rparr>) ins outs" for nd
    using assms(1) True w w2 by (auto simp: pf_inv_defs)
  show ?thesis
  proof (cases np)
    case None
    then show ?thesis using True a fail by (auto simp: pf_connect_def Let_def pf_own_def)
  next
    case (Some s)
    from dns_found_inv [OF i2 [OF assms(2) [OF Some]], of "hostname (pf_endpoint p)" True rc] r2
    obtain p4 where d: "dns_found_cb (hostname (pf_endpoint p)) True rc (p2\<lparr>pf_client := Live s\<rparr>) = Some p4"
      "pf_inv h p4 ins outs" "pf_own h p4 = pf_own h p" by (auto simp: own)
    show ?thesis
      using True a Some fail d i2 [OF assms(2) [OF Some]] own
      by (auto simp: pf_connect_def Let_def p2_def pf_own_def)
  qed
qed

lemma pf_disconnect_inv:
  assumes "pf_inv h p ins outs"
  shows "\<exists>h' p'. pf_disconnect h p = Some (h', p') \<and> pf_inv h' p' ins outs \<and>
    heap_move (pf_own h p) h (pf_own h' p') h' \<and>
    pf_state p' = (if pf_state p = CONNECTED then DISCONNECTING else pf_state p)"
proof (cases "pf_state p = CONNECTED")
  case False
  with assms show ?thesis by (auto simp: pf_disconnect_def heap_move_refl)
next
  case True
  have "two_ok h (pf_forward p) (pf_reply p)" using assms by (simp add: pf_inv_def)
  from two_clear_reply [OF this] obtain h' r' where c: "q_clear h (pf_reply p) = Some (h', r')"
    "two_ok h' (pf_forward p) r'" "q_value h' r' = []" "q_value h' (pf_forward p) = q_value h (pf_forward p)"
    "heap_move (own2 h (pf_forward p) (pf_reply p)) h (own2 h' (pf_forward p) r') h'" by blast
  have "pf_inv h' (p\<lparr>pf_state := DISCONNECTING, pf_server := socket_close (pf_server p), pf_reply := r',
      pf_timers := Fflush_timer # pf_timers p\<rparr>) ins outs"
    using assms True c by (auto simp: pf_inv_defs dest: append_prefixD)
  with True c show ?thesis by (simp add: pf_disconnect_def pf_own_def)
qed

lemma pf_inv_live:
  "pf_inv h p ins outs \<Longrightarrow> pf_state p \<in> {CONNECTED, CONNECTING} \<Longrightarrow> \<exists>s. pf_client p = Live s"
  unfolding pf_inv_def pf_ctrl_def by blast

lemma pf_inv_reg:
  "pf_inv h p ins outs \<Longrightarrow> pf_state p = CONNECTED \<or> pf_state p = CONNECTING \<and> pf_connect_timeout p \<Longrightarrow> pf_reg p"
  unfolding pf_inv_def pf_ctrl_def by blast

lemma pf_inv_two: "pf_inv h p ins outs \<Longrightarrow> two_ok h (pf_forward p) (pf_reply p)"
  unfolding pf_inv_def by blast

lemma pf_abort_inv:
  assumes "pf_inv h p ins outs" and "pf_state p = CONNECTING \<Longrightarrow> pf_connect_timeout p"
  shows "\<exists>h' p'. pf_abort h p = Some (h', p') \<and> pf_inv h' p' ins outs \<and>
    heap_move (pf_own h p) h (pf_own h' p') h' \<and>
    (pf_state p \<in> {CONNECTED, CONNECTING} \<longrightarrow> pf_state p' = DISCONNECTED)"
proof (cases "pf_state p \<in> {CONNECTED, CONNECTING}")
  case False
  with assms show ?thesis by (auto simp: pf_abort_def heap_move_refl)
next
  case True
  have two: "two_ok h (pf_forward p) (pf_reply p)" using assms by (simp add: pf_inv_def)
  from pf_inv_live [OF assms(1) True] obtain s where s: "pf_client p = Live s" by blast
  have reg: "pf_reg p" using pf_inv_reg [OF assms(1)] assms(2) True by auto
  define p3 where "p3 = (tcp_err_cb (p\<lparr>pf_state := DISCONNECTING\<rparr>))\<lparr>pf_client := Null, pf_reg := False\<rparr>"
  have q3: "pf_forward p3 = pf_forward p" "pf_reply p3 = pf_reply p" by (simp_all add: p3_def tcp_err_cb_def)
  from two_clear_forward [OF two] obtain h1 f where c1: "q_clear h (pf_forward p) = Some (h1, f)"
    "two_ok h1 f (pf_reply p)" "q_value h1 f = []" "q_value h1 (pf_reply p) = q_value h (pf_reply p)"
    "heap_move (own2 h (pf_forward p) (pf_reply p)) h (own2 h1 f (pf_reply p)) h1" by blast
  from two_clear_reply [OF c1(2)] obtain h2 r where c2: "q_clear h1 (pf_reply p) = Some (h2, r)"
    "two_ok h2 f r" "q_value h2 r = []" "q_value h2 f = q_value h1 f"
    "heap_move (own2 h1 f (pf_reply p)) h1 (own2 h2 f r) h2" by blast
  have op: "pf_abort h p = Some (h2, p3\<lparr>pf_forward := f, pf_reply := r\<rparr>)"
    using True s reg c1(1) c2(1) q3 by (auto simp: pf_abort_def Let_def p3_def)
  have p3: "pf_state p3 = DISCONNECTED" "pf_client p3 = Null" "\<not> pf_reg p3" "wire (pf_server p3) = wire (pf_server p)"
    "\<not> socket_is_connected (pf_server p3)"
    by (auto simp: p3_def tcp_err_cb_def)
  have "prefix (wire (pf_server p)) outs" using assms(1) by (auto simp: pf_inv_def pf_data_def dest: append_prefixD)
  then have "pf_inv h2 (p3\<lparr>pf_forward := f, pf_reply := r\<rparr>) ins outs"
    using c2(2,3) p3 by (simp add: pf_inv_defs)
  with op heap_move_trans [OF c1(5) c2(5)] show ?thesis by (simp add: pf_own_def p3_def tcp_err_cb_def)
qed

text \<open>The bytes that \<^verbatim>\<open>recv\<close> takes from the local client.\<close>

definition pf_read :: "pheap \<Rightarrow> pf \<Rightarrow> byte list" where
  "pf_read h p =
     (if pf_state p \<noteq> CONNECTED then []
      else
        (case q_remaining_space h (pf_forward p) of
           None \<Rightarrow> []
         | Some space \<Rightarrow>
             (let n = min 2048 space in
              if n = 0 then []
              else (case recv_data n (pf_server p) of
                (st, bs, w) \<Rightarrow> if rcv_code st = NETCTX_RCV_OK then bs else []))))"

lemma two_space:
  assumes "two_ok h f r"
  shows "q_remaining_space h f = Some (8192 - q_total h f)"
proof -
  have "q_ok h f (q_cells h f)" "q_total h f \<le> capacity f" "capacity f = 8192"
    using assms by (auto simp: two_ok_def q_valid_ok)
  with q_size_ok show ?thesis by (simp add: q_remaining_space_def q_total_def)
qed

lemma pf_inv_server:
  assumes "pf_inv h p ins outs" "wire w = wire (pf_server p)" "fd w = fd (pf_server p)"
  shows "pf_inv h (p\<lparr>pf_server := w\<rparr>) ins outs"
  using assms by (cases "pf_client p") (simp_all add: pf_inv_defs socket_is_connected_def)

lemma pf_inv_heap:
  assumes "pf_inv h p ins outs" "two_ok h' (pf_forward p) (pf_reply p)"
    "q_value h' (pf_forward p) = q_value h (pf_forward p)" "q_value h' (pf_reply p) = q_value h (pf_reply p)"
  shows "pf_inv h' p ins outs"
  using assms by (cases "pf_client p") (simp_all add: pf_inv_def pf_data_def)

lemma pf_inv_pushed:
  assumes "pf_inv h p ins outs" "pf_state p = CONNECTED" "two_ok h' f (pf_reply p)"
    "q_value h' f = q_value h (pf_forward p) @ bs" "q_value h' (pf_reply p) = q_value h (pf_reply p)"
  shows "pf_inv h' (p\<lparr>pf_forward := f\<rparr>) (ins @ bs) outs"
proof -
  have c: "pf_ctrl p" and d: "pf_data h p ins outs" using assms(1) by (simp_all add: pf_inv_def)
  then obtain s where s: "pf_client p = Live s" using assms(2) by (auto simp: pf_ctrl_def)
  have "pf_ctrl (p\<lparr>pf_forward := f\<rparr>)" using c by (simp add: pf_ctrl_def)
  moreover have "pf_data h' (p\<lparr>pf_forward := f\<rparr>) (ins @ bs) outs"
    using d assms(2,4,5) s by (auto simp: pf_data_def)
  ultimately show ?thesis using assms(3) by (simp add: pf_inv_def)
qed

lemma pf_recv_inv:
  assumes inv: "pf_inv h p ins outs"
  shows "\<exists>ok h' p'. pf_recv mem h p = Some (ok, h', p') \<and> heap_move (pf_own h p) h (pf_own h' p') h' \<and>
    pf_state p' = pf_state p \<and> (pf_state p \<noteq> CONNECTED \<longrightarrow> pf_read h p = []) \<and>
    pf_inv h' p' (if ok then ins @ pf_read h p else ins) outs"
proof (cases "pf_state p = CONNECTED")
  case False
  with inv show ?thesis by (simp add: pf_recv_def pf_read_def heap_move_refl ex_bool_eq)
next
  case conn: True
  note two = pf_inv_two [OF inv]
  define sp n where "sp = 8192 - q_total h (pf_forward p)" and "n = min 2048 sp"
  have sp: "q_remaining_space h (pf_forward p) = Some sp" using two_space [OF two] by (simp add: sp_def)
  have n: "min 2048 sp = n" "n \<le> 2048" by (simp_all add: n_def)
  show ?thesis
  proof (cases "n = 0")
    case True
    with inv conn sp n show ?thesis by (simp add: pf_recv_def pf_read_def heap_move_refl Let_def ex_bool_eq)
  next
    case False
    obtain st bs w where r: "recv_data n (pf_server p) = (st, bs, w)" by (metis prod_cases3)
    note m = recv_data_measure [OF r]
    have w: "wire w = wire (pf_server p)" "fd w = fd (pf_server p)" using m(5,9) False by auto
    note inv1 = pf_inv_server [OF inv w]
    have own1: "pf_own h (p\<lparr>pf_server := w\<rparr>) = pf_own h p" by (simp add: pf_own_def ex_bool_eq)
    show ?thesis
    proof (cases "rcv_code st = NETCTX_RCV_OK")
      case no: False
      then have "pf_recv mem h p = Some (False, h, p\<lparr>pf_server := w\<rparr>)"
        using conn sp n r False by (simp add: pf_recv_def Let_def)
      with inv1 conn own1 heap_move_refl show ?thesis by (simp add: ex_bool_eq)
    next
      case yes: True
      have bs: "bs \<noteq> []" "rbytes st = length bs" "length bs \<le> n" using m(1) yes False by auto
      then have len: "u16 (rbytes st) = length bs" "length bs < 65536" "length bs \<le> 8192" using n(2) by auto
      have rd: "pf_read h p = bs" using conn sp n r False yes by (simp add: pf_read_def Let_def)
      show ?thesis
      proof (cases mem)
        case None
        then have "pf_recv mem h p = Some (False, h, p\<lparr>pf_server := w\<rparr>)"
          using conn sp n r False yes by (simp add: pf_recv_def Let_def pbuf_alloc_def)
        with inv1 conn own1 heap_move_refl show ?thesis by (simp add: ex_bool_eq)
      next
        case (Some junk)
        obtain p1 h1 where al: "pbuf_alloc (Some junk) (length bs) h = (p1, h1)" by fastforce
        from recv_buffer [OF al len(2) refl] obtain a h2 b where
          a: "p1 = Some a" "pbuf_take h1 (Some a) bs = Some (ERR_OK, h2)" "heap_at h2 a = Some b" and
          fl: "\<And>fl h3. h3 = (if fl then heap_put h2 a (b\<lparr>pb_flags := PBUF_FLAG_PUSH\<rparr>) else h2) \<Longrightarrow>
            chain_ok h3 (Some a) [a] \<and> ref_at h3 a = 1 \<and> chain_bytes h3 [a] = bs \<and> heap_move {} h {a} h3" by blast
        define h3 where "h3 = (if length bs \<noteq> n then heap_put h2 a (b\<lparr>pb_flags := PBUF_FLAG_PUSH\<rparr>) else h2)"
        note h3 = fl [OF h3_def]
        then have mv: "heap_move {} h {a} h3" and by3: "chain_bytes h3 [a] = bs" by auto
        note u = two_undisturbed [OF two mv Int_empty_right]
        have out: "a \<notin> set (q_cells h3 (pf_forward p))" "{a} \<inter> q_own h3 (pf_reply p) = {}"
          using u(5) by (auto simp: own2_def q_own_def)
        have push: "pushable h3 a [a] (q_cells h3 (pf_forward p))"
          using h3 bs(1) out by (simp add: pushable_def chain_simps)
        have op: "pf_recv mem h p = do {
            (ok, h4, q) \<leftarrow> q_push h3 (pf_forward p) (Some a);
            if \<not> ok then Some (False, h4, p\<lparr>pf_server := w, pf_forward := q\<rparr>)
            else do { (_, h5) \<leftarrow> pbuf_free h4 (Some a); Some (True, h5, p\<lparr>pf_server := w, pf_forward := q\<rparr>) } }"
          using conn sp n r False yes Some al a len(1) by (simp add: pf_recv_def Let_def h3_def)
        have mv0: "heap_move (pf_own h p) h (pf_own h p \<union> {a}) h3"
          using heap_move_both [OF mv, of "pf_own h p"] by (simp add: Un_commute)
        have ls: "length (chain_bytes h3 [a]) \<le> 8192" using len(3) by3 by simp
        have set1: "set [a] \<inter> q_own h3 (pf_reply p) = {}" using out(2) by simp
        show ?thesis
          using two_push_forward [OF u(1) push set1 ls]
        proof (elim disjE exE conjE)
          fix h4 f' k h5
          assume q: "q_push h3 (pf_forward p) (Some a) = Some (True, h4, f')" "pbuf_free h4 (Some a) = Some (k, h5)"
            "two_ok h5 f' (pf_reply p)" "q_value h5 f' = q_value h3 (pf_forward p) @ chain_bytes h3 [a]"
            "q_value h5 (pf_reply p) = q_value h3 (pf_reply p)"
            "heap_move (own2 h3 (pf_forward p) (pf_reply p) \<union> set [a]) h3 (own2 h5 f' (pf_reply p)) h5"
          have "pf_inv h5 (p\<lparr>pf_server := w, pf_forward := f'\<rparr>) (ins @ bs) outs"
            using pf_inv_pushed [OF inv1, of h5 f' bs] conn q(3,4,5) u(3,4) by3 by simp
          moreover have "heap_move (pf_own h p) h (own2 h5 f' (pf_reply p)) h5"
            using heap_move_trans [OF mv0] q(6) u(2) by (simp add: pf_own_def ex_bool_eq)
          ultimately show ?thesis using op q(1,2) rd conn by (simp add: pf_own_def ex_bool_eq)
        next
          assume q: "q_push h3 (pf_forward p) (Some a) = Some (False, h3, pf_forward p)"
          have "pf_inv h3 (p\<lparr>pf_server := w\<rparr>) ins outs"
            using pf_inv_heap [OF inv1, of h3] u(1,3,4) by simp
          moreover have "p\<lparr>pf_server := w, pf_forward := pf_forward p\<rparr> = p\<lparr>pf_server := w\<rparr>" by simp
          moreover have "heap_move (pf_own h p) h (pf_own h3 p) h3"
            using heap_move_shrink [OF mv0, of "pf_own h3 p"] u(2) by (auto simp: pf_own_def)
          ultimately show ?thesis using op q conn by (simp add: pf_own_def ex_bool_eq)
        qed
      qed
    qed
  qed
qed

lemma pf_inv_sent:
  assumes "pf_inv h p ins outs" "pf_client p = Live s" "two_ok h' f (pf_reply p)"
    "sent @ q_value h' f = q_value h (pf_forward p)" "accepted s' = accepted s @ sent"
    "q_value h' (pf_reply p) = q_value h (pf_reply p)"
  shows "pf_inv h' (p\<lparr>pf_forward := f, pf_client := Live s'\<rparr>) ins outs"
proof -
  have c: "pf_ctrl p" and d: "pf_data h p ins outs" using assms(1) by (simp_all add: pf_inv_def)
  have "pf_ctrl (p\<lparr>pf_forward := f, pf_client := Live s'\<rparr>)" using c assms(2) by (simp add: pf_ctrl_def)
  moreover have "accepted s' @ q_value h' f = accepted s @ q_value h (pf_forward p)" using assms(4,5) by simp
  then have "pf_data h' (p\<lparr>pf_forward := f, pf_client := Live s'\<rparr>) ins outs"
    using d assms(2,4,6) c by (simp add: pf_data_def pf_ctrl_def)
  ultimately show ?thesis using assms(3) by (simp add: pf_inv_def)
qed

lemma pf_inv_forwarded [simp]: "pf_inv h (p\<lparr>pf_forwarded := n\<rparr>) ins outs = pf_inv h p ins outs"
  by (cases "pf_client p") (simp_all add: pf_inv_defs)

lemma pf_inv_written:
  assumes "pf_inv h p ins outs" "two_ok h' (pf_forward p) r" "sent @ q_value h' r = q_value h (pf_reply p)"
    "wire w = wire (pf_server p) @ sent" "fd w = fd (pf_server p)" "q_value h' (pf_forward p) = q_value h (pf_forward p)"
  shows "pf_inv h' (p\<lparr>pf_reply := r, pf_server := w\<rparr>) ins outs"
proof -
  have "wire w @ q_value h' r = wire (pf_server p) @ q_value h (pf_reply p)"
    "socket_is_connected w = socket_is_connected (pf_server p)"
    using assms(3,4,5) by (simp_all add: socket_is_connected_def)
  with assms(1,2,6) show ?thesis by (cases "pf_client p") (simp_all add: pf_inv_defs)
qed

lemma pf_inv_outs: "pf_inv h p ins outs \<Longrightarrow> prefix (wire (pf_server p) @ q_value h (pf_reply p)) outs"
  by (simp add: pf_inv_def pf_data_def)

lemma pf_inv_outs_eq:
  "pf_inv h p ins outs \<Longrightarrow> socket_is_connected (pf_server p) \<Longrightarrow> wire (pf_server p) @ q_value h (pf_reply p) = outs"
  by (simp add: pf_inv_def pf_data_def)

text \<open>Without a connection to the remote host nothing is asked of the forward queue.\<close>

lemma pf_inv_detached:
  assumes "two_ok h (pf_forward p) (pf_reply p)" "pf_client p = Null" "\<not> pf_reg p"
    "pf_state p \<in> {DISCONNECTING, DISCONNECTED, FAILED}"
    "prefix (wire (pf_server p) @ q_value h (pf_reply p)) outs"
    "socket_is_connected (pf_server p) \<Longrightarrow> wire (pf_server p) @ q_value h (pf_reply p) = outs"
  shows "pf_inv h p ins outs"
  using assms by (auto simp: pf_inv_defs)

lemma pf_forward_inv:
  assumes inv: "pf_inv h p ins outs"
  shows "\<exists>ok h' p'. pf_forward_op h p = Some (ok, h', p') \<and> pf_inv h' p' ins outs \<and>
    heap_move (pf_own h p) h (pf_own h' p') h' \<and> pf_state p' = pf_state p"
proof (cases "pf_state p = CONNECTED")
  case False
  with inv show ?thesis by (simp add: pf_forward_op_def heap_move_refl ex_bool_eq)
next
  case True
  with pf_inv_live [OF inv] obtain s where s: "pf_client p = Live s" by blast
  from two_write_forward [OF pf_inv_two [OF inv], of s] obtain rc sent h' f s' where
    w: "oq_write_tcp h (pf_forward p) s = Some (rc, length sent, h', f, s')" "two_ok h' f (pf_reply p)"
      "sent @ q_value h' f = q_value h (pf_forward p)" "accepted s' = accepted s @ sent"
      "q_value h' (pf_reply p) = q_value h (pf_reply p)"
      "heap_move (own2 h (pf_forward p) (pf_reply p)) h (own2 h' f (pf_reply p)) h'" by blast
  note i = pf_inv_sent [OF inv s w(2,3,4,5)]
  show ?thesis
    using True s w(1,6) i by (cases "rc = 0") (simp_all add: pf_forward_op_def Let_def pf_own_def ex_bool_eq)
qed

lemma pf_reply_inv:
  assumes inv: "pf_inv h p ins outs"
  shows "\<exists>ok h' p'. pf_reply_op h p = Some (ok, h', p') \<and> pf_inv h' p' ins outs \<and>
    heap_move (pf_own h p) h (pf_own h' p') h' \<and> pf_state p' = pf_state p"
proof (cases "pf_state p = CONNECTED")
  case False
  with inv show ?thesis by (simp add: pf_reply_op_def heap_move_refl ex_bool_eq)
next
  case True
  from two_write_reply [OF pf_inv_two [OF inv], of "pf_server p"] obtain rc sent h' r w where
    w: "oq_write h (pf_reply p) (pf_server p) = Some (rc, length sent, h', r, w)" "two_ok h' (pf_forward p) r"
      "sent @ q_value h' r = q_value h (pf_reply p)" "wire w = wire (pf_server p) @ sent" "fd w = fd (pf_server p)"
      "q_value h' (pf_forward p) = q_value h (pf_forward p)"
      "heap_move (own2 h (pf_forward p) (pf_reply p)) h (own2 h' (pf_forward p) r) h'" by blast
  with True pf_inv_written [OF inv w(2-6)] show ?thesis
    by (cases "rc = 0") (simp_all add: pf_reply_op_def pf_own_def ex_bool_eq)
qed

lemma pf_flush_forward_inv:
  assumes inv: "pf_inv h p ins outs" and c: "pf_client p \<noteq> Null"
  shows "\<exists>h' p'. pf_flush_forward_queue h p = Some (h', p') \<and> pf_inv h' p' ins outs \<and>
    heap_move (pf_own h p) h (pf_own h' p') h' \<and>
    (pf_state p' = pf_state p \<or> pf_state p = DISCONNECTING \<and> pf_state p' = DISCONNECTED)"
proof (cases "pf_state p = DISCONNECTING")
  case False
  with inv show ?thesis by (simp add: pf_flush_forward_queue_def heap_move_refl)
next
  case True
  with inv have "pf_client p \<noteq> Freed" by (simp add: pf_inv_def pf_ctrl_def)
  with c obtain s where s: "pf_client p = Live s" by (cases "pf_client p") auto
  from two_write_forward [OF pf_inv_two [OF inv], of s] obtain rc sent h1 f s' where
    w: "oq_write_tcp h (pf_forward p) s = Some (rc, length sent, h1, f, s')" "two_ok h1 f (pf_reply p)"
      "sent @ q_value h1 f = q_value h (pf_forward p)" "accepted s' = accepted s @ sent"
      "q_value h1 (pf_reply p) = q_value h (pf_reply p)"
      "heap_move (own2 h (pf_forward p) (pf_reply p)) h (own2 h1 f (pf_reply p)) h1" by blast
  define p1 where "p1 = p\<lparr>pf_forward := f, pf_client := Live s'\<rparr>"
  note i = pf_inv_sent [OF inv s w(2,3,4,5), folded p1_def]
  show ?thesis
  proof (cases "rc \<noteq> ERR_OK \<or> pf_fflush_timeout p1 \<or> q_is_empty (pf_forward p1)")
    case False
    then have "pf_flush_forward_queue h p = Some (h1, p1)"
      using True s w(1) by (auto simp: pf_flush_forward_queue_def Let_def p1_def)
    with i True w(6) show ?thesis by (simp add: p1_def pf_own_def)
  next
    case fin: True
    from two_clear_forward [OF w(2)] obtain h2 f2 where c2: "q_clear h1 f = Some (h2, f2)" "two_ok h2 f2 (pf_reply p)"
      "q_value h2 (pf_reply p) = q_value h1 (pf_reply p)"
      "heap_move (own2 h1 f (pf_reply p)) h1 (own2 h2 f2 (pf_reply p)) h2" by blast
    let ?p = "p1\<lparr>pf_forward := f2, pf_reg := False, pf_client := Null, pf_state := DISCONNECTED\<rparr>"
    have op: "pf_flush_forward_queue h p = Some (h2, ?p)"
      using True s w(1) fin c2(1) by (simp add: pf_flush_forward_queue_def Let_def p1_def)
    have "pf_inv h2 ?p ins outs"
      using pf_inv_outs [OF i] pf_inv_outs_eq [OF i] c2(2,3) by (intro pf_inv_detached) (simp_all add: p1_def)
    with op heap_move_trans [OF w(6) c2(4)] True show ?thesis by (simp add: p1_def pf_own_def)
  qed
qed

lemma pf_flush_reply_inv:
  assumes inv: "pf_inv h p ins outs" and c: "socket_is_connected (pf_server p)"
  shows "\<exists>h' p'. pf_flush_reply_queue h p = Some (h', p') \<and> pf_inv h' p' ins outs \<and>
    heap_move (pf_own h p) h (pf_own h' p') h' \<and>
    (pf_state p' = pf_state p \<or> pf_state p = DISCONNECTING \<and> pf_state p' = DISCONNECTED)"
proof (cases "pf_state p = DISCONNECTING")
  case False
  with inv show ?thesis by (simp add: pf_flush_reply_queue_def heap_move_refl)
next
  case True
  then have n: "pf_client p = Null" "\<not> pf_reg p" using inv c unfolding pf_inv_def pf_ctrl_def by auto
  from two_write_reply [OF pf_inv_two [OF inv], of "pf_server p"] obtain rc sent h1 r w where
    w: "oq_write h (pf_reply p) (pf_server p) = Some (rc, length sent, h1, r, w)" "two_ok h1 (pf_forward p) r"
      "sent @ q_value h1 r = q_value h (pf_reply p)" "wire w = wire (pf_server p) @ sent" "fd w = fd (pf_server p)"
      "q_value h1 (pf_forward p) = q_value h (pf_forward p)"
      "heap_move (own2 h (pf_forward p) (pf_reply p)) h (own2 h1 (pf_forward p) r) h1" by blast
  define p1 where "p1 = p\<lparr>pf_reply := r, pf_server := w\<rparr>"
  note i = pf_inv_written [OF inv w(2-6), folded p1_def]
  show ?thesis
  proof (cases "rc \<noteq> 0 \<or> pf_rflush_timeout p1 \<or> q_is_empty (pf_forward p1)")
    case False
    then have "pf_flush_reply_queue h p = Some (h1, p1)"
      using True w(1) by (auto simp: pf_flush_reply_queue_def Let_def p1_def)
    with i True w(7) show ?thesis by (simp add: p1_def pf_own_def)
  next
    case fin: True
    from two_clear_forward [OF w(2)] obtain h2 f2 where c2: "q_clear h1 (pf_forward p) = Some (h2, f2)" "two_ok h2 f2 r"
      "q_value h2 r = q_value h1 r" "heap_move (own2 h1 (pf_forward p) r) h1 (own2 h2 f2 r) h2" by blast
    let ?p = "p1\<lparr>pf_forward := f2, pf_server := socket_close (pf_server p1), pf_state := DISCONNECTED\<rparr>"
    have op: "pf_flush_reply_queue h p = Some (h2, ?p)"
      using True w(1) fin c2(1) by (simp add: pf_flush_reply_queue_def Let_def p1_def)
    have "pf_inv h2 ?p ins outs"
      using pf_inv_outs [OF i] c2(2,3) n by (intro pf_inv_detached) (simp_all add: p1_def)
    with op heap_move_trans [OF w(7) c2(4)] True show ?thesis by (simp add: p1_def pf_own_def)
  qed
qed

text \<open>Data from the remote host arrive in a buffer of their own; the callback takes it or frees it,
  or leaves it to lwIP.\<close>

lemma tcp_recv_data_inv:
  assumes inv: "pf_inv h p ins outs" and reg: "pf_reg p"
    and ts: "pushable h a ts (q_cells h (pf_reply p))" "set ts \<inter> pf_own h p = {}"
  shows "\<exists>rc h' p'. tcp_recv_cb h p (Some a) err = Some (rc, h', p') \<and>
    pf_inv h' p' ins (if rc = ERR_OK then outs @ chain_bytes h ts else outs) \<and>
    heap_move (pf_own h p \<union> set ts) h (pf_own h' p') h' \<and> pf_state p' = pf_state p"
proof (cases "socket_is_connected (pf_server p)")
  case False
  have t: "path h (Some a) ts" "\<forall>x \<in> set ts. ref_at h x \<noteq> 0"
    using ts(1) by (auto simp: pushable_def chain_ok_def live_cells_def)
  from pbuf_free_frame [OF t] obtain n h' where f: "pbuf_free h (Some a) = Some (n, h')"
    "\<forall>x. x \<notin> set ts \<longrightarrow> heap_at h' x = heap_at h x" by blast
  have mv: "heap_move (set ts) h {} h'" using f(2) by (simp add: heap_move_def)
  have "own2 h (pf_forward p) (pf_reply p) \<inter> set ts = {}" using ts(2) by (auto simp: pf_own_def)
  note u = two_undisturbed [OF pf_inv_two [OF inv] mv this]
  have "pf_inv h' p ins outs" by (rule pf_inv_heap [OF inv u(1,3,4)])
  moreover have "pf_state p \<noteq> READY" using inv reg by (auto simp: pf_inv_def pf_ctrl_def)
  ultimately have "pf_inv h' p ins (outs @ chain_bytes h ts)"
    using False by (auto simp: pf_inv_def pf_data_def)
  moreover have "heap_move (pf_own h p \<union> set ts) h (pf_own h' p) h'"
    using heap_move_both [OF mv, of "pf_own h p"] u(2) by (simp add: pf_own_def Un_commute)
  ultimately show ?thesis using False f(1) by (simp add: tcp_recv_cb_def)
next
  case True
  have d: "set ts \<inter> q_own h (pf_forward p) = {}" using ts(2) by (auto simp: pf_own_def own2_def)
  from two_push_reply [OF pf_inv_two [OF inv] ts(1) d] show ?thesis
  proof (elim disjE exE conjE)
    fix h1 r n h2
    assume q: "q_push h (pf_reply p) (Some a) = Some (True, h1, r)" "pbuf_free h1 (Some a) = Some (n, h2)"
      "two_ok h2 (pf_forward p) r" "q_value h2 r = q_value h (pf_reply p) @ chain_bytes h ts"
      "q_value h2 (pf_forward p) = q_value h (pf_forward p)"
      "heap_move (own2 h (pf_forward p) (pf_reply p) \<union> set ts) h (own2 h2 (pf_forward p) r) h2"
    have e: "wire (pf_server p) @ q_value h2 r = outs @ chain_bytes h ts"
      using pf_inv_outs_eq [OF inv True] q(4) by (metis append_assoc)
    have "pf_state p \<noteq> READY" using inv reg by (auto simp: pf_inv_def pf_ctrl_def)
    then have "pf_inv h2 (p\<lparr>pf_reply := r\<rparr>) ins (outs @ chain_bytes h ts)"
      using inv q(3,5) e by (cases "pf_client p") (simp_all add: pf_inv_def pf_data_def pf_ctrl_def)
    with True q(1,2,6) show ?thesis by (simp add: tcp_recv_cb_def pf_own_def)
  next
    assume q: "q_push h (pf_reply p) (Some a) = Some (False, h, pf_reply p)"
    have "p\<lparr>pf_reply := pf_reply p\<rparr> = p" by simp
    with q True inv show ?thesis by (auto simp: tcp_recv_cb_def ERR_MEM_def ERR_OK_def heap_move_def)
  qed
qed

text \<open>The end of the data of the remote host.\<close>

lemma tcp_recv_end_inv:
  assumes inv: "pf_inv h p ins outs"
  shows "\<exists>rc h' p'. tcp_recv_cb h p None err = Some (rc, h', p') \<and> pf_inv h' p' ins outs \<and>
    heap_move (pf_own h p) h (pf_own h' p') h' \<and>
    (pf_state p' = pf_state p \<or> pf_state p = CONNECTED \<and> pf_state p' = DISCONNECTING)"
proof (cases "err = ERR_OK \<and> pf_state p = CONNECTED")
  case False
  with inv show ?thesis by (auto simp: tcp_recv_cb_def heap_move_refl)
next
  case True
  with pf_inv_live [OF inv] obtain s where s: "pf_client p = Live s" by blast
  from two_clear_forward [OF pf_inv_two [OF inv]] obtain h' f where c: "q_clear h (pf_forward p) = Some (h', f)"
    "two_ok h' f (pf_reply p)" "q_value h' (pf_reply p) = q_value h (pf_reply p)"
    "heap_move (own2 h (pf_forward p) (pf_reply p)) h (own2 h' f (pf_reply p)) h'" by blast
  let ?p = "p\<lparr>pf_state := DISCONNECTING, pf_client := Null, pf_reg := False, pf_forward := f,
    pf_timers := Rflush_timer # pf_timers p\<rparr>"
  have "pf_inv h' ?p ins outs"
    using pf_inv_outs [OF inv] pf_inv_outs_eq [OF inv] c(2,3) by (intro pf_inv_detached) simp_all
  with True s c(1,4) show ?thesis by (simp add: tcp_recv_cb_def pf_own_def)
qed

end
