(* ===== verification/ForwarderRun.thy ===== *)
theory ForwarderRun
  imports PortForwarder
begin

text \<open>
  The life of one port forwarder: the events the tunneler's loop and lwIP can cause, the states
  they reach, and what holds in all of them. \<open>pf_apply\<close> runs one event with the operations of the
  code; \<open>pf_enabled\<close> says when the environment can cause it (lwIP calls back only what is
  registered, hands over buffers of its own, and runs only timers that were started). The bytes
  read from the local client and those received from the remote host are recorded, to be compared
  with what the forwarder passed on.
\<close>

section \<open>The steps of the tunneler's loop\<close>

lemma pf_inv_more:
  "pf_inv h p ins outs \<Longrightarrow> pf_state p \<notin> {READY, CONNECTING, CONNECTED} \<Longrightarrow> pf_inv h p (ins @ bs) outs"
  by (cases "pf_client p") (simp_all add: pf_inv_def pf_data_def)

lemma pf_service_inv:
  assumes inv: "pf_inv h p ins outs"
  shows "\<exists>h' p'. pf_service readable writable mem h p = Some (h', p') \<and>
    pf_inv h' p' (ins @ (if readable then pf_read h p else [])) outs \<and>
    heap_move (pf_own h p) h (pf_own h' p') h' \<and>
    (pf_state p' = pf_state p \<or> (pf_state p, pf_state p') \<in> {(CONNECTED, DISCONNECTING), (DISCONNECTING, DISCONNECTED)})"
proof (cases "pf_state p = CONNECTED")
  case True
  have "\<exists>h1 p1. (if readable then do {
            (ok, h1, p1) \<leftarrow> pf_recv mem h p;
            if \<not> ok then pf_disconnect h1 p1 else Some (h1, p1)
          } else Some (h, p)) = Some (h1, p1) \<and> pf_inv h1 p1 (ins @ (if readable then pf_read h p else [])) outs \<and>
      heap_move (pf_own h p) h (pf_own h1 p1) h1 \<and> pf_state p1 \<in> {CONNECTED, DISCONNECTING}"
  proof (cases readable)
    case False
    with inv True show ?thesis by (simp add: heap_move_refl)
  next
    case rd: True
    from pf_recv_inv [OF inv, of mem] obtain ok h1 p1 where r: "pf_recv mem h p = Some (ok, h1, p1)"
      "heap_move (pf_own h p) h (pf_own h1 p1) h1" "pf_state p1 = CONNECTED"
      "pf_inv h1 p1 (if ok then ins @ pf_read h p else ins) outs" using True by auto
    show ?thesis
    proof (cases ok)
      case True
      with r rd show ?thesis by simp
    next
      case False
      with r have "pf_inv h1 p1 ins outs" by simp
      from pf_disconnect_inv [OF this] r(3) obtain h2 p2 where d: "pf_disconnect h1 p1 = Some (h2, p2)"
        "pf_inv h2 p2 ins outs" "heap_move (pf_own h1 p1) h1 (pf_own h2 p2) h2" "pf_state p2 = DISCONNECTING" by auto
      with False rd r(1) heap_move_trans [OF r(2) d(3)] pf_inv_more [OF d(2)] show ?thesis by simp
    qed
  qed
  then obtain h1 p1 where a: "(if readable then do {
            (ok, h1, p1) \<leftarrow> pf_recv mem h p;
            if \<not> ok then pf_disconnect h1 p1 else Some (h1, p1)
          } else Some (h, p)) = Some (h1, p1)"
    and i1: "pf_inv h1 p1 (ins @ (if readable then pf_read h p else [])) outs"
    and m1: "heap_move (pf_own h p) h (pf_own h1 p1) h1" and s1: "pf_state p1 \<in> {CONNECTED, DISCONNECTING}" by blast
  have svc: "pf_service readable writable mem h p = (if writable then do {
          (ok, h2, p2) \<leftarrow> pf_reply_op h1 p1;
          if \<not> ok then pf_disconnect h2 p2 else Some (h2, p2)
        } else Some (h1, p1))"
    using True unfolding pf_service_def a by (simp add: pf_is_connected_def)
  from pf_reply_inv [OF i1] obtain ok h2 p2 where r: "pf_reply_op h1 p1 = Some (ok, h2, p2)"
    "pf_inv h2 p2 (ins @ (if readable then pf_read h p else [])) outs" "heap_move (pf_own h1 p1) h1 (pf_own h2 p2) h2"
    "pf_state p2 = pf_state p1" by blast
  from pf_disconnect_inv [OF r(2)] obtain h3 p3 where d: "pf_disconnect h2 p2 = Some (h3, p3)"
    "pf_inv h3 p3 (ins @ (if readable then pf_read h p else [])) outs" "heap_move (pf_own h2 p2) h2 (pf_own h3 p3) h3"
    "pf_state p3 = (if pf_state p2 = CONNECTED then DISCONNECTING else pf_state p2)" by blast
  note m2 = heap_move_trans [OF m1 r(3)]
  show ?thesis
    using True s1 svc i1 m1 r d m2 heap_move_trans [OF m2 d(3)] by (cases writable; cases ok) auto
next
  case False
  then have rd: "pf_read h p = []" by (simp add: pf_read_def)
  show ?thesis
  proof (cases "pf_state p = DISCONNECTING \<and> writable \<and> socket_is_connected (pf_server p)")
    case True
    with False pf_flush_reply_inv [OF inv] rd show ?thesis
      by (auto simp: pf_service_def pf_is_connected_def pf_is_disconnecting_def pf_can_flush_reply_queue_def)
  next
    case no: False
    with False inv rd show ?thesis
      by (auto simp: pf_service_def pf_is_connected_def pf_is_disconnecting_def pf_can_flush_reply_queue_def heap_move_refl)
  qed
qed

lemma pf_transmit_inv:
  assumes inv: "pf_inv h p ins outs"
  shows "\<exists>h' p'. pf_transmit h p = Some (h', p') \<and> pf_inv h' p' ins outs \<and>
    heap_move (pf_own h p) h (pf_own h' p') h' \<and>
    (pf_state p' = pf_state p \<or> (pf_state p, pf_state p') \<in>
       {(CONNECTING, DISCONNECTED), (CONNECTED, DISCONNECTING), (DISCONNECTING, DISCONNECTED)})"
proof (cases "pf_has_connection_timed_out p")
  case True
  then have c: "pf_state p = CONNECTING" "pf_connect_timeout p"
    by (simp_all add: pf_has_connection_timed_out_def pf_is_connecting_def)
  from pf_abort_inv [OF inv c(2)] c(1) obtain h' p' where a: "pf_abort h p = Some (h', p')" "pf_inv h' p' ins outs"
    "heap_move (pf_own h p) h (pf_own h' p') h'" "pf_state p' = DISCONNECTED" by auto
  with True c show ?thesis
    by (simp add: pf_transmit_def pf_is_connected_def pf_is_disconnecting_def)
next
  case nt: False
  consider "pf_state p = CONNECTED" | "pf_state p = DISCONNECTING" "pf_client p \<noteq> Null"
    | "pf_state p \<noteq> CONNECTED" "pf_state p \<noteq> DISCONNECTING \<or> pf_client p = Null" by blast
  then show ?thesis
  proof cases
    case 1
    with pf_inv_live [OF inv] obtain s where s: "pf_client p = Live s" by blast
    then obtain data where dt: "pf_has_data_to_forward p = Some data" by (simp add: pf_has_data_to_forward_def)
    from pf_forward_inv [OF inv] obtain ok h1 p1 where f: "pf_forward_op h p = Some (ok, h1, p1)"
      "pf_inv h1 p1 ins outs" "heap_move (pf_own h p) h (pf_own h1 p1) h1" "pf_state p1 = pf_state p" by blast
    from pf_disconnect_inv [OF f(2)] obtain h2 p2 where d: "pf_disconnect h1 p1 = Some (h2, p2)"
      "pf_inv h2 p2 ins outs" "heap_move (pf_own h1 p1) h1 (pf_own h2 p2) h2"
      "pf_state p2 = (if pf_state p1 = CONNECTED then DISCONNECTING else pf_state p1)" by blast
    have tr: "pf_transmit h p = (if data then do {
         (ok, h2, p2) \<leftarrow> pf_forward_op h p;
         if \<not> ok then pf_disconnect h2 p2 else Some (h2, p2)
       } else Some (h, p))"
      using 1 nt dt by (simp add: pf_transmit_def pf_is_connected_def)
    show ?thesis
      using 1 inv tr f d heap_move_trans [OF f(3) d(3)] heap_move_refl [of "pf_own h p" h] by (cases data; cases ok) auto
  next
    case 2
    with nt pf_flush_forward_inv [OF inv] show ?thesis
      by (auto simp: pf_transmit_def pf_is_connected_def pf_is_disconnecting_def pf_can_flush_forward_queue_def)
  next
    case 3
    with nt inv show ?thesis
      by (auto simp: pf_transmit_def pf_is_connected_def pf_is_disconnecting_def pf_can_flush_forward_queue_def heap_move_refl)
  qed
qed

section \<open>Events\<close>

record pf_cfg =
  c_heap :: pheap
  c_pf :: pf
  c_in :: "byte list"
  c_out :: "byte list"

datatype pf_event =
    Ev_connect lwip_err "pcb option" lwip_err "byte net"
  | Ev_dns string bool lwip_err
  | Ev_connected
  | Ev_error
  | Ev_sent nat
  | Ev_data addr lwip_err
  | Ev_end lwip_err
  | Ev_timeout timer
  | Ev_ack pcb
  | Ev_heap pheap
  | Ev_service bool bool "byte list option"
  | Ev_transmit
  | Ev_abort

fun pf_enabled :: "pf_event \<Rightarrow> pf_cfg \<Rightarrow> bool" where
  "pf_enabled (Ev_connect rq np rc l) c \<longleftrightarrow>
     pf_state (c_pf c) = READY \<and> (case np of None \<Rightarrow> True | Some s \<Rightarrow> accepted s = [])"
| "pf_enabled (Ev_dns name res rc) c \<longleftrightarrow> pf_state (c_pf c) = CONNECTING \<and> \<not> pf_reg (c_pf c)"
| "pf_enabled Ev_connected c \<longleftrightarrow> pf_state (c_pf c) = CONNECTING \<and> pf_reg (c_pf c)"
| "pf_enabled Ev_error c \<longleftrightarrow> pf_reg (c_pf c)"
| "pf_enabled (Ev_sent n) c \<longleftrightarrow> pf_reg (c_pf c)"
| "pf_enabled (Ev_data a err) c \<longleftrightarrow> pf_reg (c_pf c) \<and>
     (let ts = cells (length (c_heap c)) (c_heap c) (Some a) in
      pushable (c_heap c) a ts (q_cells (c_heap c) (pf_reply (c_pf c))) \<and> set ts \<inter> pf_own (c_heap c) (c_pf c) = {})"
| "pf_enabled (Ev_end err) c \<longleftrightarrow> pf_reg (c_pf c)"
| "pf_enabled (Ev_timeout t) c \<longleftrightarrow> t \<in> set (pf_timers (c_pf c))"
| "pf_enabled (Ev_ack s') c \<longleftrightarrow> (case pf_client (c_pf c) of Live s \<Rightarrow> accepted s' = accepted s | _ \<Rightarrow> False)"
| "pf_enabled (Ev_heap h') c \<longleftrightarrow> (\<forall>x \<in> pf_own (c_heap c) (c_pf c). heap_at h' x = heap_at (c_heap c) x)"
| "pf_enabled (Ev_service r w mem) c \<longleftrightarrow> True"
| "pf_enabled Ev_transmit c \<longleftrightarrow> True"
| "pf_enabled Ev_abort c \<longleftrightarrow> pf_is_connected (c_pf c)"

definition with_state :: "pf_cfg \<Rightarrow> (pheap \<times> pf) option \<Rightarrow> pf_cfg option" where
  "with_state c r = map_option (\<lambda>(h', p'). c\<lparr>c_heap := h', c_pf := p'\<rparr>) r"

fun pf_apply :: "pf_event \<Rightarrow> pf_cfg \<Rightarrow> pf_cfg option" where
  "pf_apply (Ev_connect rq np rc l) c =
     with_state c (map_option (\<lambda>(_, _, p'). (c_heap c, p')) (pf_connect rq np rc l (c_pf c)))"
| "pf_apply (Ev_dns name res rc) c = with_state c (map_option (Pair (c_heap c)) (dns_found_cb name res rc (c_pf c)))"
| "pf_apply Ev_connected c = Some (c\<lparr>c_pf := tcp_connected_cb (c_pf c)\<rparr>)"
| "pf_apply Ev_error c = Some (c\<lparr>c_pf := tcp_err_cb (c_pf c)\<rparr>)"
| "pf_apply (Ev_sent n) c = Some (c\<lparr>c_pf := tcp_sent_cb n (c_pf c)\<rparr>)"
| "pf_apply (Ev_data a err) c = do {
     (rc, h', p') \<leftarrow> tcp_recv_cb (c_heap c) (c_pf c) (Some a) err;
     Some (c\<lparr>c_heap := h', c_pf := p', c_out := (if rc = ERR_OK
       then c_out c @ chain_bytes (c_heap c) (cells (length (c_heap c)) (c_heap c) (Some a)) else c_out c)\<rparr>)
   }"
| "pf_apply (Ev_end err) c = with_state c (map_option snd (tcp_recv_cb (c_heap c) (c_pf c) None err))"
| "pf_apply (Ev_timeout t) c = Some (c\<lparr>c_pf := timeout_cb t (c_pf c)\<rparr>)"
| "pf_apply (Ev_ack s') c = Some (c\<lparr>c_pf := (c_pf c)\<lparr>pf_client := Live s'\<rparr>\<rparr>)"
| "pf_apply (Ev_heap h') c = Some (c\<lparr>c_heap := h'\<rparr>)"
| "pf_apply (Ev_service r w mem) c =
     with_state (c\<lparr>c_in := c_in c @ (if r then pf_read (c_heap c) (c_pf c) else [])\<rparr>)
       (pf_service r w mem (c_heap c) (c_pf c))"
| "pf_apply Ev_transmit c = with_state c (pf_transmit (c_heap c) (c_pf c))"
| "pf_apply Ev_abort c = with_state c (pf_abort (c_heap c) (c_pf c))"

inductive pf_step :: "pf_cfg \<Rightarrow> pf_cfg \<Rightarrow> bool" where
  event: "pf_enabled e c \<Longrightarrow> pf_apply e c = Some c' \<Longrightarrow> pf_step c c'"

inductive_cases pf_stepE: "pf_step c c'"

inductive pf_reach :: "pf_cfg \<Rightarrow> bool" where
  start: "wire w = [] \<Longrightarrow> pf_reach \<lparr>c_heap = h, c_pf = pf_new ep nodelay w, c_in = [], c_out = []\<rparr>"
| step: "pf_reach c \<Longrightarrow> pf_step c c' \<Longrightarrow> pf_reach c'"

section \<open>The invariant of the run\<close>

definition pf_good :: "pf_cfg \<Rightarrow> bool" where
  "pf_good c \<longleftrightarrow> pf_inv (c_heap c) (c_pf c) (c_in c) (c_out c)"

text \<open>The changes of state the code makes.\<close>

fun pf_next :: "pf_state \<Rightarrow> pf_state \<Rightarrow> bool" where
  "pf_next READY s \<longleftrightarrow> s = CONNECTING \<or> s = FAILED"
| "pf_next CONNECTING s \<longleftrightarrow> s = CONNECTED \<or> s = FAILED \<or> s = DISCONNECTED"
| "pf_next CONNECTED s \<longleftrightarrow> s = DISCONNECTING \<or> s = DISCONNECTED"
| "pf_next DISCONNECTING s \<longleftrightarrow> s = DISCONNECTED"
| "pf_next _ s \<longleftrightarrow> False"

definition pf_moves :: "pf \<Rightarrow> pf \<Rightarrow> bool" where
  "pf_moves p p' \<longleftrightarrow> pf_state p' = pf_state p \<or> pf_next (pf_state p) (pf_state p')"

lemma pf_inv_new: "wire w = [] \<Longrightarrow> pf_inv h (pf_new ep nodelay w) [] []"
  using q_new_valid [of 8192 h]
  by (simp add: pf_inv_defs pf_new_def two_ok_def socket_new_def q_new_def)

lemma pf_inv_ack:
  "pf_inv h p ins outs \<Longrightarrow> pf_client p = Live s \<Longrightarrow> accepted s' = accepted s \<Longrightarrow> pf_inv h (p\<lparr>pf_client := Live s'\<rparr>) ins outs"
  by (simp add: pf_inv_defs)

lemma cells_pushable: "pushable h a ts as \<Longrightarrow> cells (length h) h (Some a) = ts"
  using cells_path path_length by (auto simp: pushable_def chain_ok_def)

lemma pf_connect_moves: "pf_connect rq np rc l p = Some (b, l', p') \<Longrightarrow> pf_moves p p'"
  by (auto simp: pf_connect_def pf_moves_def Let_def dns_found_cb_def split: if_splits prod.splits option.splits client.splits)

lemma dns_found_moves: "dns_found_cb name res rc p = Some p' \<Longrightarrow> pf_state p = CONNECTING \<Longrightarrow> pf_moves p p'"
  by (auto simp: pf_moves_def dns_found_cb_def split: if_splits client.splits)

lemma reg_state: "pf_inv h p ins outs \<Longrightarrow> pf_reg p \<Longrightarrow> pf_state p \<in> {CONNECTING, CONNECTED, DISCONNECTING}"
  unfolding pf_inv_def pf_ctrl_def by blast

text \<open>One event: it does not fault, keeps the invariant, and moves the state forward.\<close>

lemma pf_event_ok:
  assumes g: "pf_good c" and e: "pf_enabled e c"
  shows "\<exists>c'. pf_apply e c = Some c' \<and> pf_good c' \<and> pf_moves (c_pf c) (c_pf c')"
proof -
  note inv = g [unfolded pf_good_def]
  show ?thesis
  proof (cases e)
    case (Ev_connect rq np rc l)
    then have np: "\<And>s. np = Some s \<Longrightarrow> accepted s = []" using e by auto
    from pf_connect_inv [OF inv np, where rq = rq and rc = rc and l = l] obtain b l' p' where
      "pf_connect rq np rc l (c_pf c) = Some (b, l', p')" "pf_inv (c_heap c) p' (c_in c) (c_out c)" by blast
    with Ev_connect pf_connect_moves show ?thesis by (simp add: with_state_def pf_good_def)
  next
    case (Ev_dns name res rc)
    then have st: "pf_state (c_pf c) = CONNECTING" "\<not> pf_reg (c_pf c)" using e by simp_all
    from dns_found_inv [OF inv st] obtain p' where
      "dns_found_cb name res rc (c_pf c) = Some p'" "pf_inv (c_heap c) p' (c_in c) (c_out c)" by blast
    with Ev_dns st dns_found_moves show ?thesis by (simp add: with_state_def pf_good_def)
  next
    case Ev_connected
    with e tcp_connected_inv [OF inv] show ?thesis
      by (simp add: pf_good_def pf_moves_def tcp_connected_cb_def)
  next
    case Ev_error
    with e tcp_err_inv [OF inv] reg_state [OF inv] show ?thesis
      by (auto simp: pf_good_def pf_moves_def tcp_err_cb_def)
  next
    case (Ev_sent n)
    with tcp_sent_inv [OF inv] show ?thesis by (simp add: pf_good_def pf_moves_def tcp_sent_cb_def)
  next
    case (Ev_data a err)
    define ts where "ts = cells (length (c_heap c)) (c_heap c) (Some a)"
    have reg: "pf_reg (c_pf c)" and t: "pushable (c_heap c) a ts (q_cells (c_heap c) (pf_reply (c_pf c)))"
      "set ts \<inter> pf_own (c_heap c) (c_pf c) = {}"
      using e Ev_data by (simp_all add: ts_def Let_def)
    from tcp_recv_data_inv [OF inv reg t, of err] show ?thesis
      using Ev_data by (auto simp: pf_good_def pf_moves_def ts_def split: if_splits)
  next
    case (Ev_end err)
    with tcp_recv_end_inv [OF inv, of err] show ?thesis
      by (auto simp: with_state_def pf_good_def pf_moves_def)
  next
    case (Ev_timeout t)
    with e timeout_inv [OF inv] show ?thesis
      by (auto simp: pf_good_def pf_moves_def timeout_cb_def Let_def split: timer.splits)
  next
    case (Ev_ack s')
    with e obtain s where s: "pf_client (c_pf c) = Live s" "accepted s' = accepted s" by (auto split: client.splits)
    with Ev_ack pf_inv_ack [OF inv s] show ?thesis by (simp add: pf_good_def pf_moves_def)
  next
    case (Ev_heap h')
    let ?A = "- pf_own (c_heap c) (c_pf c)"
    have m: "heap_move ?A (c_heap c) {} h'" using e Ev_heap by (simp add: heap_move_def)
    have "own2 (c_heap c) (pf_forward (c_pf c)) (pf_reply (c_pf c)) \<inter> ?A = {}" by (auto simp: pf_own_def)
    note u = two_undisturbed [OF pf_inv_two [OF inv] m this]
    with Ev_heap pf_inv_heap [OF inv] show ?thesis by (simp add: pf_good_def pf_moves_def)
  next
    case (Ev_service r w mem)
    from pf_service_inv [OF inv, of r w mem] obtain h' p' where
      "pf_service r w mem (c_heap c) (c_pf c) = Some (h', p')"
      "pf_inv h' p' (c_in c @ (if r then pf_read (c_heap c) (c_pf c) else [])) (c_out c)"
      "pf_moves (c_pf c) p'" by (auto simp: pf_moves_def)
    with Ev_service show ?thesis by (simp add: with_state_def pf_good_def)
  next
    case Ev_transmit
    from pf_transmit_inv [OF inv] obtain h' p' where "pf_transmit (c_heap c) (c_pf c) = Some (h', p')"
      "pf_inv h' p' (c_in c) (c_out c)" "pf_moves (c_pf c) p'" by (auto simp: pf_moves_def)
    with Ev_transmit show ?thesis by (simp add: with_state_def pf_good_def)
  next
    case Ev_abort
    then have "pf_state (c_pf c) = CONNECTED" using e by (simp add: pf_is_connected_def)
    with pf_abort_inv [OF inv] Ev_abort show ?thesis
      by (auto simp: with_state_def pf_good_def pf_moves_def)
  qed
qed

lemma pf_reach_good: "pf_reach c \<Longrightarrow> pf_good c"
proof (induction rule: pf_reach.induct)
  case (start w h ep nodelay)
  then show ?case by (simp add: pf_good_def pf_inv_new)
next
  case (step c c')
  from step.hyps(2) obtain e where e: "pf_enabled e c" "pf_apply e c = Some c'" by (rule pf_stepE)
  from pf_event_ok [OF step.IH e(1)] e(2) show ?case by auto
qed

section \<open>Runs\<close>

text \<open>A list of events, each of them enabled when its turn comes.\<close>

fun pf_run :: "pf_event list \<Rightarrow> pf_cfg \<Rightarrow> pf_cfg option" where
  "pf_run [] c = Some c"
| "pf_run (e # es) c = (if pf_enabled e c then Option.bind (pf_apply e c) (pf_run es) else None)"

lemma pf_run_reach: "pf_reach c \<Longrightarrow> pf_run es c = Some c' \<Longrightarrow> pf_reach c'"
proof (induction es arbitrary: c)
  case (Cons e es)
  from Cons.prems(2) obtain c1 where "pf_enabled e c" "pf_apply e c = Some c1" "pf_run es c1 = Some c'"
    by (auto simp: bind_eq_Some_conv split: if_splits)
  with Cons show ?case by (blast intro: pf_reach.step pf_step.event)
qed simp

text \<open>A forwarder whose local client sends two bytes at once.\<close>

definition demo_pcb :: pcb where
  "demo_pcb = \<lparr>snd_buf = 100, unsent = False, accepted = [], writes = [], outputs = []\<rparr>"

definition demo_listener :: "byte net" where
  "demo_listener = \<lparr>is_tls = False, fd = 3, blocking = False, recvs = [], sends = [], polls = [], calls = [7],
     elapsed = [], wire = []\<rparr>"

definition demo_start :: pf_cfg where
  "demo_start = \<lparr>c_heap = [], c_pf = pf_new \<lparr>hostname = ''h'', port = 3389\<rparr> True
     \<lparr>is_tls = False, fd = -1, blocking = False, recvs = [Data [1, 2]], sends = [], polls = [], calls = [0],
      elapsed = [], wire = []\<rparr>, c_in = [], c_out = []\<rparr>"

definition demo_events :: "pf_event list" where
  "demo_events = [Ev_connect ERR_OK (Some demo_pcb) ERR_OK demo_listener, Ev_connected, Ev_service True False (Some [])]"

lemma demo_start_reach: "pf_reach demo_start"
  unfolding demo_start_def by (rule pf_reach.start) simp

lemma demo_run:
  "\<exists>c. pf_run demo_events demo_start = Some c \<and> pf_state (c_pf c) = CONNECTED \<and> c_in c = [1, 2] \<and>
     pf_client (c_pf c) = Live demo_pcb \<and> pf_reg (c_pf c)"
  by (simp add: demo_events_def demo_start_def demo_listener_def demo_pcb_def pf_new_def with_state_def pf_connect_def
      socket_accept_def socket_is_connected_def socket_new_def Let_def set_nodelay_def raw_call_def
      dns_found_cb_def tcp_connected_cb_def ssl_code_defs pf_service_def pf_is_connected_def pf_recv_def pf_read_def
      q_remaining_space_def q_size_def q_new_def recv_data_def raw_recv_def socket_recv_status_def
      pbuf_alloc_def pbuf_init_alloced_def pbuf_take_def heap_at_def heap_put_def pb_len_def pbuf_take_loop.simps
      patch_def q_push_def q_is_full_def pbuf_ref_def pbuf_free_def pbuf_free_loop.simps)

section \<open>Properties\<close>


lemma demo_reach: "pf_run demo_events demo_start = Some c \<Longrightarrow> pf_reach c"
  by (rule pf_run_reach [OF demo_start_reach])


text \<open>C17. A port forwarder relays both directions faithfully. What lwIP accepted for the remote host,
  followed by what waits in the forward queue, is a prefix of what the local client sent, and all of
  it as long as the forwarder is connected; what was written to the local client, followed by what
  waits in the reply queue, is a prefix of what lwIP delivered, and all of it as long as the local
  client is connected. Nothing is reordered, repeated or invented, and nothing is lost before the
  disconnection.\<close>

theorem relay_integrity:
  assumes "pf_reach c"
  defines "p \<equiv> c_pf c"
  shows "(\<forall>s. pf_client p = Live s \<longrightarrow> prefix (accepted s @ q_content (c_heap c, pf_forward p)) (c_in c)) \<and>
    (pf_state p = CONNECTED \<longrightarrow>
       (\<exists>s. pf_client p = Live s \<and> accepted s @ q_content (c_heap c, pf_forward p) = c_in c)) \<and>
    prefix (wire (pf_server p) @ q_content (c_heap c, pf_reply p)) (c_out c) \<and>
    (socket_is_connected (pf_server p) \<longrightarrow> wire (pf_server p) @ q_content (c_heap c, pf_reply p) = c_out c)"
proof -
  have i: "pf_inv (c_heap c) p (c_in c) (c_out c)" using pf_reach_good [OF assms(1)] by (simp add: pf_good_def p_def)
  then have d: "pf_data (c_heap c) p (c_in c) (c_out c)" by (simp add: pf_inv_def)
  show ?thesis using d pf_inv_live [OF i] by (auto simp: pf_data_def q_value_def)
qed

theorem relay_integrity_witness:
  "\<exists>c s. pf_run demo_events demo_start = Some c \<and> c_in c = [1, 2] \<and> pf_client (c_pf c) = Live s \<and>
     accepted s = [] \<and> q_content (c_heap c, pf_forward (c_pf c)) = [1, 2]"
proof -
  obtain c where c: "pf_run demo_events demo_start = Some c" and st: "pf_state (c_pf c) = CONNECTED"
    "c_in c = [1, 2]" "pf_client (c_pf c) = Live demo_pcb" using demo_run by blast
  from relay_integrity [OF demo_reach [OF c]] c st show ?thesis by (auto simp: demo_pcb_def)
qed



text \<open>The forward queue never holds more than its capacity of 8192 bytes, its free space is
  computed without wrapping around, and a forwarder that has no room left reads nothing from the
  local client.\<close>

theorem forward_queue_bounded:
  assumes "pf_reach c"
  shows "\<exists>n. q_size (c_heap c) (pf_forward (c_pf c)) = Some n \<and> n \<le> 8192 \<and>
    q_remaining_space (c_heap c) (pf_forward (c_pf c)) = Some (8192 - n) \<and>
    pf_can_receive_data (c_heap c) (c_pf c) = Some (n < 8192) \<and>
    length (pf_read (c_heap c) (c_pf c)) \<le> min 2048 (8192 - n)"
proof -
  let ?h = "c_heap c" and ?f = "pf_forward (c_pf c)"
  have two: "two_ok ?h ?f (pf_reply (c_pf c))"
    using pf_reach_good [OF assms] by (simp add: pf_good_def pf_inv_def)
  then have n: "q_size ?h ?f = Some (q_total ?h ?f)" "q_total ?h ?f \<le> 8192"
    using q_size_ok by (auto simp: two_ok_def q_valid_ok q_total_def)
  note sp = two_space [OF two]
  have "length (pf_read ?h (c_pf c)) \<le> min 2048 (8192 - q_total ?h ?f)"
    using recv_data_measure(1) by (fastforce simp: pf_read_def sp Let_def split: prod.splits)
  moreover have "pf_can_receive_data ?h (c_pf c) = Some (q_total ?h ?f < 8192)"
    using n by (auto simp: pf_can_receive_data_def q_is_full_def sp)
  ultimately show ?thesis using n sp by auto
qed

theorem forward_queue_bounded_witness:
  "\<exists>c n. pf_run demo_events demo_start = Some c \<and> q_size (c_heap c) (pf_forward (c_pf c)) = Some n \<and> n \<le> 8192"
proof -
  obtain c where c: "pf_run demo_events demo_start = Some c" using demo_run by blast
  from forward_queue_bounded [OF demo_reach [OF c]] c show ?thesis by blast
qed


definition demo_timeout :: "pf_event list" where
  "demo_timeout = [Ev_connect ERR_OK (Some demo_pcb) ERR_OK demo_listener, Ev_timeout Connect_timer]"

lemma demo_timeout_run: "\<exists>c. pf_run demo_timeout demo_start = Some c \<and> pf_has_connection_timed_out (c_pf c)"
  by (simp add: demo_timeout_def demo_start_def demo_listener_def demo_pcb_def pf_new_def with_state_def pf_connect_def
      socket_accept_def socket_is_connected_def socket_new_def Let_def set_nodelay_def raw_call_def
      dns_found_cb_def timeout_cb_def ssl_code_defs pf_has_connection_timed_out_def pf_is_connecting_def)


text \<open>After the remote host closed the connection, the first attempt to write the remaining
  replies is the last one, because \<^verbatim>\<open>flush_reply_queue\<close> looks at the (empty) forward queue instead of
  the reply queue: replies the local client could not take at once are dropped, and the queue that
  holds them is not cleared.\<close>

theorem flush_drops_replies:
  "let p = (pf_new \<lparr>hostname = ''h'', port = 3389\<rparr> True (socket_new False demo_listener))
         \<lparr>pf_state := DISCONNECTING, pf_server := demo_listener,
          pf_reply := \<lparr>capacity = 8192, qchain = Some 0, qoffset = 0\<rparr>\<rparr>;
       h = [Some (demo_pbuf [1, 2, 3])]
   in pf_inv h p [] [1, 2, 3] \<and>
      (\<exists>p'. pf_flush_reply_queue h p = Some (h, p') \<and> pf_state p' = DISCONNECTED \<and>
        wire (pf_server p') = [] \<and> pf_reply p' = pf_reply p \<and> q_content (h, pf_reply p') = [1, 2, 3])"
proof -
  let ?h = "[Some (demo_pbuf [1, 2, 3])]" and ?q = "\<lparr>capacity = 8192, qchain = Some 0, qoffset = 0\<rparr>"
  have q: "q_ok ?h ?q [0]"
    by (simp add: q_ok_def chain_ok_def live_cells_def chain_bytes_def payload_at_def tot_at_def ref_at_def
        heap_at_def demo_pbuf_def pbuf_init_alloced_def)
  note v = q_ok_valid [OF q]
  have c: "q_value ?h ?q = [1, 2, 3]"
    using v(3) by (simp add: q_bytes_def chain_bytes_def payload_at_def heap_at_def demo_pbuf_def pbuf_init_alloced_def)
  have w: "oq_write ?h ?q demo_listener = Some (0, 0, ?h, ?q, demo_listener)"
    by (simp add: oq_write_def oq_write_loop.simps q_is_empty_def NET_SND_OK_def q_get_cblock_def q_get_cblock_n_def
        heap_at_def demo_pbuf_def pbuf_init_alloced_def pb_len_def Let_def demo_listener_def send_data_def raw_send_def
        socket_send_status_def ssl_code_defs)
  show ?thesis
    using v(1,2) c w q_new_valid [of 8192 ?h]
    by (simp add: Let_def pf_flush_reply_queue_def pf_new_def q_is_empty_def q_new_def q_clear_def pf_inv_defs two_ok_def
        q_value_def demo_listener_def)
qed

end
