(* ===== verification/InterfaceObject.thy ===== *)
theory InterfaceObject
  imports PPInterface QueueObject
begin

text \<open>
  The PPP interface as an object of the shared heap. It owns the cells of its output queue and the
  packet its parser is building; sending, receiving, framing an outgoing packet and the keep-alive
  move cells between the two, the owner of a packet and the free memory, and disturb nothing else.
\<close>

definition link_own :: "ppp_pcb option \<Rightarrow> addr set" where
  "link_own b = (case b of None \<Rightarrow> {} | Some b \<Rightarrow> in_own (pcb_link b))"

definition link_ok :: "pheap \<Rightarrow> ppp_pcb option \<Rightarrow> bool" where
  "link_ok h b \<longleftrightarrow> (case b of None \<Rightarrow> True | Some b \<Rightarrow> ppp_in_ok h (pcb_link b))"

definition pp_own :: "pheap \<Rightarrow> ppif \<Rightarrow> addr set" where
  "pp_own h i = q_own h (pp_queue i) \<union> link_own (pp_pcb i)"

definition pp_valid :: "pheap \<Rightarrow> ppif \<Rightarrow> bool" where
  "pp_valid h i \<longleftrightarrow> q_valid h (pp_queue i) \<and> capacity (pp_queue i) = 32768 \<and> link_ok h (pp_pcb i) \<and>
     q_own h (pp_queue i) \<inter> link_own (pp_pcb i) = {}"

lemmas link_simps [simp] = link_own_def link_ok_def

lemma ppp_in_ok_frame:
  assumes "ppp_in_ok h p" "\<And>x. x \<in> in_own p \<Longrightarrow> heap_at h' x = heap_at h x"
  shows "ppp_in_ok h' p"
proof (cases "in_state p = PP_HEADER")
  case True
  with assms(1) show ?thesis by (simp add: ppp_in_ok_def)
next
  case False
  with assms(1) obtain a where a: "in_data p = Some a" by (auto simp: ppp_in_ok_def in_cell_ok_def split: option.splits)
  with assms(2) have same: "heap_at h' a = heap_at h a" by (simp add: in_own_def)
  then have "chain_ok h' (Some a) [a] = chain_ok h (Some a) [a]" by (intro chain_ok_cong) simp
  with same a have "in_cell_ok h' p = in_cell_ok h p" by (simp add: in_cell_ok_def ref_at_def payload_at_def)
  with False assms(1) show ?thesis by (simp add: ppp_in_ok_def)
qed

lemma in_own_alive: "ppp_in_ok h p \<Longrightarrow> x \<in> in_own p \<Longrightarrow> heap_at h x \<noteq> None"
  by (auto simp: ppp_in_ok_def in_own_def in_cell_ok_def ref_at_def split: option.splits if_splits)

lemma link_frame:
  "link_ok h b \<Longrightarrow> heap_move A h B h' \<Longrightarrow> link_own b \<inter> A = {} \<Longrightarrow> link_ok h' b \<and> link_own b \<inter> B = {}"
proof (cases b)
  case (Some l)
  assume a: "link_ok h b" "heap_move A h B h'" "link_own b \<inter> A = {}"
  have same: "heap_at h' x = heap_at h x" if "x \<in> in_own (pcb_link l)" for x
    using a Some that in_own_alive [of h "pcb_link l" x] by (auto simp: heap_move_def)
  have "x \<notin> B" if "x \<in> in_own (pcb_link l)" for x
    using a Some that in_own_alive [of h "pcb_link l" x] by (auto simp: heap_move_def)
  with same a(1) Some ppp_in_ok_frame [of h "pcb_link l" h'] show ?thesis by auto
qed simp

interpretation hp: heap_object pp_valid pp_own "\<lambda>h i. q_value h (pp_queue i)"
proof
  fix h h' :: pheap and i x
  assume v: "pp_valid h i"
  then show "x \<in> pp_own h i \<Longrightarrow> heap_at h x \<noteq> None"
    using hq.alive in_own_alive by (auto simp: pp_valid_def pp_own_def split: option.splits)
  assume same: "\<And>x. x \<in> pp_own h i \<Longrightarrow> heap_at h' x = heap_at h x"
  have "q_valid h' (pp_queue i) \<and> q_own h' (pp_queue i) = q_own h (pp_queue i) \<and>
      q_value h' (pp_queue i) = q_value h (pp_queue i)"
    using hq.frame [of h "pp_queue i" h'] v same by (auto simp: pp_valid_def pp_own_def)
  moreover have "link_ok h' (pp_pcb i)"
    using v same ppp_in_ok_frame by (auto simp: pp_valid_def pp_own_def split: option.splits)
  ultimately show "pp_valid h' i \<and> pp_own h' i = pp_own h i \<and> q_value h' (pp_queue i) = q_value h (pp_queue i)"
    using v by (simp add: pp_valid_def pp_own_def)
qed

lemma pp_new_valid: "pp_valid h pp_new" "pp_own h pp_new = {}" "q_value h (pp_queue pp_new) = []"
  using q_new_valid [of 32768 h] by (simp_all add: pp_valid_def pp_own_def pp_new_def q_new_def)

text \<open>A change of the queue, and a change of the parser.\<close>

lemma pp_queue_move:
  assumes v: "pp_valid h i" and q: "q_valid h' q'" "capacity q' = 32768"
    and m: "heap_move (q_own h (pp_queue i)) h (q_own h' q') h'"
    and i': "pp_queue i' = q'" "link_own (pp_pcb i') = link_own (pp_pcb i)"
      "link_ok h' (pp_pcb i) \<Longrightarrow> link_ok h' (pp_pcb i')"
  shows "pp_valid h' i'" "heap_move (pp_own h i) h (pp_own h' i') h'"
proof -
  from v have l: "link_ok h (pp_pcb i)" "link_own (pp_pcb i) \<inter> q_own h (pp_queue i) = {}" by (auto simp: pp_valid_def)
  note f = link_frame [OF l(1) m l(2)]
  show "pp_valid h' i'" using v q i' f by (auto simp: pp_valid_def)
  show "heap_move (pp_own h i) h (pp_own h' i') h'"
    using heap_move_both [OF m, of "link_own (pp_pcb i)"] i' unfolding pp_own_def by simp
qed

lemma pp_send_move:
  assumes "pp_valid h i"
  shows "\<exists>ok h' i' w'. pp_send h i w = Some (ok, h', i', w') \<and> pp_valid h' i' \<and>
    heap_move (pp_own h i) h (pp_own h' i') h' \<and> pp_pcb i' = pp_pcb i \<and> fd w' = fd w \<and>
    (\<exists>sent. sent @ q_value h' (pp_queue i') = q_value h (pp_queue i) \<and> wire w' = wire w @ sent)"
proof (cases "q_is_empty (pp_queue i)")
  case True
  with assms show ?thesis
    by (intro exI [of _ True] exI [of _ h] exI [of _ i] exI [of _ w]) (simp add: pp_send_def heap_move_refl)
next
  case False
  have v: "q_valid h (pp_queue i)" "capacity (pp_queue i) = 32768" using assms by (simp_all add: pp_valid_def)
  then obtain st sent h' q' w' where l: "oq_write_loop h (pp_queue i) w NET_SND_OK 0 = Some (st, 0 + length sent, h', q', w')"
    "q_inv (h', q')" "sent @ q_content (h', q') = q_content (h, pp_queue i)" "wire w' = wire w @ sent" "fd w' = fd w"
    "q_keeps (h, pp_queue i) (h', q')"
    using oq_write_loop_ok [of h "pp_queue i" w NET_SND_OK 0] by (auto simp: q_valid_def)
  have k: "q_valid h' q'" "capacity q' = 32768" using l(2,6) v by (auto simp: q_valid_def q_keeps_def)
  have m: "pp_valid h' i'" "heap_move (pp_own h i) h (pp_own h' i') h'"
    if "pp_queue i' = q'" "pp_pcb i' = pp_pcb i" for i'
    using pp_queue_move [OF assms k q_keeps_move [OF l(6)], of i'] that by auto
  from False l m show ?thesis by (fastforce simp: pp_send_def oq_write_def q_value_def Let_def)
qed

lemma pp_recv_move:
  assumes "pp_valid h i" and "pp_pcb i \<noteq> None"
  shows "\<exists>ok h' i' w'. pp_recv h i w = Some (ok, h', i', w') \<and> pp_valid h' i' \<and>
    heap_move (pp_own h i) h (pp_own h' i') h' \<and> pp_pcb i' \<noteq> None \<and> fd w' = fd w \<and> wire w' = wire w \<and>
    pp_queue i' = pp_queue i \<and> q_value h' (pp_queue i) = q_value h (pp_queue i)"
proof -
  from assms(2) obtain b where b: "pp_pcb i = Some b" by blast
  obtain st bs w' where r: "recv_data 4096 w = (st, bs, w')" by (metis prod_cases3)
  note w' = recv_data_measure(5,9) [OF r]
  have l: "ppp_in_ok h (pcb_link b)" "q_own h (pp_queue i) \<inter> in_own (pcb_link b) = {}" "q_valid h (pp_queue i)"
    using assms(1) b by (simp_all add: pp_valid_def)
  from pppossl_input_moves [OF l(1), of bs] obtain err h' p' where
    n: "pppossl_input h (pcb_link b) bs = Some (err, h', p')" "ppp_in_ok h' p'"
      "heap_move (in_own (pcb_link b)) h (in_own p') h'" by (auto simp: input_moves_def)
  note u = hq.undisturbed [OF l(3,2) n(3)]
  have m: "pp_valid h' i' \<and> heap_move (pp_own h i) h (pp_own h' i') h'"
    if "pp_queue i' = pp_queue i" "pp_pcb i' = Some (b\<lparr>pcb_link := p'\<rparr>)" for i'
    using that u n(2) assms(1) b heap_move_both [OF n(3), of "q_own h (pp_queue i)"]
    by (simp add: pp_valid_def pp_own_def Un_ac)
  have "q_value h' (pp_queue i) = q_value h (pp_queue i)" using u(3) by simp
  then show ?thesis using assms b r n(1) m w'
    by (cases "rcv_code st") (auto simp: pp_recv_def heap_move_refl)
qed

section \<open>Output\<close>

text \<open>What is queued only ever grows by whole frames.\<close>

definition frames_ext :: "byte list \<Rightarrow> byte list \<Rightarrow> bool" where
  "frames_ext s s' \<longleftrightarrow> (\<exists>ps. s' = s @ concat (map frame_of ps))"

lemma frames_ext_refl [simp]: "frames_ext s s"
  unfolding frames_ext_def by (rule exI [of _ "[]"]) simp

lemma frames_ext_one: "frames_ext s (s @ frame_of bs)"
  unfolding frames_ext_def by (rule exI [of _ "[bs]"]) simp

lemma frames_ext_trans: "frames_ext s s' \<Longrightarrow> frames_ext s' s'' \<Longrightarrow> frames_ext s s''"
  unfolding frames_ext_def by (metis append.assoc concat_append map_append)

lemma frames_ext_prepend: "frames_ext s s' \<Longrightarrow> frames_ext (w @ s) (w @ s')"
  by (auto simp: frames_ext_def)

text \<open>lwIP sends a packet through the interface: the link callback of the PPP block.\<close>

definition pp_output :: "nat \<Rightarrow> addr \<Rightarrow> nat \<Rightarrow> pheap \<Rightarrow> ppif \<Rightarrow> (pheap \<times> ppif) option" where
  "pp_output now pb protocol h i =
     (case pp_pcb i of
        None \<Rightarrow> Some (h, i)
      | Some b \<Rightarrow> do {
          (_, l, h', q') \<leftarrow> pppossl_netif_output ppp_output_cb now (pcb_link b) h (pp_queue i) pb protocol;
          Some (h', i\<lparr>pp_queue := q', pp_pcb := Some (b\<lparr>pcb_link := l\<rparr>)\<rparr>)
        })"

lemma in_same_ok: "in_same p p' \<Longrightarrow> ppp_in_ok h p = ppp_in_ok h p' \<and> in_own p' = in_own p"
  by (auto simp: in_same_def ppp_in_ok_def in_own_def in_cell_ok_def split: option.splits)

lemma netif_output_move:
  assumes v: "pp_valid h i" and b: "pp_pcb i = Some b" and l: "in_same (pcb_link b) l"
    and ok: "chain_ok h (Some a) as" and live: "\<forall>x \<in> set as. ref_at h x \<noteq> 0" and share: "ref_at h a + 1 \<noteq> 0"
    and dis: "set as \<inter> pp_own h i = {}" and len: "length (chain_bytes h as) + 10 < 65536"
  shows "\<exists>err l' h' q'. pppossl_netif_output ppp_output_cb now l h (pp_queue i) a protocol = Some (err, l', h', q') \<and>
    path h' (Some a) as \<and> (\<forall>x \<in> set as. ref_at h' x = ref_at h x) \<and>
    frames_ext (q_value h (pp_queue i)) (q_value h' q') \<and>
    (\<forall>i'. pp_queue i' = q' \<longrightarrow> (\<exists>b'. pp_pcb i' = Some b' \<and> pcb_link b' = l') \<longrightarrow>
       pp_valid h' i' \<and> heap_move (pp_own h i \<union> set as) h (pp_own h' i') h' \<and> set as \<inter> pp_own h' i' = {})"
proof -
  have q: "q_valid h (pp_queue i)" "capacity (pp_queue i) = 32768" and lk: "ppp_in_ok h (pcb_link b)"
    "q_own h (pp_queue i) \<inter> in_own (pcb_link b) = {}" using v b by (simp_all add: pp_valid_def)
  have pq: "pq_inv h (pp_queue i)" using q by (simp add: pq_inv_def q_valid_def)
  have dq: "set (q_cells h (pp_queue i)) \<inter> set as = {}" using dis by (auto simp: pp_own_def q_own_def)
  from ppo.netif_output_ok [OF pq ok live share dq len, of now l protocol] obtain err l' h' q' where
    o: "pppossl_netif_output ppp_output_cb now l h (pp_queue i) a protocol = Some (err, l', h', q')"
      "pq_inv h' q'" "in_same l l'"
      "heap_move (q_own h (pp_queue i) \<union> set as) h (q_own h' q') h'" "q_own h' q' \<inter> set as = {}"
      "path h' (Some a) as" "\<forall>x \<in> set as. ref_at h' x = ref_at h x" "capacity q' = 32768"
      "frames_ext (q_value h (pp_queue i)) (q_value h' q')"
    unfolding q_own_def q_value_def by (auto simp: pq_inv_def frames_ext_one)
  have l': "in_own l' = in_own (pcb_link b)" "ppp_in_ok h' l' = ppp_in_ok h' (pcb_link b)"
    using in_same_ok [OF l, of h'] in_same_ok [OF o(3), of h'] by simp_all
  have "link_ok h (pp_pcb i)" "link_own (pp_pcb i) \<inter> (q_own h (pp_queue i) \<union> set as) = {}"
    using lk dis b by (auto simp: pp_own_def)
  note f = link_frame [OF this(1) o(4) this(2)]
  have "pp_valid h' i' \<and> heap_move (pp_own h i \<union> set as) h (pp_own h' i') h' \<and> set as \<inter> pp_own h' i' = {}"
    if "pp_queue i' = q'" "pp_pcb i' = Some b'" "pcb_link b' = l'" for i' b'
    using that f b l' o(2,5,8) dis heap_move_both [OF o(4), of "in_own (pcb_link b)"]
    by (auto simp: pp_valid_def pp_own_def pq_inv_def q_valid_def Un_ac)
  with o(1,6,7,9) show ?thesis by blast
qed

lemma pp_output_move:
  assumes v: "pp_valid h i" and ok: "chain_ok h (Some a) as" and live: "\<forall>x \<in> set as. ref_at h x \<noteq> 0"
    and share: "ref_at h a + 1 \<noteq> 0" and dis: "set as \<inter> pp_own h i = {}" and len: "length (chain_bytes h as) + 10 < 65536"
  shows "\<exists>h' i'. pp_output now a protocol h i = Some (h', i') \<and> pp_valid h' i' \<and>
    heap_move (pp_own h i \<union> set as) h (pp_own h' i') h' \<and> (pp_pcb i' = None \<longleftrightarrow> pp_pcb i = None) \<and>
    frames_ext (q_value h (pp_queue i)) (q_value h' (pp_queue i'))"
proof (cases "pp_pcb i")
  case None
  with v show ?thesis by (auto simp: pp_output_def heap_move_def)
next
  case (Some b)
  have "in_same (pcb_link b) (pcb_link b)" by (simp add: in_same_def)
  from netif_output_move [OF v Some this ok live share dis len, of now protocol] Some show ?thesis
    by (fastforce simp: pp_output_def)
qed

lemma pp_keep_alive_move:
  assumes v: "pp_valid h i"
  shows "\<exists>h' i'. pp_send_keep_alive now h i = Some (h', i') \<and> pp_valid h' i' \<and>
    heap_move (pp_own h i) h (pp_own h' i') h' \<and> (pp_pcb i' = None \<longleftrightarrow> pp_pcb i = None) \<and>
    frames_ext (q_value h (pp_queue i)) (q_value h' (pp_queue i'))"
proof (cases "\<exists>b. pp_pcb i = Some b \<and> fsm_opened (pcb_lcp b) \<and>
    unat (of_nat now - of_nat (last_xmit (pcb_link b)) :: 32 word) > PPP_MAXIDLE")
  case False
  with v show ?thesis by (auto simp: pp_send_keep_alive_def heap_move_refl split: option.splits)
next
  case True
  then obtain b where b: "pp_pcb i = Some b" "fsm_opened (pcb_lcp b)"
    "unat (of_nat now - of_nat (last_xmit (pcb_link b)) :: 32 word) > PPP_MAXIDLE" by blast
  obtain m l where m: "next_mem (pcb_link b) = (m, l)" by (cases "next_mem (pcb_link b)")
  have same: "in_same (pcb_link b) l" by (rule next_mem_same [OF m])
  show ?thesis
  proof (cases m)
    case None
    let ?i = "i\<lparr>pp_queue := pp_queue i, pp_pcb := Some (b\<lparr>pcb_lcp := pcb_lcp b, pcb_link := l\<rparr>)\<rparr>"
    have "pp_send_keep_alive now h i = Some (h, ?i)"
      using b m None by (simp add: pp_send_keep_alive_def pppossl_send_ka_def pbuf_alloc_def)
    moreover have "pp_valid h ?i" "pp_own h ?i = pp_own h i"
      using v b in_same_ok [OF same, of h] by (auto simp: pp_valid_def pp_own_def)
    ultimately show ?thesis using b by (auto simp: heap_move_refl)
  next
    case (Some junk)
    obtain p h1 where al: "pbuf_alloc (Some junk) 8 h = (p, h1)" by (cases "pbuf_alloc (Some junk) 8 h")
    from pbuf_alloc_cell [OF al] obtain a where a: "p = Some a" "chain_ok h1 (Some a) [a]" "ref_at h1 a = 1"
      "length (payload_at h1 a) = 8" "\<forall>x. x \<noteq> a \<longrightarrow> heap_at h1 x = heap_at h x" "a = length h" by auto
    from a(3) obtain c where c: "heap_at h1 a = Some c" by (auto simp: ref_at_def split: option.splits)
    let ?l1 = "(pcb_lcp b)\<lparr>fsm_id := (fsm_id (pcb_lcp b) + 1) mod 256\<rparr>"
    let ?rq = "discard_request (fsm_id ?l1) (magicnumber ?l1)"
    define h2 where "h2 = heap_put h1 a (c\<lparr>pb_payload := patch (pb_payload c) 0 ?rq\<rparr>)"
    have rq: "length ?rq = 8" by (simp add: discard_request_def be16_def le32_def)
    have st: "heap_store h1 a 0 ?rq = Some h2"
      unfolding h2_def using c a(4) rq by (intro heap_store_ok) (auto simp: pb_len_def payload_at_def)
    have fresh: "heap_at h a = None" using a(6) by (simp add: heap_at_def)
    have al2: "a < length h1" using c heap_at_length by blast
    have oth: "x \<noteq> a \<Longrightarrow> heap_at h2 x = heap_at h x" for x using a(5) al2 by (simp add: heap_at_put h2_def)
    have at2: "heap_at h2 a = Some (c\<lparr>pb_payload := patch (pb_payload c) 0 ?rq\<rparr>)" using al2 by (simp add: heap_at_put h2_def)
    have pl: "length (patch (pb_payload c) 0 ?rq) = 8" using c a(4) rq by (simp add: payload_at_def patch_def)
    have ok2: "chain_ok h2 (Some a) [a]" "ref_at h2 a = 1" "length (chain_bytes h2 [a]) = 8"
      using a(2,3,4) c at2 pl by (auto simp: chain_ok_def chain_simps tot_at_def ref_at_def payload_at_def)
    have "a \<notin> pp_own h i" using hp.alive [OF v, of a] fresh by blast
    then have mv1: "heap_move (pp_own h i) h (insert a (pp_own h i)) h2" and keep: "heap_move {} h {a} h2"
      using oth fresh by (auto simp: heap_move_def) (metis option.distinct(1))+
    have "pp_own h i \<inter> {} = {}" by simp
    note u = hp.undisturbed [OF v this keep]
    have ml: "\<forall>x \<in> set [a]. ref_at h2 x \<noteq> 0" "ref_at h2 a + 1 \<noteq> 0" using ok2(2) by simp_all
    have dis: "set [a] \<inter> pp_own h2 i = {}" using u(4) by auto
    from netif_output_move [OF u(1) b(1) same ok2(1) ml dis, of now "0xC021"] ok2(3)
    obtain err l' h3 q' where o: "pppossl_netif_output ppp_output_cb now l h2 (pp_queue i) a 0xC021 = Some (err, l', h3, q')"
      "path h3 (Some a) [a]" "ref_at h3 a = 1"
      "frames_ext (q_value h2 (pp_queue i)) (q_value h3 q')"
      "\<forall>i'. pp_queue i' = q' \<longrightarrow> (\<exists>b'. pp_pcb i' = Some b' \<and> pcb_link b' = l') \<longrightarrow>
       pp_valid h3 i' \<and> heap_move (pp_own h2 i \<union> set [a]) h2 (pp_own h3 i') h3 \<and> set [a] \<inter> pp_own h3 i' = {}"
      using ok2(2) by auto
    let ?i = "i\<lparr>pp_queue := q', pp_pcb := Some (b\<lparr>pcb_lcp := ?l1, pcb_link := l'\<rparr>)\<rparr>"
    from o(5) [rule_format, of ?i] have i': "pp_valid h3 ?i" "heap_move (pp_own h2 i \<union> {a}) h2 (pp_own h3 ?i) h3"
      "a \<notin> pp_own h3 ?i" by auto
    from pbuf_free_frame [OF o(2)] o(3) obtain n h4 where fr: "pbuf_free h3 (Some a) = Some (n, h4)"
      "\<forall>x. x \<noteq> a \<longrightarrow> heap_at h4 x = heap_at h3 x" by auto
    have fm: "heap_move {a} h3 {} h4" using fr(2) by (auto simp: heap_move_def)
    have "pp_own h3 ?i \<inter> {a} = {}" using i'(3) by simp
    note w = hp.undisturbed [OF i'(1) this fm]
    have mv2: "heap_move (insert a (pp_own h i)) h2 (insert a (pp_own h3 ?i)) h3"
      using i'(2) u(2) by (auto simp: heap_move_def)
    have mv3: "heap_move (insert a (pp_own h3 ?i)) h3 (pp_own h4 ?i) h4"
      using w(2) i'(3) fr(2) by (auto simp: heap_move_def)
    have "pp_send_keep_alive now h i = Some (h4, ?i)"
      using b m Some al a(1) st o(1) fr(1) by (simp add: pp_send_keep_alive_def pppossl_send_ka_def)
    moreover have "frames_ext (q_value h (pp_queue i)) (q_value h4 (pp_queue ?i))" using o(4) u(3) w(3) by simp
    ultimately show ?thesis using w(1) heap_move_trans [OF heap_move_trans [OF mv1 mv2] mv3] b(1) by auto
  qed
qed

end
