(* ===== verification/Forwarders.thy ===== *)
theory Forwarders
  imports ForwarderRun
begin

text \<open>
  The list of active port forwarders, \<^verbatim>\<open>net/PortForwarders.cpp\<close>, and the forwarder as an object of
  the shared heap: in every reachable state it owns the cells of its two queues, and each of its
  events is a move of these cells.
\<close>

section \<open>The list\<close>

text \<open>The predicate \<open>check_cb\<close> selects the forwarders that are deleted; the result is their number.\<close>

fun pfs_delete_having_state :: "(pf \<Rightarrow> bool) \<Rightarrow> pf list \<Rightarrow> nat \<times> pf list" where
  "pfs_delete_having_state check_cb [] = (0, [])"
| "pfs_delete_having_state check_cb (p # ps) =
     (case pfs_delete_having_state check_cb ps of (count, ps') \<Rightarrow>
        if check_cb p then (count + 1, ps') else (count, p # ps'))"

fun pfs_abort_all :: "pheap \<Rightarrow> pf list \<Rightarrow> (nat \<times> pheap \<times> pf list) option" where
  "pfs_abort_all h [] = Some (0, h, [])"
| "pfs_abort_all h (p # ps) =
     (if pf_is_connected p then do {
        (h1, p') \<leftarrow> pf_abort h p;
        (counter, h2, ps') \<leftarrow> pfs_abort_all h1 ps;
        Some (counter + 1, h2, p' # ps')
      }
      else do {
        (counter, h2, ps') \<leftarrow> pfs_abort_all h ps;
        Some (counter, h2, p # ps')
      })"

fun pfs_has_connecting_forwarders :: "pf list \<Rightarrow> bool" where
  "pfs_has_connecting_forwarders [] \<longleftrightarrow> False"
| "pfs_has_connecting_forwarders (p # ps) \<longleftrightarrow> pf_is_connecting p \<or> pfs_has_connecting_forwarders ps"

fun pfs_connected_count :: "pf list \<Rightarrow> nat" where
  "pfs_connected_count [] = 0"
| "pfs_connected_count (p # ps) = (if pf_is_connected p then 1 else 0) + pfs_connected_count ps"

lemma delete_filter:
  "pfs_delete_having_state c ps = (length (filter c ps), filter (\<lambda>p. \<not> c p) ps)"
  by (induction ps) auto

lemma has_connecting: "pfs_has_connecting_forwarders ps \<longleftrightarrow> (\<exists>p \<in> set ps. pf_state p = CONNECTING)"
  by (induction ps) (auto simp: pf_is_connecting_def)

lemma connected_count: "pfs_connected_count ps = length (filter (\<lambda>p. pf_state p = CONNECTED) ps)"
  by (induction ps) (auto simp: pf_is_connected_def)

section \<open>A forwarder as an object of the heap\<close>

abbreviation pf_at :: "pheap \<Rightarrow> pf \<Rightarrow> byte list \<Rightarrow> byte list \<Rightarrow> pf_cfg" where
  "pf_at h p ins outs \<equiv> \<lparr>c_heap = h, c_pf = p, c_in = ins, c_out = outs\<rparr>"

definition fw_inv :: "pheap \<Rightarrow> pf \<Rightarrow> bool" where
  "fw_inv h p \<longleftrightarrow> (\<exists>ins outs. pf_reach (pf_at h p ins outs))"

lemma fw_inv_good: "fw_inv h p \<Longrightarrow> \<exists>ins outs. pf_inv h p ins outs"
  by (fastforce simp: fw_inv_def pf_good_def dest: pf_reach_good)

lemma fw_two: "fw_inv h p \<Longrightarrow> two_ok h (pf_forward p) (pf_reply p)"
  using fw_inv_good pf_inv_two by blast

interpretation fw: heap_object fw_inv pf_own "\<lambda>h p. (q_value h (pf_forward p), q_value h (pf_reply p))"
proof
  fix h h' :: pheap and p x
  assume i: "fw_inv h p"
  show "x \<in> pf_own h p \<Longrightarrow> heap_at h x \<noteq> None"
    using fw_two [OF i] hq.alive by (auto simp: pf_own_def own2_def two_ok_def)
  assume same: "\<And>x. x \<in> pf_own h p \<Longrightarrow> heap_at h' x = heap_at h x"
  from i obtain ins outs where r: "pf_reach (pf_at h p ins outs)" by (auto simp: fw_inv_def)
  have "pf_enabled (Ev_heap h') (pf_at h p ins outs)" using same by simp
  from pf_step.event [OF this] have "pf_reach (pf_at h' p ins outs)"
    using pf_reach.step [OF r] by simp
  then have "fw_inv h' p" by (auto simp: fw_inv_def)
  moreover have "heap_move (UNIV - pf_own h p) h {} h'" using same by (auto simp: heap_move_def)
  note u = two_undisturbed [OF fw_two [OF i] this]
  have "pf_own h' p = pf_own h p \<and> q_value h' (pf_forward p) = q_value h (pf_forward p) \<and>
      q_value h' (pf_reply p) = q_value h (pf_reply p)"
    using u by (auto simp: pf_own_def)
  ultimately show "fw_inv h' p \<and> pf_own h' p = pf_own h p \<and>
      (q_value h' (pf_forward p), q_value h' (pf_reply p)) = (q_value h (pf_forward p), q_value h (pf_reply p))"
    by simp
qed

lemma fw_inv_new: "fw_inv h (pf_new ep nodelay (w\<lparr>wire := []\<rparr>))"
  unfolding fw_inv_def by (intro exI, rule pf_reach.start) simp

section \<open>The events as moves\<close>

text \<open>One event of a forwarder, without the record of what went through it.\<close>

definition pf_event_run :: "pf_event \<Rightarrow> pheap \<Rightarrow> pf \<Rightarrow> (pheap \<times> pf) option" where
  "pf_event_run e h p = map_option (\<lambda>c. (c_heap c, c_pf c)) (pf_apply e (pf_at h p [] []))"

definition pf_event_enabled :: "pf_event \<Rightarrow> pheap \<Rightarrow> pf \<Rightarrow> bool" where
  "pf_event_enabled e h p \<longleftrightarrow> pf_enabled e (pf_at h p [] [])"

text \<open>The cells lwIP hands over with received data.\<close>

definition ev_cells :: "pf_event \<Rightarrow> pheap \<Rightarrow> addr set" where
  "ev_cells e h = (case e of Ev_data a _ \<Rightarrow> set (cells (length h) h (Some a)) | _ \<Rightarrow> {})"

lemma enabled_ghost: "pf_enabled e (pf_at h p ins outs) = pf_event_enabled e h p"
  by (cases e) (simp_all add: pf_event_enabled_def Let_def)

lemma apply_ghost:
  "map_option (\<lambda>c. (c_heap c, c_pf c)) (pf_apply e (pf_at h p ins outs)) = pf_event_run e h p"
  by (cases e) (auto simp: pf_event_run_def with_state_def option.map_comp comp_def Let_def
      case_prod_beta split: option.splits bind_split)

lemma event_move:
  assumes inv: "pf_inv h p ins outs" and en: "pf_event_enabled e h p" and e: "\<forall>h'. e \<noteq> Ev_heap h'"
    and run: "pf_event_run e h p = Some (h', p')"
  shows "heap_move (pf_own h p \<union> ev_cells e h) h (pf_own h' p') h'"
proof (cases e)
  case (Ev_connect rq np rc l)
  with pf_connect_inv [OF inv, of np rq rc l] en run show ?thesis
    by (auto simp: pf_event_run_def with_state_def pf_event_enabled_def ev_cells_def heap_move_refl split: option.splits)
next
  case (Ev_dns name res rc)
  with dns_found_inv [OF inv, of name res rc] en run show ?thesis
    by (auto simp: pf_event_run_def with_state_def pf_event_enabled_def ev_cells_def heap_move_refl)
next
  case (Ev_data a err)
  let ?ts = "cells (length h) h (Some a)"
  from Ev_data en have "pf_reg p" "pushable h a ?ts (q_cells h (pf_reply p))" "set ?ts \<inter> pf_own h p = {}"
    by (auto simp: pf_event_enabled_def Let_def)
  from tcp_recv_data_inv [OF inv this, of err] Ev_data run show ?thesis
    by (auto simp: pf_event_run_def ev_cells_def)
next
  case (Ev_end err)
  with tcp_recv_end_inv [OF inv, of err] run show ?thesis
    by (auto simp: pf_event_run_def with_state_def ev_cells_def)
next
  case (Ev_service r w mem)
  with pf_service_inv [OF inv, of r w mem] run show ?thesis
    by (auto simp: pf_event_run_def with_state_def ev_cells_def split: if_splits)
next
  case Ev_transmit
  with pf_transmit_inv [OF inv] run show ?thesis by (auto simp: pf_event_run_def with_state_def ev_cells_def)
next
  case Ev_abort
  then have "pf_state p \<noteq> CONNECTING" using en by (simp add: pf_event_enabled_def pf_is_connected_def)
  with pf_abort_inv [OF inv] run Ev_abort show ?thesis by (auto simp: pf_event_run_def with_state_def ev_cells_def)
qed (use run e in \<open>auto simp: pf_event_run_def ev_cells_def pf_own_def tcp_connected_cb_def tcp_err_cb_def
      tcp_sent_cb_def timeout_cb_def Let_def heap_move_refl split: timer.splits\<close>)

lemma fw_event:
  assumes i: "fw_inv h p" and en: "pf_event_enabled e h p" and e: "\<forall>h'. e \<noteq> Ev_heap h'"
  shows "\<exists>h' p'. pf_event_run e h p = Some (h', p') \<and> fw_inv h' p' \<and>
    heap_move (pf_own h p \<union> ev_cells e h) h (pf_own h' p') h' \<and> pf_moves p p'"
proof -
  from i obtain ins outs where r: "pf_reach (pf_at h p ins outs)" by (auto simp: fw_inv_def)
  have g: "pf_good (pf_at h p ins outs)" by (rule pf_reach_good [OF r])
  have en': "pf_enabled e (pf_at h p ins outs)" using en by (simp add: enabled_ghost)
  from pf_event_ok [OF g en'] obtain c' where c': "pf_apply e (pf_at h p ins outs) = Some c'" "pf_moves p (c_pf c')" by auto
  then have run: "pf_event_run e h p = Some (c_heap c', c_pf c')" using apply_ghost [of e h p ins outs] by simp
  have eq: "pf_at (c_heap c') (c_pf c') (c_in c') (c_out c') = c'" by simp
  have "pf_reach (pf_at (c_heap c') (c_pf c') (c_in c') (c_out c'))"
    unfolding eq by (rule pf_reach.step [OF r pf_step.event [OF en' c'(1)]])
  then have "fw_inv (c_heap c') (c_pf c')" unfolding fw_inv_def by blast
  moreover from g have "pf_inv h p ins outs" by (simp add: pf_good_def)
  ultimately show ?thesis using run c'(2) event_move [OF _ en e run] by blast
qed

text \<open>Descriptors: an event leaves the socket of a forwarder alone or closes it, unless it is the
  one that accepts the connection.\<close>

lemma send_data_fd: "send_data buf w = (st, w') \<Longrightarrow> fd w' = fd w"
  by (auto simp: send_data_def raw_send_def split: list.splits if_splits prod.splits)

lemma oq_write_loop_fd: "oq_write_loop h q w st n = Some r \<Longrightarrow> fd (snd (snd (snd (snd r)))) = fd w"
proof (induction rule: oq_write_loop.raw_induct
    [where P = "\<lambda>h q w st n r. fd (snd (snd (snd (snd r)))) = fd w", rotated, consumes 1])
  case (1 rec h q w st n r)
  from 1(2) show ?case
    by (auto split: if_splits prod.splits bind_splits dest!: send_data_fd 1(1))
qed

lemma oq_write_fd: "oq_write h q w = Some (rc, n, h', q', w') \<Longrightarrow> fd w' = fd w"
  by (auto simp: oq_write_def split: bind_splits dest!: oq_write_loop_fd)

definition fd_kept :: "pf \<Rightarrow> pf \<Rightarrow> bool" where
  "fd_kept p p' \<longleftrightarrow> fd (pf_server p') = fd (pf_server p) \<or> fd (pf_server p') = -1"

lemma fd_kept_refl [simp]: "fd_kept p p"
  by (simp add: fd_kept_def)

lemma fd_kept_trans: "fd_kept p q \<Longrightarrow> fd_kept q r \<Longrightarrow> fd_kept p r"
  by (auto simp: fd_kept_def)

lemma socket_close_fd [simp]: "fd (socket_close w) = -1"
  by (simp add: socket_close_def)

lemma err_fd: "fd_kept p (tcp_err_cb p)"
  by (simp add: tcp_err_cb_def fd_kept_def)

lemma disconnect_fd: "pf_disconnect h p = Some (h', p') \<Longrightarrow> fd_kept p p'"
  by (auto simp: pf_disconnect_def fd_kept_def split: if_splits bind_splits)

lemma abort_fd: "pf_abort h p = Some (h', p') \<Longrightarrow> fd_kept p p'"
  by (auto simp: pf_abort_def fd_kept_def tcp_err_cb_def Let_def split: if_splits bind_splits)

lemma recv_fd: "pf_recv mem h p = Some (ok, h', p') \<Longrightarrow> fd_kept p p'"
  by (auto simp: pf_recv_def fd_kept_def Let_def split: if_splits bind_splits prod.splits option.splits
      dest!: recv_data_measure(9))

lemma reply_fd: "pf_reply_op h p = Some (ok, h', p') \<Longrightarrow> fd_kept p p'"
  by (auto simp: pf_reply_op_def fd_kept_def split: if_splits bind_splits dest!: oq_write_fd)

lemma flush_reply_fd: "pf_flush_reply_queue h p = Some (h', p') \<Longrightarrow> fd_kept p p'"
  by (auto simp: pf_flush_reply_queue_def fd_kept_def Let_def split: if_splits bind_splits dest!: oq_write_fd)

lemma flush_forward_fd: "pf_flush_forward_queue h p = Some (h', p') \<Longrightarrow> fd_kept p p'"
  by (auto simp: pf_flush_forward_queue_def fd_kept_def Let_def split: if_splits bind_splits client.splits)

lemma forward_fd: "pf_forward_op h p = Some (ok, h', p') \<Longrightarrow> fd_kept p p'"
  by (auto simp: pf_forward_op_def fd_kept_def Let_def split: if_splits bind_splits client.splits)

lemmas op_fds = disconnect_fd abort_fd recv_fd reply_fd flush_reply_fd flush_forward_fd forward_fd

lemma service_fd: "pf_service r w mem h p = Some (h', p') \<Longrightarrow> fd_kept p p'"
  by (auto simp: pf_service_def split: if_splits bind_splits dest!: op_fds) (auto simp: fd_kept_def)

lemma transmit_fd: "pf_transmit h p = Some (h', p') \<Longrightarrow> fd_kept p p'"
  by (auto simp: pf_transmit_def split: if_splits bind_splits dest!: op_fds) (auto simp: fd_kept_def)

lemma dns_fd: "dns_found_cb name res rc p = Some p' \<Longrightarrow> fd_kept p p'"
  by (auto simp: dns_found_cb_def fd_kept_def split: if_splits client.splits)

lemma recv_cb_fd: "tcp_recv_cb h p b err = Some (rc, h', p') \<Longrightarrow> fd_kept p p'"
  by (auto simp: tcp_recv_cb_def fd_kept_def split: if_splits option.splits client.splits bind_splits)

lemma event_fd:
  assumes "pf_event_run e h p = Some (h', p')" "\<forall>rq np rc l. e \<noteq> Ev_connect rq np rc l"
  shows "fd_kept p p'"
proof (cases e)
  case (Ev_timeout t)
  with assms show ?thesis by (cases t) (auto simp: pf_event_run_def timeout_cb_def Let_def fd_kept_def)
qed (use assms in \<open>auto simp: pf_event_run_def with_state_def option.map_comp comp_def case_prod_beta option.map_ident
    tcp_connected_cb_def tcp_sent_cb_def fd_kept_def [of _ "_\<lparr>pf_client := _\<rparr>"] fd_kept_def [of _ "_\<lparr>pf_forwarded := _\<rparr>"]
    fd_kept_def [of _ "_\<lparr>pf_timers := _, pf_connect_timeout := _\<rparr>"] split: if_splits bind_splits
    intro: err_fd dest!: dns_fd recv_cb_fd service_fd transmit_fd abort_fd\<close>)

text \<open>The operations of the tunneler are events.\<close>

lemma pf_op_runs:
  "pf_event_run (Ev_service r w mem) h p = pf_service r w mem h p"
  "pf_event_run Ev_transmit h p = pf_transmit h p"
  "pf_event_run Ev_abort h p = pf_abort h p"
  by (auto simp: pf_event_run_def with_state_def option.map_comp comp_def case_prod_beta option.map_ident)

definition fw_moves :: "pf \<Rightarrow> pf \<Rightarrow> bool" where
  "fw_moves p p' \<longleftrightarrow> pf_moves p p' \<and> fd_kept p p'"

lemma fw_service:
  "fw_inv h p \<Longrightarrow> \<exists>h' p'. pf_service r w mem h p = Some (h', p') \<and> fw_inv h' p' \<and>
     heap_move (pf_own h p) h (pf_own h' p') h' \<and> fw_moves p p'"
  using fw_event [of h p "Ev_service r w mem"] service_fd [of r w mem h p]
  by (auto simp: pf_op_runs pf_event_enabled_def ev_cells_def fw_moves_def)

lemma fw_transmit:
  "fw_inv h p \<Longrightarrow> \<exists>h' p'. pf_transmit h p = Some (h', p') \<and> fw_inv h' p' \<and>
     heap_move (pf_own h p) h (pf_own h' p') h' \<and> fw_moves p p'"
  using fw_event [of h p Ev_transmit] transmit_fd [of h p]
  by (auto simp: pf_op_runs pf_event_enabled_def ev_cells_def fw_moves_def)

lemma fw_abort:
  "fw_inv h p \<Longrightarrow> pf_state p = CONNECTED \<Longrightarrow> \<exists>h' p'. pf_abort h p = Some (h', p') \<and> fw_inv h' p' \<and>
     heap_move (pf_own h p) h (pf_own h' p') h' \<and> fw_moves p p' \<and> pf_state p' = DISCONNECTED"
  using fw_event [of h p Ev_abort] fw_inv_good [of h p] pf_abort_inv [of h p] abort_fd [of h p]
  by (fastforce simp: pf_op_runs pf_event_enabled_def ev_cells_def pf_is_connected_def fw_moves_def)

text \<open>All connected forwarders are aborted; the others stay as they are.\<close>

lemma fw_abort_all:
  assumes "fw.all_inv h ps"
  shows "\<exists>h' ps'. pfs_abort_all h ps = Some (pfs_connected_count ps, h', ps') \<and> fw.all_inv h' ps' \<and>
    heap_move (fw.all_own h ps) h (fw.all_own h' ps') h' \<and>
    list_all2 (\<lambda>p p'. if pf_is_connected p then fw_moves p p' \<and> pf_state p' = DISCONNECTED else p' = p) ps ps'"
proof -
  let ?f = "\<lambda>h p. if pf_is_connected p then pf_abort h p else Some (h, p)"
  have "pfs_abort_all h ps = map_option (\<lambda>(h', ps'). (pfs_connected_count ps, h', ps')) (heap_each ?f h ps)" for h
    by (induction ps arbitrary: h) (auto split: bind_split option.splits)
  moreover have "\<exists>h' p'. ?f h p = Some (h', p') \<and> fw_inv h' p' \<and> heap_move (pf_own h p) h (pf_own h' p') h' \<and>
      (if pf_is_connected p then fw_moves p p' \<and> pf_state p' = DISCONNECTED else p' = p)" if "fw_inv h p" for h p
    using fw_abort [OF that] that by (auto simp: heap_move_refl pf_is_connected_def)
  ultimately show ?thesis using fw.all_each [of ?f, OF _ assms] by fastforce
qed

end
