(* ===== verification/Tunneler.thy ===== *)
theory Tunneler
  imports Forwarders InterfaceObject
begin

text \<open>
  The tunneler: the thread that moves the traffic of all forwarders through the tunnel
  (\<^verbatim>\<open>net/Tunneler.cpp\<close>), with its listener (\<^verbatim>\<open>net/Listener.cpp\<close>) and the DNS servers lwIP knows
  (\<^verbatim>\<open>net/DnsClient.cpp\<close>).

  The state holds the members of the class and the local variables of \<^verbatim>\<open>run\<close>. What the rest of the
  world does in one iteration of the loop is a record \<open>tun_env\<close>: the answer of \<^verbatim>\<open>select\<close>, the answers
  of lwIP, the other thread that calls \<^verbatim>\<open>terminate\<close>, and what lwIP does while packets are passed
  to it, while data is forwarded and in \<^verbatim>\<open>sys_check_timeouts\<close>: it calls back the forwarders, fires
  timers, sends packets, changes its own memory and the state of the PPP automaton. Such an act is
  taken only when it is possible (\<open>act_ok\<close>); others are skipped, so that every script is a behaviour.
\<close>

section \<open>Listener and DNS servers\<close>

record listener =
  l_socket :: "byte net"
  l_endpoint :: endpoint

definition listener_new :: "byte net \<Rightarrow> listener" where
  "listener_new w = \<lparr>l_socket = socket_new False w, l_endpoint = endpoint_default\<rparr>"

definition NET_BIND_FAILED :: int where "NET_BIND_FAILED = -0x46"

text \<open>\<open>sockname\<close> is the answer of \<^verbatim>\<open>getsockname\<close>.\<close>

definition listener_bind :: "(nat \<times> nat) option \<Rightarrow> endpoint \<Rightarrow> listener \<Rightarrow> int \<times> listener" where
  "listener_bind sockname ep l =
     (case socket_bind (l_socket l) of (rc, w1) \<Rightarrow>
        if rc \<noteq> 0 then (rc, l\<lparr>l_socket := w1, l_endpoint := ep\<rparr>)
        else
          (case socket_get_port sockname w1 of
             None \<Rightarrow> (NET_BIND_FAILED, l\<lparr>l_socket := w1\<rparr>)
           | Some bind_port \<Rightarrow>
               (case set_blocking_mode False w1 of (rc2, w2) \<Rightarrow>
                  (if rc2 \<noteq> 0 then NET_BIND_FAILED else rc,
                   l\<lparr>l_socket := w2, l_endpoint := \<lparr>hostname = hostname ep, port = bind_port\<rparr>\<rparr>))))"

definition listener_close :: "listener \<Rightarrow> listener" where
  "listener_close l = l\<lparr>l_socket := socket_close (l_socket l)\<rparr>"

text \<open>\<open>opt\<close> is the answer of \<^verbatim>\<open>getsockopt\<close> for \<^verbatim>\<open>SO_ACCEPTCONN\<close>, \<open>None\<close> an error.\<close>

definition listener_is_ready :: "int option \<Rightarrow> bool" where
  "listener_is_ready opt = (case opt of None \<Rightarrow> False | Some v \<Rightarrow> v \<noteq> 0)"

definition dns_is_configured :: "32 word \<Rightarrow> 32 word \<Rightarrow> bool" where
  "dns_is_configured addr1 addr2 \<longleftrightarrow> addr1 \<noteq> 0 \<or> addr2 \<noteq> 0"

text \<open>The second test looks at the first address.\<close>

definition dns_text :: "(32 word \<Rightarrow> string) \<Rightarrow> 32 word \<Rightarrow> 32 word \<Rightarrow> string" where
  "dns_text ntoa addr1 addr2 =
     (let buffer = (if addr1 \<noteq> 0 then ntoa addr1 else []) in
      if addr1 \<noteq> 0 \<and> addr1 \<noteq> addr2 then (if buffer \<noteq> [] then buffer @ '', '' else buffer) @ ntoa addr2
      else buffer)"

section \<open>State\<close>

datatype tun_state = TUN_READY | TUN_CONNECTING | TUN_RUNNING | TUN_CLOSING | TUN_DISCONNECTING | TUN_STOPPED

text \<open>The order of the life of a tunnel is the order of the constants of the enum.\<close>

fun tun_state_rank :: "tun_state \<Rightarrow> nat" where
  "tun_state_rank TUN_READY = 0"
| "tun_state_rank TUN_CONNECTING = 1"
| "tun_state_rank TUN_RUNNING = 2"
| "tun_state_rank TUN_CLOSING = 3"
| "tun_state_rank TUN_DISCONNECTING = 4"
| "tun_state_rank TUN_STOPPED = 5"

lemma tun_state_rank_inject [simp]: "tun_state_rank a = tun_state_rank b \<longleftrightarrow> a = b"
  by (cases a; cases b) simp_all

instantiation tun_state :: linorder
begin

definition less_eq_tun_state :: "tun_state \<Rightarrow> tun_state \<Rightarrow> bool" where
  "less_eq_tun_state a b \<longleftrightarrow> tun_state_rank a \<le> tun_state_rank b"

definition less_tun_state :: "tun_state \<Rightarrow> tun_state \<Rightarrow> bool" where
  "less_tun_state a b \<longleftrightarrow> tun_state_rank a < tun_state_rank b"

instance
  by standard (auto simp: less_eq_tun_state_def less_tun_state_def)

end

datatype tun_timer = Abort_timer | Disconnect_timer

record tun_config =
  cfg_nodelay :: bool
  cfg_max_clients :: int

record tun =
  t_config :: tun_config
  t_state :: tun_state
  t_terminate :: bool
  t_tunnel :: "byte net"
  t_clients_count :: nat
  t_pp :: ppif
  t_listening :: bool
  t_local :: endpoint
  t_listener :: listener
  t_remote :: endpoint
  t_heap :: pheap
  t_fwds :: "pf list"
  t_connecting :: bool
  t_abort_timeout :: bool
  t_disconnect_timeout :: bool
  t_timers :: "tun_timer list"

definition tun_new :: "tun_config \<Rightarrow> byte net \<Rightarrow> endpoint \<Rightarrow> endpoint \<Rightarrow> byte net \<Rightarrow> pheap \<Rightarrow> tun" where
  "tun_new config tunnel local remote lw h =
     \<lparr>t_config = config, t_state = TUN_READY, t_terminate = False, t_tunnel = tunnel, t_clients_count = 0,
      t_pp = pp_new, t_listening = False, t_local = local, t_listener = listener_new lw, t_remote = remote,
      t_heap = h, t_fwds = [], t_connecting = False, t_abort_timeout = False, t_disconnect_timeout = False,
      t_timers = []\<rparr>"

text \<open>\<open>started\<close> is the answer of \<^verbatim>\<open>Thread::start\<close>.\<close>

definition tun_start :: "(nat \<times> nat) option \<Rightarrow> bool \<Rightarrow> tun \<Rightarrow> bool \<times> tun" where
  "tun_start sockname started t =
     (case listener_bind sockname (t_local t) (t_listener t) of (rc, l) \<Rightarrow>
        let t1 = t\<lparr>t_listener := l\<rparr>; ok = (if rc < 0 then False else started) in
        (ok, if \<not> ok then t1\<lparr>t_state := TUN_STOPPED\<rparr> else t1))"

definition tun_terminate :: "tun \<Rightarrow> tun" where
  "tun_terminate t = t\<lparr>t_terminate := True\<rparr>"

text \<open>\<open>signalled\<close>: the event was set before the timeout.\<close>

definition tun_wait_listening :: "bool \<Rightarrow> int option \<Rightarrow> bool" where
  "tun_wait_listening signalled opt \<longleftrightarrow> signalled \<and> listener_is_ready opt"

definition tun_shutdown_tunnel :: "tun \<Rightarrow> tun" where
  "tun_shutdown_tunnel t = t\<lparr>t_tunnel := snd (tls_shutdown (t_tunnel t))\<rparr>"

text \<open>In milliseconds; \<^verbatim>\<open>0xFFFFFFFF\<close> says that no timer is armed.\<close>

definition compute_sleep_time :: "32 word \<Rightarrow> nat" where
  "compute_sleep_time sleep_time =
     (if sleep_time = 0xFFFFFFFF \<or> sleep_time > 500 then 500 * 1000 else unat (sleep_time * 1000))"

text \<open>The comparison of the \<^verbatim>\<open>size_t\<close> with the \<^verbatim>\<open>int\<close> is one of unsigned 64-bit numbers.\<close>

definition tun_below_max :: "tun \<Rightarrow> bool" where
  "tun_below_max t \<longleftrightarrow> pfs_connected_count (t_fwds t) < unat (of_int (cfg_max_clients (t_config t)) :: 64 word)"

section \<open>The environment\<close>

datatype lwip_act =
    Act_event nat pf_event
  | Act_packet addr nat
  | Act_ppp bool bool lcp
  | Act_heap pheap
  | Act_timer tun_timer

record tun_env =
  e_terminate :: bool
  e_select :: int
  e_readable :: "int list"
  e_writable :: "int list"
  e_accept :: "lwip_err \<times> pcb option \<times> lwip_err \<times> byte net"
  e_mem :: "int \<Rightarrow> byte list option"
  e_input :: "lwip_act list"
  e_forward :: "lwip_act list"
  e_timeouts :: "lwip_act list"
  e_close :: "lwip_act list"
  e_now :: nat

definition tun_owned :: "tun \<Rightarrow> addr set" where
  "tun_owned t = pp_own (t_heap t) (t_pp t) \<union> fw.all_own (t_heap t) (t_fwds t)"

text \<open>The events lwIP causes, and the ones the loop itself causes.\<close>

fun lwip_event :: "pf_event \<Rightarrow> bool" where
  "lwip_event (Ev_connect rq np rc l) \<longleftrightarrow> False"
| "lwip_event (Ev_service r w mem) \<longleftrightarrow> False"
| "lwip_event (Ev_heap h') \<longleftrightarrow> False"
| "lwip_event Ev_transmit \<longleftrightarrow> False"
| "lwip_event Ev_abort \<longleftrightarrow> False"
| "lwip_event e \<longleftrightarrow> True"

definition packet_sendable :: "pheap \<Rightarrow> addr \<Rightarrow> addr list \<Rightarrow> bool" where
  "packet_sendable h a as \<longleftrightarrow> chain_ok h (Some a) as \<and> (\<forall>x \<in> set as. ref_at h x \<noteq> 0) \<and>
     ref_at h a + 1 \<noteq> 0 \<and> length (chain_bytes h as) + 10 < 65536"

fun act_ok :: "lwip_act \<Rightarrow> tun \<Rightarrow> bool" where
  "act_ok (Act_event k e) t \<longleftrightarrow> k < length (t_fwds t) \<and> lwip_event e \<and>
     pf_event_enabled e (t_heap t) (t_fwds t ! k) \<and> ev_cells e (t_heap t) \<inter> tun_owned t = {}"
| "act_ok (Act_packet a protocol) t \<longleftrightarrow>
     (let as = cells (length (t_heap t)) (t_heap t) (Some a) in
      packet_sendable (t_heap t) a as \<and> set as \<inter> tun_owned t = {})"
| "act_ok (Act_ppp dead up l) t \<longleftrightarrow> True"
| "act_ok (Act_heap h') t \<longleftrightarrow> (\<forall>x \<in> tun_owned t. heap_at h' x = heap_at (t_heap t) x)"
| "act_ok (Act_timer tm) t \<longleftrightarrow> tm \<in> set (t_timers t)"

fun act_apply :: "nat \<Rightarrow> lwip_act \<Rightarrow> tun \<Rightarrow> tun option" where
  "act_apply now (Act_event k e) t = do {
     (h', p') \<leftarrow> pf_event_run e (t_heap t) (t_fwds t ! k);
     Some (t\<lparr>t_heap := h', t_fwds := (t_fwds t)[k := p']\<rparr>)
   }"
| "act_apply now (Act_packet a protocol) t = do {
     (h', i') \<leftarrow> pp_output now a protocol (t_heap t) (t_pp t);
     Some (t\<lparr>t_heap := h', t_pp := i'\<rparr>)
   }"
| "act_apply now (Act_ppp dead up l) t =
     Some (t\<lparr>t_pp := (t_pp t)\<lparr>pp_pcb :=
       map_option (\<lambda>b. b\<lparr>pcb_dead := dead, pcb_if4_up := up, pcb_lcp := l\<rparr>) (pp_pcb (t_pp t))\<rparr>\<rparr>)"
| "act_apply now (Act_heap h') t = Some (t\<lparr>t_heap := h'\<rparr>)"
| "act_apply now (Act_timer tm) t =
     Some (case tm of
         Abort_timer \<Rightarrow> t\<lparr>t_abort_timeout := True, t_timers := removeAll tm (t_timers t)\<rparr>
       | Disconnect_timer \<Rightarrow> t\<lparr>t_disconnect_timeout := True, t_timers := removeAll tm (t_timers t)\<rparr>)"

fun tun_acts :: "nat \<Rightarrow> lwip_act list \<Rightarrow> tun \<Rightarrow> tun option" where
  "tun_acts now [] t = Some t"
| "tun_acts now (a # as) t =
     (if act_ok a t then Option.bind (act_apply now a t) (tun_acts now as) else tun_acts now as t)"

section \<open>One iteration of the loop\<close>

text \<open>The descriptors \<^verbatim>\<open>select\<close> watches: to read, and to write.\<close>

fun pfs_fd_sets :: "pheap \<Rightarrow> pf list \<Rightarrow> int list \<times> int list \<Rightarrow> (int list \<times> int list) option" where
  "pfs_fd_sets h [] (rd, wr) = Some (rd, wr)"
| "pfs_fd_sets h (p # ps) (rd, wr) =
     (let f = fd (pf_server p) in
      if pf_is_connected p then do {
        can \<leftarrow> pf_can_receive_data h p;
        pfs_fd_sets h ps (if can then f # rd else rd, if pf_has_data_to_reply p then f # wr else wr)
      }
      else if pf_is_disconnecting p then
        pfs_fd_sets h ps (rd, if pf_can_flush_reply_queue p then f # wr else wr)
      else pfs_fd_sets h ps (rd, wr))"

definition tun_fd_sets :: "tun \<Rightarrow> (int list \<times> int list) option" where
  "tun_fd_sets t =
     (let wr = (if pp_must_transmit (t_pp t) then [fd (t_tunnel t)] else []);
          rd1 = [fd (t_tunnel t)];
          rd = (if pp_if4_up (t_pp t) \<and> \<not> t_connecting t \<and> tun_below_max t
                then fd (l_socket (t_listener t)) # rd1 else rd1)
      in pfs_fd_sets (t_heap t) (t_fwds t) (rd, wr))"

text \<open>The tunnel socket: the output queue of the PPP interface is sent, received data is passed to it.\<close>

definition tun_send :: "int list \<Rightarrow> tun \<Rightarrow> tun option" where
  "tun_send write_set t =
     (if fd (t_tunnel t) \<in> set write_set then do {
        (ok, h', i', w') \<leftarrow> pp_send (t_heap t) (t_pp t) (t_tunnel t);
        let t1 = t\<lparr>t_heap := h', t_pp := i', t_tunnel := w'\<rparr>;
        Some (if \<not> ok then tun_terminate (tun_shutdown_tunnel t1) else t1)
      }
      else Some t)"

definition tun_recv :: "tun_env \<Rightarrow> int list \<Rightarrow> tun \<Rightarrow> tun option" where
  "tun_recv e read_set t =
     (if fd (t_tunnel t) \<in> set read_set then do {
        (ok, h', i', w') \<leftarrow> pp_recv (t_heap t) (t_pp t) (t_tunnel t);
        t1 \<leftarrow> tun_acts (e_now e) (e_input e) (t\<lparr>t_heap := h', t_pp := i', t_tunnel := w'\<rparr>);
        Some (if \<not> ok then tun_terminate (tun_shutdown_tunnel t1) else t1)
      }
      else Some t)"

text \<open>A new forwarder is deleted again when it does not connect. The socket and the connection it
  gets are fresh: nothing went through them.\<close>

definition tun_accept :: "tun_env \<Rightarrow> int list \<Rightarrow> tun \<Rightarrow> tun option" where
  "tun_accept e read_set t =
     (if fd (l_socket (t_listener t)) \<in> set read_set then
        (case e_accept e of (rc_query, new_pcb, rc_con, w) \<Rightarrow> do {
           let p = pf_new (t_remote t) (cfg_nodelay (t_config t)) (w\<lparr>wire := []\<rparr>);
           (ok, lw, p') \<leftarrow> pf_connect rc_query (map_option (\<lambda>s. s\<lparr>accepted := []\<rparr>) new_pcb) rc_con
             (l_socket (t_listener t)) p;
           let t1 = t\<lparr>t_listener := (t_listener t)\<lparr>l_socket := lw\<rparr>\<rparr>;
           Some (if ok then t1\<lparr>t_connecting := True, t_fwds := t_fwds t1 @ [p']\<rparr> else t1)
         })
      else Some t)"

definition tun_service :: "tun_env \<Rightarrow> int list \<Rightarrow> int list \<Rightarrow> tun \<Rightarrow> tun option" where
  "tun_service e read_set write_set t = do {
     (h', ps') \<leftarrow> heap_each (\<lambda>h p.
         pf_service (fd (pf_server p) \<in> set read_set) (fd (pf_server p) \<in> set write_set) (e_mem e (fd (pf_server p))) h p)
       (t_heap t) (t_fwds t);
     Some (t\<lparr>t_heap := h', t_fwds := ps'\<rparr>)
   }"

text \<open>While the tunnel is open. \<^verbatim>\<open>select\<close> leaves in the sets the descriptors that are ready.\<close>

definition tun_select :: "tun_env \<Rightarrow> tun \<Rightarrow> tun option" where
  "tun_select e t =
     (if socket_is_connected (t_tunnel t) then do {
        (rd, wr) \<leftarrow> tun_fd_sets t;
        if e_select e > 0 then do {
          let read_set = filter (\<lambda>f. f \<in> set (e_readable e)) rd;
          let write_set = filter (\<lambda>f. f \<in> set (e_writable e)) wr;
          t1 \<leftarrow> tun_send write_set t;
          t2 \<leftarrow> tun_recv e read_set t1;
          t3 \<leftarrow> tun_accept e read_set t2;
          tun_service e read_set write_set t3
        }
        else if e_select e = -1 then Some (tun_terminate t)
        else Some t
      }
      else Some t)"

definition tun_transmit :: "tun \<Rightarrow> tun option" where
  "tun_transmit t = do {
     (h', ps') \<leftarrow> heap_each pf_transmit (t_heap t) (t_fwds t);
     Some (t\<lparr>t_heap := h', t_fwds := ps'\<rparr>)
   }"

definition tun_delete :: "tun \<Rightarrow> tun" where
  "tun_delete t =
     (let ps1 = snd (pfs_delete_having_state pf_has_failed (t_fwds t));
          ps2 = snd (pfs_delete_having_state pf_is_disconnected ps1)
      in t\<lparr>t_fwds := ps2\<rparr>)"

text \<open>The state machine at the end of an iteration: whether the loop stops, and the new state. What
  \<^verbatim>\<open>ppp_close\<close> does to the PPP automaton, and the packets it sends, are acts of lwIP.\<close>

definition tun_switch :: "tun_env \<Rightarrow> tun \<Rightarrow> (bool \<times> tun) option" where
  "tun_switch e t =
     (case t_state t of
        TUN_CONNECTING \<Rightarrow>
          if t_terminate t then Some (False, t\<lparr>t_state := TUN_CLOSING\<rparr>)
          else if pp_if4_up (t_pp t) then Some (False, t\<lparr>t_listening := True, t_state := TUN_RUNNING\<rparr>)
          else Some (False, t)
      | TUN_RUNNING \<Rightarrow>
          if t_terminate t then do {
            (counter, h', ps') \<leftarrow> pfs_abort_all (t_heap t) (t_fwds t);
            let t1 = t\<lparr>t_state := TUN_CLOSING, t_abort_timeout := False, t_heap := h', t_fwds := ps'\<rparr>;
            Some (False, if counter > 0 then t1\<lparr>t_timers := Abort_timer # t_timers t1\<rparr> else t1)
          }
          else do {
            (h', i') \<leftarrow> pp_send_keep_alive (e_now e) (t_heap t) (t_pp t);
            let t1 = t\<lparr>t_heap := h', t_pp := i'\<rparr>;
            Some (False, if t_connecting t1
              then t1\<lparr>t_connecting := pfs_has_connecting_forwarders (t_fwds t1)\<rparr> else t1)
          }
      | TUN_CLOSING \<Rightarrow>
          if t_fwds t = [] \<or> t_abort_timeout t then do {
            t1 \<leftarrow> tun_acts (e_now e) (e_close e) (t\<lparr>t_state := TUN_DISCONNECTING,
              t_pp := pp_close (\<lambda>nocarrier b. b) (\<not> socket_is_connected (t_tunnel t)) (t_pp t)\<rparr>);
            Some (False, t1\<lparr>t_disconnect_timeout := False, t_timers := Disconnect_timer # t_timers t1\<rparr>)
          }
          else Some (False, t)
      | TUN_DISCONNECTING \<Rightarrow> Some (pp_dead (t_pp t) \<or> t_disconnect_timeout t, t)
      | _ \<Rightarrow> Some (False, t))"

definition tun_iter :: "tun_env \<Rightarrow> tun \<Rightarrow> (bool \<times> tun) option" where
  "tun_iter e t0 = do {
     let t = (if e_terminate e then tun_terminate t0 else t0);
     t1 \<leftarrow> tun_select e t;
     t2 \<leftarrow> tun_transmit t1;
     t3 \<leftarrow> tun_acts (e_now e) (e_forward e) t2;
     t4 \<leftarrow> tun_acts (e_now e) (e_timeouts e) t3;
     (stop, t5) \<leftarrow> tun_switch e (tun_delete t4);
     Some (stop, t5\<lparr>t_clients_count := pfs_connected_count (t_fwds t5)\<rparr>)
   }"

section \<open>The thread\<close>

text \<open>\<open>created\<close> and \<open>rc_con\<close> are the answers of \<^verbatim>\<open>pppossl_create\<close> and \<^verbatim>\<open>ppp_connect\<close>, \<open>acts\<close> what
  lwIP does in the latter. The result says whether the loop is entered.\<close>

definition tun_open :: "ppp_pcb option \<Rightarrow> int \<Rightarrow> lwip_act list \<Rightarrow> tun \<Rightarrow> (bool \<times> tun) option" where
  "tun_open created rc_con acts t =
     (let t1 = t\<lparr>t_state := TUN_CONNECTING, t_tunnel := snd (set_nodelay (cfg_nodelay (t_config t)) (t_tunnel t))\<rparr> in
      case pp_open created rc_con (t_tunnel t1) (t_pp t1) of (ok, i') \<Rightarrow>
        if \<not> ok then Some (False, t1\<lparr>t_pp := i', t_state := TUN_STOPPED\<rparr>)
        else map_option (Pair True) (tun_acts 0 acts (t1\<lparr>t_pp := i'\<rparr>)))"

definition tun_finish :: "tun \<Rightarrow> tun option" where
  "tun_finish t = do {
     (h', i') \<leftarrow> pp_release (t_heap t) (t_pp t);
     let t1 = t\<lparr>t_heap := h', t_pp := i', t_timers := []\<rparr>;
     let t2 = t1\<lparr>t_listener := listener_close (t_listener t1)\<rparr>;
     Some ((tun_shutdown_tunnel t2)\<lparr>t_state := TUN_STOPPED,
       t_fwds := snd (pfs_delete_having_state (\<lambda>_. True) (t_fwds t2))\<rparr>)
   }"

text \<open>The loop under a list of environments: whether it stopped, and the state.\<close>

fun tun_loop :: "tun_env list \<Rightarrow> tun \<Rightarrow> (bool \<times> tun) option" where
  "tun_loop [] t = Some (False, t)"
| "tun_loop (e # es) t = do {
     (stop, t') \<leftarrow> tun_iter e t;
     if stop then Some (True, t') else tun_loop es t'
   }"

definition tun_run :: "ppp_pcb option \<Rightarrow> int \<Rightarrow> lwip_act list \<Rightarrow> tun_env list \<Rightarrow> tun \<Rightarrow> (bool \<times> tun) option" where
  "tun_run created rc_con acts es t = do {
     (ok, t1) \<leftarrow> tun_open created rc_con acts t;
     if \<not> ok then Some (True, t1)
     else do {
       (stop, t2) \<leftarrow> tun_loop es t1;
       if stop then do { t3 \<leftarrow> tun_finish t2; Some (True, t3) } else Some (False, t2)
     }
   }"

end
