(* ===== verification/TunnelerRun.thy ===== *)
theory TunnelerRun
  imports Tunneler
begin

text \<open>
  Every run of the tunneler. The PPP interface and the forwarders are objects of one heap with
  disjoint cells; each step of the loop is a move of the cells of one of them, so the invariants of
  all are kept and no step faults. On top of that: the states of the tunneler, the number of
  clients, and when the thread ends.
\<close>

section \<open>The objects of the tunneler\<close>

definition objs :: "pheap \<Rightarrow> ppif \<Rightarrow> pf list \<Rightarrow> bool" where
  "objs h i ps \<longleftrightarrow> pp_valid h i \<and> fw.all_inv h ps \<and> pp_own h i \<inter> fw.all_own h ps = {}"

lemma objs_pp:
  assumes "objs h i ps" "pp_valid h' i'" "heap_move (pp_own h i \<union> C) h (pp_own h' i') h'" "C \<inter> fw.all_own h ps = {}"
  shows "objs h' i' ps"
proof -
  have "fw.all_own h ps \<inter> (pp_own h i \<union> C) = {}" using assms(1,4) by (auto simp: objs_def)
  with assms fw.all_undisturbed [of h ps "pp_own h i \<union> C" "pp_own h' i'" h'] show ?thesis
    by (auto simp: objs_def)
qed

lemma objs_fw:
  assumes "objs h i ps" "fw.all_inv h' ps'" "heap_move (fw.all_own h ps \<union> C) h (fw.all_own h' ps') h'"
    and "C \<inter> pp_own h i = {}"
  shows "objs h' i ps'" "q_value h' (pp_queue i) = q_value h (pp_queue i)"
proof -
  have "pp_own h i \<inter> (fw.all_own h ps \<union> C) = {}" using assms(1,4) by (auto simp: objs_def)
  with assms hp.undisturbed [of h i "fw.all_own h ps \<union> C" "fw.all_own h' ps'" h']
  show "objs h' i ps'" "q_value h' (pp_queue i) = q_value h (pp_queue i)" by (auto simp: objs_def)
qed

lemma objs_each:
  assumes "objs h i ps"
    and "\<And>h p. fw_inv h p \<Longrightarrow>
      \<exists>h' p'. f h p = Some (h', p') \<and> fw_inv h' p' \<and> heap_move (pf_own h p) h (pf_own h' p') h' \<and> R p p'"
  shows "\<exists>h' ps'. heap_each f h ps = Some (h', ps') \<and> objs h' i ps' \<and> list_all2 R ps ps' \<and>
    q_value h' (pp_queue i) = q_value h (pp_queue i)"
proof -
  have "fw.all_inv h ps" using assms(1) by (simp add: objs_def)
  from fw.all_each [OF assms(2) this] obtain h' ps' where
    r: "heap_each f h ps = Some (h', ps')" "fw.all_inv h' ps'" "list_all2 R ps ps'"
      "heap_move (fw.all_own h ps) h (fw.all_own h' ps') h'" by blast
  then have "objs h' i ps'" "q_value h' (pp_queue i) = q_value h (pp_queue i)"
    using objs_fw [OF assms(1), of h' ps' "{}"] by simp_all
  with r show ?thesis by blast
qed

lemma objs_sub: "objs h i ps \<Longrightarrow> objs h i (filter P ps)"
  using fw.all_filter [of h ps P] by (auto simp: objs_def)

text \<open>What the rest of the state may do to the list of forwarders: it grows by forwarders that just
  started, each moves along its life cycle, and some are removed.\<close>

definition tun_ok :: "tun \<Rightarrow> bool" where
  "tun_ok t \<longleftrightarrow> objs (t_heap t) (t_pp t) (t_fwds t) \<and> pp_pcb (t_pp t) \<noteq> None"

definition moved :: "pf list \<Rightarrow> pf list \<Rightarrow> bool" where
  "moved = list_all2 (\<lambda>p p'. fw_moves\<^sup>*\<^sup>* p p')"

lemma moved_refl: "moved ps ps"
  by (simp add: moved_def list_all2_refl)

lemma moved_trans: "moved ps qs \<Longrightarrow> moved qs rs \<Longrightarrow> moved ps rs"
  unfolding moved_def by (rule list_all2_trans [where ?P1.0 = "\<lambda>p p'. fw_moves\<^sup>*\<^sup>* p p'" and ?P2.0 = "\<lambda>p p'. fw_moves\<^sup>*\<^sup>* p p'"]) auto

lemma moved_step: "list_all2 fw_moves ps qs \<Longrightarrow> moved ps qs"
  unfolding moved_def by (erule list_all2_mono) auto

text \<open>The stream towards the gateway: what was sent through the tunnel, and what is queued.\<close>

definition tun_stream :: "tun \<Rightarrow> byte list" where
  "tun_stream t = wire (t_tunnel t) @ q_value (t_heap t) (pp_queue (t_pp t))"

definition stream_ext :: "tun \<Rightarrow> tun \<Rightarrow> bool" where
  "stream_ext t t' \<longleftrightarrow> frames_ext (tun_stream t) (tun_stream t')"

lemma stream_ext_refl [simp]: "stream_ext t t"
  by (simp add: stream_ext_def)

lemma stream_ext_trans: "stream_ext t t1 \<Longrightarrow> stream_ext t1 t2 \<Longrightarrow> stream_ext t t2"
  unfolding stream_ext_def by (rule frames_ext_trans)

lemma stream_ext_queue:
  "wire (t_tunnel t') = wire (t_tunnel t) \<Longrightarrow>
   frames_ext (q_value (t_heap t) (pp_queue (t_pp t))) (q_value (t_heap t') (pp_queue (t_pp t'))) \<Longrightarrow> stream_ext t t'"
  by (simp add: stream_ext_def tun_stream_def frames_ext_prepend)

section \<open>The acts of lwIP\<close>

text \<open>The parts of the state no act changes.\<close>

definition frame_same :: "tun \<Rightarrow> tun \<Rightarrow> bool" where
  "frame_same t t' \<longleftrightarrow> t_config t' = t_config t \<and> t_state t' = t_state t \<and> t_terminate t' = t_terminate t \<and>
     t_tunnel t' = t_tunnel t \<and> t_listening t' = t_listening t \<and> t_listener t' = t_listener t \<and>
     t_remote t' = t_remote t \<and> t_connecting t' = t_connecting t \<and> t_clients_count t' = t_clients_count t"

definition clock_ok :: "tun \<Rightarrow> tun \<Rightarrow> bool" where
  "clock_ok t t' \<longleftrightarrow> set (t_timers t') \<subseteq> set (t_timers t) \<and>
     (t_abort_timeout t' \<longrightarrow> t_abort_timeout t \<or> Abort_timer \<in> set (t_timers t)) \<and>
     (t_abort_timeout t \<or> Abort_timer \<in> set (t_timers t) \<longrightarrow> t_abort_timeout t' \<or> Abort_timer \<in> set (t_timers t')) \<and>
     (t_disconnect_timeout t \<or> Disconnect_timer \<in> set (t_timers t) \<longrightarrow>
        t_disconnect_timeout t' \<or> Disconnect_timer \<in> set (t_timers t'))"

lemma frame_same_refl [simp]: "frame_same t t" and clock_ok_refl [simp]: "clock_ok t t"
  by (simp_all add: frame_same_def clock_ok_def)

lemma frame_same_trans: "frame_same t t1 \<Longrightarrow> frame_same t1 t2 \<Longrightarrow> frame_same t t2"
  by (simp add: frame_same_def)

lemma clock_ok_trans: "clock_ok t t1 \<Longrightarrow> clock_ok t1 t2 \<Longrightarrow> clock_ok t t2"
  unfolding clock_ok_def by blast

definition act_good :: "tun \<Rightarrow> tun \<Rightarrow> bool" where
  "act_good t t' \<longleftrightarrow> tun_ok t' \<and> frame_same t t' \<and> clock_ok t t' \<and> moved (t_fwds t) (t_fwds t') \<and>
     stream_ext t t'"

lemma act_good_refl: "tun_ok t \<Longrightarrow> act_good t t"
  by (simp add: act_good_def moved_refl)

lemma act_good_trans: "act_good t t1 \<Longrightarrow> act_good t1 t2 \<Longrightarrow> act_good t t2"
  unfolding act_good_def using frame_same_trans clock_ok_trans moved_trans stream_ext_trans by blast

lemma act_event_good:
  assumes "tun_ok t" "act_ok (Act_event k e) t"
  shows "\<exists>t'. act_apply now (Act_event k e) t = Some t' \<and> act_good t t'"
proof -
  let ?p = "t_fwds t ! k"
  from assms have k: "k < length (t_fwds t)" and en: "pf_event_enabled e (t_heap t) ?p" and l: "\<forall>h'. e \<noteq> Ev_heap h'"
      "\<forall>rq np rc l. e \<noteq> Ev_connect rq np rc l"
    and o: "objs (t_heap t) (t_pp t) (t_fwds t)" and c: "ev_cells e (t_heap t) \<inter> tun_owned t = {}"
    by (auto simp: tun_ok_def)
  have all: "fw.all_inv (t_heap t) (t_fwds t)" using o by (simp add: objs_def)
  then have "fw_inv (t_heap t) ?p" using k fw.all_inv_nth by blast
  from fw_event [OF this en l(1)] obtain h' p' where
    r: "pf_event_run e (t_heap t) ?p = Some (h', p')" "fw_inv h' p'" "pf_moves ?p p'"
      "heap_move (pf_own (t_heap t) ?p \<union> ev_cells e (t_heap t)) (t_heap t) (pf_own h' p') h'" by blast
  have d: "ev_cells e (t_heap t) \<inter> fw.all_own (t_heap t) (t_fwds t) = {}"
    "ev_cells e (t_heap t) \<inter> pp_own (t_heap t) (t_pp t) = {}" using c by (auto simp: tun_owned_def)
  note u = fw.all_nth_update [OF all k r(2,4) d(1)]
  have "fw_moves ?p p'" using r(3) event_fd [OF r(1) l(2)] by (simp add: fw_moves_def)
  then have "moved (t_fwds t) ((t_fwds t)[k := p'])"
    using k unfolding moved_def by (auto simp: list_all2_conv_all_nth nth_list_update)
  with objs_fw [OF o u d(2)] r(1) assms(1) show ?thesis
    by (simp add: act_good_def tun_ok_def frame_same_def clock_ok_def stream_ext_queue)
qed

lemma act_packet_good:
  assumes "tun_ok t" "act_ok (Act_packet a protocol) t"
  shows "\<exists>t'. act_apply now (Act_packet a protocol) t = Some t' \<and> act_good t t'"
proof -
  let ?as = "cells (length (t_heap t)) (t_heap t) (Some a)"
  from assms have o: "objs (t_heap t) (t_pp t) (t_fwds t)" and v: "pp_valid (t_heap t) (t_pp t)"
    and s: "chain_ok (t_heap t) (Some a) ?as" "\<forall>x \<in> set ?as. ref_at (t_heap t) x \<noteq> 0" "ref_at (t_heap t) a + 1 \<noteq> 0"
      "length (chain_bytes (t_heap t) ?as) + 10 < 65536"
    and d: "set ?as \<inter> pp_own (t_heap t) (t_pp t) = {}" "set ?as \<inter> fw.all_own (t_heap t) (t_fwds t) = {}"
    by (auto simp: tun_ok_def objs_def packet_sendable_def tun_owned_def Let_def)
  from pp_output_move [OF v s(1-3) d(1) s(4), of now protocol] obtain h' i' where
    r: "pp_output now a protocol (t_heap t) (t_pp t) = Some (h', i')" "pp_valid h' i'"
      "heap_move (pp_own (t_heap t) (t_pp t) \<union> set ?as) (t_heap t) (pp_own h' i') h'"
      "(pp_pcb i' = None) = (pp_pcb (t_pp t) = None)"
      "frames_ext (q_value (t_heap t) (pp_queue (t_pp t))) (q_value h' (pp_queue i'))" by (elim exE conjE) (rule that)
  have "pp_pcb i' \<noteq> None" using r(4) assms(1) unfolding tun_ok_def by blast
  with objs_pp [OF o r(2,3) d(2)] r(1,5) show ?thesis
    by (simp add: act_good_def tun_ok_def frame_same_def clock_ok_def moved_refl stream_ext_queue)
qed

lemma pp_valid_pcb:
  assumes "pp_valid h i" "pp_queue i' = pp_queue i" "link_ok h (pp_pcb i) \<Longrightarrow> link_ok h (pp_pcb i')"
    and "link_own (pp_pcb i') \<subseteq> link_own (pp_pcb i)"
  shows "pp_valid h i'" "pp_own h i' \<subseteq> pp_own h i"
  using assms unfolding pp_valid_def pp_own_def by auto

lemma act_good_apply:
  assumes "tun_ok t" "act_ok a t"
  shows "\<exists>t'. act_apply now a t = Some t' \<and> act_good t t'"
proof (cases a)
  case (Act_ppp dead up l)
  let ?i = "(t_pp t)\<lparr>pp_pcb := map_option (\<lambda>b. b\<lparr>pcb_dead := dead, pcb_if4_up := up, pcb_lcp := l\<rparr>) (pp_pcb (t_pp t))\<rparr>"
  have "pp_valid (t_heap t) ?i" "pp_own (t_heap t) ?i \<subseteq> pp_own (t_heap t) (t_pp t)"
    using assms(1) pp_valid_pcb [of "t_heap t" "t_pp t" ?i] by (auto simp: tun_ok_def objs_def split: option.splits)
  with assms(1) Act_ppp show ?thesis
    by (auto simp: act_good_def tun_ok_def objs_def frame_same_def clock_ok_def moved_refl stream_ext_queue)
next
  case (Act_heap h')
  let ?C = "- (pp_own (t_heap t) (t_pp t) \<union> fw.all_own (t_heap t) (t_fwds t))"
  have m: "heap_move ?C (t_heap t) {} h'" using assms(2) Act_heap by (auto simp: heap_move_def tun_owned_def)
  from assms(1) have o: "pp_valid (t_heap t) (t_pp t)" "fw.all_inv (t_heap t) (t_fwds t)"
    "pp_own (t_heap t) (t_pp t) \<inter> fw.all_own (t_heap t) (t_fwds t) = {}" by (simp_all add: tun_ok_def objs_def)
  have "pp_own (t_heap t) (t_pp t) \<inter> ?C = {}" "fw.all_own (t_heap t) (t_fwds t) \<inter> ?C = {}" by auto
  with hp.undisturbed [OF o(1) _ m] fw.all_undisturbed [OF o(2) _ m] o(3)
  have "objs h' (t_pp t) (t_fwds t)" "q_value h' (pp_queue (t_pp t)) = q_value (t_heap t) (pp_queue (t_pp t))"
    by (simp_all add: objs_def)
  with assms(1) Act_heap show ?thesis
    by (simp add: act_good_def tun_ok_def frame_same_def clock_ok_def moved_refl stream_ext_queue)
next
  case (Act_timer tm)
  with assms show ?thesis
    by (cases tm) (auto simp: act_good_def tun_ok_def frame_same_def clock_ok_def moved_refl stream_ext_queue)
qed (use assms act_event_good act_packet_good in blast)+

lemma tun_acts_good: "tun_ok t \<Longrightarrow> \<exists>t'. tun_acts now as t = Some t' \<and> act_good t t'"
proof (induction as arbitrary: t)
  case (Cons a as)
  show ?case
  proof (cases "act_ok a t")
    case True
    from act_good_apply [OF Cons.prems True] obtain t1 where t1: "act_apply now a t = Some t1" "act_good t t1" by blast
    then have "tun_ok t1" by (simp add: act_good_def)
    from Cons.IH [OF this] t1 True act_good_trans show ?thesis by (simp, blast)
  qed (use Cons in simp)
qed (simp add: act_good_refl)

section \<open>The steps of an iteration\<close>

text \<open>The tunnel may be closed meanwhile, and the thread asked to terminate.\<close>

definition io_good :: "tun \<Rightarrow> tun \<Rightarrow> bool" where
  "io_good t t' \<longleftrightarrow> tun_ok t' \<and> clock_ok t t' \<and> moved (t_fwds t) (t_fwds t') \<and> stream_ext t t' \<and>
     t_config t' = t_config t \<and> t_state t' = t_state t \<and> (t_terminate t \<longrightarrow> t_terminate t') \<and>
     t_remote t' = t_remote t \<and> t_connecting t' = t_connecting t \<and> t_listener t' = t_listener t \<and>
     (fd (t_tunnel t') = fd (t_tunnel t) \<or> fd (t_tunnel t') = -1)"

lemma io_good_trans:
  assumes "io_good t t1" "io_good t1 t2"
  shows "io_good t t2"
  using assms clock_ok_trans [of t t1 t2] moved_trans [of "t_fwds t" "t_fwds t1" "t_fwds t2"] stream_ext_trans [of t t1 t2]
  by (auto simp: io_good_def)

lemma io_good_refl: "tun_ok t \<Longrightarrow> io_good t t"
  by (simp add: io_good_def moved_refl)

lemma act_io_good: "act_good t t' \<Longrightarrow> io_good t t'"
  by (auto simp: act_good_def io_good_def frame_same_def)

lemma shutdown_io_good: "tun_ok t \<Longrightarrow> io_good t (tun_terminate (tun_shutdown_tunnel t))"
  by (simp add: io_good_def tun_terminate_def tun_shutdown_tunnel_def tun_ok_def tls_shutdown_fd clock_ok_def moved_refl
      stream_ext_queue tls_shutdown_wire)

lemma pp_part_io_good:
  assumes "tun_ok t" "pp_valid h' i'" "heap_move (pp_own (t_heap t) (t_pp t)) (t_heap t) (pp_own h' i') h'"
    "pp_pcb i' \<noteq> None" "fd w' = fd (t_tunnel t)"
    "wire w' @ q_value h' (pp_queue i') = wire (t_tunnel t) @ q_value (t_heap t) (pp_queue (t_pp t))"
  shows "io_good t (t\<lparr>t_heap := h', t_pp := i', t_tunnel := w'\<rparr>)"
proof -
  have "objs h' i' (t_fwds t)"
    using objs_pp [of "t_heap t" "t_pp t" "t_fwds t" h' i' "{}"] assms(1-3) by (simp add: tun_ok_def)
  with assms show ?thesis
    by (simp add: io_good_def tun_ok_def clock_ok_def moved_refl stream_ext_def tun_stream_def)
qed

lemma tun_send_good:
  assumes "tun_ok t"
  shows "\<exists>t'. tun_send ws t = Some t' \<and> io_good t t'"
proof (cases "fd (t_tunnel t) \<in> set ws")
  case True
  have v: "pp_valid (t_heap t) (t_pp t)" using assms by (simp add: tun_ok_def objs_def)
  from pp_send_move [OF v, of "t_tunnel t"] obtain ok h' i' w' where
    s: "pp_send (t_heap t) (t_pp t) (t_tunnel t) = Some (ok, h', i', w')" "pp_valid h' i'"
      "heap_move (pp_own (t_heap t) (t_pp t)) (t_heap t) (pp_own h' i') h'" "pp_pcb i' = pp_pcb (t_pp t)"
      "fd w' = fd (t_tunnel t)"
      "wire w' @ q_value h' (pp_queue i') = wire (t_tunnel t) @ q_value (t_heap t) (pp_queue (t_pp t))" by fastforce
  let ?t1 = "t\<lparr>t_heap := h', t_pp := i', t_tunnel := w'\<rparr>"
  have g: "io_good t ?t1" using pp_part_io_good [OF assms s(2,3) _ s(5,6)] s(4) assms by (simp add: tun_ok_def)
  then have "tun_ok ?t1" by (simp add: io_good_def)
  from io_good_trans [OF g shutdown_io_good [OF this]] g True s(1) show ?thesis
    by (cases ok) (simp_all add: tun_send_def)
qed (simp add: tun_send_def io_good_refl assms)

lemma tun_recv_good:
  assumes "tun_ok t"
  shows "\<exists>t'. tun_recv e rs t = Some t' \<and> io_good t t'"
proof (cases "fd (t_tunnel t) \<in> set rs")
  case True
  have v: "pp_valid (t_heap t) (t_pp t)" "pp_pcb (t_pp t) \<noteq> None" using assms by (simp_all add: tun_ok_def objs_def)
  from pp_recv_move [OF v, of "t_tunnel t"] obtain ok h' i' w' where
    s: "pp_recv (t_heap t) (t_pp t) (t_tunnel t) = Some (ok, h', i', w')" "pp_valid h' i'"
      "heap_move (pp_own (t_heap t) (t_pp t)) (t_heap t) (pp_own h' i') h'" "pp_pcb i' \<noteq> None"
      "fd w' = fd (t_tunnel t)"
      "wire w' @ q_value h' (pp_queue i') = wire (t_tunnel t) @ q_value (t_heap t) (pp_queue (t_pp t))" by fastforce
  let ?t1 = "t\<lparr>t_heap := h', t_pp := i', t_tunnel := w'\<rparr>"
  have g: "io_good t ?t1" by (rule pp_part_io_good [OF assms s(2-6)])
  then have "tun_ok ?t1" by (simp add: io_good_def)
  from tun_acts_good [OF this] obtain t2 where a: "tun_acts (e_now e) (e_input e) ?t1 = Some t2" "act_good ?t1 t2" by blast
  have g2: "io_good t t2" by (rule io_good_trans [OF g act_io_good [OF a(2)]])
  then have "tun_ok t2" by (simp add: io_good_def)
  from io_good_trans [OF g2 shutdown_io_good [OF this]] g2 True s(1) a(1) show ?thesis
    by (cases ok) (simp_all add: tun_recv_def)
qed (simp add: tun_recv_def io_good_refl assms)

lemma fw_part_io_good:
  assumes "tun_ok t" "objs h' (t_pp t) ps'" "list_all2 fw_moves (t_fwds t) ps'"
    "q_value h' (pp_queue (t_pp t)) = q_value (t_heap t) (pp_queue (t_pp t))"
  shows "io_good t (t\<lparr>t_heap := h', t_fwds := ps'\<rparr>)"
  using assms moved_step [OF assms(3)] by (simp add: io_good_def tun_ok_def clock_ok_def stream_ext_queue)

lemma tun_service_good:
  assumes "tun_ok t"
  shows "\<exists>t'. tun_service e rs ws t = Some t' \<and> io_good t t'"
proof -
  from assms have "objs (t_heap t) (t_pp t) (t_fwds t)" by (simp add: tun_ok_def)
  from objs_each [OF this, where R = fw_moves and f = "\<lambda>h p. pf_service (fd (pf_server p) \<in> set rs)
        (fd (pf_server p) \<in> set ws) (e_mem e (fd (pf_server p))) h p"] fw_service
    fw_part_io_good [OF assms]
  show ?thesis by (fastforce simp: tun_service_def)
qed

lemma tun_transmit_good:
  assumes "tun_ok t"
  shows "\<exists>t'. tun_transmit t = Some t' \<and> io_good t t'"
proof -
  from assms have "objs (t_heap t) (t_pp t) (t_fwds t)" by (simp add: tun_ok_def)
  from objs_each [OF this, where f = pf_transmit and R = fw_moves] fw_transmit fw_part_io_good [OF assms]
  show ?thesis by (fastforce simp: tun_transmit_def)
qed

subsection \<open>A new client\<close>

lemma accept_loop_result:
  "accept_loop cs = (rc, cs') \<Longrightarrow> set cs' \<subseteq> set cs \<and> (rc \<ge> 0 \<longrightarrow> rc \<in> set cs)"
  by (induction cs) (auto simp: ssl_code_defs split: if_splits)

lemma socket_accept_result:
  "socket_accept l c = (rc, l', c') \<Longrightarrow> fd l' = fd l \<and> set (calls l') \<subseteq> set (calls l) \<and>
     (fd c' = fd c \<or> fd c' \<in> set (calls l))"
  by (auto simp: socket_accept_def Let_def dest!: accept_loop_result split: if_splits prod.splits)

lemma set_nodelay_fd [simp]: "fd (snd (set_nodelay b w)) = fd w"
  by (auto simp: set_nodelay_def raw_call_def split: list.splits prod.splits)

lemma pf_connect_result:
  assumes "pf_connect rq np rc l p = Some (ok, l', p')"
  shows "fd l' = fd l \<and> set (calls l') \<subseteq> set (calls l)"
    "ok \<Longrightarrow> pf_state p' \<in> {CONNECTING, FAILED}"
    "fd (pf_server p') = -1 \<or> fd (pf_server p') = fd (pf_server p) \<or> fd (pf_server p') \<in> set (calls l)"
  using assms
  by (auto simp: pf_connect_def Let_def dns_found_cb_def split: if_splits prod.splits option.splits client.splits
      dest!: socket_accept_result)

definition accept_good :: "int list \<Rightarrow> tun \<Rightarrow> tun \<Rightarrow> bool" where
  "accept_good rs t t' \<longleftrightarrow> tun_ok t' \<and> t_heap t' = t_heap t \<and> t_pp t' = t_pp t \<and> t_timers t' = t_timers t \<and> t_abort_timeout t' = t_abort_timeout t \<and>
     t_disconnect_timeout t' = t_disconnect_timeout t \<and> t_config t' = t_config t \<and> t_state t' = t_state t \<and>
     t_terminate t' = t_terminate t \<and> t_tunnel t' = t_tunnel t \<and> t_remote t' = t_remote t \<and>
     fd (l_socket (t_listener t')) = fd (l_socket (t_listener t)) \<and>
     set (calls (l_socket (t_listener t'))) \<subseteq> set (calls (l_socket (t_listener t))) \<and>
     (t_fwds t' = t_fwds t \<and> t_connecting t' = t_connecting t \<or>
      (\<exists>p. t_fwds t' = t_fwds t @ [p] \<and> pf_state p \<in> {CONNECTING, FAILED} \<and>
         (fd (pf_server p) = -1 \<or> fd (pf_server p) \<in> set (calls (l_socket (t_listener t))))) \<and>
      t_connecting t' \<and> fd (l_socket (t_listener t)) \<in> set rs)"

lemma tun_accept_good:
  assumes "tun_ok t"
  shows "\<exists>t'. tun_accept e rs t = Some t' \<and> accept_good rs t t'"
proof (cases "fd (l_socket (t_listener t)) \<in> set rs")
  case True
  obtain rq np rc w where e: "e_accept e = (rq, np, rc, w)" by (metis prod_cases4)
  let ?p = "pf_new (t_remote t) (cfg_nodelay (t_config t)) (w\<lparr>wire := []\<rparr>)"
  let ?np = "map_option (\<lambda>s. s\<lparr>accepted := []\<rparr>) np" and ?l = "l_socket (t_listener t)" and ?h = "t_heap t"
  have i: "fw_inv ?h ?p" by (rule fw_inv_new)
  have "pf_event_enabled (Ev_connect rq ?np rc ?l) ?h ?p"
    by (simp add: pf_event_enabled_def pf_new_def split: option.split)
  from fw_event [OF i this] obtain h' p' where r: "pf_event_run (Ev_connect rq ?np rc ?l) ?h ?p = Some (h', p')"
    "fw_inv h' p'" by auto
  then obtain ok l' where c: "pf_connect rq ?np rc ?l ?p = Some (ok, l', p')" and h': "h' = ?h"
    by (auto simp: pf_event_run_def with_state_def)
  from i obtain ins outs where "pf_inv ?h ?p ins outs" using fw_inv_good by blast
  moreover have "\<And>s. ?np = Some s \<Longrightarrow> accepted s = []" by auto
  ultimately have "pf_own ?h p' = pf_own ?h ?p" using pf_connect_inv [of ?h ?p ins outs ?np rq rc ?l] c by simp
  then have own: "pf_own ?h p' = {}"
    using q_new_valid [of 8192 ?h] by (simp add: pf_own_def own2_def pf_new_def)
  have "objs ?h (t_pp t) (t_fwds t @ [p'])"
    using assms r(2) own unfolding h' tun_ok_def objs_def fw.all_inv_append by simp
  moreover have "fd (pf_server ?p) = -1" by (simp add: pf_new_def socket_new_def)
  moreover let ?t1 = "t\<lparr>t_listener := (t_listener t)\<lparr>l_socket := l'\<rparr>\<rparr>"
  have "tun_accept e rs t = Some (if ok then ?t1\<lparr>t_connecting := True, t_fwds := t_fwds t @ [p']\<rparr> else ?t1)"
    using True e c by (simp add: tun_accept_def Let_def)
  ultimately show ?thesis
    using pf_connect_result [OF c] assms True by (cases ok) (simp_all add: accept_good_def tun_ok_def)
qed (simp add: tun_accept_def accept_good_def assms)

section \<open>The number of clients\<close>

definition busy :: "pf \<Rightarrow> bool" where
  "busy p \<longleftrightarrow> pf_state p = CONNECTING \<or> pf_state p = CONNECTED"

definition max_clients :: "tun \<Rightarrow> nat" where
  "max_clients t = unat (of_int (cfg_max_clients (t_config t)) :: 64 word)"

text \<open>Descriptors are distinct: nobody else has the one of the listener. At most one connection is
  being opened, and then no other is accepted.\<close>

definition fds_ok :: "tun \<Rightarrow> bool" where
  "fds_ok t \<longleftrightarrow> (let l = l_socket (t_listener t) in
     fd l \<noteq> -1 \<and> fd l \<notin> set (calls l) \<and> fd (t_tunnel t) \<noteq> fd l \<and> (\<forall>p \<in> set (t_fwds t). fd (pf_server p) \<noteq> fd l))"

definition clients_ok :: "tun \<Rightarrow> bool" where
  "clients_ok t \<longleftrightarrow> fds_ok t \<and> (\<forall>p \<in> set (t_fwds t). pf_state p \<noteq> READY) \<and>
     length (filter busy (t_fwds t)) \<le> max_clients t \<and>
     (\<not> t_connecting t \<longrightarrow> (\<forall>p \<in> set (t_fwds t). pf_state p \<noteq> CONNECTING))"

lemma fw_moves_fd: "fw_moves\<^sup>*\<^sup>* p p' \<Longrightarrow> fd_kept p p'"
  by (induction rule: rtranclp_induct) (auto simp: fw_moves_def intro: fd_kept_trans)

lemma fw_moves_state:
  "fw_moves\<^sup>*\<^sup>* p p' \<Longrightarrow> pf_state p \<noteq> READY \<Longrightarrow>
     pf_state p' \<noteq> READY \<and> (busy p' \<longrightarrow> busy p) \<and> (pf_state p' = CONNECTING \<longrightarrow> pf_state p = CONNECTING)"
proof (induction rule: rtranclp_induct)
  case (step q r)
  then have "pf_state r = pf_state q \<or> pf_next (pf_state q) (pf_state r)" by (simp add: fw_moves_def pf_moves_def)
  with step.IH step.prems show ?case by (cases "pf_state q") (auto simp: busy_def)
qed simp

lemma count_le: "list_all2 (\<lambda>p p'. P p' \<longrightarrow> P p) ps qs \<Longrightarrow> length (filter P qs) \<le> length (filter P ps)"
  by (induction rule: list_all2_induct) auto

lemma moved_states:
  assumes "moved ps qs" "\<forall>p \<in> set ps. pf_state p \<noteq> READY"
  shows "\<forall>p \<in> set qs. pf_state p \<noteq> READY" "length (filter busy qs) \<le> length (filter busy ps)"
    "\<forall>p \<in> set ps. pf_state p \<noteq> CONNECTING \<Longrightarrow> \<forall>p \<in> set qs. pf_state p \<noteq> CONNECTING"
    "\<forall>p \<in> set ps. fd (pf_server p) \<noteq> f \<Longrightarrow> f \<noteq> -1 \<Longrightarrow> \<forall>p \<in> set qs. fd (pf_server p) \<noteq> f"
proof -
  let ?R = "\<lambda>p p'. pf_state p' \<noteq> READY \<and> (busy p' \<longrightarrow> busy p) \<and> (pf_state p' = CONNECTING \<longrightarrow> pf_state p = CONNECTING) \<and> fd_kept p p'"
  have "list_all2 ?R ps qs"
    using assms fw_moves_state fw_moves_fd unfolding moved_def list_all2_conv_all_nth by (metis nth_mem)
  then show "\<forall>p \<in> set qs. pf_state p \<noteq> READY" "length (filter busy qs) \<le> length (filter busy ps)"
    "\<forall>p \<in> set ps. pf_state p \<noteq> CONNECTING \<Longrightarrow> \<forall>p \<in> set qs. pf_state p \<noteq> CONNECTING"
    "\<forall>p \<in> set ps. fd (pf_server p) \<noteq> f \<Longrightarrow> f \<noteq> -1 \<Longrightarrow> \<forall>p \<in> set qs. fd (pf_server p) \<noteq> f"
    by (induction rule: list_all2_induct) (auto simp: fd_kept_def)
qed

lemma io_good_clients:
  assumes "io_good t t'" "clients_ok t"
  shows "clients_ok t'"
proof -
  from assms have m: "moved (t_fwds t) (t_fwds t')" "\<forall>p \<in> set (t_fwds t). pf_state p \<noteq> READY"
    by (simp_all add: io_good_def clients_ok_def)
  show ?thesis using moved_states [OF m] assms
    by (auto simp: io_good_def clients_ok_def fds_ok_def Let_def max_clients_def)
qed

text \<open>A client is accepted only when there is room for it.\<close>

lemma accept_clients:
  assumes "accept_good rs t t'" "clients_ok t"
    and room: "fd (l_socket (t_listener t)) \<in> set rs \<Longrightarrow> \<not> t_connecting t \<and> length (filter busy (t_fwds t)) < max_clients t"
  shows "clients_ok t'"
proof -
  have same: "max_clients t' = max_clients t" using assms(1) by (simp add: accept_good_def max_clients_def)
  have old: "\<forall>p \<in> set (t_fwds t). pf_state p \<noteq> READY" "length (filter busy (t_fwds t)) \<le> max_clients t"
    "\<not> t_connecting t \<longrightarrow> (\<forall>p \<in> set (t_fwds t). pf_state p \<noteq> CONNECTING)" "fds_ok t"
    using assms(2) by (simp_all add: clients_ok_def)
  from assms(1) consider "t_fwds t' = t_fwds t" "t_connecting t' = t_connecting t"
    | p where "t_fwds t' = t_fwds t @ [p]" "pf_state p \<in> {CONNECTING, FAILED}"
        "fd (pf_server p) = -1 \<or> fd (pf_server p) \<in> set (calls (l_socket (t_listener t)))" "t_connecting t'"
        "fd (l_socket (t_listener t)) \<in> set rs"
    unfolding accept_good_def by blast
  then show ?thesis
  proof cases
    case 1
    have "fds_ok t'" using old(4) 1 assms(1) by (auto simp: fds_ok_def Let_def accept_good_def)
    with 1 old same show ?thesis by (simp add: clients_ok_def)
  next
    case (2 p)
    have "fds_ok t'" using old(4) 2 assms(1) by (auto simp: fds_ok_def Let_def accept_good_def)
    moreover have "length (filter busy (t_fwds t')) \<le> max_clients t'" using room [OF 2(5)] 2(1) same by simp
    ultimately show ?thesis using 2 old(1) by (auto simp: clients_ok_def)
  qed
qed

lemma fd_sets_ok:
  "fw.all_inv h ps \<Longrightarrow> \<exists>rd wr. pfs_fd_sets h ps (rd0, wr0) = Some (rd, wr) \<and>
     set rd \<subseteq> set rd0 \<union> (\<lambda>p. fd (pf_server p)) ` set ps"
proof (induction ps arbitrary: rd0 wr0)
  case (Cons p ps)
  then have i: "fw_inv h p" "fw.all_inv h ps" by simp_all
  from two_space [OF fw_two [OF i(1)]] obtain b where "pf_can_receive_data h p = Some b"
    by (simp add: pf_can_receive_data_def q_is_full_def)
  with Cons.IH [OF i(2)] show ?case by (fastforce simp: Let_def)
qed simp

section \<open>One iteration\<close>

definition sel_good :: "tun \<Rightarrow> tun \<Rightarrow> bool" where
  "sel_good t t' \<longleftrightarrow> tun_ok t' \<and> clock_ok t t' \<and> stream_ext t t' \<and> t_config t' = t_config t \<and> t_state t' = t_state t \<and>
     (t_terminate t \<longrightarrow> t_terminate t') \<and> (clients_ok t \<longrightarrow> clients_ok t')"

lemma sel_good_trans: "sel_good t t1 \<Longrightarrow> sel_good t1 t2 \<Longrightarrow> sel_good t t2"
  unfolding sel_good_def using clock_ok_trans [of t t1 t2] stream_ext_trans [of t t1 t2] by auto

lemma io_sel_good: "io_good t t' \<Longrightarrow> sel_good t t'"
  using io_good_clients [of t t'] by (auto simp: io_good_def sel_good_def)

lemma accept_sel_good:
  assumes "accept_good rs t t'"
    and "clients_ok t \<Longrightarrow> fd (l_socket (t_listener t)) \<in> set rs \<Longrightarrow>
      \<not> t_connecting t \<and> length (filter busy (t_fwds t)) < max_clients t"
  shows "sel_good t t'"
  using assms accept_clients [OF assms(1)] unfolding sel_good_def
  by (auto simp: accept_good_def clock_ok_def stream_ext_queue)

lemma tun_fd_sets_ok:
  assumes "tun_ok t"
  shows "\<exists>rd wr. tun_fd_sets t = Some (rd, wr) \<and>
    (clients_ok t \<longrightarrow> fd (l_socket (t_listener t)) \<in> set rd \<longrightarrow>
       \<not> t_connecting t \<and> pfs_connected_count (t_fwds t) < max_clients t)"
proof -
  have i: "fw.all_inv (t_heap t) (t_fwds t)" using assms by (simp add: tun_ok_def objs_def)
  let ?a = "pp_if4_up (t_pp t) \<and> \<not> t_connecting t \<and> tun_below_max t"
  let ?rd0 = "if ?a then [fd (l_socket (t_listener t)), fd (t_tunnel t)] else [fd (t_tunnel t)]"
  from fd_sets_ok [OF i, of ?rd0 "if pp_must_transmit (t_pp t) then [fd (t_tunnel t)] else []"] obtain rd wr where
    r: "tun_fd_sets t = Some (rd, wr)" "set rd \<subseteq> set ?rd0 \<union> (\<lambda>p. fd (pf_server p)) ` set (t_fwds t)"
    by (auto simp: tun_fd_sets_def Let_def)
  have "?a" if c: "clients_ok t" "fd (l_socket (t_listener t)) \<in> set rd"
  proof (rule ccontr)
    assume "\<not> ?a"
    with r(2) c(2) have "fd (l_socket (t_listener t)) \<in> insert (fd (t_tunnel t)) ((\<lambda>p. fd (pf_server p)) ` set (t_fwds t))"
      by auto
    with c(1) show False unfolding clients_ok_def fds_ok_def Let_def by (metis imageE insertE)
  qed
  with r(1) show ?thesis by (auto simp: tun_below_max_def max_clients_def)
qed

lemma busy_connected: "\<forall>p \<in> set ps. pf_state p \<noteq> CONNECTING \<Longrightarrow> length (filter busy ps) = pfs_connected_count ps"
  by (induction ps) (auto simp: busy_def pf_is_connected_def)

lemma tun_select_good:
  assumes "tun_ok t"
  shows "\<exists>t'. tun_select e t = Some t' \<and> sel_good t t'"
proof (cases "socket_is_connected (t_tunnel t) \<and> e_select e > 0")
  case False
  have "io_good t (tun_terminate t)" using assms by (simp add: io_good_def tun_terminate_def tun_ok_def clock_ok_def moved_refl stream_ext_queue)
  note g = io_sel_good [OF this] io_sel_good [OF io_good_refl [OF assms]]
  obtain rd wr where "tun_fd_sets t = Some (rd, wr)" using tun_fd_sets_ok [OF assms] by blast
  with False have "tun_select e t = Some t \<or> tun_select e t = Some (tun_terminate t)"
    by (auto simp: tun_select_def)
  with g show ?thesis by blast
next
  case True
  from tun_fd_sets_ok [OF assms] obtain rd wr where s: "tun_fd_sets t = Some (rd, wr)"
    and room: "clients_ok t \<Longrightarrow> fd (l_socket (t_listener t)) \<in> set rd \<Longrightarrow>
      \<not> t_connecting t \<and> pfs_connected_count (t_fwds t) < max_clients t" by blast
  let ?rs = "filter (\<lambda>f. f \<in> set (e_readable e)) rd" and ?ws = "filter (\<lambda>f. f \<in> set (e_writable e)) wr"
  from tun_send_good [OF assms] obtain t1 where t1: "tun_send ?ws t = Some t1" "io_good t t1" by blast
  then have ok1: "tun_ok t1" by (simp add: io_good_def)
  from tun_recv_good [OF ok1] obtain t2 where t2: "tun_recv e ?rs t1 = Some t2" "io_good t1 t2" by blast
  then have ok2: "tun_ok t2" by (simp add: io_good_def)
  note g2 = io_good_trans [OF t1(2) t2(2)]
  from tun_accept_good [OF ok2] obtain t3 where t3: "tun_accept e ?rs t2 = Some t3" "accept_good ?rs t2 t3" by blast
  then have ok3: "tun_ok t3" by (simp add: accept_good_def)
  from tun_service_good [OF ok3] obtain t4 where t4: "tun_service e ?rs ?ws t3 = Some t4" "io_good t3 t4" by blast
  have "sel_good t t3"
  proof -
    have "clients_ok t3" if c: "clients_ok t"
    proof (rule accept_clients [OF t3(2) io_good_clients [OF g2 c]])
      assume "fd (l_socket (t_listener t2)) \<in> set ?rs"
      then have r: "\<not> t_connecting t" "pfs_connected_count (t_fwds t) < max_clients t"
        using room [OF c] g2 by (simp_all add: io_good_def)
      with c have "\<forall>p \<in> set (t_fwds t). pf_state p \<noteq> CONNECTING" "\<forall>p \<in> set (t_fwds t). pf_state p \<noteq> READY"
        by (simp_all add: clients_ok_def)
      moreover have "moved (t_fwds t) (t_fwds t2)" using g2 by (simp add: io_good_def)
      ultimately have "length (filter busy (t_fwds t2)) \<le> pfs_connected_count (t_fwds t)"
        using moved_states(2) [of "t_fwds t" "t_fwds t2"] busy_connected [of "t_fwds t"] by simp
      with r g2 show "\<not> t_connecting t2 \<and> length (filter busy (t_fwds t2)) < max_clients t2"
        by (simp add: io_good_def max_clients_def)
    qed
    with t3(2) io_sel_good [OF g2] show ?thesis
      unfolding sel_good_def using stream_ext_trans [of t t2 t3] stream_ext_queue [of t3 t2]
      by (auto simp: accept_good_def clock_ok_def)
  qed
  from sel_good_trans [OF this io_sel_good [OF t4(2)]] True s t1(1) t2(1) t3(1) t4(1) show ?thesis
    by (simp add: tun_select_def)
qed

lemma tun_delete_fwds: "tun_delete t = t\<lparr>t_fwds := filter (\<lambda>p. pf_state p \<noteq> FAILED \<and> pf_state p \<noteq> DISCONNECTED) (t_fwds t)\<rparr>"
  by (auto simp: tun_delete_def delete_filter pf_has_failed_def pf_is_disconnected_def conj_commute)

lemma filter_busy_le: "length (filter busy (filter P ps)) \<le> length (filter busy ps)"
  by (induction ps) auto

lemma tun_delete_good: "tun_ok t \<Longrightarrow> sel_good t (tun_delete t)"
  using filter_busy_le [of "\<lambda>p. pf_state p \<noteq> FAILED \<and> pf_state p \<noteq> DISCONNECTED" "t_fwds t"]
  by (auto simp: tun_delete_fwds sel_good_def tun_ok_def clock_ok_def objs_sub clients_ok_def fds_ok_def Let_def
      max_clients_def stream_ext_queue)

text \<open>Everything but the state machine.\<close>

definition tun_work :: "tun_env \<Rightarrow> tun \<Rightarrow> tun option" where
  "tun_work e t0 = do {
     let t = (if e_terminate e then tun_terminate t0 else t0);
     t1 \<leftarrow> tun_select e t;
     t2 \<leftarrow> tun_transmit t1;
     t3 \<leftarrow> tun_acts (e_now e) (e_forward e) t2;
     t4 \<leftarrow> tun_acts (e_now e) (e_timeouts e) t3;
     Some (tun_delete t4)
   }"

lemma tun_iter_work:
  "tun_iter e t = do {
     t' \<leftarrow> tun_work e t;
     (stop, t5) \<leftarrow> tun_switch e t';
     Some (stop, t5\<lparr>t_clients_count := pfs_connected_count (t_fwds t5)\<rparr>)
   }"
  by (simp add: tun_iter_def tun_work_def Let_def)

lemma tun_work_good:
  assumes "tun_ok t"
  shows "\<exists>t'. tun_work e t = Some t' \<and> sel_good t t' \<and> (e_terminate e \<longrightarrow> t_terminate t')"
proof -
  let ?t = "if e_terminate e then tun_terminate t else t"
  have g0: "sel_good t ?t" and ok0: "tun_ok ?t"
    using assms by (auto simp: sel_good_def tun_terminate_def tun_ok_def clock_ok_def clients_ok_def fds_ok_def Let_def max_clients_def stream_ext_queue)
  from tun_select_good [OF ok0] obtain t1 where t1: "tun_select e ?t = Some t1" "sel_good ?t t1" by blast
  then have "tun_ok t1" by (simp add: sel_good_def)
  from tun_transmit_good [OF this] obtain t2 where t2: "tun_transmit t1 = Some t2" "io_good t1 t2" by blast
  then have "tun_ok t2" by (simp add: io_good_def)
  from tun_acts_good [OF this] obtain t3 where t3: "tun_acts (e_now e) (e_forward e) t2 = Some t3" "act_good t2 t3" by blast
  then have "tun_ok t3" by (simp add: act_good_def)
  from tun_acts_good [OF this] obtain t4 where t4: "tun_acts (e_now e) (e_timeouts e) t3 = Some t4" "act_good t3 t4" by blast
  then have "tun_ok t4" by (simp add: act_good_def)
  note g = sel_good_trans [OF sel_good_trans [OF sel_good_trans [OF sel_good_trans [OF t1(2) io_sel_good [OF t2(2)]]
    io_sel_good [OF act_io_good [OF t3(2)]]] io_sel_good [OF act_io_good [OF t4(2)]]] tun_delete_good [OF this]]
  have "e_terminate e \<longrightarrow> t_terminate (tun_delete t4)" using g by (auto simp: sel_good_def tun_terminate_def)
  with sel_good_trans [OF g0 g] t1(1) t2(1) t3(1) t4(1) show ?thesis by (simp add: tun_work_def Let_def)
qed

section \<open>The state machine\<close>

fun tun_next :: "tun_state \<Rightarrow> tun_state \<Rightarrow> bool" where
  "tun_next TUN_READY s \<longleftrightarrow> s = TUN_CONNECTING \<or> s = TUN_STOPPED"
| "tun_next TUN_CONNECTING s \<longleftrightarrow> s = TUN_RUNNING \<or> s = TUN_CLOSING \<or> s = TUN_STOPPED"
| "tun_next TUN_RUNNING s \<longleftrightarrow> s = TUN_CLOSING"
| "tun_next TUN_CLOSING s \<longleftrightarrow> s = TUN_DISCONNECTING"
| "tun_next TUN_DISCONNECTING s \<longleftrightarrow> s = TUN_STOPPED"
| "tun_next TUN_STOPPED s \<longleftrightarrow> False"

lemma tun_next_less: "tun_next a b \<Longrightarrow> a < b"
  by (cases a; cases b) (simp_all add: less_tun_state_def)

definition switch_good :: "tun \<Rightarrow> bool \<Rightarrow> tun \<Rightarrow> bool" where
  "switch_good t stop t' \<longleftrightarrow> tun_ok t' \<and> stream_ext t t' \<and> (clients_ok t \<longrightarrow> clients_ok t') \<and> t_terminate t' = t_terminate t \<and> t_config t' = t_config t \<and>
     (t_state t' = t_state t \<or> tun_next (t_state t) (t_state t') \<and> t_state t' \<noteq> TUN_STOPPED) \<and>
     (t_terminate t \<longrightarrow> t_state t' \<noteq> TUN_CONNECTING \<and> t_state t' \<noteq> TUN_RUNNING) \<and>
     (stop \<longrightarrow> t_state t = TUN_DISCONNECTING \<and> t' = t \<and> (pp_dead (t_pp t) \<or> t_disconnect_timeout t))"

lemma tun_ok_cong: "t_heap t' = t_heap t \<Longrightarrow> t_pp t' = t_pp t \<Longrightarrow> t_fwds t' = t_fwds t \<Longrightarrow> tun_ok t' = tun_ok t"
  by (simp add: tun_ok_def)

lemma clients_ok_cong:
  "t_config t' = t_config t \<Longrightarrow> t_tunnel t' = t_tunnel t \<Longrightarrow> t_listener t' = t_listener t \<Longrightarrow>
   t_fwds t' = t_fwds t \<Longrightarrow> t_connecting t' = t_connecting t \<Longrightarrow> clients_ok t' = clients_ok t"
  by (simp add: clients_ok_def fds_ok_def max_clients_def)

lemma switch_terminate:
  assumes "tun_ok t" "t_state t = TUN_RUNNING" "t_terminate t"
  shows "\<exists>t'. tun_switch e t = Some (False, t') \<and> switch_good t False t' \<and> t_state t' = TUN_CLOSING \<and>
    (pfs_connected_count (t_fwds t) > 0 \<longrightarrow> Abort_timer \<in> set (t_timers t'))"
proof -
  have o: "objs (t_heap t) (t_pp t) (t_fwds t)" using assms(1) by (simp add: tun_ok_def)
  then have "fw.all_inv (t_heap t) (t_fwds t)" by (simp add: objs_def)
  from fw_abort_all [OF this] obtain h' ps' where a:
    "pfs_abort_all (t_heap t) (t_fwds t) = Some (pfs_connected_count (t_fwds t), h', ps')" "fw.all_inv h' ps'"
    "heap_move (fw.all_own (t_heap t) (t_fwds t)) (t_heap t) (fw.all_own h' ps') h'"
    "list_all2 (\<lambda>p p'. if pf_is_connected p then fw_moves p p' \<and> pf_state p' = DISCONNECTED else p' = p) (t_fwds t) ps'"
    by blast
  from a(4) have m: "moved (t_fwds t) ps'" unfolding moved_def by (rule list_all2_mono) (auto split: if_splits)
  let ?t1 = "t\<lparr>t_heap := h', t_fwds := ps'\<rparr>"
  have "objs h' (t_pp t) ps'" "q_value h' (pp_queue (t_pp t)) = q_value (t_heap t) (pp_queue (t_pp t))"
    using objs_fw [OF o a(2), of "{}"] a(3) by simp_all
  then have g: "io_good t ?t1" using assms(1) m by (simp add: io_good_def tun_ok_def clock_ok_def stream_ext_queue)
  have sx: "stream_ext t t'" if "t_heap t' = h'" "t_pp t' = t_pp t" "t_tunnel t' = t_tunnel t" for t'
    using g that by (simp add: io_good_def stream_ext_def tun_stream_def)
  let ?t2 = "t\<lparr>t_state := TUN_CLOSING, t_abort_timeout := False, t_heap := h', t_fwds := ps'\<rparr>"
  let ?t' = "if pfs_connected_count (t_fwds t) > 0 then ?t2\<lparr>t_timers := Abort_timer # t_timers t\<rparr> else ?t2"
  have "tun_switch e t = Some (False, ?t')" using a(1) assms by (simp add: tun_switch_def)
  moreover have "switch_good t False ?t'"
    using g io_good_clients [OF g] tun_ok_cong [of ?t' ?t1] clients_ok_cong [of ?t' ?t1] assms sx [of ?t']
    by (simp add: switch_good_def io_good_def)
  ultimately show ?thesis by (intro exI [of _ ?t']) simp
qed

lemma switch_keep_alive:
  assumes "tun_ok t" "t_state t = TUN_RUNNING" "\<not> t_terminate t"
  shows "\<exists>t'. tun_switch e t = Some (False, t') \<and> switch_good t False t'"
proof -
  have o: "objs (t_heap t) (t_pp t) (t_fwds t)" using assms(1) by (simp add: tun_ok_def)
  then have "pp_valid (t_heap t) (t_pp t)" by (simp add: objs_def)
  from pp_keep_alive_move [OF this, of "e_now e"] obtain h' i' where a:
    "pp_send_keep_alive (e_now e) (t_heap t) (t_pp t) = Some (h', i')" "pp_valid h' i'"
    "heap_move (pp_own (t_heap t) (t_pp t)) (t_heap t) (pp_own h' i') h'"
    "(pp_pcb i' = None) = (pp_pcb (t_pp t) = None)"
    "frames_ext (q_value (t_heap t) (pp_queue (t_pp t))) (q_value h' (pp_queue i'))" by (elim exE conjE) (rule that)
  let ?t1 = "t\<lparr>t_heap := h', t_pp := i'\<rparr>"
  have "pp_pcb i' \<noteq> None" using a(4) assms(1) unfolding tun_ok_def by blast
  then have ok: "tun_ok ?t1" using objs_pp [OF o a(2), of "{}"] a(3) by (simp add: tun_ok_def)
  let ?t' = "if t_connecting t then ?t1\<lparr>t_connecting := pfs_has_connecting_forwarders (t_fwds t)\<rparr> else ?t1"
  have "tun_switch e t = Some (False, ?t')" using a(1) assms by (simp add: tun_switch_def)
  moreover have "switch_good t False ?t'"
    using ok tun_ok_cong [of ?t' ?t1] assms stream_ext_queue [of ?t' t] a(5)
    by (auto simp: switch_good_def has_connecting clients_ok_def fds_ok_def max_clients_def Let_def)
  ultimately show ?thesis by blast
qed

lemma tun_switch_good:
  assumes "tun_ok t"
  shows "\<exists>stop t'. tun_switch e t = Some (stop, t') \<and> switch_good t stop t'"
proof (cases "t_state t")
  case TUN_RUNNING
  with assms switch_terminate [of t e] switch_keep_alive [of t e] show ?thesis by blast
next
  case TUN_CONNECTING
  have same: "tun_ok (t\<lparr>t_state := s\<rparr>) = tun_ok t" "clients_ok (t\<lparr>t_state := s\<rparr>) = clients_ok t"
    "tun_ok (t\<lparr>t_listening := True, t_state := s\<rparr>) = tun_ok t"
    "clients_ok (t\<lparr>t_listening := True, t_state := s\<rparr>) = clients_ok t" for s
    by (simp_all add: tun_ok_def clients_ok_def fds_ok_def max_clients_def)
  with assms TUN_CONNECTING stream_ext_queue show ?thesis by (simp add: tun_switch_def switch_good_def ex_bool_eq)
next
  case TUN_CLOSING
  let ?t0 = "t\<lparr>t_state := TUN_DISCONNECTING, t_pp := pp_close (\<lambda>nocarrier b. b) (\<not> socket_is_connected (t_tunnel t)) (t_pp t)\<rparr>"
  have pp: "pp_close (\<lambda>nocarrier b. b) b i = i" for b i by (simp add: pp_close_def option.map_ident)
  have "tun_ok ?t0" using assms by (simp add: tun_ok_def pp)
  from tun_acts_good [OF this] obtain t1 where t1: "tun_acts (e_now e) (e_close e) ?t0 = Some t1" "act_good ?t0 t1" by blast
  note g = act_io_good [OF t1(2)]
  let ?t' = "t1\<lparr>t_disconnect_timeout := False, t_timers := Disconnect_timer # t_timers t1\<rparr>"
  have "stream_ext t ?t'"
  proof (rule stream_ext_trans)
    show "stream_ext t ?t0" by (rule stream_ext_queue) (simp_all add: pp)
    show "stream_ext ?t0 ?t'" using g by (simp add: io_good_def stream_ext_def tun_stream_def)
  qed
  moreover have "clients_ok ?t0 = clients_ok t" by (simp add: clients_ok_def fds_ok_def max_clients_def)
  ultimately have "switch_good t False ?t'"
    using g io_good_clients [OF g] tun_ok_cong [of ?t' t1] clients_ok_cong [of ?t' t1] TUN_CLOSING t1(2)
    by (simp add: switch_good_def io_good_def act_good_def frame_same_def)
  moreover have "switch_good t False t" using assms TUN_CLOSING by (simp add: switch_good_def)
  ultimately show ?thesis using TUN_CLOSING t1(1) by (simp add: tun_switch_def ex_bool_eq)
qed (use assms in \<open>simp_all add: tun_switch_def switch_good_def ex_bool_eq\<close>)

lemma tun_iter_good:
  assumes "tun_ok t"
  shows "\<exists>stop t'. tun_iter e t = Some (stop, t') \<and> tun_ok t' \<and> stream_ext t t' \<and> (clients_ok t \<longrightarrow> clients_ok t') \<and>
    (t_state t' = t_state t \<or> tun_next (t_state t) (t_state t') \<and> t_state t' \<noteq> TUN_STOPPED) \<and>
    (t_terminate t \<or> e_terminate e \<longrightarrow>
       t_terminate t' \<and> t_state t' \<noteq> TUN_CONNECTING \<and> t_state t' \<noteq> TUN_RUNNING) \<and>
    (stop \<longrightarrow> t_state t = TUN_DISCONNECTING \<and> t_state t' = TUN_DISCONNECTING \<and> (pp_dead (t_pp t') \<or> t_disconnect_timeout t')) \<and>
    t_clients_count t' = pfs_connected_count (t_fwds t') \<and> t_config t' = t_config t"
proof -
  from tun_work_good [OF assms, of e] obtain t1 where t1: "tun_work e t = Some t1" "sel_good t t1"
    "e_terminate e \<longrightarrow> t_terminate t1" by blast
  then have "tun_ok t1" by (simp add: sel_good_def)
  from tun_switch_good [OF this, of e] obtain stop t2 where t2: "tun_switch e t1 = Some (stop, t2)" "switch_good t1 stop t2"
    by blast
  let ?t' = "t2\<lparr>t_clients_count := pfs_connected_count (t_fwds t2)\<rparr>"
  have "tun_ok ?t' = tun_ok t2" "clients_ok ?t' = clients_ok t2" "stream_ext t ?t' = stream_ext t t2"
    by (simp_all add: tun_ok_def clients_ok_def fds_ok_def max_clients_def stream_ext_def tun_stream_def)
  with t1 t2 stream_ext_trans [of t t1 t2] show ?thesis by (auto simp: tun_iter_work sel_good_def switch_good_def)
qed

end
