(* ===== verification/TunnelerLife.thy ===== *)
theory TunnelerLife
  imports TunnelerRun
begin

text \<open>
  Whole runs of the tunneler thread: from the constructor and \<^verbatim>\<open>start\<close> through \<^verbatim>\<open>run\<close>. The properties of
  the composed system: no run faults, the states are passed in order, the limit on the number of
  clients, the stream of whole frames towards the gateway, and when the thread ends.
\<close>

section \<open>Opening and closing\<close>

lemma destroy_ok: "ppp_in_ok h p \<Longrightarrow> \<exists>h'. pppossl_destroy h p = Some h' \<and> heap_move (in_own p) h {} h'"
proof (cases "in_data p")
  case (Some a)
  assume "ppp_in_ok h p"
  with Some have a: "chain_ok h (Some a) [a]" "ref_at h a = 1"
    by (auto simp: ppp_in_ok_def in_cell_ok_def split: if_splits)
  have "path h (Some a) [a]" using a(1) by (simp add: chain_ok_def)
  from pbuf_free_frame [OF this] a(2) obtain n h' where "pbuf_free h (Some a) = Some (n, h')"
    "\<forall>x. x \<noteq> a \<longrightarrow> heap_at h' x = heap_at h x" by auto
  with Some show ?thesis by (simp add: pppossl_destroy_def free_current_packet_def in_own_def heap_move_def)
qed (simp add: pppossl_destroy_def free_current_packet_def in_own_def heap_move_def)

lemma tun_finish_ok:
  assumes "tun_ok t"
  shows "\<exists>t'. tun_finish t = Some t' \<and> t_state t' = TUN_STOPPED \<and> t_fwds t' = [] \<and> t_timers t' = [] \<and>
    pp_pcb (t_pp t') = None \<and> \<not> socket_is_connected (t_tunnel t') \<and> \<not> socket_is_connected (l_socket (t_listener t')) \<and>
    t_clients_count t' = t_clients_count t \<and> wire (t_tunnel t') = wire (t_tunnel t)"
proof -
  obtain b where b: "pp_pcb (t_pp t) = Some b" using assms by (auto simp: tun_ok_def)
  then have "ppp_in_ok (t_heap t) (pcb_link b)" using assms by (simp add: tun_ok_def objs_def pp_valid_def)
  from destroy_ok [OF this] obtain h' where "pppossl_destroy (t_heap t) (pcb_link b) = Some h'" by blast
  with b obtain h'' i' where "pp_release (t_heap t) (t_pp t) = Some (h'', i')" "pp_pcb i' = None"
    by (cases "pcb_dead b") (auto simp: pp_release_def)
  then show ?thesis
    by (simp add: tun_finish_def delete_filter tun_shutdown_tunnel_def listener_close_def socket_is_connected_def
        tls_shutdown_fd tls_shutdown_wire)
qed

text \<open>The tunneler as \<^verbatim>\<open>start\<close> leaves it.\<close>

definition tun_started :: "(nat \<times> nat) option \<Rightarrow> bool \<Rightarrow> tun_config \<Rightarrow> byte net \<Rightarrow> endpoint \<Rightarrow> endpoint \<Rightarrow> byte net \<Rightarrow>
    pheap \<Rightarrow> tun" where
  "tun_started sockname started config tunnel local remote lw h =
     snd (tun_start sockname started (tun_new config tunnel local remote lw h))"

lemma tun_started_simps:
  "t_pp (tun_started sn st c tu lo re lw h) = pp_new" "t_fwds (tun_started sn st c tu lo re lw h) = []"
  "t_config (tun_started sn st c tu lo re lw h) = c" "t_tunnel (tun_started sn st c tu lo re lw h) = tu"
  "t_clients_count (tun_started sn st c tu lo re lw h) = 0" "t_timers (tun_started sn st c tu lo re lw h) = []"
  "t_abort_timeout (tun_started sn st c tu lo re lw h) = False"
  "t_listener (tun_started sn st c tu lo re lw h) = snd (listener_bind sn lo (listener_new lw))"
  by (auto simp: tun_started_def tun_start_def tun_new_def Let_def split: prod.splits)

lemma set_nodelay_wire [simp]: "wire (snd (set_nodelay b w)) = wire w"
  by (auto simp: set_nodelay_def raw_call_def split: list.splits prod.splits)

lemma tun_open_good:
  fixes sn st c tu lo re lw h
  defines "t0 \<equiv> tun_started sn st c tu lo re lw h"
  shows "\<exists>ok t'. tun_open created rc acts t0 = Some (ok, t') \<and>
    (if ok then tun_ok t' \<and> t_state t' = TUN_CONNECTING \<and> frames_ext (wire tu) (tun_stream t') \<and>
         (fds_ok t0 \<longrightarrow> clients_ok t') \<and> t_config t' = c \<and> t_clients_count t' = 0
     else t_state t' = TUN_STOPPED \<and> t_fwds t' = [] \<and> wire (t_tunnel t') = wire tu \<and> t_clients_count t' = 0)"
proof -
  note s = tun_started_simps [of sn st c tu lo re lw h, folded t0_def]
  let ?t1 = "t0\<lparr>t_state := TUN_CONNECTING, t_tunnel := snd (set_nodelay (cfg_nodelay c) tu)\<rparr>"
  obtain ok i' where o: "pp_open created rc (t_tunnel ?t1) pp_new = (ok, i')" by (cases "pp_open created rc (t_tunnel ?t1) pp_new")
  show ?thesis
  proof (cases ok)
    case False
    with o s have "tun_open created rc acts t0 = Some (False, ?t1\<lparr>t_pp := i', t_state := TUN_STOPPED\<rparr>)"
      by (simp add: tun_open_def)
    with s show ?thesis by (simp add: ex_bool_eq)
  next
    case True
    with o obtain b where i': "i' = pp_new\<lparr>pp_pcb := Some (b\<lparr>pcb_link := pppossl_connect (pcb_link b)\<rparr>)\<rparr>"
      by (auto simp: pp_open_def split: if_splits option.splits)
    let ?t2 = "?t1\<lparr>t_pp := i'\<rparr>"
    have "pp_valid h' i'" for h'
      using pp_new_valid(1,2) [of h'] unfolding i' by (simp add: pp_valid_def pp_own_def pppossl_connect_def in_own_def)
    then have ok2: "tun_ok ?t2" using s by (simp add: tun_ok_def objs_def i')
    from tun_acts_good [OF this] obtain t3 where t3: "tun_acts 0 acts ?t2 = Some t3" "act_good ?t2 t3" by blast
    note g = act_io_good [OF t3(2)]
    have "tun_stream ?t2 = wire tu" using s pp_new_valid(3) by (simp add: tun_stream_def i')
    moreover have "clients_ok ?t2" if "fds_ok t0" using that s by (simp add: clients_ok_def fds_ok_def Let_def)
    moreover have "t_clients_count t3 = t_clients_count ?t2" using t3(2) by (simp add: act_good_def frame_same_def)
    ultimately show ?thesis
      using True o s t3 g io_good_clients [OF g]
      by (auto simp: tun_open_def io_good_def stream_ext_def)
  qed
qed

section \<open>The loop\<close>

text \<open>The states of the thread inside the loop.\<close>

definition tun_live :: "tun_state \<Rightarrow> bool" where
  "tun_live s \<longleftrightarrow> s \<in> {TUN_CONNECTING, TUN_RUNNING, TUN_CLOSING, TUN_DISCONNECTING}"

lemma state_grows: "s' = s \<or> tun_next s s' \<and> s' \<noteq> TUN_STOPPED \<Longrightarrow> s \<le> s'"
  by (auto dest: tun_next_less)

lemma tun_live_step: "tun_live s \<Longrightarrow> s' = s \<or> tun_next s s' \<and> s' \<noteq> TUN_STOPPED \<Longrightarrow> tun_live s'"
  by (cases s) (auto simp: tun_live_def)

definition loop_good :: "tun \<Rightarrow> bool \<Rightarrow> tun \<Rightarrow> bool" where
  "loop_good t stop t' \<longleftrightarrow> tun_ok t' \<and> stream_ext t t' \<and> (clients_ok t \<longrightarrow> clients_ok t') \<and>
     (clients_ok t \<and> t_clients_count t \<le> max_clients t \<longrightarrow> t_clients_count t' \<le> max_clients t') \<and>
     t_config t' = t_config t \<and> (t_terminate t \<longrightarrow> t_terminate t') \<and> (tun_live (t_state t) \<longrightarrow> tun_live (t_state t')) \<and>
     t_state t \<le> t_state t' \<and> (stop \<longrightarrow> t_state t' = TUN_DISCONNECTING \<and> (pp_dead (t_pp t') \<or> t_disconnect_timeout t'))"

lemma busy_ge: "pfs_connected_count ps \<le> length (filter busy ps)"
  by (induction ps) (auto simp: busy_def pf_is_connected_def)

lemma iter_loop_good:
  assumes "tun_ok t"
  shows "\<exists>stop t'. tun_iter e t = Some (stop, t') \<and> loop_good t stop t'"
proof -
  from tun_iter_good [OF assms, of e] obtain stop t' where i: "tun_iter e t = Some (stop, t')" "tun_ok t'" "stream_ext t t'"
    "clients_ok t \<longrightarrow> clients_ok t'" "t_state t' = t_state t \<or> tun_next (t_state t) (t_state t') \<and> t_state t' \<noteq> TUN_STOPPED"
    "t_terminate t \<longrightarrow> t_terminate t'" "t_clients_count t' = pfs_connected_count (t_fwds t')" "t_config t' = t_config t"
    "stop \<longrightarrow> t_state t' = TUN_DISCONNECTING \<and> (pp_dead (t_pp t') \<or> t_disconnect_timeout t')" by blast
  have "clients_ok t \<longrightarrow> t_clients_count t' \<le> max_clients t'"
    using i(4,7) busy_ge [of "t_fwds t'"] by (auto simp: clients_ok_def)
  moreover have "tun_live (t_state t) \<longrightarrow> tun_live (t_state t')" using i(5) tun_live_step by blast
  moreover have "t_state t \<le> t_state t'" using i(5) state_grows by blast
  ultimately show ?thesis using i by (auto simp: loop_good_def)
qed

lemma loop_good_trans:
  assumes "loop_good t stop t1" "loop_good t1 stop' t2"
  shows "loop_good t stop' t2"
proof -
  have "stream_ext t t2" using assms stream_ext_trans by (simp add: loop_good_def) blast
  moreover have "max_clients t1 = max_clients t" using assms(1) by (simp add: loop_good_def max_clients_def)
  moreover have "t_state t \<le> t_state t2" using assms order_trans by (simp add: loop_good_def) blast
  ultimately show ?thesis using assms by (simp add: loop_good_def)
qed

lemma tun_loop_good: "tun_ok t \<Longrightarrow> \<exists>stop t'. tun_loop es t = Some (stop, t') \<and> loop_good t stop t'"
proof (induction es arbitrary: t)
  case Nil
  then show ?case by (simp add: loop_good_def ex_bool_eq)
next
  case (Cons e es)
  from iter_loop_good [OF Cons.prems] obtain stop t1 where i: "tun_iter e t = Some (stop, t1)" "loop_good t stop t1" by blast
  then have "tun_ok t1" by (simp add: loop_good_def)
  from Cons.IH [OF this] obtain stop' t2 where l: "tun_loop es t1 = Some (stop', t2)" "loop_good t1 stop' t2" by blast
  from loop_good_trans [OF i(2) l(2)] i l(1) show ?case by (cases stop) auto
qed

text \<open>What is known of the thread after any number of iterations.\<close>

definition run_good :: "tun \<Rightarrow> bool \<Rightarrow> tun \<Rightarrow> bool" where
  "run_good t0 stop t \<longleftrightarrow>
     (if stop then t_state t = TUN_STOPPED \<and> t_fwds t = [] \<and> (\<exists>rest. frames_ext (wire (t_tunnel t0)) (wire (t_tunnel t) @ rest))
      else tun_ok t \<and> tun_live (t_state t) \<and> frames_ext (wire (t_tunnel t0)) (tun_stream t) \<and>
        (fds_ok t0 \<longrightarrow> clients_ok t)) \<and>
     (fds_ok t0 \<longrightarrow> t_clients_count t \<le> max_clients t0 \<and> length (filter busy (t_fwds t)) \<le> max_clients t0)"

lemma tun_run_good:
  fixes sn st c tu lo re lw h
  defines "t0 \<equiv> tun_started sn st c tu lo re lw h"
  shows "\<exists>stop t. tun_run created rc acts es t0 = Some (stop, t) \<and> run_good t0 stop t"
proof -
  note s = tun_started_simps [of sn st c tu lo re lw h, folded t0_def]
  from tun_open_good [where created = created and rc = rc and acts = acts and sn = sn and st = st and c = c
      and tu = tu and lo = lo and re = re and lw = lw and h = h, folded t0_def] obtain ok t1 where
    o: "tun_open created rc acts t0 = Some (ok, t1)" and
    g: "if ok then tun_ok t1 \<and> t_state t1 = TUN_CONNECTING \<and> frames_ext (wire tu) (tun_stream t1) \<and>
         (fds_ok t0 \<longrightarrow> clients_ok t1) \<and> t_config t1 = c \<and> t_clients_count t1 = 0
     else t_state t1 = TUN_STOPPED \<and> t_fwds t1 = [] \<and> wire (t_tunnel t1) = wire tu \<and> t_clients_count t1 = 0" by blast
  show ?thesis
  proof (cases ok)
    case False
    have "\<exists>rest. frames_ext (wire tu) (wire tu @ rest)" by (rule exI [of _ "[]"]) simp
    with False o g s have "run_good t0 True t1" unfolding run_good_def by auto
    with False o show ?thesis by (auto simp: tun_run_def)
  next
    case True
    with g have ok1: "tun_ok t1" by simp
    from tun_loop_good [OF this, of es] obtain stop t2 where l: "tun_loop es t1 = Some (stop, t2)" "loop_good t1 stop t2"
      by blast
    have fr: "frames_ext (wire tu) (tun_stream t2)"
      using g True l(2) frames_ext_trans by (auto simp: loop_good_def stream_ext_def)
    have cnt: "t_clients_count t2 \<le> max_clients t0" "clients_ok t2" "length (filter busy (t_fwds t2)) \<le> max_clients t0"
      if "fds_ok t0"
    proof -
      have "max_clients t2 = max_clients t0" "max_clients t1 = max_clients t0"
        using g True l(2) s by (simp_all add: loop_good_def max_clients_def)
      with that g True l(2) show "t_clients_count t2 \<le> max_clients t0" "clients_ok t2"
        "length (filter busy (t_fwds t2)) \<le> max_clients t0"
        by (simp_all add: loop_good_def clients_ok_def)
    qed
    show ?thesis
    proof (cases stop)
      case False
      have "run_good t0 False t2"
        using g True l(2) fr cnt s by (simp add: run_good_def loop_good_def tun_live_def)
      with False True o l(1) show ?thesis by (auto simp: tun_run_def)
    next
      case stop: True
      from l(2) have "tun_ok t2" by (simp add: loop_good_def)
      from tun_finish_ok [OF this] obtain t3 where f: "tun_finish t2 = Some t3" "t_state t3 = TUN_STOPPED" "t_fwds t3 = []"
        "t_clients_count t3 = t_clients_count t2" "wire (t_tunnel t3) = wire (t_tunnel t2)" by blast
      have "run_good t0 True t3"
        unfolding run_good_def using f fr cnt s by (auto simp: tun_stream_def)
      with stop True o l(1) f(1) show ?thesis by (auto simp: tun_run_def)
    qed
  qed
qed

text \<open>The tunneler as the thread has it inside the loop.\<close>

inductive tun_reach :: "tun \<Rightarrow> bool" where
  run: "tun_run created rc acts es (tun_started sn st c tu lo re lw h) = Some (False, t) \<Longrightarrow> tun_reach t"

lemma tun_reach_ok: "tun_reach t \<Longrightarrow> tun_ok t"
proof (induction rule: tun_reach.induct)
  case (run created rc acts es sn st c tu lo re lw h t)
  with tun_run_good [of created rc acts es sn st c tu lo re lw h] show ?case by (auto simp: run_good_def)
qed

lemma tun_reach_state: "tun_reach t \<Longrightarrow> tun_live (t_state t)"
proof (induction rule: tun_reach.induct)
  case (run created rc acts es sn st c tu lo re lw h t)
  with tun_run_good [of created rc acts es sn st c tu lo re lw h] show ?case by (auto simp: run_good_def)
qed

lemma tun_run_limit:
  assumes "tun_run created rc acts es (tun_started sn st c tu lo re lw h) = Some (stop, t)"
    and "fds_ok (tun_started sn st c tu lo re lw h)"
  shows "t_clients_count t \<le> max_clients (tun_started sn st c tu lo re lw h) \<and>
    length (filter busy (t_fwds t)) \<le> max_clients (tun_started sn st c tu lo re lw h)"
  using tun_run_good [of created rc acts es sn st c tu lo re lw h] assms by (auto simp: run_good_def)

text \<open>The bytes of the tunnel and of the output queue are whole frames.\<close>

lemma tun_run_stream:
  "\<exists>stop t ps rest. tun_run created rc acts es (tun_started sn st c tu lo re lw h) = Some (stop, t) \<and>
     wire (t_tunnel t) @ rest = wire tu @ concat (map frame_of ps) \<and>
     (stop \<or> rest = q_content (t_heap t, pp_queue (t_pp t)))"
proof -
  let ?t0 = "tun_started sn st c tu lo re lw h"
  have w: "wire (t_tunnel ?t0) = wire tu" by (simp add: tun_started_simps)
  from tun_run_good [of created rc acts es sn st c tu lo re lw h] obtain stop t where
    r: "tun_run created rc acts es ?t0 = Some (stop, t)" "run_good ?t0 stop t" by blast
  obtain rest where "frames_ext (wire tu) (wire (t_tunnel t) @ rest)"
    "stop \<or> rest = q_content (t_heap t, pp_queue (t_pp t))"
    using r(2) w by (cases stop; simp add: run_good_def tun_stream_def q_value_def; blast)
  with r(1) show ?thesis unfolding frames_ext_def by blast
qed

section \<open>When the thread ends\<close>

lemma tun_acts_append: "tun_acts now (as @ bs) t = Option.bind (tun_acts now as t) (tun_acts now bs)"
  by (induction as arbitrary: t) (auto split: bind_split)

text \<open>A timer that fires at the end of \<^verbatim>\<open>sys_check_timeouts\<close>.\<close>

lemma work_timer_last:
  assumes "e_timeouts e = as @ [Act_timer tm]"
  shows "tun_work e t = Option.bind (tun_work (e\<lparr>e_timeouts := as\<rparr>) t) (tun_acts (e_now e) [Act_timer tm])"
proof -
  have "tun_acts (e_now e) [Act_timer tm] (tun_delete t4) = map_option tun_delete (tun_acts (e_now e) [Act_timer tm] t4)" for t4
    by (cases tm) (simp_all add: tun_delete_fwds)
  moreover have "tun_recv (e\<lparr>e_timeouts := as\<rparr>) = tun_recv e" "tun_accept (e\<lparr>e_timeouts := as\<rparr>) = tun_accept e"
    "tun_service (e\<lparr>e_timeouts := as\<rparr>) = tun_service e"
    by (intro ext; simp add: tun_recv_def tun_accept_def tun_service_def)+
  then have "tun_select (e\<lparr>e_timeouts := as\<rparr>) = tun_select e"
    by (intro ext) (simp add: tun_select_def Let_def case_prod_beta cong: if_cong)
  ultimately show ?thesis unfolding tun_work_def assms tun_acts_append
    by (auto simp: Let_def bind_map_option comp_def map_conv_bind_option split: bind_split)
qed

lemma timer_fires:
  assumes "tun_ok t" "e_timeouts e = as @ [Act_timer tm]"
  shows "\<exists>t'. tun_work e t = Some t' \<and> tun_ok t' \<and> t_state t' = t_state t \<and>
    (tm = Abort_timer \<and> (t_abort_timeout t \<or> Abort_timer \<in> set (t_timers t)) \<longrightarrow> t_abort_timeout t') \<and>
    (tm = Disconnect_timer \<and> (t_disconnect_timeout t \<or> Disconnect_timer \<in> set (t_timers t)) \<longrightarrow> t_disconnect_timeout t')"
proof -
  from tun_work_good [OF assms(1), of "e\<lparr>e_timeouts := as\<rparr>"] obtain t1 where
    t1: "tun_work (e\<lparr>e_timeouts := as\<rparr>) t = Some t1" "tun_ok t1" "clock_ok t t1" "t_state t1 = t_state t"
    by (auto simp: sel_good_def)
  from tun_acts_good [OF t1(2)] obtain t2 where t2: "tun_acts (e_now e) [Act_timer tm] t1 = Some t2" "act_good t1 t2" by blast
  have "tun_work e t = Some t2" using work_timer_last [OF assms(2)] t1(1) t2(1) by simp
  moreover have "t_abort_timeout t2" if "tm = Abort_timer" "t_abort_timeout t \<or> Abort_timer \<in> set (t_timers t)"
  proof -
    have "t_abort_timeout t1 \<or> Abort_timer \<in> set (t_timers t1)" using that(2) t1(3) by (simp add: clock_ok_def)
    with t2(1) that(1) show ?thesis by (auto split: if_splits)
  qed
  moreover have "t_disconnect_timeout t2"
    if "tm = Disconnect_timer" "t_disconnect_timeout t \<or> Disconnect_timer \<in> set (t_timers t)"
  proof -
    have "t_disconnect_timeout t1 \<or> Disconnect_timer \<in> set (t_timers t1)" using that(2) t1(3) by (simp add: clock_ok_def)
    with t2(1) that(1) show ?thesis by (auto split: if_splits)
  qed
  moreover have "tun_ok t2" "t_state t2 = t_state t" using t1(4) t2(2) by (simp_all add: act_good_def frame_same_def)
  ultimately show ?thesis by blast
qed

lemma closing_two_steps:
  assumes "tun_ok t" "t_state t = TUN_CLOSING" "t_abort_timeout t \<or> Abort_timer \<in> set (t_timers t)"
    and "e_timeouts e1 = as @ [Act_timer Abort_timer]" "e_timeouts e2 = bs @ [Act_timer Disconnect_timer]"
  shows "\<exists>t'. tun_loop [e1, e2] t = Some (True, t') \<and> tun_ok t'"
proof -
  from timer_fires [OF assms(1,4)] assms(2,3) obtain t1 where
    t1: "tun_work e1 t = Some t1" "tun_ok t1" "t_state t1 = TUN_CLOSING" "t_abort_timeout t1" by auto
  have pp: "pp_close (\<lambda>nocarrier b. b) b i = i" for b i by (simp add: pp_close_def option.map_ident)
  have "tun_ok (t1\<lparr>t_state := TUN_DISCONNECTING, t_pp := pp_close (\<lambda>nocarrier b. b) (\<not> socket_is_connected (t_tunnel t1)) (t_pp t1)\<rparr>)"
    using t1(2) by (simp add: tun_ok_def pp)
  from tun_acts_good [OF this, of "e_now e1" "e_close e1"] t1 obtain t2 where
    t2: "tun_switch e1 t1 = Some (False, t2)" "tun_ok t2" "t_state t2 = TUN_DISCONNECTING" "Disconnect_timer \<in> set (t_timers t2)"
    by (auto simp: tun_switch_def act_good_def frame_same_def tun_ok_def)
  let ?t3 = "t2\<lparr>t_clients_count := pfs_connected_count (t_fwds t2)\<rparr>"
  have i1: "tun_iter e1 t = Some (False, ?t3)" using t1(1) t2(1) by (simp add: tun_iter_work)
  have "tun_ok ?t3" using t2(2) by (simp add: tun_ok_def)
  from timer_fires [OF this assms(5)] t2(3,4) obtain t4 where
    t4: "tun_work e2 ?t3 = Some t4" "tun_ok t4" "t_state t4 = TUN_DISCONNECTING" "t_disconnect_timeout t4" by auto
  then have "tun_iter e2 ?t3 = Some (True, t4\<lparr>t_clients_count := pfs_connected_count (t_fwds t4)\<rparr>)"
    by (simp add: tun_iter_work tun_switch_def)
  with i1 t4(2) show ?thesis by (simp add: tun_ok_def)
qed

text \<open>A forwarder without a connection that waits for its reply queue to be written.\<close>

definition stuck :: "pf \<Rightarrow> bool" where
  "stuck p \<longleftrightarrow> pf_state p = DISCONNECTING \<and> pf_client p = Null"

lemma stuck_event:
  assumes "fw_inv h p" "stuck p" "lwip_event e" "pf_event_enabled e h p" "pf_event_run e h p = Some (h', p')"
  shows "stuck p'"
proof -
  from fw_inv_good [OF assms(1)] obtain ins outs where "pf_inv h p ins outs" by blast
  then have "\<not> pf_reg p" using assms(2) by (auto simp: pf_inv_def pf_ctrl_def stuck_def)
  with assms(2-) show ?thesis
    by (cases e) (auto simp: pf_event_enabled_def pf_event_run_def stuck_def timeout_cb_def Let_def split: timer.splits)
qed

lemma stuck_transmit: "stuck p \<Longrightarrow> pf_transmit h p = Some (h, p)"
  by (simp add: pf_transmit_def stuck_def pf_has_connection_timed_out_def pf_is_connecting_def pf_is_connected_def
      pf_is_disconnecting_def pf_can_flush_forward_queue_def)

lemma each_pointwise: "heap_each f h ps = Some (h', ps') \<Longrightarrow> list_all2 (\<lambda>p p'. \<exists>h h'. f h p = Some (h', p')) ps ps'"
proof (induction ps arbitrary: h ps')
  case (Cons p ps)
  then obtain h1 p' qs where "f h p = Some (h1, p')" "heap_each f h1 ps = Some (h', qs)" "ps' = p' # qs"
    by (auto split: bind_splits)
  with Cons.IH show ?case by auto
qed simp

lemma stuck_each:
  assumes "heap_each pf_transmit h ps = Some (h', ps')" "\<exists>p \<in> set ps. stuck p"
  shows "\<exists>p \<in> set ps'. stuck p"
  using each_pointwise [OF assms(1)] assms(2)
  by (induction rule: list_all2_induct) (auto simp: stuck_transmit)

text \<open>The tunnel is lost, the abort timer is not armed, and a forwarder is stuck.\<close>

definition tun_hung :: "tun \<Rightarrow> bool" where
  "tun_hung t \<longleftrightarrow> t_state t = TUN_CLOSING \<and> \<not> socket_is_connected (t_tunnel t) \<and> \<not> t_abort_timeout t \<and>
     Abort_timer \<notin> set (t_timers t) \<and> (\<exists>p \<in> set (t_fwds t). stuck p)"

lemma hung_act:
  assumes "tun_ok t" "tun_hung t" "act_ok a t" "act_apply now a t = Some t'"
  shows "tun_hung t'"
proof -
  from act_good_apply [OF assms(1,3), of now] assms(4) have g: "act_good t t'" by simp
  have "\<exists>p \<in> set (t_fwds t'). stuck p"
  proof (cases a)
    case (Act_event k e)
    let ?p = "t_fwds t ! k"
    from Act_event assms(3) have k: "k < length (t_fwds t)" "lwip_event e" "pf_event_enabled e (t_heap t) ?p" by simp_all
    from Act_event assms(4) obtain h' p' where r: "pf_event_run e (t_heap t) ?p = Some (h', p')"
      "t_fwds t' = (t_fwds t)[k := p']" by (auto split: bind_splits)
    have "fw_inv (t_heap t) ?p" using assms(1) k(1) fw.all_inv_nth by (simp add: tun_ok_def objs_def)
    then have s: "stuck ?p \<Longrightarrow> stuck p'" using stuck_event k r(1) by blast
    from assms(2) obtain j where j: "j < length (t_fwds t)" "stuck (t_fwds t ! j)" by (auto simp: tun_hung_def in_set_conv_nth)
    have "stuck (t_fwds t' ! j)" "j < length (t_fwds t')" using j s k(1) r(2) by (auto simp: nth_list_update)
    then show ?thesis using nth_mem by blast
  next
    case (Act_packet b pr)
    with assms(2,4) show ?thesis by (auto simp: tun_hung_def split: bind_splits)
  next
    case (Act_timer tm)
    with assms(2,4) show ?thesis by (cases tm) (auto simp: tun_hung_def)
  qed (use assms(2,4) in \<open>auto simp: tun_hung_def\<close>)
  with g assms(2) show ?thesis
    by (auto simp: tun_hung_def act_good_def frame_same_def clock_ok_def)
qed

lemma hung_acts: "tun_ok t \<Longrightarrow> tun_hung t \<Longrightarrow> tun_acts now as t = Some t' \<Longrightarrow> tun_hung t'"
proof (induction as arbitrary: t)
  case (Cons a as)
  show ?case
  proof (cases "act_ok a t")
    case True
    from act_good_apply [OF Cons.prems(1) True] obtain t1 where t1: "act_apply now a t = Some t1" "act_good t t1" by blast
    have "tun_ok t1" using t1(2) by (simp add: act_good_def)
    moreover have "tun_hung t1" by (rule hung_act [OF Cons.prems(1,2) True t1(1)])
    ultimately show ?thesis using Cons.IH Cons.prems(3) t1(1) True by simp
  qed (use Cons in simp)
qed simp

lemma hung_work:
  assumes "tun_ok t" "tun_hung t" "tun_work e t = Some t'"
  shows "tun_hung t'"
proof -
  let ?t = "if e_terminate e then tun_terminate t else t"
  have ok: "tun_ok ?t" and hu: "tun_hung ?t" and ok': "tun_ok (tun_terminate t)"
    using assms(1,2) by (auto simp: tun_ok_def tun_terminate_def tun_hung_def)
  have sel: "tun_select e ?t = Some ?t" using hu by (auto simp: tun_select_def tun_hung_def)
  from tun_transmit_good [OF ok] obtain t2 where t2: "tun_transmit ?t = Some t2" "io_good ?t t2" by blast
  then have ok2: "tun_ok t2" by (simp add: io_good_def)
  have "tun_hung t2"
  proof -
    from t2(1) obtain h' ps' where r: "heap_each pf_transmit (t_heap ?t) (t_fwds ?t) = Some (h', ps')"
      "t2 = ?t\<lparr>t_heap := h', t_fwds := ps'\<rparr>" by (auto simp: tun_transmit_def split: bind_splits)
    have "\<exists>p \<in> set ps'. stuck p" by (rule stuck_each [OF r(1)]) (use hu in \<open>simp add: tun_hung_def\<close>)
    with hu r(2) show ?thesis by (simp add: tun_hung_def)
  qed
  from tun_acts_good [OF ok2] obtain t3 where t3: "tun_acts (e_now e) (e_forward e) t2 = Some t3" "act_good t2 t3" by blast
  have h3: "tun_hung t3" by (rule hung_acts [OF ok2 \<open>tun_hung t2\<close> t3(1)])
  have ok3: "tun_ok t3" using t3(2) by (simp add: act_good_def)
  from tun_acts_good [OF ok3] obtain t4 where t4: "tun_acts (e_now e) (e_timeouts e) t3 = Some t4" by blast
  have "tun_hung t4" by (rule hung_acts [OF ok3 h3 t4])
  then have "tun_hung (tun_delete t4)" by (auto simp: tun_hung_def tun_delete_fwds stuck_def)
  with assms(3) sel t2(1) t3(1) t4 show ?thesis by (simp add: tun_work_def Let_def)
qed

lemma hung_forever:
  assumes "tun_ok t" "tun_hung t"
  shows "\<exists>t'. tun_loop es t = Some (False, t') \<and> tun_hung t'"
  using assms
proof (induction es arbitrary: t)
  case (Cons e es)
  from tun_work_good [OF Cons.prems(1)] obtain t1 where t1: "tun_work e t = Some t1" "tun_ok t1" by (auto simp: sel_good_def)
  have h1: "tun_hung t1" by (rule hung_work [OF Cons.prems t1(1)])
  then have "t_fwds t1 \<noteq> []" by (auto simp: tun_hung_def)
  then have "tun_switch e t1 = Some (False, t1)" using h1 by (simp add: tun_switch_def tun_hung_def)
  then have i: "tun_iter e t = Some (False, t1\<lparr>t_clients_count := pfs_connected_count (t_fwds t1)\<rparr>)"
    using t1(1) by (simp add: tun_iter_work)
  have "tun_ok (t1\<lparr>t_clients_count := pfs_connected_count (t_fwds t1)\<rparr>)"
    "tun_hung (t1\<lparr>t_clients_count := pfs_connected_count (t_fwds t1)\<rparr>)"
    using t1(2) h1 by (simp_all add: tun_ok_def tun_hung_def)
  from Cons.IH [OF this] i show ?case by simp
qed simp

end
