(* ===== verification/TunnelerProps.thy ===== *)
theory TunnelerProps
  imports TunnelerLife
begin

text \<open>
  The properties of the tunneler, and small runs of it: the tunnel comes up and a client connects;
  the thread is asked to terminate; the tunnel is lost while a forwarder waits for its client.
\<close>

section \<open>Small runs\<close>

definition demo_sock :: "byte net" where
  "demo_sock = \<lparr>is_tls = False, fd = -1, blocking = False, recvs = [], sends = [], polls = [], calls = [],
     elapsed = [], wire = []\<rparr>"

definition demo_tunnel :: "byte net" where
  "demo_tunnel = demo_sock\<lparr>is_tls := True, fd := 5, recvs := [Ret 0]\<rparr>"

definition demo_up :: lcp where
  "demo_up = \<lparr>fsm_opened = True, fsm_id = 0, magicnumber = 0\<rparr>"

definition demo_ppp :: ppp_pcb where
  "demo_ppp = \<lparr>pcb_dead = False, pcb_if4_up = False, pcb_lcp = demo_up, pcb_link = ppp_start\<rparr>"

definition demo_tun :: tun where
  "demo_tun = tun_started (Some (2, 0)) True \<lparr>cfg_nodelay = False, cfg_max_clients = 1\<rparr> demo_tunnel
     \<lparr>hostname = ''127.0.0.1'', port = 0\<rparr> \<lparr>hostname = ''h'', port = 3389\<rparr> (demo_sock\<lparr>calls := [3, 0, 7]\<rparr>) []"

definition demo_env :: tun_env where
  "demo_env = \<lparr>e_terminate = False, e_select = 0, e_readable = [], e_writable = [],
     e_accept = (ERR_OK, Some demo_pcb, ERR_OK, demo_sock), e_mem = (\<lambda>_. Some []), e_input = [], e_forward = [],
     e_timeouts = [], e_close = [], e_now = 0\<rparr>"

definition demo_envs :: "tun_env list" where
  "demo_envs = [demo_env\<lparr>e_timeouts := [Act_ppp False True demo_up]\<rparr>,
     demo_env\<lparr>e_select := 1, e_readable := [3], e_timeouts := [Act_event 0 Ev_connected]\<rparr>]"

definition lost_envs :: "tun_env list" where
  "lost_envs = demo_envs @ [demo_env\<lparr>e_timeouts := [Act_event 0 (Ev_end ERR_OK)]\<rparr>,
     demo_env\<lparr>e_select := 1, e_readable := [5]\<rparr>]"

lemmas tun_demo_defs = demo_tun_def demo_env_def demo_tunnel_def demo_sock_def demo_ppp_def demo_up_def demo_pcb_def

lemmas tun_start_defs = tun_run_def tun_open_def tun_started_def tun_start_def tun_new_def listener_bind_def
  socket_bind_def listener_new_def socket_new_def socket_is_connected_def open_fd_def raw_call_def socket_get_port_def
  set_blocking_mode_def Let_def pp_open_def pp_new_def PPPERR_NONE_def set_nodelay_def ntohs_def

lemmas tun_iter_defs = tun_iter_def tun_select_def tun_fd_sets_def tun_below_max_def tun_send_def tun_recv_def
  tun_accept_def tun_service_def tun_transmit_def tun_delete_fwds tun_switch_def pp_must_transmit_def pp_if4_up_def
  pp_send_keep_alive_def PPP_MAXIDLE_def pppossl_connect_def in_reset_def ppp_start_def tun_terminate_def
  tun_shutdown_tunnel_def tls_shutdown_def tun_owned_def connected_count has_connecting q_is_empty_def q_new_def
  Let_def socket_is_connected_def set_nodelay_def raw_call_def socket_new_def

lemmas pf_step_defs = pf_is_connected_def pf_is_connecting_def pf_is_disconnecting_def pf_connect_def socket_accept_def
  dns_found_cb_def pf_new_def pf_service_def pf_transmit_def pf_has_connection_timed_out_def pf_event_run_def
  with_state_def pf_event_enabled_def ev_cells_def tcp_connected_cb_def pf_can_receive_data_def q_is_full_def
  q_remaining_space_def q_size_def pf_has_data_to_forward_def pf_has_data_to_reply_def pf_can_flush_reply_queue_def
  ERR_OK_def ssl_code_defs pp_recv_def tls_recv_status_def socket_recv_status_def
  raw_recv_def recv_data_def raw_call_def tls_close_status_def tcp_recv_cb_def q_clear_def pf_can_flush_forward_queue_def close_notify_loop.simps socket_shutdown_def

lemma demo_running:
  "\<exists>t. tun_run (Some demo_ppp) 0 [] demo_envs demo_tun = Some (False, t) \<and> t_state t = TUN_RUNNING \<and>
     t_clients_count t = 1 \<and> length (t_fwds t) = 1"
  by (simp add: demo_envs_def tun_demo_defs tun_start_defs) (simp add: tun_iter_defs pf_step_defs)

lemma demo_lost:
  "\<exists>t. tun_run (Some demo_ppp) 0 [] lost_envs demo_tun = Some (False, t) \<and> tun_hung t"
  by (simp add: lost_envs_def demo_envs_def tun_demo_defs tun_start_defs)
    (simp add: tun_iter_defs pf_step_defs tun_hung_def stuck_def)

lemma demo_closing:
  "\<exists>t. tun_run (Some demo_ppp) 0 [] (demo_envs @ [demo_env\<lparr>e_terminate := True\<rparr>]) demo_tun = Some (False, t) \<and>
     t_state t = TUN_CLOSING \<and> Abort_timer \<in> set (t_timers t)"
  by (simp add: demo_envs_def tun_demo_defs tun_start_defs)
    (simp add: tun_iter_defs pf_step_defs pf_abort_def tcp_err_cb_def)

lemma demo_tun_reach: "tun_run created rc acts es demo_tun = Some (False, t) \<Longrightarrow> tun_reach t"
  unfolding demo_tun_def by (rule tun_reach.run)

text \<open>What the log shows of the DNS servers: a server that is only second is not shown, and a missing
  second one is shown as the address zero.\<close>

lemma dns_text_second_server:
  assumes "b \<noteq> 0"
  shows "dns_is_configured 0 b" "dns_text ntoa 0 b = []"
    and "dns_text ntoa b 0 = (if ntoa b \<noteq> [] then ntoa b @ '', '' @ ntoa 0 else ntoa 0)"
  using assms by (simp_all add: dns_is_configured_def dns_text_def Let_def)

section \<open>Properties\<close>


text \<open>What the thread wrote to the tunnel, followed by what is left in the output queue of the PPP
  interface while the thread runs, is a sequence of whole frames: packets of lwIP and keep-alives are
  never torn, mixed, repeated or lost in the middle, however the socket takes them.\<close>

theorem tunnel_stream_framed:
  "\<exists>stop t ps rest. tun_run created rc acts es (tun_started sn st c tu lo re lw h) = Some (stop, t) \<and>
     wire (t_tunnel t) @ rest = wire tu @ concat (map frame_of ps) \<and>
     (stop \<or> rest = q_content (t_heap t, pp_queue (t_pp t)))"
  by (rule tun_run_stream)

text \<open>C7. When the descriptor of the listening socket is not one of another socket of the program, there
  are never more forwarders with a client than the configuration allows (a negative limit is read as
  a number of 64 bits), counting those that still wait for the connection through the tunnel.\<close>

theorem client_limit:
  assumes "tun_run created rc acts es (tun_started sn st c tu lo re lw h) = Some (stop, t)"
    and "fds_ok (tun_started sn st c tu lo re lw h)"
  shows "t_clients_count t \<le> unat (of_int (cfg_max_clients c) :: 64 word) \<and>
    length (filter (\<lambda>p. pf_is_connecting p \<or> pf_is_connected p) (t_fwds t)) \<le>
      unat (of_int (cfg_max_clients c) :: 64 word)"
proof -
  let ?t0 = "tun_started sn st c tu lo re lw h"
  have m: "max_clients ?t0 = unat (of_int (cfg_max_clients c) :: 64 word)"
    by (simp add: max_clients_def tun_started_simps)
  have b: "(\<lambda>p. pf_is_connecting p \<or> pf_is_connected p) = busy"
    by (simp add: fun_eq_iff busy_def pf_is_connecting_def pf_is_connected_def)
  from tun_run_limit [OF assms] show ?thesis unfolding m b .
qed

lemma client_limit_witness:
  "\<exists>t. tun_run (Some demo_ppp) 0 [] demo_envs demo_tun = Some (False, t) \<and> t_clients_count t = 1 \<and>
     t_clients_count t \<le> unat (of_int 1 :: 64 word)"
proof -
  obtain t where t: "tun_run (Some demo_ppp) 0 [] demo_envs demo_tun = Some (False, t)" "t_clients_count t = 1"
    using demo_running by blast
  have "fds_ok demo_tun"
    by (simp add: fds_ok_def demo_tun_def demo_tunnel_def demo_sock_def tun_started_simps tun_start_defs)
  with client_limit [OF t(1) [unfolded demo_tun_def]] t show ?thesis by (simp add: demo_tun_def)
qed

text \<open>C8. Inside the loop every iteration keeps the state of the thread or moves it along connecting,
  running, closing, disconnecting; a request to terminate is never forgotten and ends connecting and
  running in the iteration that sees it; the loop is left only when disconnecting, with the PPP automaton
  dead or the disconnect timer elapsed.\<close>

theorem tunneler_life_cycle:
  assumes "tun_reach t"
  shows "\<exists>stop t'. tun_iter e t = Some (stop, t') \<and>
    (t_state t' = t_state t \<or>
     (t_state t, t_state t') \<in> {(TUN_CONNECTING, TUN_RUNNING), (TUN_CONNECTING, TUN_CLOSING), (TUN_RUNNING, TUN_CLOSING),
       (TUN_CLOSING, TUN_DISCONNECTING)}) \<and>
    (t_terminate t \<or> e_terminate e \<longrightarrow> t_terminate t' \<and> t_state t' \<notin> {TUN_CONNECTING, TUN_RUNNING}) \<and>
    (stop \<longrightarrow> t_state t' = TUN_DISCONNECTING \<and> (pp_dead (t_pp t') \<or> t_disconnect_timeout t')) \<and>
    t_clients_count t' = pfs_connected_count (t_fwds t')"
proof -
  have s: "t_state t \<in> {TUN_CONNECTING, TUN_RUNNING, TUN_CLOSING, TUN_DISCONNECTING}" 
    using tun_reach_state [OF assms] by (simp add: tun_live_def)
  from tun_iter_good [OF tun_reach_ok [OF assms], of e] obtain stop t' where i: "tun_iter e t = Some (stop, t')"
    "t_state t' = t_state t \<or> tun_next (t_state t) (t_state t') \<and> t_state t' \<noteq> TUN_STOPPED"
    "t_terminate t \<or> e_terminate e \<longrightarrow> t_terminate t' \<and> t_state t' \<noteq> TUN_CONNECTING \<and> t_state t' \<noteq> TUN_RUNNING"
    "stop \<longrightarrow> t_state t = TUN_DISCONNECTING \<and> t_state t' = TUN_DISCONNECTING \<and> (pp_dead (t_pp t') \<or> t_disconnect_timeout t')"
    "t_clients_count t' = pfs_connected_count (t_fwds t')" by blast
  have "t_state t' = t_state t \<or>
     (t_state t, t_state t') \<in> {(TUN_CONNECTING, TUN_RUNNING), (TUN_CONNECTING, TUN_CLOSING), (TUN_RUNNING, TUN_CLOSING),
       (TUN_CLOSING, TUN_DISCONNECTING)}" using s i(2) by (cases "t_state t") auto
  with i show ?thesis by auto
qed

lemma tunneler_life_cycle_witness:
  "\<exists>t stop t'. t_state t = TUN_RUNNING \<and> tun_iter (demo_env\<lparr>e_terminate := True\<rparr>) t = Some (stop, t') \<and>
     t_state t' = TUN_CLOSING"
proof -
  obtain t where t: "tun_run (Some demo_ppp) 0 [] demo_envs demo_tun = Some (False, t)" "t_state t = TUN_RUNNING"
    using demo_running by blast
  from tunneler_life_cycle [OF demo_tun_reach [OF t(1)], of "demo_env\<lparr>e_terminate := True\<rparr>"] t(2) show ?thesis
    by (auto simp: demo_env_def)
qed

text \<open>C6. A thread that is closing with its abort timer armed or elapsed ends: two iterations in which
  \<^verbatim>\<open>sys_check_timeouts\<close> fires the armed timers last leave the loop, whatever else happens in them, and
  then the thread stops, with its sockets closed.\<close>

theorem closing_ends:
  assumes "tun_reach t" "t_state t = TUN_CLOSING" "t_abort_timeout t \<or> Abort_timer \<in> set (t_timers t)"
    and "e_timeouts e1 = as @ [Act_timer Abort_timer]" "e_timeouts e2 = bs @ [Act_timer Disconnect_timer]"
  shows "\<exists>t1 t2. tun_loop [e1, e2] t = Some (True, t1) \<and> tun_finish t1 = Some t2 \<and> t_state t2 = TUN_STOPPED \<and>
    t_fwds t2 = [] \<and> t_timers t2 = [] \<and> \<not> socket_is_connected (t_tunnel t2) \<and>
    \<not> socket_is_connected (l_socket (t_listener t2))"
proof -
  from closing_two_steps [OF tun_reach_ok [OF assms(1)] assms(2-5)] obtain t1 where
    t1: "tun_loop [e1, e2] t = Some (True, t1)" "tun_ok t1" by blast
  from tun_finish_ok [OF t1(2)] t1(1) show ?thesis by blast
qed

lemma closing_ends_witness:
  "\<exists>t t1. t_state t = TUN_CLOSING \<and>
     tun_loop [demo_env\<lparr>e_timeouts := [Act_timer Abort_timer]\<rparr>, demo_env\<lparr>e_timeouts := [Act_timer Disconnect_timer]\<rparr>] t =
       Some (True, t1)"
proof -
  obtain t where t: "tun_run (Some demo_ppp) 0 [] (demo_envs @ [demo_env\<lparr>e_terminate := True\<rparr>]) demo_tun = Some (False, t)"
    "t_state t = TUN_CLOSING" "Abort_timer \<in> set (t_timers t)" using demo_closing by blast
  from closing_ends [OF demo_tun_reach [OF t(1)] t(2), of "demo_env\<lparr>e_timeouts := [Act_timer Abort_timer]\<rparr>" "[]"
      "demo_env\<lparr>e_timeouts := [Act_timer Disconnect_timer]\<rparr>" "[]"] t(2,3)
  show ?thesis by auto
qed

text \<open>C15. When the tunnel is lost while the only clients left wait to have their replies written, no abort
  timer is armed and \<^verbatim>\<open>select\<close>, the only place where they are written, is not called any more: the thread
  stays in the closing state for ever, whatever happens, and never stops.\<close>

theorem lost_tunnel_hangs:
  assumes "tun_reach t" "tun_hung t"
  shows "\<forall>es. \<exists>t'. tun_loop es t = Some (False, t') \<and> t_state t' = TUN_CLOSING"
  using hung_forever [OF tun_reach_ok [OF assms(1)] assms(2)] by (auto simp: tun_hung_def)

lemma lost_tunnel_hangs_witness:
  "\<exists>t. tun_run (Some demo_ppp) 0 [] lost_envs demo_tun = Some (False, t) \<and>
     (\<forall>es. \<exists>t'. tun_loop es t = Some (False, t') \<and> t_state t' = TUN_CLOSING)"
proof -
  obtain t where t: "tun_run (Some demo_ppp) 0 [] lost_envs demo_tun = Some (False, t)" "tun_hung t"
    using demo_lost by blast
  from lost_tunnel_hangs [OF demo_tun_reach [OF t(1)] t(2)] t(1) show ?thesis by blast
qed

end
