(* ===== verification/ByteBuffer.thy ===== *)
theory ByteBuffer
  imports ObfString
begin

text \<open>
  \<^verbatim>\<open>utl::ByteBuffer\<close> (\<^verbatim>\<open>util/ByteBuffer.cpp\<close>): a growing byte vector. Its capacity is state, because
  \<^verbatim>\<open>http::Answer::read_line\<close> limits the length of a line with it; it grows as \<^verbatim>\<open>std::vector\<close> of the
  Microsoft library does, by one half or to the size needed. The bytes are written as characters.
\<close>

record bbuf =
  bb_data :: string
  bb_cap :: nat

definition bb_reserve :: "nat \<Rightarrow> bbuf \<Rightarrow> bbuf" where
  "bb_reserve capacity b = b\<lparr>bb_cap := max capacity (bb_cap b)\<rparr>"

definition bb_new :: "nat \<Rightarrow> bbuf" where
  "bb_new capacity = bb_reserve capacity \<lparr>bb_data = [], bb_cap = 0\<rparr>"

text \<open>The memory is wiped up to the capacity, which stays.\<close>

definition bb_clear :: "bbuf \<Rightarrow> bbuf" where
  "bb_clear b = b\<lparr>bb_data := []\<rparr>"

definition vector_growth :: "nat \<Rightarrow> nat \<Rightarrow> nat" where
  "vector_growth capacity new_size =
     (if new_size \<le> capacity then capacity else max (capacity + capacity div 2) new_size)"

definition bb_append :: "string \<Rightarrow> bbuf \<Rightarrow> bbuf" where
  "bb_append data b =
     b\<lparr>bb_data := bb_data b @ data, bb_cap := vector_growth (bb_cap b) (length (bb_data b) + length data)\<rparr>"

definition bb_push :: "char \<Rightarrow> bbuf \<Rightarrow> bbuf" where
  "bb_push c b = b\<lparr>bb_data := bb_data b @ [c], bb_cap := vector_growth (bb_cap b) (length (bb_data b) + 1)\<rparr>"

text \<open>The buffer is enlarged with zeros, which the decoded text then overwrites.\<close>

definition bb_append_obf :: "obfstring \<Rightarrow> bbuf \<Rightarrow> bbuf" where
  "bb_append_obf s b =
     (let current_size = length (bb_data b);
          enlarged = bb_data b @ replicate (length (otext s)) NUL
      in b\<lparr>bb_data := uncrypt_into s enlarged current_size,
           bb_cap := vector_growth (bb_cap b) (length enlarged)\<rparr>)"

definition bb_empty :: "bbuf \<Rightarrow> bool" where
  "bb_empty b \<longleftrightarrow> length (bb_data b) = 0"

definition bb_to_obfstring :: "nat \<Rightarrow> bbuf \<Rightarrow> obfstring" where
  "bb_to_obfstring clock b = obf_of_string clock (bb_data b)"

text \<open>Appending an obfuscated string appends its text.\<close>

lemma bb_append_obf_eq: "bb_append_obf s b = bb_append (uncrypt s) b"
  by (simp add: bb_append_obf_def bb_append_def uncrypt_into_def uncrypt_def Let_def)

lemma bb_push_eq: "bb_push c = bb_append [c]"
  by (simp add: fun_eq_iff bb_push_def bb_append_def)

lemma bb_to_obfstring_text: "uncrypt (bb_to_obfstring clock b) = bb_data b"
  by (simp add: bb_to_obfstring_def obf_simps)

lemma bb_simps [simp]:
  "bb_data (bb_append d b) = bb_data b @ d" "bb_data (bb_new n) = []" "bb_cap (bb_new n) = n"
  "bb_data (bb_clear b) = []" "bb_cap (bb_clear b) = bb_cap b" "bb_data (bb_reserve n b) = bb_data b"
  "bb_empty b \<longleftrightarrow> bb_data b = []"
  by (simp_all add: bb_append_def bb_new_def bb_clear_def bb_reserve_def bb_empty_def)

lemma bb_cap_append:
  "bb_cap b \<le> bb_cap (bb_append d b)" "length (bb_data b @ d) \<le> bb_cap b \<Longrightarrow> bb_cap (bb_append d b) = bb_cap b"
  "length (bb_data b @ d) \<le> bb_cap (bb_append d b)"
  by (auto simp: bb_append_def vector_growth_def max_def)

end
