(* ===== verification/Timer.thy ===== *)
theory Timer
  imports Prelude "HOL-Library.Word"
begin

text \<open>
  \<^verbatim>\<open>utl::Timer\<close> (\<^verbatim>\<open>util/Timer.cpp\<close>): a due time on the 64-bit millisecond clock of \<^verbatim>\<open>GetTickCount64\<close>,
  whose reading is the argument \<open>now\<close>.
\<close>

record timer64 =
  due_time :: "64 word"

definition timer_start :: "64 word \<Rightarrow> 32 word \<Rightarrow> timer64" where
  "timer_start now duration = \<lparr>due_time = now + ucast duration\<rparr>"

definition timer_is_elapsed :: "64 word \<Rightarrow> timer64 \<Rightarrow> bool" where
  "timer_is_elapsed now t \<longleftrightarrow> now > due_time t"

definition timer_remaining :: "64 word \<Rightarrow> timer64 \<Rightarrow> 32 word" where
  "timer_remaining now t = (if now \<ge> due_time t then 0 else ucast (due_time t - now))"

text \<open>As long as the clock does not wrap, a timer that has no time left is elapsed one tick later, and
  the time left is the duration less the time since the start.\<close>

lemma timer_remaining_time:
  fixes t0 now :: "64 word"
  assumes "unat t0 + unat (d :: 32 word) < 2 ^ 64" and "t0 \<le> now"
  shows "unat (timer_remaining now (timer_start t0 d)) = unat d - (unat now - unat t0)"
    and "timer_is_elapsed now (timer_start t0 d) \<longleftrightarrow> unat d < unat now - unat t0"
proof -
  have u: "unat (ucast d :: 64 word) = unat d"
    by (simp add: unsigned_ucast_eq take_bit_nat_eq_self_iff less_trans [OF unsigned_less])
  have due: "unat (t0 + ucast d) = unat t0 + unat d"
    using assms(1) u by (simp add: unat_word_ariths)
  have le: "unat t0 \<le> unat now" using assms(2) by (simp add: word_le_nat_alt)
  have "unat (ucast (t0 + ucast d - now) :: 32 word) = unat t0 + unat d - unat now" if "now < t0 + ucast d"
  proof -
    have "unat now < unat t0 + unat d" using that due by (simp add: word_less_nat_alt)
    moreover have "unat (t0 + ucast d - now) = unat t0 + unat d - unat now"
      using that due by (simp add: unat_sub_if' word_less_nat_alt)
    moreover have "unat d < 2 ^ 32" using unsigned_less [of d] by simp
    then have "unat t0 + unat d - unat now < 2 ^ 32" using le by simp
    ultimately show ?thesis by (simp add: unsigned_ucast_eq take_bit_nat_eq_self_iff)
  qed
  with due le show "unat (timer_remaining now (timer_start t0 d)) = unat d - (unat now - unat t0)"
    by (auto simp: timer_remaining_def timer_start_def word_le_nat_alt not_le word_less_nat_alt)
  from due le show "timer_is_elapsed now (timer_start t0 d) \<longleftrightarrow> unat d < unat now - unat t0"
    by (auto simp: timer_is_elapsed_def timer_start_def word_less_nat_alt)
qed

end
