(* ===== verification/Http.thy ===== *)
theory Http
  imports Cookie ByteBuffer NetSocket UrlCodec
begin

text \<open>
  HTTP messages (\<^verbatim>\<open>http/Headers.cpp\<close>, \<^verbatim>\<open>http/Request.cpp\<close>, \<^verbatim>\<open>http/Answer.cpp\<close>) over the blocking sockets
  of \<open>NetSocket\<close>, whose bytes are characters here. An operation that may throw answers
  \<open>exn + 'a\<close> together with the socket it leaves.

  zlib is a parameter: \<open>inflate seen chunk\<close> are the answers of the calls of \<^verbatim>\<open>inflate\<close> on the next chunk
  of the compressed body after \<open>seen\<close>, each with its return code and the bytes it wrote; a call after
  the last one makes no progress. \<open>gz_init\<close> and \<open>gz_end\<close> say whether \<^verbatim>\<open>inflateInit2\<close> and \<^verbatim>\<open>inflateEnd\<close>
  succeed. The date parser of the cookies, and the wall clock, are parameters as in theory \<open>Cookie\<close>.
\<close>

section \<open>Headers\<close>

abbreviation CR :: char where "CR \<equiv> CHR 0x0D"
abbreviation LF :: char where "LF \<equiv> CHR 0x0A"
abbreviation CRLF :: string where "CRLF \<equiv> [CR, LF]"

definition headers_add :: "strimap \<Rightarrow> strimap \<Rightarrow> strimap" where
  "headers_add headers h = fold (\<lambda>(k, v). sm_set k v) headers h"

definition headers_set :: "string \<Rightarrow> string \<Rightarrow> strimap \<Rightarrow> strimap" where
  "headers_set name val h = sm_set name val h"

definition headers_set_size :: "string \<Rightarrow> nat \<Rightarrow> strimap \<Rightarrow> strimap" where
  "headers_set_size name val h = headers_set name (to_string val) h"

definition headers_get :: "strimap \<Rightarrow> string \<Rightarrow> string option" where
  "headers_get h name = sm_get_str h name"

fun headers_write :: "strimap \<Rightarrow> bbuf \<Rightarrow> bbuf" where
  "headers_write [] buffer = buffer"
| "headers_write ((k, v) # h) buffer =
     headers_write h (bb_append CRLF (bb_append v (bb_append '': '' (bb_append k buffer))))"

section \<open>Requests\<close>

record request =
  rq_verb :: string
  rq_url :: url
  rq_cookies :: cookies
  rq_headers :: strimap
  rq_body :: bbuf

definition request_new :: "string \<Rightarrow> url \<Rightarrow> cookies \<Rightarrow> request" where
  "request_new verb u jar =
     \<lparr>rq_verb = verb, rq_url = u, rq_cookies = jar, rq_headers = [], rq_body = bb_new 2048\<rparr>"

definition request_clear :: "request \<Rightarrow> request" where
  "request_clear rq = rq\<lparr>rq_headers := sm_serase (rq_headers rq), rq_body := bb_clear (rq_body rq)\<rparr>"

definition request_set_body :: "string \<Rightarrow> request \<Rightarrow> request" where
  "request_set_body data rq = rq\<lparr>rq_body := bb_append data (bb_clear (rq_body rq))\<rparr>"

definition request_write_buffer :: "string \<Rightarrow> char net \<Rightarrow> (exn + unit) \<times> char net" where
  "request_write_buffer buffer w =
     (case tcp_write buffer w of (st, w') \<Rightarrow>
        (if snd_code st = NETCTX_SND_ERROR \<or> snd_code st = NETCTX_SND_RETRY then Inl (Mbed_error (snd_rc st))
         else Inr (), w'))"

text \<open>The bytes before the body: the request line, the headers and the cookies that apply.\<close>

definition request_head :: "int \<Rightarrow> request \<Rightarrow> exn + string" where
  "request_head now rq =
     (let b1 = bb_append CRLF (bb_append ''HTTP/1.1'' (bb_push (CHR '' '') (bb_append (url_to_string (rq_url rq) True)
               (bb_push (CHR '' '') (bb_append (rq_verb rq) (bb_new 1024))))));
          b2 = headers_write (rq_headers rq) b1
      in try_bind (jar_to_header now (rq_cookies rq) (rq_url rq)) (\<lambda>cookie_header.
           let b3 = (if length cookie_header > 0
                 then bb_append CRLF (bb_append cookie_header (bb_append ''Cookie: '' b2)) else b2)
           in Inr (bb_data (bb_append CRLF b3))))"

definition request_send :: "int \<Rightarrow> request \<Rightarrow> char net \<Rightarrow> (exn + unit) \<times> char net" where
  "request_send now rq w =
     (let body = rq_body rq;
          rq1 = (if \<not> bb_empty body
            then rq\<lparr>rq_headers := headers_set_size ''Content-Length'' (length (bb_data body)) (rq_headers rq)\<rparr> else rq)
      in case request_head now rq1 of
           Inl e \<Rightarrow> (Inl e, w)
         | Inr head \<Rightarrow>
             (case request_write_buffer head w of
                (Inl e, w1) \<Rightarrow> (Inl e, w1)
              | (Inr _, w1) \<Rightarrow> if \<not> bb_empty body then request_write_buffer (bb_data body) w1 else (Inr (), w1)))"

section \<open>Answers\<close>

datatype answer_status =
    ERR_NONE
  | ERR_EOF
  | ERR_INVALID_FIELD
  | ERR_INVALID_VERSION
  | ERR_INVALID_STATUS_LINE
  | ERR_INVALID_STATUS_CODE
  | ERR_INVALID_HEADER
  | ERR_CHUNK_SIZE
  | ERR_BODY_SIZE
  | ERR_CONTENT_ENCODING
  | ERR_TRANSFER_ENCODING
  | ERR_BODY

fun answer_status_msg :: "answer_status \<Rightarrow> string" where
  "answer_status_msg ERR_EOF = ''HTTP answer EOF''"
| "answer_status_msg ERR_INVALID_FIELD = ''HTTP answer contains non ASCII character''"
| "answer_status_msg ERR_INVALID_STATUS_LINE = ''Invalid HTTP status line''"
| "answer_status_msg ERR_INVALID_VERSION = ''Invalid HTTP version''"
| "answer_status_msg ERR_INVALID_STATUS_CODE = ''Invalid HTTP status code''"
| "answer_status_msg ERR_INVALID_HEADER = ''Invalid HTTP header''"
| "answer_status_msg ERR_CHUNK_SIZE = ''Invalid HTTP chunk size''"
| "answer_status_msg ERR_BODY_SIZE = ''Invalid HTTP body size''"
| "answer_status_msg ERR_CONTENT_ENCODING = ''Unsupported HTTP content encoding''"
| "answer_status_msg ERR_TRANSFER_ENCODING = ''Unsupported HTTP transfer encoding''"
| "answer_status_msg ERR_BODY = ''Incomplete HTTP body''"
| "answer_status_msg ERR_NONE = []"

definition MAX_LINE_SIZE :: nat where "MAX_LINE_SIZE = 8 * 1024"
definition MAX_HEADER_SIZE :: nat where "MAX_HEADER_SIZE = 4 * 1024"
definition MAX_BODY_SIZE :: nat where "MAX_BODY_SIZE = 32 * 1014 * 1024"
definition MAX_CHUNK_SIZE :: nat where "MAX_CHUNK_SIZE = 2 * 1014 * 1024"

record answer =
  an_status :: int
  an_reason :: string
  an_headers :: strimap
  an_cookies :: cookies
  an_body :: bbuf

definition answer_new :: answer where
  "answer_new = \<lparr>an_status = 400, an_reason = ''Bad Request'', an_headers = [], an_cookies = [], an_body = bb_new 4096\<rparr>"

definition answer_clear :: "answer \<Rightarrow> answer" where
  "answer_clear a = a\<lparr>an_status := 400, an_reason := ''Bad Request'', an_body := bb_clear (an_body a),
     an_headers := sm_serase (an_headers a), an_cookies := jar_clear (an_cookies a)\<rparr>"

text \<open>\<open>None\<close> is the answer \<^verbatim>\<open>false\<close>: the socket was closed.\<close>

definition read_buffer :: "nat \<Rightarrow> char net \<Rightarrow> (exn + string option) \<times> char net" where
  "read_buffer len w =
     (case tcp_read len w of (st, bs, w') \<Rightarrow>
        (case rcv_code st of
           NETCTX_RCV_ERROR \<Rightarrow> Inl (Mbed_error (rcv_rc st))
         | NETCTX_RCV_RETRY \<Rightarrow> Inl (Mbed_error (rcv_rc st))
         | NETCTX_RCV_OK \<Rightarrow> Inr (Some bs)
         | NETCTX_RCV_EOF \<Rightarrow> Inr None, w'))"

text \<open>A successful read takes its bytes from what the connection will deliver.\<close>

lemma read_buffer_source:
  assumes "read_buffer len w = (r, w')" and "source w = (avail, c, rc)"
  shows "if len \<le> length avail then r = Inr (Some (take len avail)) \<and> source w' = (drop len avail, c, rc)
    else r = (if c = NETCTX_RCV_EOF then Inr None else Inl (Mbed_error rc))"
proof -
  obtain st bs w1 where t: "tcp_read len w = (st, bs, w1)" by (cases "tcp_read len w") auto
  have e: "c \<noteq> NETCTX_RCV_RETRY" "c \<noteq> NETCTX_RCV_OK" using source_not_retry [of w] assms(2) by simp_all
  from read_loop_spec [OF t [unfolded tcp_read_def] assms(2)] t assms(1) e show ?thesis
    by (cases c) (auto simp: read_buffer_def split: if_splits)
qed

lemma read_some_less:
  "read_buffer n w = (Inr (Some s), w') \<Longrightarrow> 0 < n \<Longrightarrow> length (fst (source w')) < length (fst (source w))"
  using read_buffer_source [of n w "Inr (Some s)" w'] by (cases "source w") (auto split: if_splits)

text \<open>The loop of \<^verbatim>\<open>read_line\<close>: \<open>state\<close> 1 is entered after a carriage return and left only with a line feed.\<close>

function read_line_loop :: "nat \<Rightarrow> nat \<Rightarrow> bbuf \<Rightarrow> char net \<Rightarrow> (exn + answer_status) \<times> bbuf \<times> char net" where
  "read_line_loop state bytes_received buffer w =
     (if state = 2 then (Inr ERR_NONE, buffer, w)
      else
        (case read_buffer 1 w of
           (Inl e, w') \<Rightarrow> (Inl e, buffer, w')
         | (Inr None, w') \<Rightarrow> (Inr ERR_EOF, buffer, w')
         | (Inr (Some cs), w') \<Rightarrow>
             let c = hd cs in
             if state = 0 then
               (if c = CR then read_line_loop 1 (bytes_received + 1) buffer w'
                else if bytes_received < bb_cap buffer
                then read_line_loop 0 (bytes_received + 1) (bb_append [c] buffer) w'
                else read_line_loop 0 (bytes_received + 1) buffer w')
             else if state = 1 then
               (if c = LF then read_line_loop 2 (bytes_received + 1) buffer w'
                else if bytes_received < bb_cap buffer
                then read_line_loop 1 (bytes_received + 1) (bb_push c (bb_push CR buffer)) w'
                else read_line_loop 1 (bytes_received + 1) buffer w')
             else read_line_loop state (bytes_received + 1) buffer w'))"
  by pat_completeness auto
termination
  by (relation "measure (\<lambda>(state, n, buffer, w). length (fst (source w)))") (auto dest!: read_some_less [OF sym])

declare read_line_loop.simps [simp del]

definition read_line :: "bbuf \<Rightarrow> char net \<Rightarrow> (exn + answer_status) \<times> bbuf \<times> char net" where
  "read_line buffer w = read_line_loop 0 0 (bb_clear buffer) w"

text \<open>Reading a line takes at least its end from the connection.\<close>

lemma read_line_loop_step:
  assumes "read_line_loop state n buffer w = (Inr ERR_NONE, b, w')" "state \<noteq> 2"
  shows "\<exists>c w1 state' buffer'. read_buffer 1 w = (Inr (Some c), w1) \<and>
    read_line_loop state' (n + 1) buffer' w1 = (Inr ERR_NONE, b, w')"
  using assms unfolding read_line_loop.simps [of state n buffer w]
  by (auto simp: Let_def split: prod.splits sum.splits option.splits if_splits)

lemma read_line_loop_less:
  assumes "read_line_loop state n buffer w = (Inr ERR_NONE, b, w')"
  shows "length (fst (source w')) \<le> length (fst (source w)) \<and>
     (state \<noteq> 2 \<longrightarrow> length (fst (source w')) < length (fst (source w)))"
  using assms
proof (induction "length (fst (source w))" arbitrary: state n buffer w rule: less_induct)
  case less
  show ?case
  proof (cases "state = 2")
    case True
    with less.prems show ?thesis by (simp add: read_line_loop.simps)
  next
    case False
    from read_line_loop_step [OF less.prems this] obtain c w1 state' buffer' where
      r: "read_buffer 1 w = (Inr (Some c), w1)" "read_line_loop state' (n + 1) buffer' w1 = (Inr ERR_NONE, b, w')" by blast
    from read_some_less [OF r(1)] have "length (fst (source w1)) < length (fst (source w))" by simp
    with less.hyps [OF this r(2)] show ?thesis by linarith
  qed
qed

lemma read_line_less:
  "read_line buffer w = (Inr ERR_NONE, b, w') \<Longrightarrow> length (fst (source w')) < length (fst (source w))"
  unfolding read_line_def using read_line_loop_less by fastforce

section \<open>The status line\<close>

definition an_bind :: "(exn + 'a) \<times> answer \<times> char net \<Rightarrow> ('a \<Rightarrow> answer \<Rightarrow> char net \<Rightarrow> (exn + 'b) \<times> answer \<times> char net) \<Rightarrow>
    (exn + 'b) \<times> answer \<times> char net" where
  "an_bind m f = (case m of (Inl e, a, w) \<Rightarrow> (Inl e, a, w) | (Inr x, a, w) \<Rightarrow> f x a w)"

definition an_read :: "nat \<Rightarrow> answer \<Rightarrow> char net \<Rightarrow> (exn + string option) \<times> answer \<times> char net" where
  "an_read len a w = (case read_buffer len w of (r, w') \<Rightarrow> (r, a, w'))"

fun status_digits :: "string \<Rightarrow> int \<Rightarrow> bool \<times> int" where
  "status_digits [] code = (True, code)"
| "status_digits (c # cs) code =
     (if \<not> is_digit c then (False, code) else status_digits cs (code * 10 + (int (ascii c) - 48)))"

definition read_control_data :: "answer \<Rightarrow> char net \<Rightarrow> (exn + answer_status) \<times> answer \<times> char net" where
  "read_control_data a0 w0 =
     an_bind (an_read 8 (a0\<lparr>an_status := 400, an_reason := ''Bad Request''\<rparr>) w0) (\<lambda>http_version a w.
     if http_version = None then (Inr ERR_INVALID_STATUS_LINE, a, w)
     else if http_version \<noteq> Some ''HTTP/1.1'' then (Inr ERR_INVALID_VERSION, a, w)
     else an_bind (an_read 1 a w) (\<lambda>space a w.
     if space \<noteq> Some '' '' then (Inr ERR_INVALID_STATUS_LINE, a, w)
     else an_bind (an_read 3 a w) (\<lambda>status_code a w.
     case status_code of
       None \<Rightarrow> (Inr ERR_INVALID_STATUS_LINE, a, w)
     | Some digits \<Rightarrow>
         (case status_digits digits 0 of (ok, code) \<Rightarrow>
            let a = a\<lparr>an_status := code\<rparr> in
            if \<not> ok \<or> code < 100 \<or> code \<ge> 600 then (Inr ERR_INVALID_STATUS_CODE, a, w)
            else
              (case read_line (bb_new 1024) w of
                 (Inl e, b, w) \<Rightarrow> (Inl e, a, w)
               | (Inr status, b, w) \<Rightarrow>
                   if status = ERR_NONE \<and> \<not> bb_empty b then
                     (case trim (bb_data b) of
                        Inl e \<Rightarrow> (Inl e, a, w)
                      | Inr reason \<Rightarrow> (Inr status, a\<lparr>an_reason := reason\<rparr>, w))
                   else (Inr status, a, w))))))"

section \<open>The headers\<close>

definition is_valid_field_name :: "string \<Rightarrow> bool" where
  "is_valid_field_name field_name \<longleftrightarrow>
     length field_name > 0 \<and> list_all (\<lambda>c. is_alnum c \<or> c = CHR ''-'') field_name"

text \<open>One line. \<^verbatim>\<open>find\<close>, \<^verbatim>\<open>substr\<close> and \<^verbatim>\<open>trim\<close> of the obfuscated string are those of \<open>ObfString\<close> on its
  text. Only a \<^verbatim>\<open>cookie_error\<close> is caught.\<close>

definition header_line :: "(string \<Rightarrow> int) \<Rightarrow> string \<Rightarrow> answer \<Rightarrow> exn + (answer_status \<times> answer)" where
  "header_line http_date line a =
     (case find_idx (\<lambda>c. c = CHR '':'') line of
        None \<Rightarrow> Inr (ERR_NONE, a)
      | Some pos \<Rightarrow>
          if pos > 0 then
            (let field_name = c_str (take pos line) in
             if \<not> is_valid_field_name field_name then Inr (ERR_INVALID_FIELD, a)
             else try_bind (trim (c_str (drop (pos + 1) line))) (\<lambda>field_value.
               if iequal field_name ''Set-Cookie'' then
                 (case parse_cookie http_date field_value of
                    Inr c \<Rightarrow> Inr (ERR_NONE, a\<lparr>an_cookies := jar_add c (an_cookies a)\<rparr>)
                  | Inl (Cookie_error msg) \<Rightarrow> Inr (ERR_NONE, a)
                  | Inl e \<Rightarrow> Inl e)
               else Inr (ERR_NONE, a\<lparr>an_headers := headers_set field_name field_value (an_headers a)\<rparr>)))
          else Inr (ERR_NONE, a))"

function read_headers_loop ::
    "(string \<Rightarrow> int) \<Rightarrow> bbuf \<Rightarrow> answer \<Rightarrow> char net \<Rightarrow> (exn + answer_status) \<times> answer \<times> char net" where
  "read_headers_loop http_date buffer a w =
     (case read_line buffer w of
        (Inl e, b, w') \<Rightarrow> (Inl e, a, w')
      | (Inr status, b, w') \<Rightarrow>
          if status = ERR_NONE \<and> \<not> bb_empty b then
            (case header_line http_date (bb_data b) a of
               Inl e \<Rightarrow> (Inl e, a, w')
             | Inr (err, a') \<Rightarrow> if err \<noteq> ERR_NONE then (Inr err, a', w') else read_headers_loop http_date b a' w')
          else (Inr status, a, w'))"
  by pat_completeness auto
termination
  by (relation "measure (\<lambda>(d, b, a, w). length (fst (source w)))") (auto dest: read_line_less [OF sym])

declare read_headers_loop.simps [simp del]

definition read_headers :: "(string \<Rightarrow> int) \<Rightarrow> answer \<Rightarrow> char net \<Rightarrow> (exn + answer_status) \<times> answer \<times> char net" where
  "read_headers http_date a w = read_headers_loop http_date (bb_new MAX_HEADER_SIZE) a w"

section \<open>The body\<close>

function read_body :: "nat \<Rightarrow> nat \<Rightarrow> bbuf \<Rightarrow> char net \<Rightarrow> (exn + bool) \<times> bbuf \<times> char net" where
  "read_body sz max_size body w =
     (let len = min sz 4096 in
      case read_buffer len w of
        (Inl e, w') \<Rightarrow> (Inl e, body, w')
      | (Inr None, w') \<Rightarrow> (Inr (sz = 0), body, w')
      | (Inr (Some bs), w') \<Rightarrow>
          let available_space = size_sub max_size (length (bb_data body));
              body' = (if available_space > 0 then bb_append (take (min len available_space) bs) body else body)
          in if sz - len > 0 then read_body (sz - len) max_size body' w' else (Inr (sz - len = 0), body', w'))"
  by pat_completeness auto
termination
  by (relation "measure (\<lambda>(sz, m, b, w). sz)") auto

declare read_body.simps [simp del]

lemma read_body_less:
  "read_body sz m body w = (r, b, w') \<Longrightarrow> r = Inr True \<Longrightarrow> length (fst (source w')) \<le> length (fst (source w))"
proof (induction sz m body w rule: read_body.induct)
  case (1 sz m body w)
  obtain res w1 where p: "read_buffer (min sz 4096) w = (res, w1)" by (cases "read_buffer (min sz 4096) w")
  consider e where "res = Inl e" | "res = Inr None" | bs where "res = Inr (Some bs)"
    by (metis option.exhaust sum.exhaust)
  then show ?case
  proof cases
    case 2
    with 1(2,3) p have "sz = 0" by (simp add: read_body.simps [of sz])
    with p 2 read_buffer_source [of 0 w] show ?thesis by (cases "source w") auto
  next
    case 3
    have le: "length (fst (source w1)) \<le> length (fst (source w))"
      using read_buffer_source [OF p] 3 by (cases "source w") (auto split: if_splits)
    show ?thesis
    proof (cases "sz - min sz 4096 > 0")
      case True
      have "read_body (sz - min sz 4096) m
          (if size_sub m (length (bb_data body)) > 0
           then bb_append (take (min (min sz 4096) (size_sub m (length (bb_data body)))) bs) body else body) w1 = (r, b, w')"
        using 1(2) p 3 True by (auto simp: read_body.simps [of sz m body w] Let_def min_def split: if_splits)
      from 1(1) [OF refl p [symmetric] 3 refl refl refl True this 1(3)] le show ?thesis by simp
    next
      case False
      with 1(2,3) p 3 le show ?thesis by (simp add: read_body.simps [of sz] Let_def)
    qed
  qed (use 1(2,3) p in \<open>simp add: read_body.simps [of sz]\<close>)
qed

definition Z_NEED_DICT :: int where "Z_NEED_DICT = 2"
definition Z_DATA_ERROR :: int where "Z_DATA_ERROR = -3"
definition Z_MEM_ERROR :: int where "Z_MEM_ERROR = -4"

record zlib =
  gz_init :: bool
  gz_end :: bool
  gz_inflate :: "string \<Rightarrow> string \<Rightarrow> (int \<times> string) list"

text \<open>The inner loop goes on while \<^verbatim>\<open>inflate\<close> fills the output buffer of 1024 bytes.\<close>

fun inflate_loop :: "(int \<times> string) list \<Rightarrow> nat \<Rightarrow> bbuf \<Rightarrow> bool \<times> bbuf" where
  "inflate_loop [] max_size body = (True, body)"
| "inflate_loop ((rc, written) # rest) max_size body =
     (if rc = Z_NEED_DICT \<or> rc = Z_DATA_ERROR \<or> rc = Z_MEM_ERROR then (False, body)
      else
        (let out = take 1024 written;
             available_space = size_sub max_size (length (bb_data body));
             body' = (if available_space > 0 then bb_append (take (min (length out) available_space) out) body else body)
         in if length out = 1024 then inflate_loop rest max_size body' else (True, body')))"

function read_gzip_loop ::
    "zlib \<Rightarrow> string \<Rightarrow> nat \<Rightarrow> nat \<Rightarrow> bbuf \<Rightarrow> char net \<Rightarrow> (exn + bool) \<times> bbuf \<times> char net" where
  "read_gzip_loop z seen sz max_size body w =
     (let len = min sz 1024 in
      case read_buffer len w of
        (Inl e, w') \<Rightarrow> (Inl e, body, w')
      | (Inr None, w') \<Rightarrow> (Inr False, body, w')
      | (Inr (Some bs), w') \<Rightarrow>
          (case inflate_loop (gz_inflate z seen bs) max_size body of
             (ok, body') \<Rightarrow>
               if \<not> ok then (Inr False, body', w')
               else if sz - len > 0 then read_gzip_loop z (seen @ bs) (sz - len) max_size body' w'
               else (Inr (gz_end z \<and> sz - len = 0), body', w')))"
  by pat_completeness auto
termination
  by (relation "measure (\<lambda>(z, seen, sz, m, b, w). sz)") auto

declare read_gzip_loop.simps [simp del]

definition read_gzip_body :: "zlib \<Rightarrow> nat \<Rightarrow> nat \<Rightarrow> bbuf \<Rightarrow> char net \<Rightarrow> (exn + bool) \<times> bbuf \<times> char net" where
  "read_gzip_body z sz max_size body w =
     (if \<not> gz_init z then (Inr False, body, w) else read_gzip_loop z [] sz max_size body w)"

text \<open>The chunks of a chunked body; a line that is no number is the chunk size 0.\<close>

function read_chunks :: "bbuf \<Rightarrow> bbuf \<Rightarrow> char net \<Rightarrow> (exn + unit) \<times> bbuf \<times> char net" where
  "read_chunks buffer body w =
     (case read_line buffer w of
        (Inl e, b, w1) \<Rightarrow> (Inl e, body, w1)
      | (Inr status, b, w1) \<Rightarrow>
          if status \<noteq> ERR_NONE \<or> bb_empty b then (Inl (Http_error (answer_status_msg ERR_CHUNK_SIZE)), body, w1)
          else
            (case str2num (bb_data b) 16 0 (int MAX_CHUNK_SIZE) 0 of
               (valid, chunk_size) \<Rightarrow>
                 if \<not> valid then (Inl (Http_error (answer_status_msg ERR_CHUNK_SIZE)), body, w1)
                 else
                   (case (if chunk_size > 0 then read_body (nat chunk_size) MAX_BODY_SIZE body w1 else (Inr True, body, w1)) of
                      (Inl e, body', w2) \<Rightarrow> (Inl e, body', w2)
                    | (Inr complete, body', w2) \<Rightarrow>
                        if \<not> complete then (Inl (Http_error (answer_status_msg ERR_BODY)), body', w2)
                        else
                          (case read_line b w2 of
                             (Inl e, b', w3) \<Rightarrow> (Inl e, body', w3)
                           | (Inr status', b', w3) \<Rightarrow>
                               if status' \<noteq> ERR_NONE \<or> \<not> bb_empty b'
                               then (Inl (Http_error (answer_status_msg ERR_BODY)), body', w3)
                               else if chunk_size > 0 then read_chunks b' body' w3
                               else (Inr (), body', w3)))))"
  by pat_completeness auto
termination
proof (relation "measure (\<lambda>(b, body, w). length (fst (source w)))", goal_cases)
  case (2 buffer body w b w1 x y)
  then show ?case by (auto dest!: read_line_less [OF sym] read_body_less [OF sym, OF _ refl])
qed simp

declare read_chunks.simps [simp del]

definition read_plain :: "zlib \<Rightarrow> bool \<Rightarrow> string option \<Rightarrow> bbuf \<Rightarrow> char net \<Rightarrow> (exn + unit) \<times> bbuf \<times> char net" where
  "read_plain z gzip_content content_length body w =
     (case content_length of
        None \<Rightarrow> (Inr (), body, w)
      | Some text \<Rightarrow>
          (case str2num text 10 0 (int MAX_BODY_SIZE) 0 of
             (valid, sz) \<Rightarrow>
               if \<not> valid then (Inl (Http_error (answer_status_msg ERR_BODY_SIZE)), body, w)
               else if sz > 0 then
                 (case (if gzip_content then read_gzip_body z (nat sz) MAX_BODY_SIZE (bb_reserve (nat sz) body) w
                        else read_body (nat sz) MAX_BODY_SIZE (bb_reserve (nat sz) body) w) of
                    (Inl e, body', w') \<Rightarrow> (Inl e, body', w')
                  | (Inr available, body', w') \<Rightarrow>
                      (if \<not> available then Inl (Http_error (answer_status_msg ERR_BODY)) else Inr (), body', w'))
               else (Inr (), body, w)))"

definition header_encoding :: "strimap \<Rightarrow> string \<Rightarrow> exn + string" where
  "header_encoding h name =
     (case headers_get h name of None \<Rightarrow> Inr [] | Some v \<Rightarrow> try_bind (trim v) (\<lambda>t. Inr (lower t)))"

definition read_message_body :: "zlib \<Rightarrow> answer \<Rightarrow> char net \<Rightarrow> (exn + unit) \<times> bbuf \<times> char net" where
  "read_message_body z a w =
     (case try_bind (header_encoding (an_headers a) ''Transfer-Encoding'') (\<lambda>te.
           try_bind (header_encoding (an_headers a) ''Content-Encoding'') (\<lambda>ce. Inr (te, ce))) of
        Inl e \<Rightarrow> (Inl e, an_body a, w)
      | Inr (transfer_encoding, content_encoding) \<Rightarrow>
          if content_encoding \<noteq> [] \<and> content_encoding \<noteq> ''gzip''
          then (Inl (Http_error (answer_status_msg ERR_CONTENT_ENCODING)), an_body a, w)
          else
            (let gzip_content = (content_encoding = ''gzip'') in
             if transfer_encoding = ''chunked'' then
               (if gzip_content then (Inl (Http_error (answer_status_msg ERR_CONTENT_ENCODING)), an_body a, w)
                else read_chunks (bb_new MAX_LINE_SIZE) (an_body a) w)
             else if transfer_encoding = [] then
               read_plain z gzip_content (headers_get (an_headers a) ''Content-Length'') (an_body a) w
             else (Inl (Http_error (answer_status_msg ERR_TRANSFER_ENCODING)), an_body a, w)))"

definition answer_recv :: "zlib \<Rightarrow> (string \<Rightarrow> int) \<Rightarrow> answer \<Rightarrow> char net \<Rightarrow> (exn + unit) \<times> answer \<times> char net" where
  "answer_recv z http_date a0 w0 =
     an_bind (read_control_data a0 w0) (\<lambda>status a w.
     if status \<noteq> ERR_NONE then (Inl (Http_error (answer_status_msg status)), a, w)
     else an_bind (read_headers http_date a w) (\<lambda>status a w.
     if status \<noteq> ERR_NONE then (Inl (Http_error (answer_status_msg status)), a, w)
     else (case read_message_body z a w of (r, body, w') \<Rightarrow> (r, a\<lparr>an_body := body\<rparr>, w'))))"

end
