(* ===== verification/HttpRead.thy ===== *)
theory HttpRead
  imports Http
begin

text \<open>
  Reading HTTP answers. Whatever pieces the socket delivers, what is read depends only on the bytes
  that will arrive (\<open>source\<close>): lines, headers, bodies of a given length and chunked bodies.
\<close>

section \<open>Bytes and lines\<close>

lemma read_buffer_take:
  assumes "source w = (xs @ rest, e)" "length xs = n"
  shows "\<exists>w'. read_buffer n w = (Inr (Some xs), w') \<and> source w' = (rest, e)"
proof -
  obtain r w' where r: "read_buffer n w = (r, w')" by (cases "read_buffer n w")
  from read_buffer_source [OF r] assms show ?thesis
    by (cases e) (simp add: r)
qed

lemma read_line_loop_plain:
  assumes "source w = (l @ CR # LF # rest, e)" "CR \<notin> set l" "length (bb_data b) \<le> n"
  shows "\<exists>b' w'. read_line_loop 0 n b w = (Inr ERR_NONE, b', w') \<and> source w' = (rest, e) \<and>
    bb_data b' = bb_data b @ take (bb_cap b - n) l \<and> bb_cap b' = bb_cap b"
  using assms
proof (induction l arbitrary: n b w)
  case Nil
  from Nil(1) read_buffer_take [of w "[CR]" "LF # rest" e 1] obtain w1 where
    w1: "read_buffer 1 w = (Inr (Some [CR]), w1)" "source w1 = (LF # rest, e)" by auto
  from w1(2) read_buffer_take [of w1 "[LF]" rest e 1] obtain w2 where
    w2: "read_buffer 1 w1 = (Inr (Some [LF]), w2)" "source w2 = (rest, e)" by auto
  from w1 w2 show ?case
    by (simp add: read_line_loop.simps [of 0 n b w] read_line_loop.simps [of "Suc 0" "Suc n" b w1]
        read_line_loop.simps [of 2 "Suc (Suc n)" b w2] Let_def)
next
  case (Cons c l)
  from Cons.prems(1) read_buffer_take [of w "[c]" "l @ CR # LF # rest" e 1] obtain w1 where
    w1: "read_buffer 1 w = (Inr (Some [c]), w1)" "source w1 = (l @ CR # LF # rest, e)" by auto
  have c: "c \<noteq> CR" "CR \<notin> set l" using Cons.prems(2) by auto
  show ?case
  proof (cases "n < bb_cap b")
    case True
    then have "bb_cap (bb_append [c] b) = bb_cap b" using Cons.prems(3) by (intro bb_cap_append(2)) simp
    with Cons.IH [OF w1(2) c(2), of "bb_append [c] b" "n + 1"] Cons.prems(3) w1(1) c(1) True show ?thesis
      by (auto simp: read_line_loop.simps [of 0 n b w] Let_def take_Cons' Suc_diff_Suc)
  next
    case False
    with Cons.IH [OF w1(2) c(2), of b "n + 1"] Cons.prems(3) w1(1) c(1) show ?thesis
      by (auto simp: read_line_loop.simps [of 0 n b w] Let_def)
  qed
qed

lemma read_line_plain:
  assumes "source w = (l @ CRLF @ rest, e)" "CR \<notin> set l"
  shows "\<exists>b' w'. read_line b w = (Inr ERR_NONE, b', w') \<and> source w' = (rest, e) \<and>
    bb_data b' = take (bb_cap b) l \<and> bb_cap b' = bb_cap b"
  using read_line_loop_plain [of w l rest e "bb_clear b" 0] assms by (simp add: read_line_def)

text \<open>After a carriage return that no line feed follows every character is stored with another one,
  and the capacity, which bounds the line, grows with it.\<close>

lemma read_line_loop_cr:
  assumes "source w = (l @ CR # LF # rest, e)" "CR \<notin> set l" "LF \<notin> set l"
    and "length (bb_data b) + 2 = 2 * n" "4 \<le> bb_cap b" "length (bb_data b) \<le> bb_cap b"
  shows "\<exists>b' w'. read_line_loop 1 n b w = (Inr ERR_NONE, b', w') \<and> source w' = (rest, e) \<and>
    length (bb_data b') = length (bb_data b) + 2 * length l + 2"
  using assms
proof (induction l arbitrary: n b w)
  case Nil
  have n: "n < bb_cap b" using Nil(4-6) by linarith
  from Nil(1) read_buffer_take [of w "[CR]" "LF # rest" e 1] obtain w1 where
    w1: "read_buffer 1 w = (Inr (Some [CR]), w1)" "source w1 = (LF # rest, e)" by auto
  from w1(2) read_buffer_take [of w1 "[LF]" rest e 1] obtain w2 where
    w2: "read_buffer 1 w1 = (Inr (Some [LF]), w2)" "source w2 = (rest, e)" by auto
  let ?b = "bb_push CR (bb_push CR b)"
  have "length (bb_data ?b) = length (bb_data b) + 2" by (simp add: bb_push_eq)
  with n w1 w2 show ?case
    by (simp add: read_line_loop.simps [of "Suc 0" n b w] read_line_loop.simps [of "Suc 0" "Suc n" ?b w1]
        read_line_loop.simps [of 2 "Suc (Suc n)" ?b w2] Let_def)
next
  case (Cons c l)
  have n: "n < bb_cap b" using Cons.prems(4-6) by linarith
  from Cons.prems(1) read_buffer_take [of w "[c]" "l @ CR # LF # rest" e 1] obtain w1 where
    w1: "read_buffer 1 w = (Inr (Some [c]), w1)" "source w1 = (l @ CR # LF # rest, e)" by auto
  let ?b = "bb_push c (bb_push CR b)"
  have b: "length (bb_data ?b) = length (bb_data b) + 2" by (simp add: bb_push_eq)
  have "4 \<le> bb_cap ?b" using Cons.prems(5) bb_cap_append(1) le_trans unfolding bb_push_eq by metis
  moreover have "length (bb_data ?b) \<le> bb_cap ?b"
    unfolding bb_push_eq using bb_cap_append(3) [of "bb_append [CR] b" "[c]"] by simp
  ultimately obtain b' w' where "read_line_loop 1 (n + 1) ?b w1 = (Inr ERR_NONE, b', w')" "source w' = (rest, e)"
    "length (bb_data b') = length (bb_data ?b) + 2 * length l + 2"
    using Cons.IH [OF w1(2), of ?b "n + 1"] Cons.prems(2-4) b by auto
  with n w1(1) b Cons.prems(3) show ?case
    by (auto simp: read_line_loop.simps [of "Suc 0" n b w] Let_def)
qed

section \<open>Bodies\<close>

lemma take_take_append: "take m (take m xs @ ys) = take m (xs @ ys)"
  by (cases "length xs \<le> m") (simp_all add: min_def)

lemma append_available:
  assumes "length (bb_data body) \<le> m"
  shows "bb_data (if size_sub m (length (bb_data body)) > 0
      then bb_append (take (min k (size_sub m (length (bb_data body)))) bs) body else body) =
    take m (bb_data body @ take k bs)"
  using assms by (simp add: min.commute)

lemma read_body_plain:
  assumes "source w = (bs @ rest, e)" "length bs = n" "length (bb_data body) \<le> m"
  shows "\<exists>body' w'. read_body n m body w = (Inr True, body', w') \<and> source w' = (rest, e) \<and>
    bb_data body' = take m (bb_data body @ bs)"
  using assms
proof (induction n arbitrary: bs body w rule: less_induct)
  case (less n)
  define k where "k = min n 4096"
  have "source w = (take k bs @ drop k bs @ rest, e)" using less.prems(1) by simp
  from read_buffer_take [OF this, of k] less.prems(2) obtain w1 where
    w1: "read_buffer k w = (Inr (Some (take k bs)), w1)" "source w1 = (drop k bs @ rest, e)" by (auto simp: k_def)
  define b where "b = (if size_sub m (length (bb_data body)) > 0
      then bb_append (take (min k (size_sub m (length (bb_data body)))) (take k bs)) body else body)"
  have b: "bb_data b = take m (bb_data body @ take k bs)"
    using append_available [OF less.prems(3), of k "take k bs"] by (simp add: b_def)
  have step: "read_body n m body w = (if n - k > 0 then read_body (n - k) m b w1 else (Inr (n - k = 0), b, w1))"
    using w1(1) by (simp add: read_body.simps [of n m body w] Let_def k_def b_def)
  show ?case
  proof (cases "n - k > 0")
    case True
    then have kn: "n - k < n" by (simp add: k_def)
    have "length (drop k bs) = n - k" "length (bb_data b) \<le> m" using less.prems(2) b by simp_all
    from less.IH [OF kn w1(2) this] obtain body' w' where
      r: "read_body (n - k) m b w1 = (Inr True, body', w')" "source w' = (rest, e)"
      "bb_data body' = take m (bb_data b @ drop k bs)" by auto
    have "bb_data body' = take m (bb_data body @ bs)"
      unfolding r(3) b take_take_append by (simp only: append_assoc append_take_drop_id)
    with r(1,2) step True show ?thesis by simp
  next
    case False
    then have "take k bs = bs" "drop k bs = []" using less.prems(2) by simp_all
    with False step b w1(2) show ?thesis by simp
  qed
qed

section \<open>The status line and the headers\<close>

fun header_text :: "string \<times> string \<Rightarrow> string" where
  "header_text (k, v) = k @ '': '' @ v @ CRLF"

definition wf_header :: "string \<times> string \<Rightarrow> bool" where
  "wf_header p \<longleftrightarrow> (case p of (k, v) \<Rightarrow>
     is_valid_field_name k \<and> \<not> iequal k ''Set-Cookie'' \<and> trimmed v = v \<and> CR \<notin> set v \<and> NUL \<notin> set v \<and>
     length k + 2 + length v \<le> MAX_HEADER_SIZE)"

lemma valid_name_chars:
  assumes "is_valid_field_name k"
  shows "k \<noteq> []" "c \<in> set k \<Longrightarrow> c \<noteq> CHR '':'' \<and> c \<noteq> CR \<and> c \<noteq> NUL \<and> c \<noteq> LF"
proof -
  show "k \<noteq> []" using assms by (auto simp: is_valid_field_name_def)
  have "is_alnum c \<or> c = CHR ''-'' \<Longrightarrow> c \<noteq> CHR '':'' \<and> c \<noteq> CR \<and> c \<noteq> NUL \<and> c \<noteq> LF" for c
    by (auto simp: char_class_defs NUL_def)
  with assms show "c \<in> set k \<Longrightarrow> c \<noteq> CHR '':'' \<and> c \<noteq> CR \<and> c \<noteq> NUL \<and> c \<noteq> LF"
    by (auto simp: is_valid_field_name_def list_all_iff)
qed

lemma trim_space: "trim (CHR '' '' # v) = Inr (trimmed v)"
proof -
  have b: "is_blank (CHR '' '')" by (simp add: is_blank_def)
  have "dropWhile is_blank (rev v) = []" if "\<forall>c \<in> set (rev v). is_blank c" using that by (rule dropWhile_eq_Nil_conv [THEN iffD2])
  then have "rev (dropWhile is_blank (rev v @ '' '')) =
      (if \<forall>c \<in> set v. is_blank c then rev (dropWhile is_blank (rev v)) else '' '' @ rev (dropWhile is_blank (rev v)))"
    using b by (simp add: dropWhile_append del: dropWhile_eq_Nil_conv)
  with b show ?thesis by (simp add: trim_eq trimmed_eq trim_spec_def)
qed

lemma header_line_pair:
  assumes "wf_header (k, v)"
  shows "header_line d (k @ '': '' @ v) a = Inr (ERR_NONE, a\<lparr>an_headers := sm_set k v (an_headers a)\<rparr>)"
proof -
  have k: "is_valid_field_name k" using assms by (simp add: wf_header_def)
  note kc = valid_name_chars [OF k]
  have "find_idx (\<lambda>c. c = CHR '':'') (k @ CHR '':'' # CHR '' '' # v) = Some (length k)"
    by (rule find_idx_append) (use kc(2) in auto)
  moreover have "c_str k = k" using kc(2) by (intro c_str_id) blast
  moreover have "c_str (CHR '' '' # v) = CHR '' '' # v"
    using assms by (intro c_str_id) (auto simp: wf_header_def NUL_def)
  ultimately show ?thesis using assms kc(1) k
    by (simp add: header_line_def trim_space wf_header_def headers_set_def)
qed

lemma read_headers_pairs:
  assumes "source w = (concat (map header_text h) @ CRLF @ rest, e)" "list_all wf_header h"
    and "bb_cap b = MAX_HEADER_SIZE"
  shows "\<exists>w'. read_headers_loop d b a w =
      (Inr ERR_NONE, a\<lparr>an_headers := fold (\<lambda>(k, v). sm_set k v) h (an_headers a)\<rparr>, w') \<and> source w' = (rest, e)"
  using assms
proof (induction h arbitrary: a b w)
  case Nil
  from read_line_plain [of w "[]" rest e b] Nil(1) obtain b' w' where
    "read_line b w = (Inr ERR_NONE, b', w')" "source w' = (rest, e)" "bb_data b' = []" by auto
  then show ?case by (simp add: read_headers_loop.simps [of d b a w])
next
  case (Cons p h)
  obtain k v where p: "p = (k, v)" by (cases p)
  have wf: "wf_header (k, v)" using Cons.prems(2) p by simp
  let ?l = "k @ '': '' @ v"
  have cr: "CR \<notin> set ?l" using wf valid_name_chars(2) [of k CR] by (auto simp: wf_header_def)
  have "source w = (?l @ CRLF @ concat (map header_text h) @ CRLF @ rest, e)" using Cons.prems(1) p by simp
  from read_line_plain [OF this cr, of b] obtain b' w' where
    r: "read_line b w = (Inr ERR_NONE, b', w')" "source w' = (concat (map header_text h) @ CRLF @ rest, e)"
    "bb_data b' = take (bb_cap b) ?l" "bb_cap b' = bb_cap b" by auto
  have "length ?l \<le> bb_cap b" using wf Cons.prems(3) by (simp add: wf_header_def)
  then have l: "bb_data b' = ?l" using r(3) by simp
  from Cons.IH [OF r(2), of b' "a\<lparr>an_headers := sm_set k v (an_headers a)\<rparr>"] Cons.prems(2,3) r(4)
  obtain w'' where i: "read_headers_loop d b' (a\<lparr>an_headers := sm_set k v (an_headers a)\<rparr>) w' =
      (Inr ERR_NONE, a\<lparr>an_headers := fold (\<lambda>(k, v). sm_set k v) h (sm_set k v (an_headers a))\<rparr>, w'')"
    "source w'' = (rest, e)" by auto
  have "header_line d (bb_data b') a = Inr (ERR_NONE, a\<lparr>an_headers := sm_set k v (an_headers a)\<rparr>)" "bb_data b' \<noteq> []"
    unfolding l using header_line_pair [OF wf, of d a] by simp_all
  then have "read_headers_loop d b a w = read_headers_loop d b' (a\<lparr>an_headers := sm_set k v (an_headers a)\<rparr>) w'"
    unfolding read_headers_loop.simps [of d b a w] r(1) prod.case sum.case by simp
  with i p show ?case by simp
qed

definition status_text :: "int \<Rightarrow> string" where
  "status_text code = map (\<lambda>d. char_of (48 + d)) [nat code div 100, nat code div 10 mod 10, nat code mod 10]"

definition head_text :: "int \<Rightarrow> string \<Rightarrow> strimap \<Rightarrow> string" where
  "head_text code reason h = ''HTTP/1.1 '' @ status_text code @ '' '' @ reason @ CRLF @ concat (map header_text h) @ CRLF"

lemma status_digits_text: "100 \<le> code \<Longrightarrow> code < 600 \<Longrightarrow> status_digits (status_text code) 0 = (True, code)"
proof -
  assume a: "100 \<le> code" "code < 600"
  let ?n = "nat code"
  have d: "?n div 100 < 10" "?n div 10 mod 10 < 10" "?n mod 10 < 10" using a by auto
  have "?n div 100 * 10 + ?n div 10 mod 10 = ?n div 10" using div_mult_mod_eq [of "?n div 10" 10] by (simp add: div_mult2_eq [symmetric])
  then have "(?n div 100 * 10 + ?n div 10 mod 10) * 10 + ?n mod 10 = ?n" by simp
  then have "(int (?n div 100) * 10 + int (?n div 10 mod 10)) * 10 + int (?n mod 10) = int ?n"
    by (metis of_nat_add of_nat_mult of_nat_numeral)
  then have "(int (?n div 100) * 10 + int (?n div 10 mod 10)) * 10 + int (?n mod 10) = code"
    unfolding nat_0_le [OF order_trans [OF zero_le_numeral a(1)]] .
  moreover have e: "ascii (char_of (48 + x)) = 48 + x" if "x < 10" for x :: nat using that by simp
  ultimately show "status_digits (status_text code) 0 = (True, code)"
    by (simp add: status_text_def digit_char(1) [OF d(1)] digit_char(1) [OF d(2)] digit_char(1) [OF d(3)]
        e [OF d(1)] e [OF d(2)] e [OF d(3)] del: of_char_of)
qed

definition wf_reason :: "string \<Rightarrow> bool" where
  "wf_reason reason \<longleftrightarrow> reason \<noteq> [] \<and> trimmed reason = reason \<and> CR \<notin> set reason \<and> length reason < 1024"

lemma read_control_data_text:
  assumes "source w = (''HTTP/1.1 '' @ status_text code @ '' '' @ reason @ CRLF @ rest, e)"
    and "100 \<le> code" "code < 600" "wf_reason reason"
  shows "\<exists>w'. read_control_data a w = (Inr ERR_NONE, a\<lparr>an_status := code, an_reason := reason\<rparr>, w') \<and>
    source w' = (rest, e)"
proof -
  let ?a = "a\<lparr>an_status := 400, an_reason := ''Bad Request''\<rparr>"
  have "source w = (''HTTP/1.1'' @ '' '' @ status_text code @ '' '' @ reason @ CRLF @ rest, e)" using assms(1) by simp
  from read_buffer_take [OF this, of 8] obtain w1 where
    w1: "read_buffer 8 w = (Inr (Some ''HTTP/1.1''), w1)" "source w1 = ('' '' @ status_text code @ '' '' @ reason @ CRLF @ rest, e)"
    by auto
  from read_buffer_take [OF w1(2), of 1] obtain w2 where
    w2: "read_buffer 1 w1 = (Inr (Some '' ''), w2)" "source w2 = (status_text code @ '' '' @ reason @ CRLF @ rest, e)" by auto
  from read_buffer_take [OF w2(2), of 3] obtain w3 where
    w3: "read_buffer 3 w2 = (Inr (Some (status_text code)), w3)" "source w3 = ((CHR '' '' # reason) @ CRLF @ rest, e)"
    by (auto simp: status_text_def)
  have "CR \<notin> set (CHR '' '' # reason)" using assms(4) by (simp add: wf_reason_def)
  from read_line_plain [OF w3(2) this, of "bb_new 1024"] assms(4) obtain b' w4 where
    w4: "read_line (bb_new 1024) w3 = (Inr ERR_NONE, b', w4)" "source w4 = (rest, e)" "bb_data b' = CHR '' '' # reason"
    by (auto simp: wf_reason_def)
  have "trim (bb_data b') = Inr reason" using assms(4) w4(3) trim_space by (simp add: wf_reason_def)
  with w1(1) w2(1) w3(1) w4 status_digits_text [OF assms(2,3)] assms(2,3) show ?thesis
    by (simp add: read_control_data_def an_bind_def an_read_def Let_def)
qed

section \<open>Chunked bodies\<close>

text \<open>A chunk is the text of its size and its bytes.\<close>

fun chunk_text :: "string \<times> string \<Rightarrow> string" where
  "chunk_text (t, c) = t @ CRLF @ c @ CRLF"

definition chunk_ok :: "string \<times> string \<Rightarrow> bool" where
  "chunk_ok p \<longleftrightarrow> (case p of (t, c) \<Rightarrow> t \<noteq> [] \<and> CR \<notin> set t \<and> length t \<le> MAX_LINE_SIZE \<and>
     str2num t 16 0 (int MAX_CHUNK_SIZE) 0 = (True, int (length c)))"

definition chunked_text :: "(string \<times> string) list \<Rightarrow> string \<Rightarrow> string" where
  "chunked_text cs t = concat (map chunk_text cs) @ chunk_text (t, [])"

lemma read_chunk_size:
  assumes "source w = (t @ CRLF @ rest, e)" "chunk_ok (t, c)" "bb_cap b = MAX_LINE_SIZE"
  shows "\<exists>b' w'. read_line b w = (Inr ERR_NONE, b', w') \<and> source w' = (rest, e) \<and> bb_data b' = t \<and> bb_cap b' = MAX_LINE_SIZE"
  using read_line_plain [OF assms(1), of b] assms(2,3) by (auto simp: chunk_ok_def)

lemma read_chunk_end:
  assumes "source w = (CRLF @ rest, e)" "bb_cap b = MAX_LINE_SIZE"
  shows "\<exists>b' w'. read_line b w = (Inr ERR_NONE, b', w') \<and> source w' = (rest, e) \<and> bb_data b' = [] \<and> bb_cap b' = MAX_LINE_SIZE"
  using read_line_plain [of w "[]" rest e b] assms by simp

lemma read_chunks_text:
  assumes "source w = (chunked_text cs t @ rest, e)" "list_all (\<lambda>p. chunk_ok p \<and> snd p \<noteq> []) cs" "chunk_ok (t, [])"
    and "bb_cap b = MAX_LINE_SIZE" "length (bb_data body) \<le> MAX_BODY_SIZE"
  shows "\<exists>body' w'. read_chunks b body w = (Inr (), body', w') \<and> source w' = (rest, e) \<and>
    bb_data body' = take MAX_BODY_SIZE (bb_data body @ concat (map snd cs))"
  using assms
proof (induction cs arbitrary: b body w)
  case Nil
  from Nil(1) have "source w = (t @ CRLF @ CRLF @ rest, e)" by (simp add: chunked_text_def)
  from read_chunk_size [OF this Nil(3,4)] obtain b1 w1 where
    r: "read_line b w = (Inr ERR_NONE, b1, w1)" "source w1 = (CRLF @ rest, e)" "bb_data b1 = t" "bb_cap b1 = MAX_LINE_SIZE" by blast
  from read_chunk_end [OF r(2,4)] obtain b2 w2 where
    r2: "read_line b1 w1 = (Inr ERR_NONE, b2, w2)" "source w2 = (rest, e)" "bb_data b2 = []" by blast
  have "t \<noteq> []" "str2num t 16 0 (int MAX_CHUNK_SIZE) 0 = (True, 0)" using Nil(3) by (simp_all add: chunk_ok_def)
  with r r2 Nil(5) show ?case by (simp add: read_chunks.simps [of b body w])
next
  case (Cons p cs)
  obtain s c where p: "p = (s, c)" by (cases p)
  have ok: "chunk_ok (s, c)" "c \<noteq> []" using Cons.prems(2) p by auto
  have "source w = (s @ CRLF @ c @ CRLF @ chunked_text cs t @ rest, e)"
    using Cons.prems(1) p by (simp add: chunked_text_def)
  from read_chunk_size [OF this ok(1) Cons.prems(4)] obtain b1 w1 where
    r: "read_line b w = (Inr ERR_NONE, b1, w1)" "source w1 = (c @ CRLF @ chunked_text cs t @ rest, e)"
    "bb_data b1 = s" "bb_cap b1 = MAX_LINE_SIZE" by blast
  from read_body_plain [OF r(2) refl Cons.prems(5)] obtain body1 w2 where
    r2: "read_body (length c) MAX_BODY_SIZE body w1 = (Inr True, body1, w2)" "source w2 = (CRLF @ chunked_text cs t @ rest, e)"
    "bb_data body1 = take MAX_BODY_SIZE (bb_data body @ c)" by blast
  from read_chunk_end [OF r2(2) r(4)] obtain b2 w3 where
    r3: "read_line b1 w2 = (Inr ERR_NONE, b2, w3)" "source w3 = (chunked_text cs t @ rest, e)" "bb_data b2 = []"
    "bb_cap b2 = MAX_LINE_SIZE" by blast
  have sz: "s \<noteq> []" "str2num s 16 0 (int MAX_CHUNK_SIZE) 0 = (True, int (length c))" using ok(1) by (simp_all add: chunk_ok_def)
  have step: "read_chunks b body w = read_chunks b2 body1 w3"
    using r(1,3) r2(1) r3(1,3) sz ok(2) by (simp add: read_chunks.simps [of b body w])
  have "length (bb_data body1) \<le> MAX_BODY_SIZE" using r2(3) by simp
  from Cons.IH [OF r3(2) _ Cons.prems(3) r3(4) this] Cons.prems(2) obtain body' w' where
    i: "read_chunks b2 body1 w3 = (Inr (), body', w')" "source w' = (rest, e)"
    "bb_data body' = take MAX_BODY_SIZE (bb_data body1 @ concat (map snd cs))" by auto
  have "bb_data body' = take MAX_BODY_SIZE (bb_data body @ concat (map snd (p # cs)))"
    unfolding i(3) r2(3) take_take_append p by simp
  with i(1,2) step show ?case by simp
qed

section \<open>Whole answers\<close>

definition answer_of :: "int \<Rightarrow> string \<Rightarrow> strimap \<Rightarrow> answer" where
  "answer_of code reason h = answer_new\<lparr>an_status := code, an_reason := reason, an_headers := h\<rparr>"

definition wf_head :: "int \<Rightarrow> string \<Rightarrow> strimap \<Rightarrow> bool" where
  "wf_head code reason h \<longleftrightarrow> 100 \<le> code \<and> code < 600 \<and> wf_reason reason \<and> sm_ok h \<and> list_all wf_header h"

lemma answer_recv_head:
  assumes "source w = (head_text code reason h @ rest, e)" "wf_head code reason h"
  shows "\<exists>w'. answer_recv z d answer_new w =
      (case read_message_body z (answer_of code reason h) w' of
         (r, body, w'') \<Rightarrow> (r, (answer_of code reason h)\<lparr>an_body := body\<rparr>, w'')) \<and> source w' = (rest, e)"
proof -
  have wf: "100 \<le> code" "code < 600" "wf_reason reason" "list_all wf_header h" using assms(2) by (simp_all add: wf_head_def)
  have "source w = (''HTTP/1.1 '' @ status_text code @ '' '' @ reason @ CRLF @ concat (map header_text h) @ CRLF @ rest, e)"
    using assms(1) by (simp add: head_text_def)
  from read_control_data_text [OF this wf(1-3), of answer_new] obtain w1 where
    w1: "read_control_data answer_new w = (Inr ERR_NONE, answer_new\<lparr>an_status := code, an_reason := reason\<rparr>, w1)"
    "source w1 = (concat (map header_text h) @ CRLF @ rest, e)" by blast
  from read_headers_pairs [OF w1(2) wf(4), of "bb_new MAX_HEADER_SIZE" d "answer_new\<lparr>an_status := code, an_reason := reason\<rparr>"]
  obtain w2 where w2: "read_headers d (answer_new\<lparr>an_status := code, an_reason := reason\<rparr>) w1 =
      (Inr ERR_NONE, answer_new\<lparr>an_status := code, an_reason := reason,
        an_headers := fold (\<lambda>(k, v). sm_set k v) h (an_headers answer_new)\<rparr>, w2)" "source w2 = (rest, e)"
    by (auto simp: read_headers_def)
  have "fold (\<lambda>(k, v). sm_set k v) h (an_headers answer_new) = h"
    using assms(2) fold_smap_set_id [of ikey h] by (simp add: answer_new_def wf_head_def sm_ok_def sm_set_eta)
  with w1(1) w2 show ?thesis
    by (intro exI [of _ w2]) (simp add: answer_recv_def an_bind_def answer_of_def)
qed

end
