(* ===== verification/HttpProps.thy ===== *)
theory HttpProps
  imports HttpRead
begin

text \<open>
  The properties of HTTP messages: what a server sends is what the client reads, chunked or not; the
  limits on bodies and lines.
\<close>

section \<open>The length of the body\<close>

lemma str2num_to_string:
  assumes "int n \<le> mx" "mx \<le> LONG_MAX"
  shows "str2num (to_string n) 10 0 mx 0 = (True, int n)"
proof -
  have "strtol (to_string n) 10 = (int n, False)"
    using strtol_digits [of "to_string n"] assms by (simp add: to_string_digits)
  with assms show ?thesis by (simp add: str2num_def)
qed

lemma append_bounded:
  "length (bb_data body) \<le> m \<Longrightarrow> length (bb_data (if size_sub m (length (bb_data body)) > 0
      then bb_append (take (min k (size_sub m (length (bb_data body)))) bs) body else body)) \<le> m"
  by (subst append_available) auto

lemma read_body_bounded:
  "length (bb_data body) \<le> m \<Longrightarrow> length (bb_data (fst (snd (read_body n m body w)))) \<le> m"
proof (induction n m body w rule: read_body.induct)
  case (1 n m body w)
  define k where "k = min n 4096"
  obtain r w1 where r: "read_buffer k w = (r, w1)" by (cases "read_buffer k w")
  consider e where "r = Inl e" | "r = Inr None" | bs where "r = Inr (Some bs)" by (metis option.exhaust sum.exhaust)
  then show ?case
  proof cases
    case 3
    define b where "b = (if size_sub m (length (bb_data body)) > 0
      then bb_append (take (min k (size_sub m (length (bb_data body)))) bs) body else body)"
    have b: "length (bb_data b) \<le> m" unfolding b_def by (rule append_bounded [OF 1(2)])
    have "read_body n m body w = (if n - k > 0 then read_body (n - k) m b w1 else (Inr (n - k = 0), b, w1))"
      using r 3 by (simp add: read_body.simps [of n m body w] Let_def k_def b_def)
    moreover have "n - k > 0 \<Longrightarrow> length (bb_data (fst (snd (read_body (n - k) m b w1)))) \<le> m"
      by (rule 1(1) [OF k_def r [symmetric] 3 refl refl b_def _ b])
    ultimately show ?thesis using b by simp
  qed (use 1(2) r in \<open>simp_all add: read_body.simps [of n m body w] Let_def k_def\<close>)
qed

lemma inflate_loop_bounded:
  "length (bb_data body) \<le> m \<Longrightarrow> length (bb_data (snd (inflate_loop rs m body))) \<le> m"
proof (induction rs m body rule: inflate_loop.induct)
  case (2 rc written rest m body)
  define out where "out = take 1024 written"
  define b where "b = (if size_sub m (length (bb_data body)) > 0
    then bb_append (take (min (length out) (size_sub m (length (bb_data body)))) out) body else body)"
  have b: "length (bb_data b) \<le> m" unfolding b_def by (rule append_bounded [OF 2(2)])
  have "inflate_loop ((rc, written) # rest) m body = (if rc = Z_NEED_DICT \<or> rc = Z_DATA_ERROR \<or> rc = Z_MEM_ERROR
      then (False, body) else if length out = 1024 then inflate_loop rest m b else (True, b))"
    by (simp add: Let_def out_def b_def)
  moreover have "length (bb_data (snd (inflate_loop rest m b))) \<le> m"
    if "\<not> (rc = Z_NEED_DICT \<or> rc = Z_DATA_ERROR \<or> rc = Z_MEM_ERROR)" "length out = 1024"
    by (rule 2(1) [OF that(1) out_def refl b_def that(2) b])
  ultimately show ?case using b 2(2) by (simp del: inflate_loop.simps)
qed simp

lemma read_gzip_loop_bounded:
  "length (bb_data body) \<le> m \<Longrightarrow> length (bb_data (fst (snd (read_gzip_loop z seen n m body w)))) \<le> m"
proof (induction z seen n m body w rule: read_gzip_loop.induct)
  case (1 z seen n m body w)
  define k where "k = min n 1024"
  obtain r w1 where r: "read_buffer k w = (r, w1)" by (cases "read_buffer k w")
  consider e where "r = Inl e" | "r = Inr None" | bs where "r = Inr (Some bs)" by (metis option.exhaust sum.exhaust)
  then show ?case
  proof cases
    case 3
    obtain ok b where i: "inflate_loop (gz_inflate z seen bs) m body = (ok, b)"
      by (cases "inflate_loop (gz_inflate z seen bs) m body")
    have b: "length (bb_data b) \<le> m" using inflate_loop_bounded [OF 1(2), of "gz_inflate z seen bs"] i by simp
    have "read_gzip_loop z seen n m body w = (if \<not> ok then (Inr False, b, w1)
        else if n - k > 0 then read_gzip_loop z (seen @ bs) (n - k) m b w1 else (Inr (gz_end z \<and> n - k = 0), b, w1))"
      using r 3 i by (simp add: read_gzip_loop.simps [of z seen n m body w] Let_def k_def)
    moreover have "ok \<Longrightarrow> n - k > 0 \<Longrightarrow> length (bb_data (fst (snd (read_gzip_loop z (seen @ bs) (n - k) m b w1)))) \<le> m"
      using 1(1) [OF k_def r [symmetric] 3 refl i [symmetric] _ _ b] by simp
    ultimately show ?thesis using b by simp
  qed (use 1(2) r in \<open>simp_all add: read_gzip_loop.simps [of z seen n m body w] Let_def k_def\<close>)
qed

lemma read_chunks_bounded:
  "length (bb_data body) \<le> MAX_BODY_SIZE \<Longrightarrow> length (bb_data (fst (snd (read_chunks b body w)))) \<le> MAX_BODY_SIZE"
proof (induction b body w rule: read_chunks.induct)
  case (1 b body w)
  obtain r b1 w1 where l: "read_line b w = (r, b1, w1)" by (cases "read_line b w")
  obtain valid n where n: "str2num (bb_data b1) 16 0 (int MAX_CHUNK_SIZE) 0 = (valid, n)"
    by (cases "str2num (bb_data b1) 16 0 (int MAX_CHUNK_SIZE) 0")
  obtain r2 body2 w2 where rb: "(if n > 0 then read_body (nat n) MAX_BODY_SIZE body w1 else (Inr True, body, w1)) = (r2, body2, w2)"
    by (cases "if n > 0 then read_body (nat n) MAX_BODY_SIZE body w1 else (Inr True, body, w1)")
  obtain r3 b3 w3 where l3: "read_line b1 w2 = (r3, b3, w3)" by (cases "read_line b1 w2")
  have body2: "length (bb_data body2) \<le> MAX_BODY_SIZE"
    using read_body_bounded [OF 1(2), of "nat n" w1] rb 1(2) by (auto split: if_splits)
  have "length (bb_data (fst (snd (read_chunks b3 body2 w3)))) \<le> MAX_BODY_SIZE"
    if "r = Inr ERR_NONE" "bb_data b1 \<noteq> []" "valid" "r2 = Inr True" "r3 = Inr ERR_NONE" "bb_data b3 = []" "n > 0"
    using 1(1) [OF l [symmetric] that(1) refl _ n [symmetric] _ rb [symmetric] that(4) refl _ l3 [symmetric] that(5) refl]
      that body2 by simp
  with 1(2) body2 show ?case
    unfolding read_chunks.simps [of b body w] l prod.case n rb l3 by (auto split: sum.split)
qed

lemma read_message_body_bounded:
  assumes "length (bb_data (an_body a)) \<le> MAX_BODY_SIZE"
  shows "length (bb_data (fst (snd (read_message_body z a w)))) \<le> MAX_BODY_SIZE"
proof -
  have "length (bb_data (fst (snd (read_plain z g l (an_body a) w)))) \<le> MAX_BODY_SIZE" for g l
    using read_body_bounded [of "bb_reserve k (an_body a)" MAX_BODY_SIZE k w for k]
      read_gzip_loop_bounded [of "bb_reserve k (an_body a)" MAX_BODY_SIZE z "[]" k w for k] assms
    by (auto simp: read_plain_def read_gzip_body_def split: option.split prod.split sum.split)
      (metis fst_conv snd_conv)+
  with assms read_chunks_bounded [OF assms] show ?thesis
    by (auto simp: read_message_body_def Let_def split: sum.split)
qed

lemma control_data_body: "an_body (fst (snd (read_control_data a w))) = an_body a"
  by (auto simp: read_control_data_def an_bind_def an_read_def Let_def split: prod.split sum.split option.split)

lemma headers_body: "an_body (fst (snd (read_headers_loop d b a w))) = an_body a"
proof (induction d b a w rule: read_headers_loop.induct)
  case (1 d b a w)
  have "header_line d l a = Inr (err, a') \<Longrightarrow> an_body a' = an_body a" for l err a'
    by (auto simp: header_line_def Let_def try_bind_Inr_iff split: option.splits if_splits sum.splits exn.splits)
  with 1 show ?case
    by (subst read_headers_loop.simps) (auto split: prod.split sum.split)
qed

section \<open>Answers of a given length\<close>

lemma plain_answer:
  assumes "source w = (head_text code reason h @ body @ rest, e)" "wf_head code reason h"
    and "headers_get h ''Transfer-Encoding'' = None" "headers_get h ''Content-Encoding'' = None"
    and "headers_get h ''Content-Length'' = Some (to_string (length body))" "length body \<le> MAX_BODY_SIZE"
  shows "\<exists>a w'. answer_recv z d answer_new w = (Inr (), a, w') \<and> source w' = (rest, e) \<and>
    an_status a = code \<and> an_reason a = reason \<and> an_headers a = h \<and> an_cookies a = [] \<and> bb_data (an_body a) = body"
proof -
  let ?a = "answer_of code reason h"
  from answer_recv_head [OF assms(1,2), of z d] obtain w1 where w1: "source w1 = (body @ rest, e)"
    "answer_recv z d answer_new w = (case read_message_body z ?a w1 of (r, body, w'') \<Rightarrow> (r, ?a\<lparr>an_body := body\<rparr>, w''))" by blast
  have "str2num (to_string (length body)) 10 0 (int MAX_BODY_SIZE) 0 = (True, int (length body))"
    using assms(6) by (intro str2num_to_string) (simp_all add: MAX_BODY_SIZE_def LONG_MAX_def)
  then have m: "read_message_body z ?a w1 = (if body \<noteq> [] then
      (case read_body (length body) MAX_BODY_SIZE (bb_reserve (length body) (bb_new 4096)) w1 of
         (Inl e, b, w') \<Rightarrow> (Inl e, b, w')
       | (Inr av, b, w') \<Rightarrow> (if \<not> av then Inl (Http_error (answer_status_msg ERR_BODY)) else Inr (), b, w'))
      else (Inr (), bb_new 4096, w1))"
    using assms(3-5) by (simp add: read_message_body_def header_encoding_def answer_of_def answer_new_def read_plain_def)
  from read_body_plain [OF w1(1) refl, of "bb_reserve (length body) (bb_new 4096)" MAX_BODY_SIZE] assms(6) obtain b w2 where
    "read_body (length body) MAX_BODY_SIZE (bb_reserve (length body) (bb_new 4096)) w1 = (Inr True, b, w2)"
    "source w2 = (rest, e)" "bb_data b = body" by auto
  with m w1 show ?thesis by (cases "body = []") (auto simp: answer_of_def answer_new_def)
qed

section \<open>Small answers\<close>

definition demo_conn :: "string \<Rightarrow> char net" where
  "demo_conn text = \<lparr>is_tls = True, fd = 4, blocking = False, recvs = [Data text], sends = [], polls = [], calls = [],
     elapsed = [], wire = []\<rparr>"

definition demo_zlib :: zlib where
  "demo_zlib = \<lparr>gz_init = False, gz_end = False, gz_inflate = (\<lambda>seen chunk. [])\<rparr>"

lemma demo_conn_source: "text \<noteq> [] \<Longrightarrow> source (demo_conn text) = (text @ [], NETCTX_RCV_ERROR, SSL_TIMEOUT)"
  by (simp add: demo_conn_def source_def)

definition demo_plain :: strimap where
  "demo_plain = [(''Content-Length'', ''5''), (''Server'', ''x'')]"

definition demo_chunked :: strimap where
  "demo_chunked = [(''Transfer-Encoding'', ''chunked'')]"

lemma demo_heads: "wf_head 200 ''OK'' demo_plain" "wf_head 200 ''OK'' demo_chunked"
proof -
  have "sm_ok demo_plain" "sm_ok demo_chunked" "trimmed ''OK'' = ''OK''" "trimmed ''5'' = ''5''" "trimmed ''x'' = ''x''"
    "trimmed ''chunked'' = ''chunked''" "is_valid_field_name ''Content-Length''" "is_valid_field_name ''Server''"
    "is_valid_field_name ''Transfer-Encoding''" "\<not> iequal ''Content-Length'' ''Set-Cookie''"
    "\<not> iequal ''Server'' ''Set-Cookie''" "\<not> iequal ''Transfer-Encoding'' ''Set-Cookie''"
    by code_simp+
  then show "wf_head 200 ''OK'' demo_plain" "wf_head 200 ''OK'' demo_chunked"
    by (simp_all add: wf_head_def wf_reason_def wf_header_def demo_plain_def demo_chunked_def MAX_HEADER_SIZE_def NUL_def)
qed

section \<open>Properties\<close>

text \<open>C28. An answer with a status line, well formed headers and a body of the announced length is read
  exactly as it was sent: status code, reason, headers and body, and no byte more is taken from the
  connection, however the socket cuts the bytes into pieces.\<close>

theorem answer_round_trip:
  assumes "source w = (head_text code reason h @ body @ rest, e)" "wf_head code reason h"
    and "headers_get h ''Transfer-Encoding'' = None" "headers_get h ''Content-Encoding'' = None"
    and "headers_get h ''Content-Length'' = Some (to_string (length body))" "length body \<le> MAX_BODY_SIZE"
  shows "\<exists>a w'. answer_recv z d answer_new w = (Inr (), a, w') \<and> source w' = (rest, e) \<and>
    an_status a = code \<and> an_reason a = reason \<and> an_headers a = h \<and> an_cookies a = [] \<and> bb_data (an_body a) = body"
  using assms by (rule plain_answer)

lemma answer_round_trip_witness:
  "\<exists>a w'. answer_recv demo_zlib (\<lambda>_. 0) answer_new (demo_conn (head_text 200 ''OK'' demo_plain @ ''hello'')) = (Inr (), a, w') \<and>
     an_status a = 200 \<and> bb_data (an_body a) = ''hello''"
proof -
  let ?t = "head_text 200 ''OK'' demo_plain @ ''hello''"
  have s: "source (demo_conn ?t) = (head_text 200 ''OK'' demo_plain @ ''hello'' @ [], NETCTX_RCV_ERROR, SSL_TIMEOUT)"
    by (subst demo_conn_source) (simp_all add: head_text_def)
  have h: "headers_get demo_plain ''Transfer-Encoding'' = None" "headers_get demo_plain ''Content-Encoding'' = None"
    "headers_get demo_plain ''Content-Length'' = Some (to_string (length ''hello''))"
    by code_simp+
  have m: "length ''hello'' \<le> MAX_BODY_SIZE" by (simp add: MAX_BODY_SIZE_def)
  from answer_round_trip [OF s demo_heads(1) h m, of demo_zlib "\<lambda>_. 0"] show ?thesis by blast
qed

text \<open>C29. The two ways to send a body are equivalent: cut into chunks of any sizes, or in one piece of
  an announced length, the client ends with the same status, reason and body and stops at the same byte.\<close>

theorem chunked_equals_plain:
  assumes "source w1 = (head_text code reason h1 @ chunked_text cs t @ rest, e)" "wf_head code reason h1"
    and "headers_get h1 ''Transfer-Encoding'' = Some ''chunked''" "headers_get h1 ''Content-Encoding'' = None"
    and "list_all (\<lambda>p. chunk_ok p \<and> snd p \<noteq> []) cs" "chunk_ok (t, [])"
    and "source w2 = (head_text code reason h2 @ concat (map snd cs) @ rest, e)" "wf_head code reason h2"
    and "headers_get h2 ''Transfer-Encoding'' = None" "headers_get h2 ''Content-Encoding'' = None"
    and "headers_get h2 ''Content-Length'' = Some (to_string (length (concat (map snd cs))))"
    and "length (concat (map snd cs)) \<le> MAX_BODY_SIZE"
  shows "\<exists>a1 w1' a2 w2'. answer_recv z d answer_new w1 = (Inr (), a1, w1') \<and> answer_recv z d answer_new w2 = (Inr (), a2, w2') \<and>
    bb_data (an_body a1) = concat (map snd cs) \<and> bb_data (an_body a2) = bb_data (an_body a1) \<and>
    an_status a1 = an_status a2 \<and> an_reason a1 = an_reason a2 \<and> source w1' = source w2'"
proof -
  let ?a = "answer_of code reason h1"
  from answer_recv_head [OF assms(1,2), of z d] obtain w3 where w3: "source w3 = (chunked_text cs t @ rest, e)"
    "answer_recv z d answer_new w1 = (case read_message_body z ?a w3 of (r, body, w'') \<Rightarrow> (r, ?a\<lparr>an_body := body\<rparr>, w''))" by blast
  have tc: "trim ''chunked'' = Inr ''chunked''" "lower ''chunked'' = ''chunked''" by code_simp+
  have m: "read_message_body z ?a w3 = read_chunks (bb_new MAX_LINE_SIZE) (bb_new 4096) w3"
    using assms(3,4) tc by (simp add: read_message_body_def header_encoding_def answer_of_def answer_new_def)
  from read_chunks_text [OF w3(1) assms(5,6), of "bb_new MAX_LINE_SIZE" "bb_new 4096"] assms(12) obtain b w4 where
    r: "read_chunks (bb_new MAX_LINE_SIZE) (bb_new 4096) w3 = (Inr (), b, w4)" "source w4 = (rest, e)"
    "bb_data b = concat (map snd cs)" by auto
  have a1: "answer_recv z d answer_new w1 = (Inr (), ?a\<lparr>an_body := b\<rparr>, w4)" using w3(2) m r(1) by simp
  from plain_answer [OF assms(7-12), of z d] obtain a2 w5 where
    "answer_recv z d answer_new w2 = (Inr (), a2, w5)" "source w5 = (rest, e)" "an_status a2 = code" "an_reason a2 = reason"
    "bb_data (an_body a2) = concat (map snd cs)" by blast
  with a1 r(2,3) show ?thesis by (auto simp: answer_of_def)
qed

lemma chunked_equals_plain_witness:
  "\<exists>a1 w1' a2 w2'.
     answer_recv demo_zlib (\<lambda>_. 0) answer_new (demo_conn (head_text 200 ''OK'' demo_chunked @ chunked_text [(''2'', ''he''), (''03'', ''llo'')] ''0''))
       = (Inr (), a1, w1') \<and>
     answer_recv demo_zlib (\<lambda>_. 0) answer_new (demo_conn (head_text 200 ''OK'' demo_plain @ ''hello'')) = (Inr (), a2, w2') \<and>
     bb_data (an_body a1) = ''hello'' \<and> bb_data (an_body a2) = bb_data (an_body a1)"
proof -
  let ?cs = "[(''2'', ''he''), (''03'', ''llo'')]"
  have s1: "source (demo_conn (head_text 200 ''OK'' demo_chunked @ chunked_text ?cs ''0'')) =
      (head_text 200 ''OK'' demo_chunked @ chunked_text ?cs ''0'' @ [], NETCTX_RCV_ERROR, SSL_TIMEOUT)"
    by (subst demo_conn_source) (simp_all add: head_text_def)
  have s2: "source (demo_conn (head_text 200 ''OK'' demo_plain @ ''hello'')) =
      (head_text 200 ''OK'' demo_plain @ concat (map snd ?cs) @ [], NETCTX_RCV_ERROR, SSL_TIMEOUT)"
    by (subst demo_conn_source) (simp_all add: head_text_def)
  have "strtol ''2'' 16 = (2, False)" "strtol ''03'' 16 = (3, False)" "strtol ''0'' 16 = (0, False)" by code_simp+
  then have k: "list_all (\<lambda>p. chunk_ok p \<and> snd p \<noteq> []) ?cs" "chunk_ok (''0'', [])"
    by (simp_all add: chunk_ok_def str2num_def MAX_LINE_SIZE_def MAX_CHUNK_SIZE_def)
  have h: "headers_get demo_chunked ''Transfer-Encoding'' = Some ''chunked''" "headers_get demo_chunked ''Content-Encoding'' = None"
    "headers_get demo_plain ''Transfer-Encoding'' = None" "headers_get demo_plain ''Content-Encoding'' = None"
    "headers_get demo_plain ''Content-Length'' = Some (to_string (length (concat (map snd ?cs))))"
    by code_simp+
  have m: "length (concat (map snd ?cs)) \<le> MAX_BODY_SIZE" by (simp add: MAX_BODY_SIZE_def)
  from chunked_equals_plain [OF s1 demo_heads(2) h(1,2) k s2 demo_heads(1) h(3-5) m, of demo_zlib "\<lambda>_. 0"] show ?thesis
    by (simp, elim exE conjE) blast
qed

text \<open>C30. No answer makes the body longer than the limit of 32 * 1014 * 1024 bytes: not a chunked one,
  not a compressed one, whatever zlib produces.\<close>

theorem answer_body_bounded:
  "length (bb_data (an_body (fst (snd (answer_recv z d (answer_clear a) w))))) \<le> 32 * 1014 * 1024"
proof -
  have "length (bb_data (an_body (fst (snd (answer_recv z d a w))))) \<le> MAX_BODY_SIZE" if "bb_data (an_body a) = []" for a
  proof -
    obtain r1 a1 w1 where c: "read_control_data a w = (r1, a1, w1)" by (cases "read_control_data a w")
    obtain r2 a2 w2 where h: "read_headers d a1 w1 = (r2, a2, w2)" by (cases "read_headers d a1 w1")
    have "an_body a1 = an_body a" using control_data_body [of a w] c by simp
    moreover have "an_body a2 = an_body a1" using headers_body [of d "bb_new MAX_HEADER_SIZE" a1 w1] h by (simp add: read_headers_def)
    ultimately have b: "length (bb_data (an_body a2)) \<le> MAX_BODY_SIZE" "length (bb_data (an_body a1)) \<le> MAX_BODY_SIZE"
      using that by simp_all
    show ?thesis
      using b read_message_body_bounded [OF b(1), of z w2] c h
      by (auto simp: answer_recv_def an_bind_def split: sum.split prod.split)
  qed
  from this [of "answer_clear a"] show ?thesis by (simp add: answer_clear_def MAX_BODY_SIZE_def)
qed

text \<open>The capacity of the buffer bounds a line without a carriage return, but not one that has a
  carriage return without a line feed: from there on every byte is stored twice and the buffer grows
  without a limit.\<close>

theorem line_limit_bypassed:
  assumes "source w1 = (l @ CRLF @ rest, e)" "source w2 = (CR # l @ CRLF @ rest, e)" "CR \<notin> set l" "LF \<notin> set l" "4 \<le> n"
  shows "\<exists>b1 w1' b2 w2'. read_line (bb_new n) w1 = (Inr ERR_NONE, b1, w1') \<and> bb_data b1 = take n l \<and>
    read_line (bb_new n) w2 = (Inr ERR_NONE, b2, w2') \<and> length (bb_data b2) = 2 * length l + 2 \<and>
    source w1' = (rest, e) \<and> source w2' = (rest, e)"
proof -
  from read_line_plain [OF assms(1,3), of "bb_new n"] obtain b1 w1' where
    r1: "read_line (bb_new n) w1 = (Inr ERR_NONE, b1, w1')" "source w1' = (rest, e)" "bb_data b1 = take n l" by auto
  from read_buffer_take [of w2 "[CR]" "l @ CRLF @ rest" e 1] assms(2) obtain w3 where
    w3: "read_buffer 1 w2 = (Inr (Some [CR]), w3)" "source w3 = (l @ CR # LF # rest, e)" by auto
  from read_line_loop_cr [OF w3(2) assms(3,4), of "bb_new n" 1] assms(5) obtain b2 w2' where
    "read_line_loop 1 1 (bb_new n) w3 = (Inr ERR_NONE, b2, w2')" "source w2' = (rest, e)"
    "length (bb_data b2) = 2 * length l + 2" by auto
  moreover from this(1) w3(1) have "read_line (bb_new n) w2 = (Inr ERR_NONE, b2, w2')"
    by (simp add: read_line_def bb_clear_def bb_new_def bb_reserve_def read_line_loop.simps [of 0] Let_def)
  ultimately show ?thesis using r1 by blast
qed

lemma line_limit_bypassed_witness:
  "\<exists>b1 w1' b2 w2'. read_line (bb_new 4) (demo_conn (''abcdef'' @ CRLF)) = (Inr ERR_NONE, b1, w1') \<and> length (bb_data b1) = 4 \<and>
     read_line (bb_new 4) (demo_conn (CR # ''abcdef'' @ CRLF)) = (Inr ERR_NONE, b2, w2') \<and> length (bb_data b2) = 14"
proof -
  have s: "source (demo_conn (''abcdef'' @ CRLF)) = (''abcdef'' @ CRLF @ [], NETCTX_RCV_ERROR, SSL_TIMEOUT)"
    "source (demo_conn (CR # ''abcdef'' @ CRLF)) = (CR # ''abcdef'' @ CRLF @ [], NETCTX_RCV_ERROR, SSL_TIMEOUT)"
    by (subst demo_conn_source; simp)+
  from line_limit_bypassed [OF s, of 4] show ?thesis by auto
qed

end
