(* ===== verification/HttpFrame.thy ===== *)
theory HttpFrame
  imports Http
begin

text \<open>
  What connecting, the handshake and reading leave alone: nothing is written to the socket, and reading
  keeps its descriptor.
\<close>

section \<open>Sockets\<close>

lemma tls_connect_wire: "wire (snd (tls_connect w)) = wire w"
  by (auto simp: tls_connect_def tcp_connect_def socket_connect_def open_fd_def set_blocking_mode_def raw_call_def Let_def
      split: list.split)

lemma poll_call_keeps: "raw_call w = (rc, w1) \<Longrightarrow> wire w1 = wire w \<and> fd w1 = fd w"
  "socket_poll w = (p, w2) \<Longrightarrow> wire w2 = wire w \<and> fd w2 = fd w"
  by (auto simp: raw_call_def socket_poll_def raw_poll_def Let_def split: list.splits)

lemma handshake_wire: "wire (snd (handshake_loop w)) = wire w"
proof (induction w rule: handshake_loop.induct)
  case (1 w)
  obtain rc w1 where r: "raw_call w = (rc, w1)" by (cases "raw_call w")
  obtain p w2 where s: "socket_poll w1 = (p, w2)" by (cases "socket_poll w1")
  note k = poll_call_keeps(1) [OF r] poll_call_keeps(2) [OF s]
  show ?case
  proof (cases "hdk_code (tls_handshake_status rc)")
    case SSLCTX_HDK_WAIT_IO
    with 1(1) [OF r [symmetric] refl SSLCTX_HDK_WAIT_IO s [symmetric]] r s k show ?thesis
      by (simp add: handshake_loop.simps [of w] Let_def)
  next
    case SSLCTX_HDK_WAIT_ASYNC
    with 1(2) [OF r [symmetric] refl SSLCTX_HDK_WAIT_ASYNC] r k show ?thesis
      by (auto simp: handshake_loop.simps [of w] Let_def split: list.split bool.split)
  qed (use r k in \<open>simp_all add: handshake_loop.simps [of w] Let_def\<close>)
qed

lemma read_loop_keeps: "read_loop len got w = (st, bs, w') \<Longrightarrow> wire w' = wire w \<and> fd w' = fd w"
proof (induction len got w rule: read_loop.induct)
  case (1 len got w)
  show ?case
  proof (cases "len = 0")
    case True
    with 1(3) show ?thesis by (simp add: read_loop.simps)
  next
    case False
    obtain s b w1 where r: "recv_data len w = (s, b, w1)" by (cases "recv_data len w") auto
    obtain p w2 where p: "socket_poll w1 = (p, w2)" by (cases "socket_poll w1") auto
    have k: "wire w1 = wire w" "fd w1 = fd w" "wire w2 = wire w1" "fd w2 = fd w1"
      using recv_data_measure(5,9) [OF r] poll_call_keeps(2) [OF p] False by simp_all
    show ?thesis
    proof (cases "rcv_code s")
      case NETCTX_RCV_OK
      with 1(1) [OF False r [symmetric] refl NETCTX_RCV_OK] 1(3) r False k show ?thesis
        by (simp add: read_loop.simps [of len])
    next
      case NETCTX_RCV_RETRY
      with 1(2) [OF False r [symmetric] refl NETCTX_RCV_RETRY p [symmetric]] 1(3) r p False k show ?thesis
        by (auto simp: read_loop.simps [of len] split: if_splits)
    qed (use 1(3) r False k in \<open>auto simp: read_loop.simps [of len]\<close>)
  qed
qed

lemma read_buffer_keeps: "read_buffer n w = (r, w') \<Longrightarrow> wire w' = wire w \<and> fd w' = fd w"
  by (auto simp: read_buffer_def tcp_read_def dest!: read_loop_keeps split: prod.splits rcv_code.splits)


section \<open>Reading answers\<close>

definition keeps :: "char net \<Rightarrow> char net \<Rightarrow> bool" where
  "keeps w w' \<longleftrightarrow> wire w' = wire w \<and> fd w' = fd w"

lemma keeps_refl [simp]: "keeps w w"
  by (simp add: keeps_def)

lemma keeps_trans: "keeps w w1 \<Longrightarrow> keeps w1 w2 \<Longrightarrow> keeps w w2"
  by (simp add: keeps_def)

lemma read_buffer_kept: "keeps w (snd (read_buffer n w))"
  using read_buffer_keeps [of n w] by (cases "read_buffer n w") (simp add: keeps_def)

lemma read_line_kept: "keeps w (snd (snd (read_line_loop st n b w)))"
proof (induction st n b w rule: read_line_loop.induct)
  case (1 st n b w)
  obtain res w1 where p: "read_buffer 1 w = (res, w1)" by (cases "read_buffer 1 w")
  have k: "keeps w w1" using read_buffer_kept [of w 1] p by simp
  consider e where "res = Inl e" | "res = Inr None" | cs where "res = Inr (Some cs)" by (metis option.exhaust sum.exhaust)
  then show ?case
  proof cases
    case 3
    note ih = 1 [OF _ p [symmetric] 3 refl refl]
    show ?thesis
      unfolding read_line_loop.simps [of st n b w] p 3 Let_def prod.case sum.case option.case
      using ih k by (auto intro: keeps_trans [OF k])
  qed (use p k in \<open>simp_all add: read_line_loop.simps [of st n b w]\<close>)
qed

lemma read_line_keeps: "read_line b w = (r, b', w') \<Longrightarrow> keeps w w'"
  using read_line_kept [of w 0 0 "bb_clear b"] by (simp add: read_line_def)

lemma read_headers_kept: "keeps w (snd (snd (read_headers_loop d b a w)))"
proof (induction d b a w rule: read_headers_loop.induct)
  case (1 d b a w)
  obtain r b' w1 where l: "read_line b w = (r, b', w1)" by (cases "read_line b w")
  note k = read_line_keeps [OF l]
  show ?case
    unfolding read_headers_loop.simps [of d b a w] l prod.case
    using 1 [OF l [symmetric] _ refl] k by (auto intro: keeps_trans [OF k] split: sum.split)
qed

lemma read_body_kept: "keeps w (snd (snd (read_body n m body w)))"
proof (induction n m body w rule: read_body.induct)
  case (1 n m body w)
  obtain res w1 where p: "read_buffer (min n 4096) w = (res, w1)" by (cases "read_buffer (min n 4096) w")
  have k: "keeps w w1" using read_buffer_kept [of w "min n 4096"] p by simp
  consider e where "res = Inl e" | "res = Inr None" | cs where "res = Inr (Some cs)" by (metis option.exhaust sum.exhaust)
  then show ?case
  proof cases
    case 3
    note ih = 1 [OF refl p [symmetric] 3 refl refl refl]
    show ?thesis
      unfolding read_body.simps [of n m body w] Let_def p 3 prod.case sum.case option.case
      using ih k by (auto intro: keeps_trans [OF k])
  qed (use p k in \<open>simp_all add: read_body.simps [of n m body w] Let_def\<close>)
qed

lemma read_gzip_kept: "keeps w (snd (snd (read_gzip_loop z seen n m body w)))"
proof (induction z seen n m body w rule: read_gzip_loop.induct)
  case (1 z seen n m body w)
  obtain res w1 where p: "read_buffer (min n 1024) w = (res, w1)" by (cases "read_buffer (min n 1024) w")
  have k: "keeps w w1" using read_buffer_kept [of w "min n 1024"] p by simp
  consider e where "res = Inl e" | "res = Inr None" | cs where "res = Inr (Some cs)" by (metis option.exhaust sum.exhaust)
  then show ?case
  proof cases
    case 3
    note ih = 1 [OF refl p [symmetric] 3 refl]
    show ?thesis
      unfolding read_gzip_loop.simps [of z seen n m body w] Let_def p 3 prod.case sum.case option.case
      using ih k by (auto intro: keeps_trans [OF k] split: prod.split)
  qed (use p k in \<open>simp_all add: read_gzip_loop.simps [of z seen n m body w] Let_def\<close>)
qed

lemma read_chunks_kept: "keeps w (snd (snd (read_chunks b body w)))"
proof (induction b body w rule: read_chunks.induct)
  case (1 b body w)
  obtain r b1 w1 where l: "read_line b w = (r, b1, w1)" by (cases "read_line b w")
  obtain valid n where n: "str2num (bb_data b1) 16 0 (int MAX_CHUNK_SIZE) 0 = (valid, n)"
    by (cases "str2num (bb_data b1) 16 0 (int MAX_CHUNK_SIZE) 0")
  obtain r2 body2 w2 where rb: "(if n > 0 then read_body (nat n) MAX_BODY_SIZE body w1 else (Inr True, body, w1)) = (r2, body2, w2)"
    by (cases "if n > 0 then read_body (nat n) MAX_BODY_SIZE body w1 else (Inr True, body, w1)")
  obtain r3 b3 w3 where l3: "read_line b1 w2 = (r3, b3, w3)" by (cases "read_line b1 w2")
  note k1 = read_line_keeps [OF l]
  have "keeps w1 w2" using read_body_kept [of w1 "nat n" MAX_BODY_SIZE body] rb by (auto split: if_splits)
  note k2 = keeps_trans [OF k1 this]
  note k3 = keeps_trans [OF k2 read_line_keeps [OF l3]]
  have "keeps w3 (snd (snd (read_chunks b3 body2 w3)))"
    if "r = Inr ERR_NONE" "bb_data b1 \<noteq> []" "valid" "r2 = Inr True" "r3 = Inr ERR_NONE" "bb_data b3 = []" "n > 0"
    using 1 [OF l [symmetric] that(1) refl _ n [symmetric] _ rb [symmetric] that(4) refl _ l3 [symmetric] that(5) refl] that by simp
  with k1 k2 k3 show ?case
    unfolding read_chunks.simps [of b body w] l prod.case n rb l3 by (auto split: sum.split intro: keeps_trans [OF k3])
qed

lemma read_message_body_kept: "keeps w (snd (snd (read_message_body z a w)))"
proof -
  have "keeps w (snd (snd (read_plain z g l body w)))" for g l body
    using read_body_kept [of w k MAX_BODY_SIZE "bb_reserve k body" for k]
      read_gzip_kept [of w z "[]" k MAX_BODY_SIZE "bb_reserve k body" for k]
    by (auto simp: read_plain_def read_gzip_body_def split: option.split prod.split sum.split) (metis snd_conv)+
  then show ?thesis using read_chunks_kept
    by (auto simp: read_message_body_def Let_def split: sum.split)
qed

lemma an_bind_kept:
  assumes "keeps w (snd (snd m))" "\<And>x a w1. keeps w w1 \<Longrightarrow> keeps w (snd (snd (f x a w1)))"
  shows "keeps w (snd (snd (an_bind m f)))"
proof -
  obtain r a w1 where "m = (r, a, w1)" by (cases m)
  with assms(1) assms(2) [of w1] show ?thesis by (cases r) (simp_all add: an_bind_def)
qed

lemma an_read_kept: "keeps v w \<Longrightarrow> keeps v (snd (snd (an_read n a w)))"
  using read_buffer_kept [of w n] keeps_trans by (auto simp: an_read_def split: prod.split)

lemma read_line_kept_from: "keeps v w \<Longrightarrow> keeps v (snd (snd (read_line b w)))"
  using keeps_trans [of v w] read_line_kept [of w 0 0 "bb_clear b"] by (simp add: read_line_def)

lemma read_control_data_kept: "keeps w (snd (snd (read_control_data a w)))"
  unfolding read_control_data_def Let_def
  by (intro an_bind_kept an_read_kept keeps_refl)
    (auto intro!: an_bind_kept an_read_kept split: option.split prod.split sum.split dest!: read_line_keeps; metis keeps_trans)

lemma answer_recv_kept: "keeps w (snd (snd (answer_recv z d a w)))"
proof -
  have "keeps v (snd (snd (read_headers d a w)))" if "keeps v w" for v w a
    using keeps_trans [OF that read_headers_kept] by (simp add: read_headers_def)
  moreover have "keeps v (snd (snd (case read_message_body z a w of (r, body, w') \<Rightarrow> (r, a\<lparr>an_body := body\<rparr>, w'))))"
    if "keeps v w" for v w a
    using keeps_trans [OF that read_message_body_kept [of w z a]] by (simp add: case_prod_beta)
  ultimately show ?thesis unfolding answer_recv_def
    by (intro an_bind_kept read_control_data_kept) (auto intro!: an_bind_kept)
qed

end
