(* ===== verification/HttpsClient.thy ===== *)
theory HttpsClient
  imports HttpFrame Timer
begin

text \<open>
  The HTTPS client (\<^verbatim>\<open>http/HttpsClient.cpp\<close>): one TLS connection at a time to the endpoint of the client,
  kept alive between requests.

  \<^item> A connection is the scripted socket of \<open>NetSocket\<close> with what the TLS library says of its peer: the
    certificate (the bytes of \<^verbatim>\<open>mbedtls_ssl_get_peer_cert\<close>, or none) and the result of its verification.
    \<open>hc_next\<close> are the connections that the next calls of \<^verbatim>\<open>connect\<close> reach; \<open>hc_past\<close> keeps the ones before
    the current one, so that statements can speak of what was written to them.
  \<^item> \<open>hc_clock\<close> are the readings of \<^verbatim>\<open>GetTickCount64\<close>, \<open>hc_wall\<close> is the wall clock in seconds.
  \<^item> \<open>hc_sent\<close> records the URL of every request that was sent.

  An operation that may throw answers \<open>exn + 'a\<close> with the client it leaves; \<open>io_bind\<close> goes on after a
  normal return.
\<close>

section \<open>State\<close>

record conn =
  cn_net :: "char net"
  cn_crt :: "string option"
  cn_check :: "32 word"

record https =
  hc_host :: endpoint
  hc_conn :: conn
  hc_next :: "conn list"
  hc_past :: "conn list"
  hc_clock :: "64 word list"
  hc_wall :: int
  hc_keepalive :: timer64
  hc_max_requests :: int
  hc_keepalive_timeout :: int
  hc_connect_timeout :: "32 word"
  hc_send_timeout :: "32 word"
  hc_receive_timeout :: "32 word"
  hc_request_count :: int
  hc_sent :: "url list"

definition STATUS_OK :: int where "STATUS_OK = 200"
definition STATUS_FOUND :: int where "STATUS_FOUND = 302"
definition STATUS_SEE_OTHER :: int where "STATUS_SEE_OTHER = 303"
definition STATUS_TEMPORARY_REDIRECT :: int where "STATUS_TEMPORARY_REDIRECT = 307"
definition STATUS_UNAUTHORIZED :: int where "STATUS_UNAUTHORIZED = 401"
definition STATUS_FORBIDDEN :: int where "STATUS_FORBIDDEN = 403"

definition DEFAULT_KEEP_ALIVE_TIMEOUT :: int where "DEFAULT_KEEP_ALIVE_TIMEOUT = 60"

lemmas http_status_defs = STATUS_OK_def STATUS_FOUND_def STATUS_SEE_OTHER_def STATUS_TEMPORARY_REDIRECT_def
  STATUS_UNAUTHORIZED_def STATUS_FORBIDDEN_def

definition io_bind :: "(exn + 'a) \<times> 'h \<Rightarrow> ('a \<Rightarrow> 'h \<Rightarrow> (exn + 'b) \<times> 'h) \<Rightarrow> (exn + 'b) \<times> 'h" where
  "io_bind m f = (case m of (Inl e, h) \<Rightarrow> (Inl e, h) | (Inr x, h) \<Rightarrow> f x h)"

lemma io_bind_simps [simp]: "io_bind (Inl e, h) f = (Inl e, h)" "io_bind (Inr x, h) f = f x h"
  by (simp_all add: io_bind_def)

text \<open>The next reading of the clock; an exhausted script stays at its start.\<close>

definition read_clock :: "('a https_scheme) \<Rightarrow> 64 word \<times> 'a https_scheme" where
  "read_clock h = (case hc_clock h of [] \<Rightarrow> (0, h) | t # ts \<Rightarrow> (t, h\<lparr>hc_clock := ts\<rparr>))"

section \<open>Operations\<close>

text \<open>A new client has a socket without a descriptor.\<close>

definition no_conn :: conn where
  "no_conn = \<lparr>cn_net = \<lparr>is_tls = True, fd = -1, blocking = False, recvs = [], sends = [], polls = [], calls = [],
     elapsed = [], wire = []\<rparr>, cn_crt = None, cn_check = 0\<rparr>"

definition https_new :: "endpoint \<Rightarrow> conn list \<Rightarrow> 64 word \<Rightarrow> 64 word list \<Rightarrow> int \<Rightarrow> https" where
  "https_new ep peers now clock wall =
     \<lparr>hc_host = ep, hc_conn = no_conn, hc_next = peers, hc_past = [], hc_clock = clock, hc_wall = wall,
      hc_keepalive = timer_start now (of_int (DEFAULT_KEEP_ALIVE_TIMEOUT * 1000)), hc_max_requests = 100,
      hc_keepalive_timeout = DEFAULT_KEEP_ALIVE_TIMEOUT, hc_connect_timeout = 10 * 1000, hc_send_timeout = 10 * 1000,
      hc_receive_timeout = 10 * 1000, hc_request_count = 0, hc_sent = []\<rparr>"

definition https_is_connected :: "'a https_scheme \<Rightarrow> bool" where
  "https_is_connected h \<longleftrightarrow> socket_is_connected (cn_net (hc_conn h))"

definition https_set_timeouts :: "32 word \<Rightarrow> 32 word \<Rightarrow> 32 word \<Rightarrow> 'a https_scheme \<Rightarrow> bool \<times> 'a https_scheme" where
  "https_set_timeouts ct st rt h =
     (if \<not> https_is_connected h
      then (True, h\<lparr>hc_connect_timeout := ct, hc_send_timeout := st, hc_receive_timeout := rt\<rparr>) else (False, h))"

definition https_is_reconnection_required :: "'a https_scheme \<Rightarrow> bool \<times> 'a https_scheme" where
  "https_is_reconnection_required h =
     (if \<not> https_is_connected h then (True, h)
      else case read_clock h of (now, h') \<Rightarrow>
        (timer_is_elapsed now (hc_keepalive h') \<or> hc_request_count h' \<ge> hc_max_requests h', h'))"

text \<open>The number of milliseconds is passed as an unsigned 32-bit number.\<close>

definition start_keepalive :: "'a https_scheme \<Rightarrow> 'a https_scheme" where
  "start_keepalive h = (case read_clock h of (now, h') \<Rightarrow>
     h'\<lparr>hc_keepalive := timer_start now (of_int (hc_keepalive_timeout h' * 1000))\<rparr>)"

text \<open>The socket of a connection starts without a descriptor and with nothing written to it.\<close>

definition fresh_conn :: "conn \<Rightarrow> conn" where
  "fresh_conn c = c\<lparr>cn_net := (cn_net c)\<lparr>is_tls := True, fd := -1, wire := []\<rparr>\<rparr>"

definition https_connect :: "'a https_scheme \<Rightarrow> (exn + unit) \<times> 'a https_scheme" where
  "https_connect h0 =
     (let h = (start_keepalive h0)\<lparr>hc_request_count := 0\<rparr> in
      if https_is_connected h then (Inl (Mbed_error NET_INVALID_CONTEXT), h)
      else case hc_next h of
        [] \<Rightarrow> (Inl (Mbed_error NET_SOCKET_FAILED), h)
      | peer # peers \<Rightarrow>
          (let c = fresh_conn peer in
           case tls_connect (cn_net c) of (rc, w) \<Rightarrow>
             let h1 = h\<lparr>hc_next := peers, hc_past := hc_past h @ [hc_conn h], hc_conn := c\<lparr>cn_net := w\<rparr>\<rparr> in
             if rc < 0 then (Inl (Mbed_error rc), h1)
             else case handshake_loop w of (st, w') \<Rightarrow>
               (if hdk_code st \<noteq> SSLCTX_HDK_OK then Inl (Mbed_error (hdk_rc st)) else Inr (),
                h1\<lparr>hc_conn := c\<lparr>cn_net := w'\<rparr>\<rparr>)))"

definition https_disconnect :: "'a https_scheme \<Rightarrow> 'a https_scheme" where
  "https_disconnect h = h\<lparr>hc_conn := (hc_conn h)\<lparr>cn_net := snd (tls_shutdown (cn_net (hc_conn h)))\<rparr>\<rparr>"

definition https_send_request :: "request \<Rightarrow> 'a https_scheme \<Rightarrow> (exn + unit) \<times> 'a https_scheme" where
  "https_send_request rq h =
     (case request_send (hc_wall h) rq (cn_net (hc_conn h)) of (r, w) \<Rightarrow>
        let h1 = h\<lparr>hc_conn := (hc_conn h)\<lparr>cn_net := w\<rparr>, hc_sent := hc_sent h @ [rq_url rq]\<rparr> in
        (case r of
           Inl e \<Rightarrow> (Inl e, h1)
         | Inr _ \<Rightarrow> (Inr (), start_keepalive (h1\<lparr>hc_request_count := hc_request_count h1 + 1\<rparr>))))"

text \<open>The parameters of the \<^verbatim>\<open>Keep-Alive\<close> header: timeout and maximum.\<close>

definition keep_alive_params :: "strimap \<Rightarrow> exn + (int \<times> int)" where
  "keep_alive_params headers =
     (case headers_get headers ''Keep-Alive'' of
        None \<Rightarrow> Inr (DEFAULT_KEEP_ALIVE_TIMEOUT, 100)
      | Some keep_alive \<Rightarrow>
          try_bind (sm_new keep_alive (CHR '','')) (\<lambda>params.
            Inr (snd (sm_get_int params ''timeout'' DEFAULT_KEEP_ALIVE_TIMEOUT), snd (sm_get_int params ''max'' 100))))"

definition https_recv_answer ::
    "zlib \<Rightarrow> (string \<Rightarrow> int) \<Rightarrow> answer \<Rightarrow> 'a https_scheme \<Rightarrow> (exn + answer) \<times> 'a https_scheme" where
  "https_recv_answer z http_date a0 h =
     (case answer_recv z http_date (answer_clear a0) (cn_net (hc_conn h)) of (r, a, w) \<Rightarrow>
        let h1 = h\<lparr>hc_conn := (hc_conn h)\<lparr>cn_net := w\<rparr>\<rparr> in
        (case r of
           Inl e \<Rightarrow> (Inl e, h1)
         | Inr _ \<Rightarrow>
             (case keep_alive_params (an_headers a) of
                Inl e \<Rightarrow> (Inl e, h1)
              | Inr (timeout, max_requests) \<Rightarrow>
                  (Inr a, h1\<lparr>hc_max_requests := max 0 max_requests, hc_keepalive_timeout := max 0 timeout\<rparr>))))"

definition https_make_url :: "string \<Rightarrow> string \<Rightarrow> 'a https_scheme \<Rightarrow> exn + url" where
  "https_make_url p q h = url_make ''https'' (endpoint_to_string (hc_host h)) p q []"

section \<open>What the operations leave alone\<close>

text \<open>The connections other than the current one, and whether bytes were written to it.\<close>

lemma read_clock_simps [simp]:
  "hc_conn (snd (read_clock h)) = hc_conn h" "hc_past (snd (read_clock h)) = hc_past h" "hc_next (snd (read_clock h)) = hc_next h"
  "hc_sent (snd (read_clock h)) = hc_sent h" "hc_host (snd (read_clock h)) = hc_host h" "https.more (snd (read_clock h)) = https.more h"
  by (auto simp: read_clock_def split: list.split)

lemma start_keepalive_simps [simp]:
  "hc_conn (start_keepalive h) = hc_conn h" "hc_past (start_keepalive h) = hc_past h" "hc_next (start_keepalive h) = hc_next h"
  "hc_sent (start_keepalive h) = hc_sent h" "hc_host (start_keepalive h) = hc_host h" "https.more (start_keepalive h) = https.more h"
  by (simp_all add: start_keepalive_def case_prod_beta)

end
