(* ===== verification/FirewallClient.thy ===== *)
theory FirewallClient
  imports HttpsClient
begin

text \<open>
  The client of the firewall portal (\<^verbatim>\<open>fw/FirewallClient.cpp\<close>, \<^verbatim>\<open>fw/CrtDigest.cpp\<close>): opening, login with
  its second factors, requests with redirects, cookies, and the check of the peer's certificate at every
  new connection.

  Third-party code and the user are parameters in a record \<open>fw_env\<close>: zlib, the date parser, SHA-256 of
  mbedtls, the trust decision of Windows, the PEM encoder, the JSON and XML parsers with what the client
  takes from their results. The answers of the dialogs are arguments of the operations. The members of
  the class extend the record of the HTTPS client, as the class extends \<^verbatim>\<open>HttpsClient\<close>.
\<close>

section \<open>State\<close>

datatype portal_err =
    PORTAL_NONE
  | COMM_ERROR
  | CERT_UNTRUSTED
  | CERT_INVALID
  | HTTP_ERROR
  | ACCESS_DENIED
  | LOGIN_CANCELLED

record fwc = https +
  fc_digest :: string
  fc_jar :: cookies
  fc_realm :: string

record fw_env =
  ev_zlib :: zlib
  ev_date :: "string \<Rightarrow> int"
  ev_sha256 :: "string \<Rightarrow> string"
  ev_trusted :: "string option \<Rightarrow> bool"
  ev_pem :: "string option \<Rightarrow> string option"
  ev_json :: "string \<Rightarrow> (string option \<times> string option \<times> string option) option"
  ev_xml :: "string \<Rightarrow> string option option"
  ev_max_alloc :: nat

text \<open>The exceptions \<^verbatim>\<open>catch (const std::runtime_error&)\<close> catches.\<close>

fun is_runtime_error :: "exn \<Rightarrow> bool" where
  "is_runtime_error (Mbed_error rc) = True"
| "is_runtime_error (Http_error msg) = True"
| "is_runtime_error (Cookie_error msg) = True"
| "is_runtime_error e = False"

section \<open>Certificate digests\<close>

definition digest_none :: string where
  "digest_none = replicate 32 NUL"

definition crt_digest :: "(string \<Rightarrow> string) \<Rightarrow> string option \<Rightarrow> string" where
  "crt_digest sha256 crt = (case crt of None \<Rightarrow> digest_none | Some raw \<Rightarrow> sha256 raw)"

section \<open>Requests\<close>

definition fwc_new :: "endpoint \<Rightarrow> string \<Rightarrow> conn list \<Rightarrow> 64 word \<Rightarrow> 64 word list \<Rightarrow> int \<Rightarrow> fwc" where
  "fwc_new ep realm peers now clock wall =
     https.extend (https_new ep peers now clock wall) \<lparr>fc_digest = digest_none, fc_jar = [], fc_realm = realm\<rparr>"

definition fw_is_authenticated :: "fwc \<Rightarrow> bool" where
  "fw_is_authenticated h =
     (if \<not> jar_exists (fc_jar h) ''SVPNCOOKIE'' then False
      else case jar_find (fc_jar h) ''SVPNCOOKIE'' of
        None \<Rightarrow> False
      | Some svpn_cookie \<Rightarrow> length (c_value svpn_cookie) > 0 \<and> \<not> is_expired (hc_wall h) svpn_cookie)"

text \<open>A new connection is used only when the digest of its certificate is the one stored by \<open>open\<close>.\<close>

definition fw_reconnect :: "fw_env \<Rightarrow> fwc \<Rightarrow> (exn + bool) \<times> fwc" where
  "fw_reconnect v h =
     (case https_connect (https_disconnect h) of
        (Inl e, h1) \<Rightarrow> (if is_runtime_error e then Inr False else Inl e, h1)
      | (Inr _, h1) \<Rightarrow> (Inr (\<not> fc_digest h1 \<noteq> crt_digest (ev_sha256 v) (cn_crt (hc_conn h1))), h1))"

definition fw_send_and_receive :: "fw_env \<Rightarrow> request \<Rightarrow> answer \<Rightarrow> fwc \<Rightarrow> (exn + bool \<times> answer) \<times> fwc" where
  "fw_send_and_receive v rq a h0 =
     (case https_is_reconnection_required h0 of (required, h) \<Rightarrow>
        io_bind (if required then fw_reconnect v h else (Inr True, h)) (\<lambda>usable h1.
          if \<not> usable then (Inr (False, a), h1)
          else case https_send_request rq h1 of
            (Inl e, h2) \<Rightarrow> (if is_runtime_error e then Inr (False, a) else Inl e, h2)
          | (Inr _, h2) \<Rightarrow>
              (case https_recv_answer (ev_zlib v) (ev_date v) a h2 of
                 (Inl e, h3) \<Rightarrow> (if is_runtime_error e then Inr (False, a) else Inl e, h3)
               | (Inr a', h3) \<Rightarrow> (Inr (True, a'), h3))))"

text \<open>The cookies of an answer: an expired one is removed from the jar, a secure one for HTTP only is
  added for the host of the request, others are skipped.\<close>

fun fw_accept_cookies :: "int \<Rightarrow> url \<Rightarrow> cookies \<Rightarrow> cookies \<Rightarrow> exn + cookies" where
  "fw_accept_cookies now u [] jar = Inr jar"
| "fw_accept_cookies now u ((_, c) # cs) jar =
     try_bind (url_get_hostname u) (\<lambda>url_domain.
       fw_accept_cookies now u cs
         (if c_domain c = [] \<or> same_domain c url_domain then
            (if is_expired now c then jar_remove (c_name c) jar
             else if c_secure c \<and> c_http_only c
             then jar_add (make_cookie (c_name c) (c_value c) url_domain (c_path c) (c_expires c) True True) jar
             else jar)
          else jar))"

definition fw_request_headers :: "endpoint \<Rightarrow> strimap \<Rightarrow> strimap" where
  "fw_request_headers host headers =
     headers_add headers
      (headers_set ''User-Agent'' ''Mozilla/5.0 (Windows NT 10.0; Win64; x64)''
      (headers_set ''Host'' (endpoint_to_string host)
      (headers_set ''Connection'' ''keep-alive''
      (headers_set ''Cache-Control'' ''no-cache''
      (headers_set ''Accept-Language'' ''en''
      (headers_set ''Accept-Encoding'' ''identity''
      (headers_set ''Accept'' ''text/html'' [])))))))"

definition fw_do_request ::
    "fw_env \<Rightarrow> string \<Rightarrow> url \<Rightarrow> string \<Rightarrow> strimap \<Rightarrow> answer \<Rightarrow> fwc \<Rightarrow> (exn + bool \<times> answer) \<times> fwc" where
  "fw_do_request v verb u body headers a h =
     (let rq0 = request_new verb u (fc_jar h);
          rq = request_set_body body (rq0\<lparr>rq_headers := fw_request_headers (hc_host h) headers\<rparr>)
      in io_bind (fw_send_and_receive v rq a h) (\<lambda>(success, a1) h1.
           if \<not> success then (Inr (False, a1), https_disconnect h1)
           else case fw_accept_cookies (hc_wall h1) u (an_cookies a1) (fc_jar h1) of
             Inl e \<Rightarrow> (Inl e, h1)
           | Inr jar \<Rightarrow> (Inr (True, a1), h1\<lparr>fc_jar := jar\<rparr>)))"

text \<open>Redirects are followed on the host of the client, whatever host they name. \<open>url_parse\<close> always has
  a result.\<close>

function fw_send_request ::
    "fw_env \<Rightarrow> string \<Rightarrow> url \<Rightarrow> string \<Rightarrow> strimap \<Rightarrow> answer \<Rightarrow> int \<Rightarrow> fwc \<Rightarrow> (exn + bool \<times> answer) \<times> fwc" where
  "fw_send_request v verb u body headers a allow_redir h =
     (if allow_redir < 0 then (Inr (False, a), h)
      else io_bind (fw_do_request v verb u body headers a h) (\<lambda>(success, a1) h1.
        if \<not> success then (Inr (False, a1), h1)
        else if an_status a1 = STATUS_TEMPORARY_REDIRECT \<or> an_status a1 = STATUS_FOUND \<or> an_status a1 = STATUS_SEE_OTHER then
          (case headers_get (an_headers a1) ''Location'' of
             None \<Rightarrow> (Inr (True, a1), h1)
           | Some location \<Rightarrow>
               (case url_parse location of
                  None \<Rightarrow> (Inr (False, a1), h1)
                | Some redir_url \<Rightarrow>
                    (case https_make_url (path redir_url) (query redir_url) h1 of
                       Inl e \<Rightarrow> (Inl e, h1)
                     | Inr u1 \<Rightarrow> fw_send_request v verb u1 body headers a1 (allow_redir - 1) h1)))
        else (Inr (True, a1), h1)))"
  by pat_completeness auto
termination
  by (relation "measure (\<lambda>(v, verb, u, body, headers, a, n, h). nat (n + 1))") auto

declare fw_send_request.simps [simp del]

text \<open>A request for a path of the portal.\<close>

definition fw_get :: "fw_env \<Rightarrow> string \<Rightarrow> string \<Rightarrow> string \<Rightarrow> string \<Rightarrow> strimap \<Rightarrow> int \<Rightarrow> fwc \<Rightarrow> (exn + bool \<times> answer) \<times> fwc" where
  "fw_get v verb p q body headers allow_redir h =
     (case https_make_url p q h of
        Inl e \<Rightarrow> (Inl e, h)
      | Inr u \<Rightarrow> fw_send_request v verb u body headers answer_new allow_redir h)"

section \<open>Opening\<close>

definition BADCERT_NOT_TRUSTED :: "32 word" where "BADCERT_NOT_TRUSTED = 8"

text \<open>\<open>confirm\<close> is the answer of the user to a certificate that is not valid.\<close>

definition fw_crt_status :: "fw_env \<Rightarrow> conn \<Rightarrow> 32 word" where
  "fw_crt_status v c =
     (if and (cn_check c) BADCERT_NOT_TRUSTED \<noteq> 0 \<and> ev_trusted v (cn_crt c)
      then and (cn_check c) (not BADCERT_NOT_TRUSTED) else cn_check c)"

definition fw_open :: "fw_env \<Rightarrow> (string option \<Rightarrow> 32 word \<Rightarrow> bool) \<Rightarrow> fwc \<Rightarrow> (exn + portal_err) \<times> fwc" where
  "fw_open v confirm h =
     (case https_connect h of
        (Inl e, h1) \<Rightarrow> (if is_runtime_error e then Inr COMM_ERROR else Inl e, h1)
      | (Inr _, h1) \<Rightarrow>
          (let crt = cn_crt (hc_conn h1); status = fw_crt_status v (hc_conn h1) in
           if status \<noteq> 0 \<and> \<not> confirm crt status then (Inr CERT_UNTRUSTED, h1)
           else
             (let h2 = h1\<lparr>fc_digest := crt_digest (ev_sha256 v) crt\<rparr> in
              io_bind (fw_get v ''GET'' ''/'' [] [] [] 2 h2) (\<lambda>(ok, a) h3.
                (if \<not> ok then Inr COMM_ERROR
                 else if an_status a \<noteq> STATUS_OK then Inr HTTP_ERROR else Inr PORTAL_NONE, h3)))))"

section \<open>Login\<close>

definition fw_try_login_check :: "fw_env \<Rightarrow> strimap \<Rightarrow> fwc \<Rightarrow> (exn + portal_err \<times> strimap) \<times> fwc" where
  "fw_try_login_check v in_params h =
     io_bind (fw_get v ''POST'' ''/remote/logincheck'' [] (sm_join in_params ''&'')
        (headers_set ''Content-Type'' ''text/plain;charset=UTF-8'' []) 0 h) (\<lambda>(ok, a) h1.
       if \<not> ok then (Inr (COMM_ERROR, []), h1)
       else if \<not> (an_status a = STATUS_OK \<or> an_status a = STATUS_UNAUTHORIZED \<or> an_status a = STATUS_FORBIDDEN)
       then (Inr (HTTP_ERROR, []), h1)
       else case sm_add (bb_data (an_body a)) (CHR '','') [] of
         (out_params, Inl e) \<Rightarrow> (Inl e, h1)
       | (out_params, Inr _) \<Rightarrow>
           (Inr (if \<not> fst (sm_get_int out_params ''ret'' 0) then ACCESS_DENIED else PORTAL_NONE, out_params), h1))"

definition fw_get_redir_url :: "strimap \<Rightarrow> exn + url option" where
  "fw_get_redir_url params =
     (case sm_get_str params ''redir'' of
        None \<Rightarrow> Inr None
      | Some redir \<Rightarrow> try_bind (decode_url redir) (\<lambda>text. Inr (url_parse text)))"

text \<open>The parameters of the next login check, from the code of the user and the last result.\<close>

definition fw_code_params :: "nat \<Rightarrow> int \<Rightarrow> strimap \<Rightarrow> string \<Rightarrow> strimap \<Rightarrow> exn + strimap" where
  "fw_code_params max_alloc retcode res code params =
     (let val = (\<lambda>name. sm_get_str_value res name [])
      in try_bind
        (if retcode = 6 then
           (let reqid = (c_str (val ''reqid'') @ '','') @ c_str (val ''polid'');
                grpid = (c_str (val ''grpid'') @ '','' @ c_str (val ''pid'') @ '','') @ c_str (val ''is_chal_rsp'')
            in try_bind (string_format max_alloc (int (length reqid)) reqid) (\<lambda>r.
               try_bind (string_format max_alloc (int (length grpid)) grpid) (\<lambda>g.
                 Inr (sm_set ''credential2'' code (sm_set ''grpid'' g (sm_set ''reqid'' r
                   (sm_set ''magic'' (val ''magic'') params)))))))
         else
           Inr (sm_set ''grp'' (val ''grp'') (sm_set ''polid'' (val ''polid'') (sm_set ''reqid'' (val ''reqid'')
             (sm_set ''code2'' (if retcode = 5 then code else []) (sm_set ''code'' (if retcode = 5 then [] else code) params))))))
        (\<lambda>params'. Inr (case sm_get_str res ''peer'' of None \<Rightarrow> params' | Some peer \<Rightarrow> sm_set ''peer'' peer params')))"

text \<open>The prompt of the dialog, which may throw while the name of the device is decoded.\<close>

definition fw_prompt :: "int \<Rightarrow> strimap \<Rightarrow> exn + string" where
  "fw_prompt retcode res =
     (if retcode = 5 then Inr ''Wait next code''
      else if retcode = 6 then Inr (sm_get_str_value res ''chal_msg'' ''enter code'')
      else case sm_get_str res ''tokeninfo'' of
        None \<Rightarrow> Inr ''Enter authentication code''
      | Some device \<Rightarrow> try_bind (decode_url device) (\<lambda>d.
          Inr ((if retcode = 2 then ''Enter fortitoken code ''
                else if retcode = 3 then ''Enter authentication code sent to email ''
                else ''Enter authentication code sent to SMS '') @ d)))"

definition fw_redirected :: "url option \<Rightarrow> url" where
  "fw_redirected r = (case r of None \<Rightarrow> empty_url | Some u \<Rightarrow> u)"

text \<open>The loop. \<open>codes\<close> are the answers of the code dialog, \<open>None\<close> a cancellation, as is a dialog that
  gives no further answer.\<close>

fun fw_login_loop :: "fw_env \<Rightarrow> string option list \<Rightarrow> strimap \<Rightarrow> fwc \<Rightarrow> (exn + portal_err) \<times> fwc" where
  "fw_login_loop v codes params_query h =
     io_bind (fw_try_login_check v params_query h) (\<lambda>(err, res) h1.
       let retcode = sm_get_int_value res ''ret'' (-1) in
       if err \<noteq> PORTAL_NONE then (Inr err, h1)
       else if retcode = 0 then
         (case try_bind (fw_get_redir_url res) (\<lambda>r. url_get_query_map (fw_redirected r)) of
            Inl e \<Rightarrow> (Inl e, h1)
          | Inr _ \<Rightarrow> (Inr ACCESS_DENIED, h1))
       else if retcode = 1 then
         (case fw_get_redir_url res of
            Inl e \<Rightarrow> (Inl e, h1)
          | Inr r \<Rightarrow>
              io_bind (fw_get v ''GET'' (path (fw_redirected r)) (query (fw_redirected r)) [] [] 0 h1)
                (\<lambda>(ok, a) h2. (Inr (if \<not> ok then COMM_ERROR else PORTAL_NONE), h2)))
       else if 2 \<le> retcode \<and> retcode \<le> 6 then
         (if retcode = 6 \<and> sm_get_int_value res ''pass_renew'' 0 = 1 then (Inr LOGIN_CANCELLED, h1)
          else case fw_prompt retcode res of
            Inl e \<Rightarrow> (Inl e, h1)
          | Inr prompt \<Rightarrow>
              (case codes of
                 Some code # rest \<Rightarrow>
                   (case fw_code_params (ev_max_alloc v) retcode res code params_query of
                      Inl e \<Rightarrow> (Inl e, h1)
                    | Inr params' \<Rightarrow> fw_login_loop v rest params' h1)
               | _ \<Rightarrow> (Inr LOGIN_CANCELLED, h1)))
       else (Inr ACCESS_DENIED, h1))"

declare fw_login_loop.simps [simp del]

text \<open>\<open>credentials\<close> is the answer of the login dialog.\<close>

definition fw_login_basic ::
    "fw_env \<Rightarrow> (string \<times> string) option \<Rightarrow> string option list \<Rightarrow> fwc \<Rightarrow> (exn + portal_err) \<times> fwc" where
  "fw_login_basic v credentials codes h =
     (let login_query = sm_set ''lang'' ''en'' (if fc_realm h \<noteq> [] then sm_set ''realm'' (encode_url (fc_realm h)) [] else [])
      in io_bind (fw_get v ''GET'' ''/remote/login'' (sm_join login_query ''&'') [] [] 0 h) (\<lambda>(ok, a) h1.
        if \<not> ok then (Inr COMM_ERROR, h1)
        else if an_status a \<noteq> STATUS_OK then (Inr HTTP_ERROR, h1)
        else if fw_is_authenticated h1 then (Inr PORTAL_NONE, h1)
        else case credentials of
          None \<Rightarrow> (Inr LOGIN_CANCELLED, h1)
        | Some (username, password) \<Rightarrow>
            (let p1 = sm_set ''username'' (encode_url username) (sm_set ''ajax'' ''1'' []);
                 p2 = (if fc_realm h1 \<noteq> [] then sm_set ''realm'' (encode_url (fc_realm h1)) p1 else p1)
             in fw_login_loop v codes (sm_set ''credential'' (encode_url password) p2) h1)))"

text \<open>\<open>saml\<close> is the browser dialog: it gets the start URL and the certificate and may change the jar.\<close>

definition fw_login_saml :: "fw_env \<Rightarrow> (url \<Rightarrow> string \<Rightarrow> cookies \<Rightarrow> bool \<times> cookies) \<Rightarrow> fwc \<Rightarrow> (exn + portal_err) \<times> fwc" where
  "fw_login_saml v saml h =
     (case ev_pem v (cn_crt (hc_conn h)) of
        None \<Rightarrow> (Inr CERT_INVALID, h)
      | Some service_provider_crt \<Rightarrow>
          (case https_make_url ''/remote/saml/start'' (sm_join (sm_set ''realm'' (encode_url (fc_realm h)) []) ''&'') h of
             Inl e \<Rightarrow> (Inl e, h)
           | Inr u \<Rightarrow>
               (case saml u service_provider_crt (fc_jar h) of (ok, jar) \<Rightarrow>
                  (Inr (if \<not> ok then LOGIN_CANCELLED else PORTAL_NONE), h\<lparr>fc_jar := jar\<rparr>))))"

section \<open>The other operations\<close>

definition fw_logout :: "fw_env \<Rightarrow> fwc \<Rightarrow> (exn + bool) \<times> fwc" where
  "fw_logout v h =
     io_bind (fw_get v ''GET'' ''/remote/logout'' [] [] [] 0 h) (\<lambda>(ok, a) h1. (Inr ok, h1\<lparr>fc_jar := jar_clear (fc_jar h1)\<rparr>))"

record portal_info =
  pi_user :: string
  pi_group :: string
  pi_version :: string

text \<open>\<open>None\<close>: the call failed; the info of the caller is kept when the answer is no JSON object.\<close>

definition fw_get_info :: "fw_env \<Rightarrow> portal_info \<Rightarrow> fwc \<Rightarrow> (exn + portal_info option) \<times> fwc" where
  "fw_get_info v info h =
     (if \<not> fw_is_authenticated h then (Inr None, h)
      else io_bind (fw_get v ''GET'' ''/remote/portal'' ''access'' [] [] 0 h) (\<lambda>(ok, a) h1.
        (Inr (if \<not> ok \<or> an_status a \<noteq> STATUS_OK then None
              else (case ev_json v (bb_data (an_body a)) of
                  None \<Rightarrow> Some info
                | Some (user, grp, version) \<Rightarrow>
                    (let val = (\<lambda>s. case s of None \<Rightarrow> [] | Some t \<Rightarrow> t)
                     in Some (info\<lparr>pi_user := val user, pi_group := val grp, pi_version := val version\<rparr>)))), h1)))"

definition fw_get_config :: "fw_env \<Rightarrow> fwc \<Rightarrow> (exn + string option) \<times> fwc" where
  "fw_get_config v h =
     (if \<not> fw_is_authenticated h then (Inr None, h)
      else io_bind (fw_get v ''GET'' ''/remote/fortisslvpn_xml'' [] [] [] 0 h) (\<lambda>(ok, a) h1.
        (Inr (if \<not> ok \<or> an_status a \<noteq> STATUS_OK then None
              else (case ev_xml v (c_str (bb_data (an_body a))) of None \<Rightarrow> None | Some root \<Rightarrow> root)), h1)))"

end
