(* ===== verification/FirewallRun.thy ===== *)
theory FirewallRun
  imports FirewallClient
begin

text \<open>
  Runs of the portal operations. Every operation of the client reaches the network through
  \<open>fw_do_request\<close> alone; the locale \<open>fw_kept\<close> turns this into a proof rule: what one request keeps, any
  sequence of operations keeps. It is interpreted for the invariant of the connections (\<open>safe\<close>) and for the
  invariant of the cookie jar (\<open>jars\<close>).
\<close>

section \<open>Sequences of operations\<close>

datatype fw_op =
    Op_login_basic "(string \<times> string) option" "string option list"
  | Op_login_saml "url \<Rightarrow> string \<Rightarrow> cookies \<Rightarrow> bool \<times> cookies"
  | Op_logout
  | Op_get_info portal_info
  | Op_get_config

text \<open>The client an operation leaves, also when it throws.\<close>

fun fw_step :: "fw_env \<Rightarrow> fw_op \<Rightarrow> fwc \<Rightarrow> fwc" where
  "fw_step v (Op_login_basic credentials codes) h = snd (fw_login_basic v credentials codes h)"
| "fw_step v (Op_login_saml saml) h = snd (fw_login_saml v saml h)"
| "fw_step v Op_logout h = snd (fw_logout v h)"
| "fw_step v (Op_get_info info) h = snd (fw_get_info v info h)"
| "fw_step v Op_get_config h = snd (fw_get_config v h)"

definition fw_run :: "fw_env \<Rightarrow> fw_op list \<Rightarrow> fwc \<Rightarrow> fwc" where
  "fw_run v ops h = fold (fw_step v) ops h"

text \<open>The browser dialog keeps the jar within \<open>Q\<close>.\<close>

definition saml_keeps :: "(cookies \<Rightarrow> bool) \<Rightarrow> fw_op \<Rightarrow> bool" where
  "saml_keeps Q op \<longleftrightarrow> (\<forall>saml u crt jar. op = Op_login_saml saml \<longrightarrow> Q jar \<longrightarrow> Q (snd (saml u crt jar)))"

text \<open>The URL of a request: HTTPS to the endpoint of the client.\<close>

definition portal_url :: "endpoint \<Rightarrow> url \<Rightarrow> bool" where
  "portal_url ep u \<longleftrightarrow> scheme u = ''https'' \<and> trim (endpoint_to_string ep) = Inr (authority u)"

lemma make_url_portal: "https_make_url p q h = Inr u \<Longrightarrow> portal_url (hc_host h) u"
proof -
  have "trim ''https'' = Inr ''https''" by code_simp
  then show "https_make_url p q h = Inr u \<Longrightarrow> portal_url (hc_host h) u"
    by (auto simp: https_make_url_def url_make_def portal_url_def try_bind_Inr_iff)
qed

lemma io_bind_snd:
  assumes "P (snd m)" "\<And>x h. P h \<Longrightarrow> P (snd (f x h))"
  shows "P (snd (io_bind m f))"
  using assms by (auto simp: io_bind_def split: prod.split sum.split)

lemma snd_io_bind: "(\<And>x h. snd (f x h) = h) \<Longrightarrow> snd (io_bind m f) = snd m"
  by (auto simp: io_bind_def split: prod.split sum.split)

text \<open>After a login check the loop ends, follows the redirect of the portal, or goes on with the next code.\<close>

lemma login_loop_cases:
  assumes "fw_try_login_check v params h = (r, h1)" "P h1" "\<And>p q. P (snd (fw_get v ''GET'' p q [] [] 0 h1))"
    and "\<And>c rest p. codes = Some c # rest \<Longrightarrow> P (snd (fw_login_loop v rest p h1))"
  shows "P (snd (fw_login_loop v codes params h))"
proof (cases r)
  case (Inl e)
  with assms(1,2) show ?thesis by (simp add: fw_login_loop.simps [of v codes])
next
  case (Inr x)
  obtain err res where x: "x = (err, res)" by (cases x)
  have n: "P (snd (case codes of Some code # rest \<Rightarrow>
      (case fw_code_params (ev_max_alloc v) retcode res code params of
         Inl e \<Rightarrow> (Inl e, h1) | Inr params' \<Rightarrow> fw_login_loop v rest params' h1) | _ \<Rightarrow> (Inr LOGIN_CANCELLED, h1)))" for retcode
    using assms(2,4) by (auto split: list.split option.split sum.split)
  have g: "P (snd (io_bind (fw_get v ''GET'' p q [] [] 0 h1) (\<lambda>(ok, a) h2. (Inr (if \<not> ok then COMM_ERROR else PORTAL_NONE), h2))))" for p q
    using assms(3) [of p q] by (subst snd_io_bind) auto
  show ?thesis
    unfolding fw_login_loop.simps [of v codes params h] assms(1) Inr x io_bind_simps prod.case Let_def
    using assms(2) n g by (simp split: sum.split)
qed

section \<open>What a request keeps, every operation keeps\<close>

locale fw_kept =
  fixes v :: fw_env and P :: "fwc \<Rightarrow> bool" and Q :: "cookies \<Rightarrow> bool"
  assumes request: "P h \<Longrightarrow> portal_url (hc_host h) u \<Longrightarrow> P (snd (fw_do_request v verb u body headers a h))"
    and jar_in: "P h \<Longrightarrow> Q (fc_jar h)"
    and empty_ok: "Q []"
    and set_jar: "P h \<Longrightarrow> Q jar \<Longrightarrow> P (h\<lparr>fc_jar := jar\<rparr>)"
begin

lemma do_request_kept:
  assumes "P h" "portal_url (hc_host h) u" "fw_do_request v verb u body headers a h = (r, h')"
  shows "P h'"
  using request [OF assms(1,2), of verb body headers a] assms(3) by simp

lemma send_request_kept:
  "nat (n + 1) = k \<Longrightarrow> P h \<Longrightarrow> portal_url (hc_host h) u \<Longrightarrow> P (snd (fw_send_request v verb u body headers a n h))"
proof (induction k arbitrary: u a n h)
  case 0
  then show ?case by (simp add: fw_send_request.simps)
next
  case (Suc k)
  obtain r h1 where d: "fw_do_request v verb u body headers a h = (r, h1)" by (cases "fw_do_request v verb u body headers a h")
  from Suc(3,4) d have p: "P h1" by (rule do_request_kept)
  have "P (snd (fw_send_request v verb u1 body headers a1 (n - 1) h1))" if "https_make_url p q h1 = Inr u1" for u1 a1 p q
    using Suc(1) [of "n - 1" h1 u1 a1] Suc(2) p make_url_portal [OF that] by simp
  with p d Suc(2,3) show ?case
    unfolding fw_send_request.simps [of v verb u body headers a n h]
    by (auto simp: io_bind_def split: sum.split option.split)
qed

lemma get_kept: "P h \<Longrightarrow> P (snd (fw_get v verb p q body headers n h))"
  by (auto simp: fw_get_def intro: send_request_kept [OF refl] make_url_portal split: sum.split)

lemma logincheck_kept: "P h \<Longrightarrow> P (snd (fw_try_login_check v params h))"
  unfolding fw_try_login_check_def by (rule io_bind_snd, erule get_kept) (auto split: prod.split sum.split)

lemma login_loop_kept: "P h \<Longrightarrow> P (snd (fw_login_loop v codes params h))"
proof (induction codes arbitrary: params h)
  case Nil
  note k = logincheck_kept [OF Nil, of params]
  show ?case by (rule login_loop_cases [OF surjective_pairing k get_kept [OF k]]) simp
next
  case (Cons c codes)
  note k = logincheck_kept [OF Cons(2), of params]
  show ?case by (rule login_loop_cases [OF surjective_pairing k get_kept [OF k]]) (simp add: Cons(1) [OF k])
qed

lemma step_kept: "P h \<Longrightarrow> saml_keeps Q op \<Longrightarrow> P (fw_step v op h)"
proof (cases op)
  case (Op_login_basic credentials codes)
  assume "P h"
  show ?thesis unfolding Op_login_basic fw_step.simps fw_login_basic_def Let_def
    by (rule io_bind_snd, rule get_kept [OF \<open>P h\<close>]) (auto intro: login_loop_kept split: option.split)
next
  case (Op_login_saml saml)
  assume "P h" "saml_keeps Q op"
  then show ?thesis using jar_in set_jar
    by (auto simp: Op_login_saml saml_keeps_def fw_login_saml_def split: option.split sum.split prod.split)
      (metis jar_in snd_conv)
next
  case Op_logout
  assume "P h"
  show ?thesis unfolding Op_logout fw_step.simps fw_logout_def
    by (rule io_bind_snd, rule get_kept [OF \<open>P h\<close>]) (simp add: jar_clear_def case_prod_beta set_jar empty_ok)
qed (auto simp: fw_get_info_def fw_get_config_def intro: io_bind_snd get_kept)

lemma run_kept: "P h \<Longrightarrow> \<forall>op \<in> set ops. saml_keeps Q op \<Longrightarrow> P (fw_run v ops h)"
  unfolding fw_run_def by (induction ops arbitrary: h) (auto intro: step_kept)

end

section \<open>What the operations of the HTTPS client keep\<close>

definition fw_same :: "fwc \<Rightarrow> fwc \<Rightarrow> bool" where
  "fw_same h h' \<longleftrightarrow> hc_host h' = hc_host h \<and> fc_digest h' = fc_digest h \<and> fc_jar h' = fc_jar h"

lemma fw_same_refl [simp]: "fw_same h h"
  by (simp add: fw_same_def)

lemma fw_same_trans: "fw_same h h1 \<Longrightarrow> fw_same h1 h2 \<Longrightarrow> fw_same h h2"
  by (simp add: fw_same_def)

lemma clock_same [simp]: "fw_same h (snd (read_clock h))" "fw_same h (start_keepalive h)"
  by (auto simp: fw_same_def read_clock_def start_keepalive_def split: list.split)

lemma connect_same:
  assumes "https_connect h = (r, h')"
  shows "fw_same h h' \<and> hc_sent h' = hc_sent h \<and> (\<forall>e. r = Inl e \<longrightarrow> is_runtime_error e) \<and>
    (hc_conn h' = hc_conn h \<and> hc_past h' = hc_past h \<and> r \<noteq> Inr () \<or>
     hc_past h' = hc_past h @ [hc_conn h] \<and> wire (cn_net (hc_conn h')) = [] \<and>
     (\<exists>c \<in> set (hc_next h). cn_crt (hc_conn h') = cn_crt c \<and> cn_check (hc_conn h') = cn_check c))"
proof -
  let ?h = "(start_keepalive h)\<lparr>hc_request_count := 0\<rparr>"
  have s: "fw_same h ?h" using clock_same(2) [of h] by (simp add: fw_same_def)
  show ?thesis
  proof (cases "\<not> https_is_connected ?h \<and> hc_next h \<noteq> []")
    case False
    with assms s show ?thesis
      by (auto simp: https_connect_def Let_def split: list.splits if_splits)
  next
    case True
    then obtain peer peers where n: "hc_next h = peer # peers" by (cases "hc_next h") auto
    obtain rc w where c: "tls_connect (cn_net (fresh_conn peer)) = (rc, w)" by (cases "tls_connect (cn_net (fresh_conn peer))")
    obtain st w' where k: "handshake_loop w = (st, w')" by (cases "handshake_loop w")
    have "wire w = []" "wire w' = wire w" using tls_connect_wire [of "cn_net (fresh_conn peer)"] handshake_wire [of w] c k
      by (simp_all add: fresh_conn_def)
    with True assms s n c k show ?thesis
      by (auto simp: https_connect_def Let_def fw_same_def fresh_conn_def split: if_splits)
  qed
qed

lemma disconnect_same:
  "fw_same h (https_disconnect h)" "hc_sent (https_disconnect h) = hc_sent h" "hc_past (https_disconnect h) = hc_past h"
  "wire (cn_net (hc_conn (https_disconnect h))) = wire (cn_net (hc_conn h))"
  "cn_crt (hc_conn (https_disconnect h)) = cn_crt (hc_conn h)" "\<not> https_is_connected (https_disconnect h)"
  by (simp_all add: https_disconnect_def fw_same_def tls_shutdown_wire tls_shutdown_fd https_is_connected_def socket_is_connected_def)

lemma send_request_same:
  assumes "https_send_request rq h = (r, h')"
  shows "fw_same h h' \<and> hc_sent h' = hc_sent h @ [rq_url rq] \<and> hc_past h' = hc_past h \<and> cn_crt (hc_conn h') = cn_crt (hc_conn h)"
  using assms by (auto simp: https_send_request_def Let_def fw_same_def start_keepalive_def read_clock_def
      split: prod.splits sum.splits list.splits)

lemma recv_answer_same:
  assumes "https_recv_answer z d a h = (r, h')"
  shows "fw_same h h' \<and> hc_sent h' = hc_sent h \<and> hc_past h' = hc_past h \<and> cn_crt (hc_conn h') = cn_crt (hc_conn h) \<and>
    wire (cn_net (hc_conn h')) = wire (cn_net (hc_conn h)) \<and> fd (cn_net (hc_conn h')) = fd (cn_net (hc_conn h))"
  using assms answer_recv_kept [of "cn_net (hc_conn h)" z d "answer_clear a"]
  by (auto simp: https_recv_answer_def Let_def fw_same_def keeps_def split: prod.splits sum.splits)

section \<open>The peer of a connection\<close>

text \<open>\<open>D\<close> is the digest of the accepted certificate. \<open>peer_ok\<close>: the current connection is with the accepted
  peer; \<open>history_ok\<close>: whatever was written went to the accepted peer, every request to the portal;
  \<open>fw_safe\<close>, between operations: an open connection is with the accepted peer.\<close>

definition peer_ok :: "fw_env \<Rightarrow> string \<Rightarrow> conn \<Rightarrow> bool" where
  "peer_ok v D c \<longleftrightarrow> crt_digest (ev_sha256 v) (cn_crt c) = D"

definition history_ok :: "fw_env \<Rightarrow> endpoint \<Rightarrow> string \<Rightarrow> fwc \<Rightarrow> bool" where
  "history_ok v ep D h \<longleftrightarrow> hc_host h = ep \<and> fc_digest h = D \<and> (\<forall>u \<in> set (hc_sent h). portal_url ep u) \<and>
     (\<forall>c \<in> insert (hc_conn h) (set (hc_past h)). wire (cn_net c) \<noteq> [] \<longrightarrow> peer_ok v D c)"

definition fw_safe :: "fw_env \<Rightarrow> endpoint \<Rightarrow> string \<Rightarrow> fwc \<Rightarrow> bool" where
  "fw_safe v ep D h \<longleftrightarrow> history_ok v ep D h \<and> (https_is_connected h \<longrightarrow> peer_ok v D (hc_conn h))"

lemma peer_ok_crt: "cn_crt c = cn_crt c' \<Longrightarrow> peer_ok v D c = peer_ok v D c'"
  by (simp add: peer_ok_def)

lemma history_same:
  assumes "history_ok v ep D h" "fw_same h h'" "hc_sent h' = hc_sent h" "hc_past h' = hc_past h"
    "cn_crt (hc_conn h') = cn_crt (hc_conn h)" "wire (cn_net (hc_conn h')) = wire (cn_net (hc_conn h))"
  shows "history_ok v ep D h'"
  using assms peer_ok_crt [OF assms(5), of v D] by (simp add: history_ok_def fw_same_def)

lemma disconnect_safe: "history_ok v ep D h \<Longrightarrow> fw_safe v ep D (https_disconnect h)"
  unfolding fw_safe_def using disconnect_same [of h] history_same by blast

lemma connect_history:
  assumes "history_ok v ep D h" "https_connect h = (r, h')"
  shows "history_ok v ep D h'"
proof -
  note k = connect_same [OF assms(2)]
  then have s: "fw_same h h'" "hc_sent h' = hc_sent h" by simp_all
  from k consider "hc_conn h' = hc_conn h" "hc_past h' = hc_past h"
    | "hc_past h' = hc_past h @ [hc_conn h]" "wire (cn_net (hc_conn h')) = []" by blast
  then show ?thesis
  proof cases
    case 1
    with history_same [OF assms(1) s] show ?thesis by simp
  next
    case 2
    with assms(1) s show ?thesis by (simp add: history_ok_def fw_same_def)
  qed
qed

lemma reconnect_safe:
  assumes "history_ok v ep D h" "fw_reconnect v h = (r, h')"
  shows "\<exists>usable. r = Inr usable \<and> history_ok v ep D h' \<and> (usable \<longrightarrow> peer_ok v D (hc_conn h'))"
proof -
  obtain r' h1 where c: "https_connect (https_disconnect h) = (r', h1)" by (cases "https_connect (https_disconnect h)")
  from disconnect_safe [OF assms(1)] have "history_ok v ep D (https_disconnect h)" by (simp add: fw_safe_def)
  from connect_history [OF this c] have "history_ok v ep D h1" "fc_digest h1 = D" by (simp_all add: history_ok_def)
  moreover from connect_same [OF c] have "\<forall>e. r' = Inl e \<longrightarrow> is_runtime_error e" by blast
  moreover from this assms(2) c have
    "h' = h1 \<and> r = Inr (case r' of Inl _ \<Rightarrow> False | Inr _ \<Rightarrow> fc_digest h1 = crt_digest (ev_sha256 v) (cn_crt (hc_conn h1)))"
    unfolding fw_reconnect_def c prod.case by (auto split: sum.splits)
  ultimately show ?thesis by (simp add: peer_ok_def split: sum.split)
qed

lemma send_history:
  assumes "history_ok v ep D h" "peer_ok v D (hc_conn h)" "portal_url ep (rq_url rq)" "https_send_request rq h = (r, h')"
  shows "history_ok v ep D h' \<and> peer_ok v D (hc_conn h')"
  using assms(1-3) send_request_same [OF assms(4)] peer_ok_crt [of "hc_conn h'" "hc_conn h" v D]
  by (auto simp: history_ok_def fw_same_def)

lemma recv_history:
  assumes "history_ok v ep D h" "peer_ok v D (hc_conn h)" "https_recv_answer z d a h = (r, h')"
  shows "history_ok v ep D h' \<and> peer_ok v D (hc_conn h')"
  using assms(1,2) recv_answer_same [OF assms(3)] history_same peer_ok_crt [of "hc_conn h'" "hc_conn h" v D] by blast

lemma reconnection_required_cases:
  "https_is_reconnection_required h = (required, h') \<Longrightarrow>
   h' = h \<and> required \<or> h' = snd (read_clock h) \<and> https_is_connected h"
  by (auto simp: https_is_reconnection_required_def split: if_splits prod.splits)

lemma reconnection_required_safe:
  assumes "fw_safe v ep D h" "https_is_reconnection_required h = (required, h')"
  shows "history_ok v ep D h' \<and> (\<not> required \<longrightarrow> peer_ok v D (hc_conn h'))"
  using assms(1) reconnection_required_cases [OF assms(2)] clock_same(1) [of h] history_same [of v ep D h "snd (read_clock h)"]
  by (auto simp: fw_safe_def)

lemma exchange_safe:
  assumes "fw_safe v ep D h" "portal_url ep (rq_url rq)" "fw_send_and_receive v rq a h = (r, h')"
  shows "history_ok v ep D h' \<and> ((\<forall>a. r \<noteq> Inr (False, a)) \<longrightarrow> peer_ok v D (hc_conn h'))"
proof -
  obtain required h0 where q: "https_is_reconnection_required h = (required, h0)" by (cases "https_is_reconnection_required h")
  obtain u h1 where c: "(if required then fw_reconnect v h0 else (Inr True, h0)) = (u, h1)"
    by (cases "if required then fw_reconnect v h0 else (Inr True, h0)")
  obtain r2 h2 where s: "https_send_request rq h1 = (r2, h2)" by (cases "https_send_request rq h1")
  obtain r3 h3 where g: "https_recv_answer (ev_zlib v) (ev_date v) a h2 = (r3, h3)"
    by (cases "https_recv_answer (ev_zlib v) (ev_date v) a h2")
  note k0 = reconnection_required_safe [OF assms(1) q]
  have "\<exists>usable. u = Inr usable \<and> history_ok v ep D h1 \<and> (usable \<longrightarrow> peer_ok v D (hc_conn h1))"
    using c k0 reconnect_safe [of v ep D h0 u h1] by (auto split: if_splits)
  then obtain usable where u: "u = Inr usable" and k1: "history_ok v ep D h1" "usable \<Longrightarrow> peer_ok v D (hc_conn h1)" by blast
  have k2: "history_ok v ep D h2 \<and> peer_ok v D (hc_conn h2)" "history_ok v ep D h3 \<and> peer_ok v D (hc_conn h3)" if usable
    using send_history [OF k1(1) k1(2) [OF that] assms(2) s] recv_history [OF _ _ g, of v ep D] by blast+
  show ?thesis
    using assms(3) k1 k2 unfolding fw_send_and_receive_def q prod.case c u
    by (auto simp: s g split: if_splits sum.splits)
qed

lemma do_request_safe:
  assumes "fw_safe v ep D h" "portal_url ep u"
  shows "fw_safe v ep D (snd (fw_do_request v verb u body headers a h))"
proof -
  let ?rq = "request_set_body body ((request_new verb u (fc_jar h))\<lparr>rq_headers := fw_request_headers (hc_host h) headers\<rparr>)"
  have u: "rq_url ?rq = u" by (simp add: request_set_body_def request_new_def)
  obtain r h1 where x: "fw_send_and_receive v ?rq a h = (r, h1)" by (cases "fw_send_and_receive v ?rq a h")
  note k = exchange_safe [OF assms(1) _ x, unfolded u, OF assms(2)]
  have "history_ok v ep D (h1\<lparr>fc_jar := jar\<rparr>)" for jar using k by (simp add: history_ok_def)
  with k disconnect_safe [of v ep D h1] show ?thesis
    unfolding fw_do_request_def Let_def x by (auto simp: io_bind_def fw_safe_def split: sum.splits)
qed

lemma safe_parts: "fw_safe v ep D h \<Longrightarrow> hc_host h = ep" "fw_safe v ep D h \<Longrightarrow> fw_safe v ep D (h\<lparr>fc_jar := jar\<rparr>)"
  by (simp_all add: fw_safe_def history_ok_def https_is_connected_def)

interpretation safe: fw_kept v "fw_safe v ep D" "\<lambda>_. True" for v ep D
  by unfold_locales (auto dest: safe_parts intro: do_request_safe safe_parts)

section \<open>The cookie jar\<close>

text \<open>The exchange keeps the jar and sends at most one request.\<close>

lemma reconnect_same: "fw_reconnect v h = (r, h') \<Longrightarrow> fw_same h h' \<and> hc_sent h' = hc_sent h"
proof -
  obtain r' h1 where c: "https_connect (https_disconnect h) = (r', h1)" by (cases "https_connect (https_disconnect h)")
  have "fw_same h h1 \<and> hc_sent h1 = hc_sent h"
    using fw_same_trans [OF disconnect_same(1)] connect_same [OF c] disconnect_same(2) [of h] by auto
  then show "fw_reconnect v h = (r, h') \<Longrightarrow> fw_same h h' \<and> hc_sent h' = hc_sent h"
    unfolding fw_reconnect_def c prod.case by (auto split: sum.splits)
qed

lemma exchange_same:
  assumes "fw_send_and_receive v rq a h = (r, h')"
  shows "fw_same h h' \<and> hc_sent h' \<in> {hc_sent h, hc_sent h @ [rq_url rq]}"
proof -
  obtain required h0 where q: "https_is_reconnection_required h = (required, h0)" by (cases "https_is_reconnection_required h")
  obtain u h1 where c: "(if required then fw_reconnect v h0 else (Inr True, h0)) = (u, h1)"
    by (cases "if required then fw_reconnect v h0 else (Inr True, h0)")
  obtain r2 h2 where s: "https_send_request rq h1 = (r2, h2)" by (cases "https_send_request rq h1")
  obtain r3 h3 where g: "https_recv_answer (ev_zlib v) (ev_date v) a h2 = (r3, h3)"
    by (cases "https_recv_answer (ev_zlib v) (ev_date v) a h2")
  have "fw_same h h0 \<and> hc_sent h0 = hc_sent h"
    using reconnection_required_cases [OF q] by auto
  moreover have "fw_same h0 h1 \<and> hc_sent h1 = hc_sent h0"
    using c reconnect_same [of v h0 u h1] by (auto split: if_splits)
  ultimately have k1: "fw_same h h1" "hc_sent h1 = hc_sent h" using fw_same_trans by auto
  note k2 = fw_same_trans [OF k1(1) conjunct1 [OF send_request_same [OF s]]]
  note k3 = fw_same_trans [OF k2 conjunct1 [OF recv_answer_same [OF g]]]
  show ?thesis
    using assms k1 k2 k3 send_request_same [OF s] recv_answer_same [OF g] unfolding fw_send_and_receive_def q prod.case c
    by (auto simp: io_bind_def s g split: if_splits sum.splits)
qed

text \<open>Every cookie of the jar is secure, for HTTP only and for the host of the portal.\<close>

definition jar_safe :: "endpoint \<Rightarrow> cookies \<Rightarrow> bool" where
  "jar_safe ep jar \<longleftrightarrow> jar_ok jar \<and>
     (\<forall>c \<in> snd ` set jar. c_secure c \<and> c_http_only c \<and> c_domain c = normalize_domain (hostname ep))"

lemma endpoint_trim:
  assumes "endpoint_ok ep"
  shows "trim (endpoint_to_string ep) = Inr (endpoint_to_string ep)"
proof -
  have "to_string (port ep) \<noteq> []" "\<forall>c \<in> set (to_string (port ep)). is_digit c" using to_string_digits by auto
  then have "is_digit (last (to_string (port ep)))" by simp
  with \<open>to_string (port ep) \<noteq> []\<close> have "\<not> is_blank (last (endpoint_to_string ep))"
    by (auto simp: endpoint_to_string_def is_blank_def is_digit_def)
  moreover have "endpoint_to_string ep \<noteq> []" "\<not> is_blank (hd (endpoint_to_string ep))"
    using assms by (simp_all add: endpoint_to_string_def endpoint_ok_def)
  ultimately show ?thesis by (simp add: trim_eq trim_spec_id)
qed

lemma portal_hostname:
  assumes "endpoint_ok ep" "portal_url ep u"
  shows "url_get_hostname u = Inr (hostname ep)"
  using assms endpoint_init_to_string [OF assms(1), of 80] endpoint_trim [OF assms(1)]
  by (auto simp: portal_url_def url_get_hostname_def endpoint_to_string_def)

lemma jar_safe_add:
  "jar_safe ep jar \<Longrightarrow> jar_safe ep (jar_add (make_cookie n val (hostname ep) p e True True) jar)"
  using jar_ok_add [of jar "make_cookie n val (hostname ep) p e True True"]
  unfolding jar_safe_def jar_add_def by (auto simp: make_cookie_def dest: jar_set_name)

lemma jar_safe_remove: "jar_safe ep jar \<Longrightarrow> jar_safe ep (jar_remove n jar)"
  unfolding jar_safe_def by (auto simp: jar_ok_remove dest: set_jar_remove)

lemma accept_cookies_safe:
  "jar_safe ep jar \<Longrightarrow> url_get_hostname u = Inr (hostname ep) \<Longrightarrow> fw_accept_cookies now u cs jar = Inr jar' \<Longrightarrow>
   jar_safe ep jar'"
  by (induction cs arbitrary: jar) (auto split: if_splits dest: jar_safe_add jar_safe_remove, (metis jar_safe_add jar_safe_remove)+)

lemma do_request_jar:
  assumes "jar_safe (hc_host h) (fc_jar h)" "endpoint_ok (hc_host h)" "portal_url (hc_host h) u"
    "fw_do_request v verb u body headers a h = (r, h')"
  shows "jar_safe (hc_host h) (fc_jar h') \<and> hc_host h' = hc_host h"
proof -
  let ?rq = "request_set_body body ((request_new verb u (fc_jar h))\<lparr>rq_headers := fw_request_headers (hc_host h) headers\<rparr>)"
  obtain r1 h1 where x: "fw_send_and_receive v ?rq a h = (r1, h1)" by (cases "fw_send_and_receive v ?rq a h")
  have k: "fc_jar h1 = fc_jar h" "hc_host h1 = hc_host h" using exchange_same [OF x] by (simp_all add: fw_same_def)
  have d: "fc_jar (https_disconnect h1) = fc_jar h" "hc_host (https_disconnect h1) = hc_host h"
    using disconnect_same(1) [of h1] k by (simp_all add: fw_same_def)
  note a = accept_cookies_safe [OF assms(1) portal_hostname [OF assms(2,3)]]
  consider e where "r1 = Inl e" | a1 where "r1 = Inr (False, a1)" | a1 where "r1 = Inr (True, a1)" by (metis (full_types) old.prod.exhaust sum.exhaust)
  then show ?thesis
    using assms(1,4) k d unfolding fw_do_request_def Let_def x
    by cases (auto split: sum.splits dest: a)
qed

definition jar_inv :: "endpoint \<Rightarrow> fwc \<Rightarrow> bool" where
  "jar_inv ep h \<longleftrightarrow> hc_host h = ep \<and> endpoint_ok ep \<and> jar_safe ep (fc_jar h)"

lemma do_request_jar_inv:
  assumes "jar_inv ep h" "portal_url (hc_host h) u"
  shows "jar_inv ep (snd (fw_do_request v verb u body headers a h))"
proof -
  obtain r h' where d: "fw_do_request v verb u body headers a h = (r, h')" by (cases "fw_do_request v verb u body headers a h")
  from assms do_request_jar [OF _ _ _ d] show ?thesis by (simp add: d jar_inv_def)
qed

lemma jar_safe_empty: "jar_safe ep []"
  by (simp add: jar_safe_def jar_ok_def smap_ok_def)

interpretation jars: fw_kept v "jar_inv ep" "jar_safe ep" for v ep
  by unfold_locales (auto intro: do_request_jar_inv jar_safe_empty, auto simp: jar_inv_def)

end
