(* ===== verification/FirewallTunnel.thy ===== *)
theory FirewallTunnel
  imports FirewallRun TunnelerLife
begin

text \<open>
  The tunnel (\<^verbatim>\<open>fw/FirewallTunnel.cpp\<close>): an HTTPS client of its own connects to the firewall, one request
  with the session cookies switches the connection to tunnel mode, and from then on the socket belongs to
  the tunneler.

  The HTTPS client counts in characters and the tunneler in bytes: \<open>net_bytes\<close> is the same socket read as
  bytes.
\<close>

section \<open>The operations\<close>

definition net_bytes :: "char net \<Rightarrow> byte net" where
  "net_bytes w = \<lparr>is_tls = is_tls w, fd = fd w, blocking = blocking w, recvs = map (map_rx of_char) (recvs w),
     sends = sends w, polls = polls w, calls = calls w, elapsed = elapsed w, wire = map of_char (wire w)\<rparr>"

definition start_tunnel_mode :: "cookies \<Rightarrow> https \<Rightarrow> (exn + unit) \<times> https" where
  "start_tunnel_mode jar h =
     (case https_make_url ''/remote/sslvpn-tunnel'' [] h of
        Inl e \<Rightarrow> (Inl e, h)
      | Inr u \<Rightarrow> https_send_request ((request_new ''GET'' u jar)\<lparr>rq_headers := headers_set ''Host'' ''sslvpn'' []\<rparr>) h)"

text \<open>\<open>sockname\<close> and \<open>started\<close> are the arguments of \<open>tun_start\<close>; the tunneler shares the socket of the client.\<close>

definition fwt_start ::
    "(nat \<times> nat) option \<Rightarrow> bool \<Rightarrow> cookies \<Rightarrow> tun \<Rightarrow> https \<Rightarrow> (exn + bool \<times> tun) \<times> https" where
  "fwt_start sockname started jar t h =
     (let shared = (\<lambda>h'. t\<lparr>t_tunnel := net_bytes (cn_net (hc_conn h'))\<rparr>);
          failed = (\<lambda>e h'. (if is_runtime_error e then Inr (False, shared h') else Inl e, h'))
      in case https_connect h of
           (Inl e, h1) \<Rightarrow> failed e h1
         | (Inr _, h1) \<Rightarrow>
             (case start_tunnel_mode jar h1 of
                (Inl e, h2) \<Rightarrow> failed e h2
              | (Inr _, h2) \<Rightarrow> (Inr (tun_start sockname started (shared h2)), h2)))"

text \<open>\<^verbatim>\<open>FirewallClient::create_tunnel\<close>: a new HTTPS client for the host of the portal client, with the cookie
  jar of the portal client.\<close>

definition fw_create_tunnel ::
    "fwc \<Rightarrow> endpoint \<Rightarrow> endpoint \<Rightarrow> tun_config \<Rightarrow> conn list \<Rightarrow> 64 word \<Rightarrow> 64 word list \<Rightarrow> byte net \<Rightarrow> pheap \<Rightarrow>
     tun \<times> https \<times> cookies" where
  "fw_create_tunnel h local_ep remote_ep config peers now clock lw hp =
     (let s = https_new (hc_host h) peers now clock (hc_wall h)
      in (tun_new config (net_bytes (cn_net (hc_conn s))) local_ep remote_ep lw hp, s, fc_jar h))"

section \<open>What is written\<close>

text \<open>The bytes of a request without a body.\<close>

lemma request_send_wire:
  assumes "request_send now rq w = (Inr (), w')" "bb_empty (rq_body rq)"
  shows "\<exists>head. request_head now rq = Inr head \<and> wire w' = wire w @ head"
proof -
  obtain head where h: "request_head now rq = Inr head" using assms by (auto simp: request_send_def Let_def split: sum.splits)
  obtain st w1 where t: "tcp_write head w = (st, w1)" by (cases "tcp_write head w")
  with assms h have "w' = w1" "snd_code st = NETCTX_SND_OK"
    by (auto simp: request_send_def Let_def request_write_buffer_def split: if_splits; cases "snd_code st"; simp)+
  with write_all_spec [OF t [unfolded tcp_write_def]] h show ?thesis by auto
qed

definition tunnel_request :: "url \<Rightarrow> cookies \<Rightarrow> request" where
  "tunnel_request u jar = (request_new ''GET'' u jar)\<lparr>rq_headers := headers_set ''Host'' ''sslvpn'' []\<rparr>"

lemma start_tunnel_mode_wire:
  assumes "start_tunnel_mode jar h = (Inr (), h')"
  shows "\<exists>u head. portal_url (hc_host h) u \<and> url.path u = ''/remote/sslvpn-tunnel'' \<and>
    request_head (hc_wall h) (tunnel_request u jar) = Inr head \<and>
    wire (cn_net (hc_conn h')) = wire (cn_net (hc_conn h)) @ head"
proof -
  obtain u where u: "https_make_url ''/remote/sslvpn-tunnel'' [] h = Inr u"
    and s: "https_send_request (tunnel_request u jar) h = (Inr (), h')"
    using assms by (auto simp: start_tunnel_mode_def tunnel_request_def split: sum.splits)
  have "trim ''/remote/sslvpn-tunnel'' = Inr ''/remote/sslvpn-tunnel''" by code_simp
  with u have p: "url.path u = ''/remote/sslvpn-tunnel''" by (auto simp: https_make_url_def url_make_def try_bind_Inr_iff)
  obtain w where "request_send (hc_wall h) (tunnel_request u jar) (cn_net (hc_conn h)) = (Inr (), w)" "cn_net (hc_conn h') = w"
    using s by (auto simp: https_send_request_def Let_def split: sum.splits prod.splits)
  with request_send_wire [of "hc_wall h" "tunnel_request u jar" "cn_net (hc_conn h)" w] make_url_portal [OF u] p
  show ?thesis by (auto simp: tunnel_request_def request_new_def bb_empty_def bb_new_def)
qed

lemma keepalive_wall [simp]: "hc_wall (start_keepalive h) = hc_wall h"
  by (simp add: start_keepalive_def read_clock_def split: list.split)

lemma connect_fresh:
  assumes "https_connect h = (Inr (), h')"
  shows "wire (cn_net (hc_conn h')) = [] \<and> hc_host h' = hc_host h \<and> hc_wall h' = hc_wall h"
proof -
  obtain peer peers where n: "hc_next h = peer # peers" using assms
    by (cases "hc_next h") (auto simp: https_connect_def Let_def split: if_splits)
  obtain rc w where c: "tls_connect (cn_net (fresh_conn peer)) = (rc, w)" by (cases "tls_connect (cn_net (fresh_conn peer))")
  have "wire w = []" "wire (snd (handshake_loop w)) = wire w"
    using tls_connect_wire [of "cn_net (fresh_conn peer)"] handshake_wire [of w] c by (simp_all add: fresh_conn_def)
  with assms n c show ?thesis by (auto simp: https_connect_def Let_def split: if_splits prod.splits)
qed

text \<open>A tunnel that started: its object and the bytes on its socket.\<close>

lemma fwt_started:
  assumes "fwt_start sn started jar (tun_new c tu lo re lw hp) h0 = (Inr (True, t), h)"
  shows "\<exists>u head tu'. portal_url (hc_host h0) u \<and> url.path u = ''/remote/sslvpn-tunnel'' \<and>
    request_head (hc_wall h0) (tunnel_request u jar) = Inr head \<and> wire tu' = map of_char head \<and>
    t = tun_started sn started c tu' lo re lw hp"
proof -
  obtain r h1 where c: "https_connect h0 = (r, h1)" by (cases "https_connect h0")
  obtain r2 h2 where m: "start_tunnel_mode jar h1 = (r2, h2)" by (cases "start_tunnel_mode jar h1")
  have r: "r = Inr ()" "r2 = Inr ()" using assms c m
    by (cases r; cases r2; auto simp: fwt_start_def Let_def split: if_splits)+
  have t: "t = snd (tun_start sn started ((tun_new c tu lo re lw hp)\<lparr>t_tunnel := net_bytes (cn_net (hc_conn h2))\<rparr>))"
    using assms c m r by (auto simp: fwt_start_def Let_def)
  have "(tun_new c tu lo re lw hp)\<lparr>t_tunnel := tu'\<rparr> = tun_new c tu' lo re lw hp" for tu' by (simp add: tun_new_def)
  with t have "t = tun_started sn started c (net_bytes (cn_net (hc_conn h2))) lo re lw hp" by (simp add: tun_started_def)
  moreover have "wire (net_bytes (cn_net (hc_conn h2))) = map of_char (wire (cn_net (hc_conn h2)))" by (simp add: net_bytes_def)
  ultimately show ?thesis using start_tunnel_mode_wire [of jar h1 h2] m r connect_fresh [of h0 h1] c by auto
qed

end
