(* ===== verification/FirewallProps.thy ===== *)
theory FirewallProps
  imports FirewallTunnel HttpProps TunnelerProps
begin

text \<open>
  The properties of the portal client and of the tunnel it creates: opening, the identity of the peer, the
  cookie jar, the number of requests, what a server can make the client throw, and the first bytes of the
  tunnel.
\<close>

section \<open>A connection that works\<close>

lemma connect_ok:
  assumes "\<not> https_is_connected h" "hc_next h = peer # peers" "calls (cn_net peer) = d # 0 # 0 # 0 # 0 # cs" "0 \<le> d"
  shows "https_connect h = (Inr (), (start_keepalive h)\<lparr>hc_request_count := 0, hc_next := peers,
      hc_past := hc_past h @ [hc_conn h],
      hc_conn := peer\<lparr>cn_net := (cn_net peer)\<lparr>is_tls := True, fd := d, blocking := False, calls := cs, wire := []\<rparr>\<rparr>\<rparr>)"
proof -
  let ?w = "cn_net (fresh_conn peer)"
  let ?w' = "(cn_net peer)\<lparr>is_tls := True, fd := d, blocking := False, calls := cs, wire := []\<rparr>"
  have "tls_connect ?w = (0, ?w'\<lparr>calls := 0 # cs\<rparr>)"
    using assms(3,4) by (simp add: tls_connect_def tcp_connect_def socket_connect_def socket_is_connected_def open_fd_def
        set_blocking_mode_def raw_call_def Let_def fresh_conn_def)
  moreover have "handshake_loop (?w'\<lparr>calls := 0 # cs\<rparr>) = (\<lparr>hdk_code = SSLCTX_HDK_OK, hdk_rc = 0\<rparr>, ?w')"
    by (subst handshake_loop.simps) (simp add: raw_call_def tls_handshake_status_def)
  ultimately show ?thesis using assms(1,2) by (simp add: https_connect_def Let_def fresh_conn_def https_is_connected_def)
qed

lemma send_ok:
  assumes "request_head (hc_wall h) rq = Inr head" "head \<noteq> []" "bb_empty (rq_body rq)"
    and "sends (cn_net (hc_conn h)) = k # ss" "int (length head) \<le> k"
  shows "https_send_request rq h = (Inr (), start_keepalive (h\<lparr>hc_conn := (hc_conn h)\<lparr>cn_net :=
      (cn_net (hc_conn h))\<lparr>sends := ss, wire := wire (cn_net (hc_conn h)) @ head\<rparr>\<rparr>,
      hc_sent := hc_sent h @ [rq_url rq], hc_request_count := hc_request_count h + 1\<rparr>))"
proof -
  let ?w = "cn_net (hc_conn h)" and ?w' = "(cn_net (hc_conn h))\<lparr>sends := ss, wire := wire (cn_net (hc_conn h)) @ head\<rparr>"
  have "k > 0" "length head \<le> nat k" using assms(2,5) by (cases head; simp)+
  then have "raw_send head ?w = (int (length head), ?w')" using assms(4) by (simp add: raw_send_def)
  then have s: "send_data head ?w = (\<lparr>snd_code = NETCTX_SND_OK, snd_rc = 0, sbytes = length head\<rparr>, ?w')"
    using assms(2) by (simp add: send_data_def tls_send_status_def socket_send_status_def)
  have "write_all_loop head 0 ?w = (\<lparr>snd_code = NETCTX_SND_OK, snd_rc = 0, sbytes = length head\<rparr>, ?w')"
    using assms(2) s by (simp add: write_all_loop.simps [of head] write_all_loop.simps [of "[]"])
  with assms(1,3) have "request_send (hc_wall h) rq ?w = (Inr (), ?w')"
    by (simp add: request_send_def request_write_buffer_def tcp_write_def)
  then show ?thesis by (simp add: https_send_request_def)
qed

lemma recv_ok:
  assumes "source (cn_net (hc_conn h)) = (head_text code reason hs @ body @ rest, e)" "wf_head code reason hs"
    and "headers_get hs ''Transfer-Encoding'' = None" "headers_get hs ''Content-Encoding'' = None"
    and "headers_get hs ''Content-Length'' = Some (to_string (length body))" "length body \<le> MAX_BODY_SIZE"
    and "headers_get hs ''Keep-Alive'' = None"
  shows "\<exists>a h'. https_recv_answer z d answer_new h = (Inr a, h') \<and> an_status a = code \<and> an_cookies a = [] \<and>
    bb_data (an_body a) = body"
proof -
  have "answer_clear answer_new = answer_new" by code_simp
  with plain_answer [OF assms(1-6), of z d] assms(7) show ?thesis
    by (auto simp: https_recv_answer_def keep_alive_params_def Let_def)
qed

section \<open>Opening\<close>

definition portal_at :: "endpoint \<Rightarrow> string \<Rightarrow> url" where
  "portal_at ep p = \<lparr>scheme = ''https'', authority = endpoint_to_string ep, path = p, query = [], fragment = []\<rparr>"

definition open_url :: "endpoint \<Rightarrow> url" where
  "open_url ep = portal_at ep ''/''"

definition open_request :: "endpoint \<Rightarrow> request" where
  "open_request ep = request_set_body [] ((request_new ''GET'' (open_url ep) [])\<lparr>rq_headers := fw_request_headers ep []\<rparr>)"

lemma make_url_at:
  assumes "endpoint_ok (hc_host h)" "trim p = Inr p"
  shows "https_make_url p [] h = Inr (portal_at (hc_host h) p)"
proof -
  have "trim ''https'' = Inr ''https''" "trim [] = Inr []" by code_simp+
  with endpoint_trim [OF assms(1)] assms(2) show ?thesis by (simp add: https_make_url_def url_make_def portal_at_def)
qed

lemma open_make_url: "endpoint_ok (hc_host h) \<Longrightarrow> https_make_url ''/'' [] h = Inr (open_url (hc_host h))"
  unfolding open_url_def by (rule make_url_at) (assumption, code_simp)

text \<open>Without cookies the bytes of a request are always defined.\<close>

lemma portal_request_head:
  assumes "endpoint_ok ep" "rq_url rq = portal_at ep p" "rq_cookies rq = []"
  shows "\<exists>head. request_head now rq = Inr head \<and> head \<noteq> []"
proof -
  have "url_get_hostname (portal_at ep p) = Inr (hostname ep)"
    using endpoint_trim [OF assms(1)] by (intro portal_hostname [OF assms(1)]) (simp add: portal_url_def portal_at_def)
  then have "jar_to_header now [] (portal_at ep p) = Inr []" by (simp add: jar_to_header_def Let_def)
  with assms(2,3) show ?thesis by (simp add: request_head_def Let_def)
qed

lemma open_request_simps [simp]:
  "rq_url (open_request ep) = open_url ep" "rq_cookies (open_request ep) = []" "bb_data (rq_body (open_request ep)) = []"
  by (simp_all add: open_request_def request_set_body_def request_new_def)

lemma open_request_head: "endpoint_ok ep \<Longrightarrow> \<exists>head. request_head now (open_request ep) = Inr head \<and> head \<noteq> []"
  by (rule portal_request_head) (simp_all add: open_url_def)

text \<open>A peer that accepts the connection, takes the first request and answers it with 200.\<close>

definition serves_open :: "endpoint \<Rightarrow> int \<Rightarrow> conn \<Rightarrow> bool" where
  "serves_open ep now c \<longleftrightarrow> (\<exists>d cs k ss head reason hs body rest e.
     calls (cn_net c) = d # 0 # 0 # 0 # 0 # cs \<and> 0 \<le> d \<and>
     request_head now (open_request ep) = Inr head \<and> sends (cn_net c) = k # ss \<and> int (length head) \<le> k \<and>
     source ((cn_net c)\<lparr>is_tls := True\<rparr>) = (head_text 200 reason hs @ body @ rest, e) \<and> wf_head 200 reason hs \<and>
     headers_get hs ''Transfer-Encoding'' = None \<and> headers_get hs ''Content-Encoding'' = None \<and>
     headers_get hs ''Content-Length'' = Some (to_string (length body)) \<and> length body \<le> MAX_BODY_SIZE \<and>
     headers_get hs ''Keep-Alive'' = None)"

text \<open>The clock advances by at most the minute a connection is kept.\<close>

definition clock_steady :: "64 word list \<Rightarrow> bool" where
  "clock_steady ts \<longleftrightarrow> (\<exists>t0 t1 r. ts = t0 # t1 # r \<and> t0 \<le> t1 \<and> unat t1 - unat t0 \<le> 60000 \<and> unat t0 + 60000 < 2 ^ 64)"

lemma first_exchange:
  assumes "https_is_connected h" "hc_clock h = t1 # ts" "hc_keepalive h = timer_start t0 (of_int 60000)"
    and "t0 \<le> t1" "unat t1 - unat t0 \<le> 60000" "unat t0 + 60000 < 2 ^ 64" "hc_request_count h < hc_max_requests h"
    and "https_send_request rq (h\<lparr>hc_clock := ts\<rparr>) = (Inr (), h2)"
    and "https_recv_answer (ev_zlib v) (ev_date v) a h2 = (Inr a', h3)"
  shows "fw_send_and_receive v rq a h = (Inr (True, a'), h3)"
proof -
  have "unat (of_int 60000 :: 32 word) = 60000" by simp
  with timer_remaining_time(2) [of t0 "of_int 60000" t1] assms(4-6)
  have "\<not> timer_is_elapsed t1 (hc_keepalive h)" by (simp add: assms(3))
  then have "https_is_reconnection_required h = (False, h\<lparr>hc_clock := ts\<rparr>)"
    using assms(1,2,7) by (simp add: https_is_reconnection_required_def read_clock_def)
  with assms(8,9) show ?thesis by (simp add: fw_send_and_receive_def)
qed

lemma open_ok:
  assumes "endpoint_ok ep" "serves_open ep wall peer" "clock_steady clock"
    and "fw_crt_status v peer = 0 \<or> confirm (cn_crt peer) (fw_crt_status v peer)"
  shows "\<exists>h. fw_open v confirm (fwc_new ep realm (peer # peers) now clock wall) = (Inr PORTAL_NONE, h) \<and>
    fc_digest h = crt_digest (ev_sha256 v) (cn_crt peer) \<and> hc_sent h = [open_url ep] \<and> fc_jar h = []"
proof -
  let ?h = "fwc_new ep realm (peer # peers) now clock wall"
  obtain d cs k ss head reason hs body rest e where s: "calls (cn_net peer) = d # 0 # 0 # 0 # 0 # cs" "0 \<le> d"
    "request_head wall (open_request ep) = Inr head" "sends (cn_net peer) = k # ss" "int (length head) \<le> k"
    "source ((cn_net peer)\<lparr>is_tls := True\<rparr>) = (head_text 200 reason hs @ body @ rest, e)" "wf_head 200 reason hs"
    "headers_get hs ''Transfer-Encoding'' = None" "headers_get hs ''Content-Encoding'' = None"
    "headers_get hs ''Content-Length'' = Some (to_string (length body))" "length body \<le> MAX_BODY_SIZE"
    "headers_get hs ''Keep-Alive'' = None" using assms(2) unfolding serves_open_def by blast
  obtain t0 t1 ts where t: "clock = t0 # t1 # ts" "t0 \<le> t1" "unat t1 - unat t0 \<le> 60000" "unat t0 + 60000 < 2 ^ 64"
    using assms(3) unfolding clock_steady_def by blast
  let ?w = "(cn_net peer)\<lparr>is_tls := True, fd := d, blocking := False, calls := cs, wire := []\<rparr>"
  define h1 where "h1 = (start_keepalive ?h)\<lparr>hc_request_count := 0, hc_next := peers, hc_past := [no_conn],
    hc_conn := peer\<lparr>cn_net := ?w\<rparr>\<rparr>"
  define h2 where "h2 = h1\<lparr>fc_digest := crt_digest (ev_sha256 v) (cn_crt peer)\<rparr>"
  have n: "\<not> https_is_connected ?h" "hc_next ?h = peer # peers" "hc_past ?h = []" "hc_conn ?h = no_conn"
    by (simp_all add: fwc_new_def https_new_def https.defs https_is_connected_def socket_is_connected_def no_conn_def)
  have c: "https_connect ?h = (Inr (), h1)" using connect_ok [OF n(1,2) s(1,2)] n by (simp add: h1_def)
  have k: "hc_clock h2 = t1 # ts" "hc_keepalive h2 = timer_start t0 (of_int 60000)" "hc_request_count h2 = 0"
    "hc_max_requests h2 = 100" "hc_host h2 = ep" "fc_jar h2 = []" "hc_wall h2 = wall" "hc_sent h2 = []" "cn_net (hc_conn h2) = ?w"
    "cn_crt (hc_conn h2) = cn_crt peer" "fc_digest h2 = crt_digest (ev_sha256 v) (cn_crt peer)"
    using t(1) by (simp_all add: h2_def h1_def start_keepalive_def read_clock_def fwc_new_def https_new_def https.defs
        DEFAULT_KEEP_ALIVE_TIMEOUT_def)
  have rq: "request_set_body [] ((request_new ''GET'' (open_url ep) (fc_jar h2))\<lparr>rq_headers := fw_request_headers (hc_host h2) []\<rparr>)
      = open_request ep" "rq_url (open_request ep) = open_url ep" "bb_empty (rq_body (open_request ep))"
    using k by (simp_all add: open_request_def request_set_body_def request_new_def)
  let ?h2 = "h2\<lparr>hc_clock := ts\<rparr>"
  obtain h3 where h3: "https_send_request (open_request ep) ?h2 = (Inr (), h3)"
    "cn_net (hc_conn h3) = ?w\<lparr>sends := ss, wire := head\<rparr>"
    using send_ok [of ?h2 "open_request ep" head k ss] s(3-5) open_request_head [OF assms(1), of wall] k rq(3) by auto
  have "source (cn_net (hc_conn h3)) = (head_text 200 reason hs @ body @ rest, e)"
    using s(6) h3(2) by (simp add: source_def)
  from recv_ok [OF this s(7-12), of "ev_zlib v" "ev_date v"] obtain a h4 where
    a: "https_recv_answer (ev_zlib v) (ev_date v) answer_new h3 = (Inr a, h4)" "an_status a = 200" "an_cookies a = []" by blast
  have "https_is_connected h2" using k s(2) by (simp add: https_is_connected_def socket_is_connected_def)
  from first_exchange [OF this k(1,2) t(2-4) _ h3(1) a(1)] k
  have x: "fw_send_and_receive v (open_request ep) answer_new h2 = (Inr (True, a), h4)" by simp
  have f: "fc_digest h4 = fc_digest h2" "fc_jar h4 = []" "hc_sent h4 = [open_url ep]"
    using send_request_same [OF h3(1)] recv_answer_same [OF a(1)] k rq(2) by (simp_all add: fw_same_def)
  have "fw_do_request v ''GET'' (open_url ep) [] [] answer_new h2 = (Inr (True, a), h4\<lparr>fc_jar := []\<rparr>)"
    unfolding fw_do_request_def Let_def rq(1) x by (simp add: a(3) f)
  then have "fw_send_request v ''GET'' (open_url ep) [] [] answer_new 2 h2 = (Inr (True, a), h4\<lparr>fc_jar := []\<rparr>)"
    using a(2) by (simp add: fw_send_request.simps http_status_defs)
  then have g: "fw_get v ''GET'' ''/'' [] [] [] 2 h2 = (Inr (True, a), h4\<lparr>fc_jar := []\<rparr>)"
    using open_make_url [of h2] assms(1) k(5) by (simp add: fw_get_def)
  have "cn_crt (hc_conn h1) = cn_crt peer" "fw_crt_status v (hc_conn h1) = fw_crt_status v peer"
    by (simp_all add: h1_def fw_crt_status_def)
  then have "fw_open v confirm ?h = (Inr PORTAL_NONE, h4\<lparr>fc_jar := []\<rparr>)"
    using assms(4) g a(2) unfolding fw_open_def c by (auto simp: Let_def STATUS_OK_def h2_def [symmetric])
  with f k(11) show ?thesis by simp
qed

text \<open>Opening ends with a connection to a peer whose certificate was valid or accepted.\<close>

lemma open_safe:
  assumes "fw_open v confirm (fwc_new ep realm peers now clock wall) = (Inr PORTAL_NONE, h)"
  shows "fw_safe v ep (fc_digest h) h \<and> (\<exists>c \<in> set peers. fc_digest h = crt_digest (ev_sha256 v) (cn_crt c) \<and>
      (fw_crt_status v c = 0 \<or> confirm (cn_crt c) (fw_crt_status v c)))"
proof -
  let ?h = "fwc_new ep realm peers now clock wall"
  obtain r h1 where c: "https_connect ?h = (r, h1)" by (cases "https_connect ?h")
  define D where "D = crt_digest (ev_sha256 v) (cn_crt (hc_conn h1))"
  define h2 where "h2 = h1\<lparr>fc_digest := D\<rparr>"
  have n: "hc_host ?h = ep" "hc_sent ?h = []" "hc_past ?h = []" "wire (cn_net (hc_conn ?h)) = []" "hc_next ?h = peers"
    by (simp_all add: fwc_new_def https_new_def https.defs no_conn_def)
  have r: "r = Inr ()" using assms c by (cases r) (auto simp: fw_open_def split: if_splits)
  obtain c0 where k: "fw_same ?h h1" "hc_sent h1 = []" "hc_past h1 = [hc_conn ?h]" "wire (cn_net (hc_conn h1)) = []"
    "c0 \<in> set peers" "cn_crt (hc_conn h1) = cn_crt c0" "cn_check (hc_conn h1) = cn_check c0"
    using connect_same [OF c] n r by auto
  have s: "fw_crt_status v (hc_conn h1) = fw_crt_status v c0" using k(6,7) by (simp add: fw_crt_status_def)
  have "history_ok v ep D h2" using k n by (simp add: history_ok_def h2_def fw_same_def)
  then have "fw_safe v ep D h2" using k by (simp add: fw_safe_def peer_ok_def D_def h2_def)
  from safe.get_kept [OF this] have g: "fw_safe v ep D (snd (fw_get v ''GET'' ''/'' [] [] [] 2 h2))" .
  have "h = snd (fw_get v ''GET'' ''/'' [] [] [] 2 h2)" and a: "fw_crt_status v c0 = 0 \<or> confirm (cn_crt c0) (fw_crt_status v c0)"
    using assms k(6) s unfolding fw_open_def c r prod.case sum.case Let_def
    by (auto simp: h2_def D_def io_bind_def split: if_splits prod.splits sum.splits)
  with g have "fw_safe v ep D h" by simp
  moreover from this have "fc_digest h = D" by (simp add: fw_safe_def history_ok_def)
  ultimately show ?thesis using a k(5,6) by (auto simp: D_def)
qed

section \<open>Counting requests\<close>

lemma sent_le_same: "length (hc_sent h') \<le> length (hc_sent h) + n \<Longrightarrow> length (hc_sent (h'\<lparr>fc_jar := j\<rparr>)) \<le> length (hc_sent h) + n"
  by simp

lemma do_request_count: "length (hc_sent (snd (fw_do_request v verb u body headers a h))) \<le> length (hc_sent h) + 1"
proof -
  let ?rq = "request_set_body body ((request_new verb u (fc_jar h))\<lparr>rq_headers := fw_request_headers (hc_host h) headers\<rparr>)"
  obtain r h1 where x: "fw_send_and_receive v ?rq a h = (r, h1)" by (cases "fw_send_and_receive v ?rq a h")
  have "length (hc_sent h1) \<le> length (hc_sent h) + 1" using exchange_same [OF x] by auto
  then show ?thesis unfolding fw_do_request_def Let_def x
    by (auto simp: io_bind_def disconnect_same(2) split: sum.split)
qed

lemma send_request_count:
  "nat (n + 1) = k \<Longrightarrow> length (hc_sent (snd (fw_send_request v verb u body headers a n h))) \<le> length (hc_sent h) + k"
proof (induction k arbitrary: u a n h)
  case 0
  then show ?case by (simp add: fw_send_request.simps)
next
  case (Suc k)
  obtain r h1 where d: "fw_do_request v verb u body headers a h = (r, h1)" by (cases "fw_do_request v verb u body headers a h")
  have c: "length (hc_sent h1) \<le> length (hc_sent h) + 1" using do_request_count [of v verb u body headers a h] d by simp
  have "nat (n - 1 + 1) = k" using Suc(2) by linarith
  then have "length (hc_sent (snd (fw_send_request v verb u1 body headers a1 (n - 1) h1))) \<le> length (hc_sent h) + Suc k" for u1 a1
    using Suc(1) [of "n - 1" u1 a1 h1] c by simp
  with c d Suc(2) show ?case
    unfolding fw_send_request.simps [of v verb u body headers a n h]
    by (auto simp: io_bind_def split: sum.split option.split)
qed

lemma get_count: "length (hc_sent (snd (fw_get v verb p q body headers n h))) \<le> length (hc_sent h) + nat (n + 1)"
  using send_request_count [OF refl] by (auto simp: fw_get_def split: sum.split)

lemma logincheck_count: "length (hc_sent (snd (fw_try_login_check v params h))) \<le> length (hc_sent h) + 1"
proof -
  have "snd (fw_try_login_check v params h) = snd (fw_get v ''POST'' ''/remote/logincheck'' [] (sm_join params ''&'')
      (headers_set ''Content-Type'' ''text/plain;charset=UTF-8'' []) 0 h)"
    unfolding fw_try_login_check_def by (rule snd_io_bind) (simp add: case_prod_beta split: sum.split)
  with get_count [of v _ _ _ _ _ 0 h] show ?thesis by simp
qed

lemma login_loop_count:
  "length (hc_sent (snd (fw_login_loop v codes params h))) \<le> length (hc_sent h) + length codes + 2"
proof -
  let ?P = "\<lambda>n h'. length (hc_sent h') \<le> n"
  have step: "?P (n + k + 2) (snd (fw_login_loop v codes params h))"
    if "?P n h" "length codes = k" for n k codes params h
    using that
  proof (induction codes arbitrary: n k params h)
    case Nil
    have k: "?P (n + 1) (snd (fw_try_login_check v params h))" using logincheck_count [of v params h] Nil(1) by linarith
    then have g: "?P (n + 2) (snd (fw_get v ''GET'' p q [] [] 0 (snd (fw_try_login_check v params h))))" for p q
      using get_count [of v "''GET''" p q "[]" "[]" 0 "snd (fw_try_login_check v params h)"] by simp
    from k have "?P (n + 2) (snd (fw_try_login_check v params h))" by simp
    with Nil(2) show ?case using login_loop_cases [OF surjective_pairing, of "?P (n + 2)" v params h "[]", OF _ g] by simp
  next
    case (Cons c codes)
    have k: "?P (n + 1) (snd (fw_try_login_check v params h))" using logincheck_count [of v params h] Cons(2) by linarith
    then have g: "?P (n + k + 2) (snd (fw_get v ''GET'' p q [] [] 0 (snd (fw_try_login_check v params h))))" for p q
      using get_count [of v "''GET''" p q "[]" "[]" 0 "snd (fw_try_login_check v params h)"] by simp
    have "?P (n + k + 2) (snd (fw_login_loop v codes p (snd (fw_try_login_check v params h))))" for p
      using Cons(1) [OF k refl, of p] by (simp flip: Cons(3))
    moreover from k have "?P (n + k + 2) (snd (fw_try_login_check v params h))" by simp
    ultimately show ?case
      using login_loop_cases [OF surjective_pairing, of "?P (n + k + 2)" v params h "c # codes", OF _ g] by simp
  qed
  from step [OF order_refl refl] show ?thesis by simp
qed

section \<open>An exception from the server\<close>

definition blank_attribute :: string where
  "blank_attribute = ''Set-Cookie: a=b; ;Secure''"

lemma blank_attribute_line: "header_line d blank_attribute a = Inl Out_of_range"
  unfolding blank_attribute_def by code_simp

lemma blank_attribute_recv:
  assumes "source w = (''HTTP/1.1 '' @ status_text code @ '' '' @ reason @ CRLF @ blank_attribute @ CRLF @ rest, e)"
    and "100 \<le> code" "code < 600" "wf_reason reason"
  shows "\<exists>a' w'. answer_recv z d a w = (Inl Out_of_range, a', w')"
proof -
  from read_control_data_text [OF assms, of a] obtain w1 a1 where
    c: "read_control_data a w = (Inr ERR_NONE, a1, w1)" "source w1 = (blank_attribute @ CRLF @ rest, e)" by blast
  have "CR \<notin> set blank_attribute" "length blank_attribute \<le> MAX_HEADER_SIZE"
    by (simp_all add: blank_attribute_def MAX_HEADER_SIZE_def)
  with read_line_plain [OF c(2), of "bb_new MAX_HEADER_SIZE"] obtain b w2 where
    "read_line (bb_new MAX_HEADER_SIZE) w1 = (Inr ERR_NONE, b, w2)" "bb_data b = blank_attribute" by auto
  moreover have "blank_attribute \<noteq> []" by (simp add: blank_attribute_def)
  ultimately have "read_headers d a1 w1 = (Inl Out_of_range, a1, w2)"
    by (simp add: read_headers_def read_headers_loop.simps [of d "bb_new MAX_HEADER_SIZE"] blank_attribute_line)
  with c(1) show ?thesis by (simp add: answer_recv_def an_bind_def)
qed

section \<open>Two clients that see the same network\<close>

definition same_net :: "https \<Rightarrow> https \<Rightarrow> bool" where
  "same_net h h' \<longleftrightarrow> hc_host h' = hc_host h \<and> hc_wall h' = hc_wall h \<and> cn_net (hc_conn h') = cn_net (hc_conn h)"

text \<open>The peers with other certificates and other results of their verification.\<close>

definition with_crts :: "(conn \<Rightarrow> string option \<times> 32 word) \<Rightarrow> https \<Rightarrow> https" where
  "with_crts f h = h\<lparr>hc_next := map (\<lambda>c. c\<lparr>cn_crt := fst (f c), cn_check := snd (f c)\<rparr>) (hc_next h)\<rparr>"

lemma connect_with_crts:
  assumes "https_connect h = (r, h1)"
  shows "\<exists>h1'. https_connect (with_crts f h) = (r, h1') \<and> same_net h1 h1'"
proof -
  have k: "start_keepalive (with_crts f h) = with_crts f (start_keepalive h)" for h
    by (auto simp: start_keepalive_def with_crts_def read_clock_def split: list.split)
  show ?thesis using assms
    by (auto simp: https_connect_def k Let_def with_crts_def same_net_def https_is_connected_def fresh_conn_def
        split: list.splits prod.splits if_splits)
qed

lemma tunnel_mode_same_net:
  assumes "same_net h h'" "start_tunnel_mode jar h = (r, h1)"
  shows "\<exists>h1'. start_tunnel_mode jar h' = (r, h1') \<and> same_net h1 h1'"
proof -
  have k: "same_net g g' \<Longrightarrow> same_net (start_keepalive g) (start_keepalive g')" for g g'
    by (auto simp: start_keepalive_def same_net_def read_clock_def split: list.split)
  have u: "https_make_url p q h' = https_make_url p q h" for p q using assms(1) by (simp add: https_make_url_def same_net_def)
  show ?thesis using assms
    by (auto simp: start_tunnel_mode_def u https_send_request_def Let_def intro!: k split: sum.splits prod.splits)
      (auto simp: same_net_def)
qed

section \<open>Properties\<close>

text \<open>C1. Whatever is written during the session goes to the accepted peer: after a successful \<open>fw_open\<close>,
  whose certificate was valid or confirmed by the user, and any sequence of operations, ending normally
  or with an exception, over any number of connections, every connection that something was written to
  has a peer with that certificate, and every request has an HTTPS URL of the portal.\<close>

theorem requests_go_to_accepted_peer:
  assumes "fw_open v confirm (fwc_new ep realm peers now clock wall) = (Inr PORTAL_NONE, h)"
  shows "\<exists>c0 \<in> set peers. (fw_crt_status v c0 = 0 \<or> confirm (cn_crt c0) (fw_crt_status v c0)) \<and>
    (let h' = fw_run v ops h in
       (\<forall>c \<in> insert (hc_conn h') (set (hc_past h')).
          wire (cn_net c) \<noteq> [] \<longrightarrow> crt_digest (ev_sha256 v) (cn_crt c) = crt_digest (ev_sha256 v) (cn_crt c0)) \<and>
       (\<forall>u \<in> set (hc_sent h'). scheme u = ''https'' \<and> trim (endpoint_to_string ep) = Inr (authority u)))"
proof -
  from open_safe [OF assms] obtain c0 where o: "fw_safe v ep (fc_digest h) h" "c0 \<in> set peers"
    "fc_digest h = crt_digest (ev_sha256 v) (cn_crt c0)" "fw_crt_status v c0 = 0 \<or> confirm (cn_crt c0) (fw_crt_status v c0)" by blast
  have "fw_safe v ep (fc_digest h) (fw_run v ops h)" using o(1) by (rule safe.run_kept) (simp add: saml_keeps_def)
  then have "history_ok v ep (crt_digest (ev_sha256 v) (cn_crt c0)) (fw_run v ops h)" by (simp add: fw_safe_def o(3))
  then show ?thesis
    using o(2,4) unfolding history_ok_def peer_ok_def portal_url_def Let_def by blast
qed

definition demo_ep :: endpoint where
  "demo_ep = \<lparr>hostname = ''fw'', port = 443\<rparr>"

definition demo_head :: string where
  "demo_head = (case request_head 0 (open_request demo_ep) of Inr head \<Rightarrow> head | Inl _ \<Rightarrow> [])"

lemma demo_ep_ok: "endpoint_ok demo_ep"
  by (simp add: demo_ep_def endpoint_ok_def is_blank_def)

text \<open>A peer that answers the first request.\<close>

definition demo_peer :: conn where
  "demo_peer = \<lparr>cn_net = (demo_conn (head_text 200 ''OK'' demo_plain @ ''hello''))\<lparr>sends := [int (length demo_head)],
     calls := [4, 0, 0, 0, 0]\<rparr>, cn_crt = Some ''crt'', cn_check = 0\<rparr>"

definition demo_fw_env :: fw_env where
  "demo_fw_env = \<lparr>ev_zlib = demo_zlib, ev_date = (\<lambda>_. 0), ev_sha256 = (\<lambda>s. s), ev_trusted = (\<lambda>_. False), ev_pem = (\<lambda>c. c),
     ev_json = (\<lambda>_. None), ev_xml = (\<lambda>_. None), ev_max_alloc = 1000\<rparr>"

lemma demo_serves: "serves_open demo_ep 0 demo_peer"
proof -
  obtain head where h: "request_head 0 (open_request demo_ep) = Inr head" using open_request_head [OF demo_ep_ok, of 0] by blast
  have w: "(cn_net demo_peer)\<lparr>is_tls := True\<rparr> = cn_net demo_peer" by (simp add: demo_peer_def demo_conn_def)
  have "source (cn_net demo_peer) = source (demo_conn (head_text 200 ''OK'' demo_plain @ ''hello''))"
    by (simp add: demo_peer_def source_def demo_conn_def)
  then have s: "source (cn_net demo_peer) = (head_text 200 ''OK'' demo_plain @ ''hello'' @ [], NETCTX_RCV_ERROR, SSL_TIMEOUT)"
    by (subst (asm) demo_conn_source) (simp_all add: head_text_def)
  have k: "headers_get demo_plain ''Transfer-Encoding'' = None" "headers_get demo_plain ''Content-Encoding'' = None"
    "headers_get demo_plain ''Content-Length'' = Some (to_string (length ''hello''))" "headers_get demo_plain ''Keep-Alive'' = None"
    by code_simp+
  have m: "length ''hello'' \<le> MAX_BODY_SIZE" by (simp add: MAX_BODY_SIZE_def)
  have "calls (cn_net demo_peer) = 4 # 0 # 0 # 0 # 0 # []" "sends (cn_net demo_peer) = int (length head) # []"
    using h by (simp_all add: demo_peer_def demo_head_def)
  then show ?thesis
    unfolding serves_open_def w using s h k m demo_heads(1)
    by (metis order_refl zero_le_numeral)
qed

lemma demo_crt: "fw_crt_status demo_fw_env demo_peer = 0" and demo_clock: "clock_steady [0, 1]"
  by (simp_all add: fw_crt_status_def demo_peer_def clock_steady_def)

lemma demo_open:
  "\<exists>h. fw_open demo_fw_env (\<lambda>_ _. False) (fwc_new demo_ep [] [demo_peer] 0 [0, 1] 0) = (Inr PORTAL_NONE, h) \<and>
     hc_sent h = [open_url demo_ep] \<and> fc_jar h = []"
  using open_ok [OF demo_ep_ok demo_serves demo_clock disjI1 [OF demo_crt], of "\<lambda>_ _. False" "[]" "[]" 0] by blast

theorem requests_go_to_accepted_peer_witness:
  "\<exists>h. fw_open demo_fw_env (\<lambda>_ _. False) (fwc_new demo_ep [] [demo_peer] 0 [0, 1] 0) = (Inr PORTAL_NONE, h) \<and>
     hc_sent h \<noteq> [] \<and>
     (\<forall>c \<in> insert (hc_conn (fw_run demo_fw_env [Op_logout] h)) (set (hc_past (fw_run demo_fw_env [Op_logout] h))).
        wire (cn_net c) \<noteq> [] \<longrightarrow> crt_digest (\<lambda>s. s) (cn_crt c) = ''crt'')"
proof -
  from demo_open obtain h where h: "fw_open demo_fw_env (\<lambda>_ _. False) (fwc_new demo_ep [] [demo_peer] 0 [0, 1] 0) = (Inr PORTAL_NONE, h)"
    "hc_sent h = [open_url demo_ep]" by blast
  have "cn_crt demo_peer = Some ''crt''" "ev_sha256 demo_fw_env = (\<lambda>s. s)" by (simp_all add: demo_peer_def demo_fw_env_def)
  with requests_go_to_accepted_peer [OF h(1), of "[Op_logout]"] h show ?thesis by (auto simp: Let_def crt_digest_def)
qed

text \<open>C4. The type of the cookie jar: whatever the server answers, all its cookies are secure, for HTTP
  only and for the host of the portal, under their own names, as long as the browser dialog keeps it so.
  No cookie of another domain gets in.\<close>

theorem cookie_jar_stays_safe:
  assumes "endpoint_ok ep" "\<forall>op \<in> set ops. saml_keeps (jar_safe ep) op"
  shows "jar_safe ep (fc_jar (fw_run v ops (snd (fw_open v confirm (fwc_new ep realm peers now clock wall)))))"
proof -
  let ?h = "fwc_new ep realm peers now clock wall"
  have n: "jar_inv ep ?h" using assms(1) jar_safe_empty by (simp add: jar_inv_def fwc_new_def https_new_def https.defs)
  obtain r h1 where c: "https_connect ?h = (r, h1)" by (cases "https_connect ?h")
  from n connect_same [OF c] have j: "jar_inv ep h1" "jar_inv ep (h1\<lparr>fc_digest := D\<rparr>)" for D by (simp_all add: jar_inv_def fw_same_def)
  have "jar_inv ep (snd (io_bind (fw_get v ''GET'' ''/'' [] [] [] 2 (h1\<lparr>fc_digest := D\<rparr>)) (\<lambda>(ok, a) h3. (x ok a, h3))))" for D and x :: "bool \<Rightarrow> answer \<Rightarrow> exn + portal_err"
    using jars.get_kept [OF j(2)] by (subst snd_io_bind) auto
  then have "jar_inv ep (snd (fw_open v confirm ?h))"
    using j(1) unfolding fw_open_def c prod.case Let_def by (auto split: sum.split)
  from jars.run_kept [OF this assms(2)] show ?thesis by (simp add: jar_inv_def)
qed

theorem cookie_jar_stays_safe_witness:
  "jar_safe demo_ep (fc_jar (fw_run demo_fw_env [Op_login_saml (\<lambda>u crt jar. (True, jar)), Op_logout]
     (snd (fw_open demo_fw_env (\<lambda>_ _. False) (fwc_new demo_ep [] [demo_peer] 0 [0, 1] 0)))))"
  by (rule cookie_jar_stays_safe) (auto simp: saml_keeps_def demo_ep_ok)

text \<open>C21. The client sends a bounded number of requests, whatever the server answers: at most \<open>n + 1\<close>
  when \<open>n\<close> redirects are allowed, and at most three more than there are codes in a login.\<close>

theorem requests_bounded:
  "length (hc_sent (snd (fw_send_request v verb u body headers a n h))) \<le> length (hc_sent h) + nat (n + 1) \<and>
   length (hc_sent (snd (fw_login_basic v credentials codes h))) \<le> length (hc_sent h) + length codes + 3"
proof -
  define lq where "lq = sm_join (sm_set ''lang'' ''en'' (if fc_realm h \<noteq> [] then sm_set ''realm'' (encode_url (fc_realm h)) [] else [])) ''&''"
  obtain r h1 where g: "fw_get v ''GET'' ''/remote/login'' lq [] [] 0 h = (r, h1)"
    by (cases "fw_get v ''GET'' ''/remote/login'' lq [] [] 0 h")
  have c: "length (hc_sent h1) \<le> length (hc_sent h) + 1" using get_count [of v "''GET''" "''/remote/login''" lq "[]" "[]" 0 h] g by simp
  have l: "length (hc_sent (snd (fw_login_loop v codes p h1))) \<le> length (hc_sent h) + length codes + 3" for p
    using login_loop_count [of v codes p h1] c by simp
  have "length (hc_sent (snd (fw_login_basic v credentials codes h))) \<le> length (hc_sent h) + length codes + 3"
    unfolding fw_login_basic_def Let_def lq_def [symmetric] g using c l
    by (cases r) (auto split: option.split)
  with send_request_count [OF refl] show ?thesis by simp
qed

text \<open>C22. A server can end the client's thread: a cookie with a blank attribute makes the parser of cookies
  throw \<^verbatim>\<open>std::out_of_range\<close>, which is no \<^verbatim>\<open>std::runtime_error\<close>, so that the handlers of
  \<^verbatim>\<open>send_and_receive\<close> let it through and the request ends with the exception.\<close>

theorem blank_attribute_escapes:
  fixes h h1 h2 :: fwc and verb body :: string and u :: url and headers :: strimap
  defines "rq \<equiv> request_set_body body ((request_new verb u (fc_jar h))\<lparr>rq_headers := fw_request_headers (hc_host h) headers\<rparr>)"
  assumes "https_is_reconnection_required h = (False, h1)" "https_send_request rq h1 = (Inr (), h2)"
    and "source (cn_net (hc_conn h2)) =
      (''HTTP/1.1 '' @ status_text code @ '' '' @ reason @ CRLF @ ''Set-Cookie: a=b; ;Secure'' @ CRLF @ rest, e)"
    and "100 \<le> code" "code < 600" "wf_reason reason"
  shows "\<exists>h'. fw_do_request v verb u body headers a h = (Inl Out_of_range, h')"
proof -
  from blank_attribute_recv [OF assms(4) [folded blank_attribute_def] assms(5-7), of "ev_zlib v" "ev_date v" "answer_clear a"]
  obtain a' w' where "answer_recv (ev_zlib v) (ev_date v) (answer_clear a) (cn_net (hc_conn h2)) = (Inl Out_of_range, a', w')" by blast
  then obtain h3 where "https_recv_answer (ev_zlib v) (ev_date v) a h2 = (Inl Out_of_range, h3)"
    by (simp add: https_recv_answer_def Let_def)
  then have "fw_send_and_receive v rq a h = (Inl Out_of_range, h3)"
    using assms(2,3) by (simp add: fw_send_and_receive_def)
  then show ?thesis unfolding fw_do_request_def Let_def rq_def [symmetric] by simp
qed

definition demo_blank_fwc :: fwc where
  "demo_blank_fwc = (fwc_new demo_ep [] [] 0 [0] 0)\<lparr>hc_conn := demo_peer\<lparr>cn_net :=
     (demo_conn (''HTTP/1.1 '' @ status_text 200 @ '' '' @ ''OK'' @ CRLF @ ''Set-Cookie: a=b; ;Secure'' @ CRLF @ []))
       \<lparr>sends := [int (length demo_head)]\<rparr>\<rparr>\<rparr>"

theorem blank_attribute_escapes_witness:
  "\<exists>h'. fw_do_request demo_fw_env ''GET'' (open_url demo_ep) [] [] answer_new demo_blank_fwc = (Inl Out_of_range, h')"
proof -
  let ?h = "demo_blank_fwc" and ?h1 = "demo_blank_fwc\<lparr>hc_clock := []\<rparr>"
  have k: "hc_host ?h = demo_ep" "fc_jar ?h = []" "hc_wall ?h = 0" "hc_clock ?h = [0]" "hc_request_count ?h = 0" "hc_max_requests ?h = 100"
    "hc_keepalive ?h = timer_start 0 60000" "sends (cn_net (hc_conn ?h)) = int (length demo_head) # []" "fd (cn_net (hc_conn ?h)) = 4"
    by (simp_all add: demo_blank_fwc_def fwc_new_def https_new_def https.defs demo_conn_def DEFAULT_KEEP_ALIVE_TIMEOUT_def)
  have "\<not> timer_is_elapsed 0 (timer_start 0 60000)" by code_simp
  with k have r: "https_is_reconnection_required ?h = (False, ?h1)"
    by (simp add: https_is_reconnection_required_def https_is_connected_def socket_is_connected_def read_clock_def)
  have rq: "request_set_body [] ((request_new ''GET'' (open_url demo_ep) (fc_jar ?h))\<lparr>rq_headers := fw_request_headers (hc_host ?h) []\<rparr>)
      = open_request demo_ep" by (simp add: k open_request_def)
  obtain head where h: "request_head 0 (open_request demo_ep) = Inr head" "head \<noteq> []" "head = demo_head"
    using open_request_head [OF demo_ep_ok, of 0] by (auto simp: demo_head_def)
  obtain h2 where s: "https_send_request (open_request demo_ep) ?h1 = (Inr (), h2)" and
    "cn_net (hc_conn h2) = (cn_net (hc_conn ?h))\<lparr>sends := [], wire := wire (cn_net (hc_conn ?h)) @ head\<rparr>"
    using send_ok [of ?h1 "open_request demo_ep" head "int (length demo_head)" "[]"] h k by auto
  then have "source (cn_net (hc_conn h2)) = source (demo_conn (''HTTP/1.1 '' @ status_text 200 @ '' '' @ ''OK'' @ CRLF @
      ''Set-Cookie: a=b; ;Secure'' @ CRLF @ []))"
    by (simp add: source_def demo_blank_fwc_def demo_conn_def)
  then have w: "source (cn_net (hc_conn h2)) = (''HTTP/1.1 '' @ status_text 200 @ '' '' @ ''OK'' @ CRLF @
      ''Set-Cookie: a=b; ;Secure'' @ CRLF @ [], NETCTX_RCV_ERROR, SSL_TIMEOUT)"
    by (subst (asm) demo_conn_source) simp_all
  have "wf_reason ''OK''" using demo_heads(1) by (simp add: wf_head_def)
  from blank_attribute_escapes [OF r s [folded rq] w _ _ this] show ?thesis by simp
qed

text \<open>C2. The tunnel begins where the HTTP request ends: the socket of a tunnel that started carries the GET
  request for the tunnel path, with the cookies of the portal, and whatever the thread does then, after
  these bytes come only whole PPP frames.\<close>

theorem tunnel_bytes:
  assumes "fwt_start sn started jar (tun_new c tu lo re lw hp) h0 = (Inr (True, t), h)"
  shows "\<exists>u head stop t' ps rest. portal_url (hc_host h0) u \<and> url.path u = ''/remote/sslvpn-tunnel'' \<and>
    request_head (hc_wall h0) (tunnel_request u jar) = Inr head \<and>
    tun_run created rc acts es t = Some (stop, t') \<and>
    wire (t_tunnel t') @ rest = map of_char head @ concat (map frame_of ps)"
proof -
  from fwt_started [OF assms] obtain u head tu' where u: "portal_url (hc_host h0) u" "url.path u = ''/remote/sslvpn-tunnel''"
    "request_head (hc_wall h0) (tunnel_request u jar) = Inr head" and w: "wire tu' = map of_char head"
    and t: "t = tun_started sn started c tu' lo re lw hp" by blast
  from tun_run_stream [of created rc acts es sn started c tu' lo re lw hp, folded t] u w show ?thesis by metis
qed

lemma tunnel_request_simps [simp]:
  "rq_url (tunnel_request u jar) = u" "rq_cookies (tunnel_request u jar) = jar" "bb_data (rq_body (tunnel_request u jar)) = []"
  by (simp_all add: tunnel_request_def request_new_def)

definition demo_tunnel_head :: string where
  "demo_tunnel_head = (case request_head 0 (tunnel_request (portal_at demo_ep ''/remote/sslvpn-tunnel'') []) of
     Inr head \<Rightarrow> head | Inl _ \<Rightarrow> [])"

definition demo_tunnel_peer :: conn where
  "demo_tunnel_peer = demo_peer\<lparr>cn_net := (cn_net demo_peer)\<lparr>sends := [int (length demo_tunnel_head)]\<rparr>\<rparr>"

lemma demo_tunnel_start:
  "\<exists>t h. fwt_start (Some (2, 0)) True [] (tun_new \<lparr>cfg_nodelay = False, cfg_max_clients = 1\<rparr> demo_tunnel
     \<lparr>hostname = ''127.0.0.1'', port = 0\<rparr> \<lparr>hostname = ''h'', port = 3389\<rparr> (demo_sock\<lparr>calls := [3, 0, 7]\<rparr>) [])
     (https_new demo_ep [demo_tunnel_peer] 0 [0, 1] 0) = (Inr (True, t), h)"
proof -
  let ?h = "https_new demo_ep [demo_tunnel_peer] 0 [0, 1] 0" and ?u = "portal_at demo_ep ''/remote/sslvpn-tunnel''"
  have n: "\<not> https_is_connected ?h" "hc_next ?h = demo_tunnel_peer # []"
    by (simp_all add: https_new_def https_is_connected_def socket_is_connected_def no_conn_def)
  have "calls (cn_net demo_tunnel_peer) = 4 # 0 # 0 # 0 # 0 # []" by (simp add: demo_tunnel_peer_def demo_peer_def)
  from connect_ok [OF n this] obtain h1 where c: "https_connect ?h = (Inr (), h1)" "hc_host h1 = demo_ep" "hc_wall h1 = 0"
    "sends (cn_net (hc_conn h1)) = int (length demo_tunnel_head) # []"
    by (auto simp: demo_tunnel_peer_def https_new_def)
  have u: "https_make_url ''/remote/sslvpn-tunnel'' [] h1 = Inr ?u"
    unfolding c(2) [symmetric] by (rule make_url_at) (simp add: c(2) demo_ep_ok, code_simp)
  obtain head where "request_head 0 (tunnel_request ?u []) = Inr head" "head \<noteq> []" "head = demo_tunnel_head"
    using portal_request_head [OF demo_ep_ok, of "tunnel_request ?u []" "''/remote/sslvpn-tunnel''" 0]
    by (auto simp: demo_tunnel_head_def)
  with send_ok [of h1 "tunnel_request ?u []" head "int (length demo_tunnel_head)" "[]"] c obtain h2 where
    "https_send_request (tunnel_request ?u []) h1 = (Inr (), h2)" by auto
  with u have m: "start_tunnel_mode [] h1 = (Inr (), h2)" by (simp add: start_tunnel_mode_def tunnel_request_def)
  show ?thesis unfolding fwt_start_def Let_def c(1) prod.case sum.case m
    by (simp add: tun_start_defs demo_sock_def)
qed

theorem tunnel_bytes_witness:
  "\<exists>t h u head stop t' ps rest. fwt_start (Some (2, 0)) True [] (tun_new \<lparr>cfg_nodelay = False, cfg_max_clients = 1\<rparr> demo_tunnel
     \<lparr>hostname = ''127.0.0.1'', port = 0\<rparr> \<lparr>hostname = ''h'', port = 3389\<rparr> (demo_sock\<lparr>calls := [3, 0, 7]\<rparr>) [])
     (https_new demo_ep [demo_tunnel_peer] 0 [0, 1] 0) = (Inr (True, t), h) \<and>
     request_head 0 (tunnel_request u []) = Inr head \<and> tun_run (Some demo_ppp) 0 [] demo_envs t = Some (stop, t') \<and>
     wire (t_tunnel t') @ rest = map of_char head @ concat (map frame_of ps)"
proof -
  obtain t h where s: "fwt_start (Some (2, 0)) True [] (tun_new \<lparr>cfg_nodelay = False, cfg_max_clients = 1\<rparr> demo_tunnel
     \<lparr>hostname = ''127.0.0.1'', port = 0\<rparr> \<lparr>hostname = ''h'', port = 3389\<rparr> (demo_sock\<lparr>calls := [3, 0, 7]\<rparr>) [])
     (https_new demo_ep [demo_tunnel_peer] 0 [0, 1] 0) = (Inr (True, t), h)" using demo_tunnel_start by blast
  have "hc_wall (https_new demo_ep [demo_tunnel_peer] 0 [0, 1] 0) = 0" by (simp add: https_new_def)
  with tunnel_bytes [OF s, of "Some demo_ppp" 0 "[]" demo_envs] s show ?thesis by (simp only:) blast
qed

text \<open>C3. The tunnel accepts any peer: what \<open>fwt_start\<close> answers and the state and the bytes of the tunnel,
  the session cookie included, do not depend on the certificates of the peers, unlike the requests of the
  portal client.\<close>

theorem tunnel_ignores_certificate:
  "fst (fwt_start sn started jar t (with_crts f h)) = fst (fwt_start sn started jar t h)"
proof -
  obtain r h1 where c: "https_connect h = (r, h1)" by (cases "https_connect h")
  from connect_with_crts [OF c, of f] obtain h1' where c': "https_connect (with_crts f h) = (r, h1')" "same_net h1 h1'" by blast
  obtain r2 h2 where m: "start_tunnel_mode jar h1 = (r2, h2)" by (cases "start_tunnel_mode jar h1")
  from tunnel_mode_same_net [OF c'(2) m] obtain h2' where m': "start_tunnel_mode jar h1' = (r2, h2')" "same_net h2 h2'" by blast
  show ?thesis using c c' m m' by (auto simp: fwt_start_def Let_def same_net_def split: sum.split)
qed

text \<open>C20. Opening succeeds when the first peer accepts the connection, takes the request and answers it with
  200, within the minute the connection is kept, and its certificate is valid or the user confirms it: the
  digest of its certificate is stored and exactly one request was sent.\<close>

theorem open_succeeds:
  assumes "endpoint_ok ep" "serves_open ep wall peer" "clock_steady clock"
    and "fw_crt_status v peer = 0 \<or> confirm (cn_crt peer) (fw_crt_status v peer)"
  shows "\<exists>h. fw_open v confirm (fwc_new ep realm (peer # peers) now clock wall) = (Inr PORTAL_NONE, h) \<and>
    fc_digest h = crt_digest (ev_sha256 v) (cn_crt peer) \<and> hc_sent h = [open_url ep] \<and> fc_jar h = []"
  using assms by (rule open_ok)

theorem open_succeeds_witness:
  "\<exists>h. fw_open demo_fw_env (\<lambda>_ _. False) (fwc_new demo_ep ''r'' [demo_peer] 5 [0, 1] 0) = (Inr PORTAL_NONE, h) \<and>
     fc_digest h = ''crt'' \<and> hc_sent h = [open_url demo_ep]"
proof -
  have "crt_digest (ev_sha256 demo_fw_env) (cn_crt demo_peer) = ''crt''" by (simp add: crt_digest_def demo_peer_def demo_fw_env_def)
  with open_succeeds [OF demo_ep_ok demo_serves demo_clock disjI1 [OF demo_crt], of "\<lambda>_ _. False" "''r''" "[]" 5]
  show ?thesis by auto
qed

end
