(* ===== verification/Getopt.thy ===== *)
theory Getopt
  imports StrUtil
begin

text \<open>
  The reader of command line options (\<^verbatim>\<open>util/XGetopt.cpp\<close>).

  The global variables \<^verbatim>\<open>optind\<close> and \<^verbatim>\<open>optarg\<close> and the static pointer \<^verbatim>\<open>next\<close> are the state;
  \<open>opt_next\<close> is the text that \<^verbatim>\<open>next\<close> points to, \<open>None\<close> for a null pointer. An argument is a text
  without a terminator.
\<close>

section \<open>One call\<close>

record optstate =
  opt_ind :: nat
  opt_next :: "wstring option"
  opt_arg :: "wstring option"

definition opt_start :: optstate where
  "opt_start = \<lparr>opt_ind = 0, opt_next = None, opt_arg = None\<rparr>"

definition wlit :: "string \<Rightarrow> wstring" where
  "wlit s = map of_char s"

definition W_DASH :: wchar where "W_DASH = of_char (CHR ''-'')"
definition W_COLON :: wchar where "W_COLON = of_char (CHR '':'')"
definition W_QUERY :: wchar where "W_QUERY = of_char (CHR ''?'')"

lemmas wchar_defs = W_DASH_def W_COLON_def W_QUERY_def

text \<open>\<^verbatim>\<open>argv[optind][0] != '-' || argv[optind][1] == 0\<close>, negated.\<close>

definition is_option_arg :: "wstring \<Rightarrow> bool" where
  "is_option_arg a = (case a of c # d # r \<Rightarrow> c = W_DASH | _ \<Rightarrow> False)"

text \<open>\<^verbatim>\<open>wcschr\<close>: the text that starts at the first occurrence.\<close>

definition wcschr :: "wstring \<Rightarrow> wchar \<Rightarrow> wstring option" where
  "wcschr s c = (case dropWhile (\<lambda>d. d \<noteq> c) s of [] \<Rightarrow> None | t \<Rightarrow> Some t)"

definition arg_at :: "wstring list \<Rightarrow> nat \<Rightarrow> wstring option" where
  "arg_at argv i = (if i < length argv then Some (argv ! i) else None)"

text \<open>Reading the letter \<open>c\<close> with the text \<open>rest\<close> behind it.\<close>

definition getopt_letter :: "wstring list \<Rightarrow> wstring \<Rightarrow> wchar \<Rightarrow> wstring \<Rightarrow> optstate \<Rightarrow> wchar \<times> optstate" where
  "getopt_letter argv optstring c rest s =
     (case wcschr optstring c of
        None \<Rightarrow> (W_QUERY, s\<lparr>opt_next := Some rest\<rparr>)
      | Some cp \<Rightarrow>
          if c = W_COLON then (W_QUERY, s\<lparr>opt_next := Some rest\<rparr>)
          else if (case cp of _ # d # _ \<Rightarrow> d = W_COLON | _ \<Rightarrow> False) then
            (if rest \<noteq> [] then (c, s\<lparr>opt_arg := Some rest, opt_next := None\<rparr>)
             else if opt_ind s < length argv
             then (c, s\<lparr>opt_next := Some rest, opt_arg := Some (argv ! opt_ind s), opt_ind := opt_ind s + 1\<rparr>)
             else (W_QUERY, s\<lparr>opt_next := Some rest\<rparr>))
          else (c, s\<lparr>opt_next := Some rest\<rparr>))"

text \<open>\<open>None\<close> is \<^verbatim>\<open>EOF\<close>.\<close>

definition getopt :: "wstring list \<Rightarrow> wstring \<Rightarrow> optstate \<Rightarrow> wchar option \<times> optstate" where
  "getopt argv optstring s0 =
     (let s = s0\<lparr>opt_next := (if opt_ind s0 = 0 then None else opt_next s0), opt_arg := None\<rparr> in
      case opt_next s of
        Some (c # rest) \<Rightarrow> apfst Some (getopt_letter argv optstring c rest s)
      | _ \<Rightarrow>
          if opt_ind s \<ge> length argv \<or> \<not> is_option_arg (argv ! opt_ind s)
          then (None, s\<lparr>opt_arg := arg_at argv (opt_ind s)\<rparr>)
          else if argv ! opt_ind s = [W_DASH, W_DASH]
          then (None, s\<lparr>opt_ind := opt_ind s + 1, opt_arg := arg_at argv (opt_ind s + 1)\<rparr>)
          else (case tl (argv ! opt_ind s) of
                  [] \<Rightarrow> (None, s)
                | c # rest \<Rightarrow> apfst Some (getopt_letter argv optstring c rest (s\<lparr>opt_ind := opt_ind s + 1\<rparr>))))"

lemma apfst_Some_iff [simp]: "apfst Some p = (Some r, s') \<longleftrightarrow> p = (r, s')" "apfst Some p \<noteq> (None, s')"
  by (cases p; simp)+

section \<open>Calls make progress\<close>

text \<open>The text that is still to be read.\<close>

definition opt_left :: "wstring list \<Rightarrow> optstate \<Rightarrow> nat" where
  "opt_left argv s = sum_list (map length (drop (opt_ind s) argv)) +
     (if opt_ind s = 0 then 0 else case opt_next s of None \<Rightarrow> 0 | Some t \<Rightarrow> length t)"

lemma left_arg: "i < length argv \<Longrightarrow> sum_list (map length (drop i argv)) = length (argv ! i) + sum_list (map length (drop (Suc i) argv))"
  by (subst Cons_nth_drop_Suc [symmetric]) simp_all

lemma getopt_letter_left:
  assumes "getopt_letter argv os c rest s = (r, s')" "0 < opt_ind s"
  shows "opt_left argv s' \<le> sum_list (map length (drop (opt_ind s) argv)) + length rest" "opt_ind s \<le> opt_ind s'"
    "opt_ind s' \<le> max (opt_ind s) (length argv)"
  using assms by (auto simp: getopt_letter_def opt_left_def left_arg split: option.splits if_splits)

lemma getopt_progress:
  assumes "getopt argv os s = (Some r, s')"
  shows "opt_left argv s' < opt_left argv s"
proof -
  let ?s = "s\<lparr>opt_next := (if opt_ind s = 0 then None else opt_next s), opt_arg := None\<rparr>"
  let ?t = "?s\<lparr>opt_ind := opt_ind s + 1\<rparr>"
  consider c rest where "opt_next ?s = Some (c # rest)" "getopt_letter argv os c rest ?s = (r, s')"
    | c rest where "opt_ind s < length argv" "argv ! opt_ind s = W_DASH # c # rest"
        "getopt_letter argv os c rest ?t = (r, s')"
    using assms by (auto simp: getopt_def Let_def is_option_arg_def split: option.splits list.splits if_splits)
  then show ?thesis
  proof cases
    case 1
    then have i: "opt_ind s \<noteq> 0" "opt_next s = Some (c # rest)" by (auto split: if_splits)
    from getopt_letter_left(1) [OF 1(2)] i show ?thesis by (simp add: opt_left_def)
  next
    case 2
    from getopt_letter_left(1) [OF 2(3)] left_arg [OF 2(1)] 2(2) show ?thesis by (simp add: opt_left_def)
  qed
qed

section \<open>All options\<close>

text \<open>The calls up to \<^verbatim>\<open>EOF\<close>: the letters with their arguments and the state that is left.\<close>

function getopt_all :: "wstring list \<Rightarrow> wstring \<Rightarrow> optstate \<Rightarrow> (wchar \<times> wstring option) list \<times> optstate" where
  "getopt_all argv optstring s =
     (case getopt argv optstring s of
        (None, s') \<Rightarrow> ([], s')
      | (Some c, s') \<Rightarrow> apfst ((#) (c, opt_arg s')) (getopt_all argv optstring s'))"
  by pat_completeness auto
termination
  by (relation "measure (\<lambda>(argv, os, s). opt_left argv s)") (auto dest: getopt_progress [OF sym])

declare getopt_all.simps [simp del]

text \<open>What the option string says of a letter: \<open>Some True\<close> if it takes an argument.\<close>

definition opt_kind :: "wstring \<Rightarrow> wchar \<Rightarrow> bool option" where
  "opt_kind optstring c =
     (if c = W_COLON then None
      else case wcschr optstring c of
        None \<Rightarrow> None
      | Some cp \<Rightarrow> Some (case cp of _ # d # _ \<Rightarrow> d = W_COLON | _ \<Rightarrow> False))"

lemma getopt_letter_kind:
  "getopt_letter argv optstring c rest s =
     (case opt_kind optstring c of
        None \<Rightarrow> (W_QUERY, s\<lparr>opt_next := Some rest\<rparr>)
      | Some False \<Rightarrow> (c, s\<lparr>opt_next := Some rest\<rparr>)
      | Some True \<Rightarrow>
          (if rest \<noteq> [] then (c, s\<lparr>opt_arg := Some rest, opt_next := None\<rparr>)
           else if opt_ind s < length argv
           then (c, s\<lparr>opt_next := Some rest, opt_arg := Some (argv ! opt_ind s), opt_ind := opt_ind s + 1\<rparr>)
           else (W_QUERY, s\<lparr>opt_next := Some rest\<rparr>)))"
  by (auto simp: getopt_letter_def opt_kind_def split: option.split list.split)

text \<open>An argument with a value option or not: letters behind one dash, the last of which may have a value,
  attached or in the next argument.\<close>

datatype opt_group = Group "wchar list" "(wchar \<times> wstring \<times> bool) option"

fun group_args :: "opt_group \<Rightarrow> wstring list" where
  "group_args (Group fs None) = [W_DASH # fs]"
| "group_args (Group fs (Some (c, v, attached))) = (if attached then [W_DASH # fs @ c # v] else [W_DASH # fs @ [c], v])"

fun group_opts :: "opt_group \<Rightarrow> (wchar \<times> wstring option) list" where
  "group_opts (Group fs None) = map (\<lambda>f. (f, None)) fs"
| "group_opts (Group fs (Some (c, v, attached))) = map (\<lambda>f. (f, None)) fs @ [(c, Some v)]"

fun group_ok :: "wstring \<Rightarrow> opt_group \<Rightarrow> bool" where
  "group_ok os (Group fs None) \<longleftrightarrow> fs \<noteq> [] \<and> (\<forall>f \<in> set fs. opt_kind os f = Some False)"
| "group_ok os (Group fs (Some (c, v, attached))) \<longleftrightarrow>
     (\<forall>f \<in> set fs. opt_kind os f = Some False) \<and> opt_kind os c = Some True \<and> (attached \<longrightarrow> v \<noteq> [])"

text \<open>What ends the options: the end, an argument that is none, or a double dash.\<close>

definition options_end :: "wstring list \<Rightarrow> bool" where
  "options_end rest \<longleftrightarrow> (case rest of [] \<Rightarrow> True | a # _ \<Rightarrow> \<not> is_option_arg a \<or> a = [W_DASH, W_DASH])"

definition skip_dashes :: "wstring list \<Rightarrow> wstring list" where
  "skip_dashes rest = (case rest of [] \<Rightarrow> [] | a # r \<Rightarrow> if a = [W_DASH, W_DASH] then r else rest)"

text \<open>Between groups no text is left of the last argument.\<close>

definition opt_clean :: "optstate \<Rightarrow> bool" where
  "opt_clean s \<longleftrightarrow> opt_ind s = 0 \<or> opt_next s = None \<or> opt_next s = Some []"

lemma letter_next:
  assumes "opt_ind s = opt_ind t" "opt_arg s = opt_arg t"
  shows "getopt_letter argv os c rest s = getopt_letter argv os c rest t"
  using assms by (cases s; cases t) (simp add: getopt_letter_kind split: option.split bool.split)

lemma getopt_in_arg:
  assumes "0 < opt_ind s" "opt_next s = Some (c # rest)"
  shows "getopt argv os s = apfst Some (getopt_letter argv os c rest (s\<lparr>opt_arg := None\<rparr>))"
  using assms by (cases s) (simp add: getopt_def Let_def)

text \<open>A call that opens the next argument, and one that ends the options.\<close>

lemma getopt_opens:
  assumes "opt_clean s"
  shows "\<exists>n. getopt argv os s =
     (if opt_ind s \<ge> length argv \<or> \<not> is_option_arg (argv ! opt_ind s)
      then (None, s\<lparr>opt_next := n, opt_arg := arg_at argv (opt_ind s)\<rparr>)
      else if argv ! opt_ind s = [W_DASH, W_DASH]
      then (None, s\<lparr>opt_next := n, opt_ind := opt_ind s + 1, opt_arg := arg_at argv (opt_ind s + 1)\<rparr>)
      else (case tl (argv ! opt_ind s) of
              [] \<Rightarrow> (None, s\<lparr>opt_next := n, opt_arg := None\<rparr>)
            | c # rest \<Rightarrow> apfst Some (getopt_letter argv os c rest
                (s\<lparr>opt_next := n, opt_arg := None, opt_ind := opt_ind s + 1\<rparr>))))"
proof (cases "(if opt_ind s = 0 then None else opt_next s) = None")
  case True
  then show ?thesis by (intro exI [of _ None]) (simp add: getopt_def Let_def split: list.split)
next
  case False
  with assms have "(if opt_ind s = 0 then None else opt_next s) = Some []" by (auto simp: opt_clean_def split: if_splits)
  then show ?thesis by (intro exI [of _ "Some []"]) (simp add: getopt_def Let_def split: list.split)
qed

lemma getopt_new_arg:
  assumes "opt_clean s" "opt_ind s < length argv" "argv ! opt_ind s = W_DASH # c # rest" "c # rest \<noteq> [W_DASH]"
  shows "getopt argv os s = apfst Some (getopt_letter argv os c rest (s\<lparr>opt_arg := None, opt_ind := opt_ind s + 1\<rparr>))"
proof -
  obtain n where "getopt argv os s =
      apfst Some (getopt_letter argv os c rest (s\<lparr>opt_next := n, opt_arg := None, opt_ind := opt_ind s + 1\<rparr>))"
    using getopt_opens [OF assms(1), of argv os] assms(2-4) by (auto simp: is_option_arg_def)
  moreover have "getopt_letter argv os c rest (s\<lparr>opt_next := n, opt_arg := None, opt_ind := opt_ind s + 1\<rparr>) =
      getopt_letter argv os c rest (s\<lparr>opt_arg := None, opt_ind := opt_ind s + 1\<rparr>)"
    by (rule letter_next) simp_all
  ultimately show ?thesis by simp
qed

lemma getopt_end:
  assumes "opt_clean s" "argv = pre @ rest" "opt_ind s = length pre" "options_end rest"
  shows "\<exists>s'. getopt argv os s = (None, s') \<and> opt_ind s' = length argv - length (skip_dashes rest)"
proof -
  have dd: "is_option_arg [W_DASH, W_DASH]" by (simp add: is_option_arg_def)
  note g = getopt_opens [OF assms(1), of argv os]
  show ?thesis
  proof (cases rest)
    case Nil
    with g assms(2,3) show ?thesis by (auto simp: skip_dashes_def)
  next
    case (Cons a r)
    with assms(2,3) have a: "argv ! opt_ind s = a" "opt_ind s < length argv" by simp_all
    from assms(4) Cons consider "a = [W_DASH, W_DASH]" | "a \<noteq> [W_DASH, W_DASH]" "\<not> is_option_arg a"
      by (auto simp: options_end_def)
    then show ?thesis
    proof cases
      case 1
      from g [unfolded a(1)] a(2) 1 dd assms(2,3) Cons show ?thesis by (auto simp: skip_dashes_def)
    next
      case 2
      from g [unfolded a(1)] a(2) 2 assms(2,3) Cons show ?thesis by (auto simp: skip_dashes_def)
    qed
  qed
qed

text \<open>The letters of an argument, from the second on and from the first.\<close>

lemma opts_in_arg:
  assumes "0 < opt_ind s" "opt_next s = Some (fs @ t)" "\<forall>f \<in> set fs. opt_kind os f = Some False"
  shows "\<exists>s'. getopt_all argv os s = apfst ((@) (map (\<lambda>f. (f, None)) fs)) (getopt_all argv os s') \<and>
    opt_ind s' = opt_ind s \<and> opt_next s' = Some t"
  using assms
proof (induction fs arbitrary: s)
  case Nil
  then show ?case by (intro exI [of _ s]) (simp add: prod.expand)
next
  case (Cons f fs)
  let ?s = "s\<lparr>opt_arg := None, opt_next := Some (fs @ t)\<rparr>"
  have "getopt argv os s = (Some f, ?s)"
    using getopt_in_arg [of s f "fs @ t" argv os] Cons(2-4) by (simp add: getopt_letter_kind)
  then have "getopt_all argv os s = apfst ((#) (f, None)) (getopt_all argv os ?s)" by (simp add: getopt_all.simps [of argv os s])
  moreover obtain s' where "getopt_all argv os ?s = apfst ((@) (map (\<lambda>f. (f, None)) fs)) (getopt_all argv os s')"
    "opt_ind s' = opt_ind s" "opt_next s' = Some t"
    using Cons(1) [of ?s] Cons(2,4) by auto
  ultimately show ?case by (intro exI [of _ s']) (simp add: apfst_def map_prod_def case_prod_beta)
qed

lemma enter_arg:
  assumes "opt_clean s" "opt_ind s < length argv" "argv ! opt_ind s = W_DASH # c # rest" "c # rest \<noteq> [W_DASH]"
  shows "getopt_all argv os s = getopt_all argv os (s\<lparr>opt_ind := opt_ind s + 1, opt_next := Some (c # rest)\<rparr>)"
proof -
  let ?t = "s\<lparr>opt_ind := opt_ind s + 1, opt_next := Some (c # rest)\<rparr>"
  have "getopt_letter argv os c rest (s\<lparr>opt_arg := None, opt_ind := opt_ind s + 1\<rparr>) =
      getopt_letter argv os c rest (?t\<lparr>opt_arg := None\<rparr>)"
    by (rule letter_next) simp_all
  then have "getopt argv os s = getopt argv os ?t"
    using getopt_new_arg [OF assms, of os] getopt_in_arg [of ?t c rest argv os] by simp
  then show ?thesis by (simp only: getopt_all.simps [of argv os s] getopt_all.simps [of argv os ?t])
qed

lemma dash_no_letter: "opt_kind os W_DASH = None \<Longrightarrow> opt_kind os f = Some b \<Longrightarrow> f \<noteq> W_DASH"
  by auto

lemma value_option:
  assumes "0 < opt_ind s" "opt_next s = Some (c # t)" "opt_kind os c = Some True" "t \<noteq> [] \<or> opt_ind s < length argv"
  shows "\<exists>s'. getopt_all argv os s =
      apfst ((#) (c, Some (if t \<noteq> [] then t else argv ! opt_ind s))) (getopt_all argv os s') \<and>
    opt_ind s' = (if t \<noteq> [] then opt_ind s else opt_ind s + 1) \<and> opt_clean s'"
proof -
  obtain s' where "getopt argv os s = (Some c, s')" "opt_arg s' = Some (if t \<noteq> [] then t else argv ! opt_ind s)"
    "opt_ind s' = (if t \<noteq> [] then opt_ind s else opt_ind s + 1)" "opt_clean s'"
    using getopt_in_arg [OF assms(1,2), of argv os] assms(3,4)
    by (cases "t = []") (auto simp: getopt_letter_kind opt_clean_def)
  then show ?thesis by (auto simp: getopt_all.simps [of argv os s])
qed

lemma read_group:
  assumes "argv = pre @ group_args g @ suf" "opt_ind s = length pre" "opt_clean s" "group_ok os g" "opt_kind os W_DASH = None"
  shows "\<exists>s'. getopt_all argv os s = apfst ((@) (group_opts g)) (getopt_all argv os s') \<and>
    opt_ind s' = length (pre @ group_args g) \<and> opt_clean s'"
proof -
  obtain fs v where g: "g = Group fs v" by (cases g)
  define t where "t = (case v of None \<Rightarrow> [] | Some (c, x, attached) \<Rightarrow> if attached then c # x else [c])"
  have "group_args g = (W_DASH # fs @ t) # tl (group_args g)"
    using g by (cases v) (auto simp: t_def)
  then have "argv = pre @ (W_DASH # fs @ t) # tl (group_args g) @ suf" using assms(1) by (metis append_Cons)
  then have a: "argv ! opt_ind s = W_DASH # fs @ t" "opt_ind s < length argv"
    using assms(2) by simp_all
  have fs: "\<forall>f \<in> set fs. opt_kind os f = Some False" using assms(4) g by (cases v) auto
  have kinds: "opt_kind os x \<noteq> None" if "x \<in> set (take 1 (fs @ t))" for x
    using assms(4) g that by (cases fs; cases v) (auto simp: t_def split: if_splits)
  have "fs @ t \<noteq> []" using assms(4) g by (cases v) (auto simp: t_def split: if_splits)
  then obtain c r where c: "fs @ t = c # r" by (cases "fs @ t") auto
  with kinds [of c] assms(5) have "c # r \<noteq> [W_DASH]" by auto
  note c = c this
  let ?s = "s\<lparr>opt_ind := opt_ind s + 1, opt_next := Some (fs @ t)\<rparr>"
  have e: "getopt_all argv os s = getopt_all argv os ?s"
    using enter_arg [OF assms(3) a(2), of c r os] a(1) c by simp
  from opts_in_arg [of ?s fs t os argv] fs obtain s1 where s1:
    "getopt_all argv os ?s = apfst ((@) (map (\<lambda>f. (f, None)) fs)) (getopt_all argv os s1)"
    "opt_ind s1 = opt_ind s + 1" "opt_next s1 = Some t" by auto
  show ?thesis
  proof (cases v)
    case None
    with e s1 assms(2) g show ?thesis by (intro exI [of _ s1]) (auto simp: t_def opt_clean_def)
  next
    case (Some x)
    obtain d w attached where x: "x = (d, w, attached)" by (cases x)
    have k: "opt_kind os d = Some True" "attached \<Longrightarrow> w \<noteq> []" using assms(4) g Some x by auto
    have "argv ! opt_ind s1 = w \<and> opt_ind s1 < length argv" if "\<not> attached"
      using assms(1,2) s1(2) g Some x that by (simp add: nth_append)
    then obtain s2 where "getopt_all argv os s1 = apfst ((#) (d, Some w)) (getopt_all argv os s2)"
      "opt_ind s2 = (if attached then opt_ind s1 else opt_ind s1 + 1)" "opt_clean s2"
      using value_option [of s1 d "if attached then w else []" os argv] s1 k Some x by (cases attached) (auto simp: t_def)
    with e s1 assms(2) g Some x show ?thesis
      by (intro exI [of _ s2]) (auto simp: apfst_def map_prod_def case_prod_beta)
  qed
qed

lemma read_groups:
  assumes "argv = pre @ concat (map group_args gs) @ rest" "opt_ind s = length pre" "opt_clean s" "list_all (group_ok os) gs"
    and "opt_kind os W_DASH = None" "options_end rest"
  shows "\<exists>s'. getopt_all argv os s = (concat (map group_opts gs), s') \<and> opt_ind s' = length argv - length (skip_dashes rest)"
  using assms
proof (induction gs arbitrary: pre s)
  case Nil
  then obtain s' where "getopt argv os s = (None, s')" "opt_ind s' = length argv - length (skip_dashes rest)"
    using getopt_end [of s argv pre rest os] by auto
  then show ?case by (simp add: getopt_all.simps [of argv os s])
next
  case (Cons g gs)
  from read_group [of argv pre g "concat (map group_args gs) @ rest" s os] Cons(2-6) obtain s1 where
    s1: "getopt_all argv os s = apfst ((@) (group_opts g)) (getopt_all argv os s1)"
    "opt_ind s1 = length (pre @ group_args g)" "opt_clean s1" by auto
  from Cons(1) [of "pre @ group_args g" s1] Cons(2,5-7) s1 show ?case by auto
qed

end
