(* ===== verification/CmdlineParams.thy ===== *)
theory CmdlineParams
  imports Getopt
begin

text \<open>
  The command line (\<^verbatim>\<open>ui/CmdlineParams.cpp\<close>), read with \<^verbatim>\<open>getopt\<close> (theory \<open>Getopt\<close>).

  \<^verbatim>\<open>wstr2str\<close> is a Windows API call: the parameter \<open>w2s\<close>. An argument that \<^verbatim>\<open>getopt\<close> leaves null would
  be dereferenced by the code: \<open>Cmd_fault\<close>.
\<close>

section \<open>The parameters\<close>

datatype auth_method = AM_DEFAULT | AM_BASIC | AM_CERTIFICATE | AM_SAML

record screen_size =
  scr_height :: int
  scr_width :: int

definition screen_valid :: "screen_size \<Rightarrow> bool" where
  "screen_valid z \<longleftrightarrow> 0 \<le> scr_height z \<and> scr_height z \<le> 32766 \<and> 0 \<le> scr_width z \<and> scr_width z \<le> 32766"

record cmdline =
  cl_auth_method :: auth_method
  cl_username :: wstring
  cl_fw_address :: wstring
  cl_host_address :: wstring
  cl_ca_cert :: wstring
  cl_us_cert :: wstring
  cl_app :: wstring
  cl_rdp_file :: wstring
  cl_screen :: screen_size
  cl_local_port :: nat
  cl_full_screen :: bool
  cl_admin_console :: bool
  cl_multi_clients :: bool
  cl_span_mode :: bool
  cl_multimon_mode :: bool
  cl_clear_lastuser :: bool
  cl_tcp_nodelay :: bool
  cl_verbose :: bool
  cl_trace :: bool

definition MSTSC :: wstring where "MSTSC = wlit ''mstsc''"

definition is_mstsc :: "cmdline \<Rightarrow> bool" where
  "is_mstsc p \<longleftrightarrow> cl_app p = MSTSC"

definition cmd_defaults :: cmdline where
  "cmd_defaults =
     \<lparr>cl_auth_method = AM_DEFAULT, cl_username = [], cl_fw_address = [], cl_host_address = [], cl_ca_cert = [],
      cl_us_cert = [], cl_app = MSTSC, cl_rdp_file = [], cl_screen = \<lparr>scr_height = 0, scr_width = 0\<rparr>,
      cl_local_port = 0, cl_full_screen = False, cl_admin_console = False, cl_multi_clients = False,
      cl_span_mode = False, cl_multimon_mode = False, cl_clear_lastuser = False, cl_tcp_nodelay = False,
      cl_verbose = False, cl_trace = False\<rparr>"

section \<open>Reading the options\<close>

datatype 'a cmd_result = Cmd_fault | Cmd_reject | Cmd_ok 'a

fun cmd_bind :: "'a cmd_result \<Rightarrow> ('a \<Rightarrow> 'b cmd_result) \<Rightarrow> 'b cmd_result" where
  "cmd_bind Cmd_fault f = Cmd_fault"
| "cmd_bind Cmd_reject f = Cmd_reject"
| "cmd_bind (Cmd_ok x) f = f x"

definition CMD_OPTIONS :: wstring where
  "CMD_OPTIONS = wlit ''?u:famvc:tx:p:sr:lCMnw:h:U:A:''"

text \<open>The text argument of an option, trimmed (an escaped exception never happens, see \<open>wtrim_result\<close>).\<close>

definition with_arg :: "wstring option \<Rightarrow> (wstring \<Rightarrow> 'b cmd_result) \<Rightarrow> 'b cmd_result" where
  "with_arg a f = (case a of None \<Rightarrow> Cmd_fault | Some t \<Rightarrow> f t)"

definition with_trimmed :: "wstring option \<Rightarrow> (wstring \<Rightarrow> 'b cmd_result) \<Rightarrow> 'b cmd_result" where
  "with_trimmed a f = with_arg a (\<lambda>t. case wtrim t of Inl _ \<Rightarrow> Cmd_fault | Inr t' \<Rightarrow> f t')"

text \<open>\<^verbatim>\<open>if (!str2i(optarg, value)) value = -1\<close>\<close>

definition int_or_minus1 :: "(wstring \<Rightarrow> string) \<Rightarrow> wstring \<Rightarrow> int \<Rightarrow> int" where
  "int_or_minus1 w2s t old = (case str2i (w2s t) old of (ok, v) \<Rightarrow> if ok then v else -1)"

definition read_auth_method :: "wstring \<Rightarrow> auth_method option" where
  "read_auth_method t =
     (if t = wlit ''basic'' then Some AM_BASIC
      else if t = wlit ''cert'' then Some AM_CERTIFICATE
      else if t = wlit ''saml'' then Some AM_SAML else None)"

text \<open>The body of the switch; the state is the parameters and the local variable \<^verbatim>\<open>port\<close>.\<close>

definition cmd_option :: "(wstring \<Rightarrow> string) \<Rightarrow> wchar \<times> wstring option \<Rightarrow> cmdline \<times> int \<Rightarrow> (cmdline \<times> int) cmd_result" where
  "cmd_option w2s ca pp =
     (case (ca, pp) of ((c, a), (p, port)) \<Rightarrow>
       if c = W_QUERY then Cmd_reject
       else if c = of_char CHR ''u'' then with_arg a (\<lambda>t. Cmd_ok (p\<lparr>cl_username := t\<rparr>, port))
       else if c = of_char CHR ''f'' then Cmd_ok (p\<lparr>cl_full_screen := True\<rparr>, port)
       else if c = of_char CHR ''a'' then Cmd_ok (p\<lparr>cl_admin_console := True\<rparr>, port)
       else if c = of_char CHR ''p'' then with_arg a (\<lambda>t. Cmd_ok (p, int_or_minus1 w2s t port))
       else if c = of_char CHR ''c'' then with_trimmed a (\<lambda>t. Cmd_ok (p\<lparr>cl_ca_cert := t\<rparr>, port))
       else if c = of_char CHR ''v'' then Cmd_ok (p\<lparr>cl_verbose := True\<rparr>, port)
       else if c = of_char CHR ''t'' then Cmd_ok (p\<lparr>cl_trace := True\<rparr>, port)
       else if c = of_char CHR ''x'' then with_trimmed a (\<lambda>t. Cmd_ok (p\<lparr>cl_app := t\<rparr>, port))
       else if c = of_char CHR ''s'' then Cmd_ok (p\<lparr>cl_span_mode := True\<rparr>, port)
       else if c = of_char CHR ''m'' then Cmd_ok (p\<lparr>cl_multimon_mode := True\<rparr>, port)
       else if c = of_char CHR ''r'' then with_trimmed a (\<lambda>t. Cmd_ok (p\<lparr>cl_rdp_file := t\<rparr>, port))
       else if c = of_char CHR ''C'' then Cmd_ok (p\<lparr>cl_clear_lastuser := True\<rparr>, port)
       else if c = of_char CHR ''M'' then Cmd_ok (p\<lparr>cl_multi_clients := True\<rparr>, port)
       else if c = of_char CHR ''n'' then Cmd_ok (p\<lparr>cl_tcp_nodelay := True\<rparr>, port)
       else if c = of_char CHR ''w'' then
         with_arg a (\<lambda>t. Cmd_ok (p\<lparr>cl_screen := (cl_screen p)\<lparr>scr_width := int_or_minus1 w2s t (scr_width (cl_screen p))\<rparr>\<rparr>, port))
       else if c = of_char CHR ''h'' then
         with_arg a (\<lambda>t. Cmd_ok (p\<lparr>cl_screen := (cl_screen p)\<lparr>scr_height := int_or_minus1 w2s t (scr_height (cl_screen p))\<rparr>\<rparr>, port))
       else if c = of_char CHR ''U'' then with_trimmed a (\<lambda>t. Cmd_ok (p\<lparr>cl_us_cert := t\<rparr>, port))
       else if c = of_char CHR ''A'' then
         with_arg a (\<lambda>t. case read_auth_method t of
            None \<Rightarrow> Cmd_reject
          | Some m \<Rightarrow> Cmd_ok (p\<lparr>cl_auth_method := m\<rparr>, port))
       else Cmd_ok (p, port))"

text \<open>\<^verbatim>\<open>while ((c = getopt(...)) != EOF)\<close>: each option is applied before the next one is read.\<close>

function cmd_loop ::
  "(wstring \<Rightarrow> string) \<Rightarrow> wstring list \<Rightarrow> optstate \<Rightarrow> cmdline \<times> int \<Rightarrow> ((cmdline \<times> int) \<times> optstate) cmd_result" where
  "cmd_loop w2s argv s pp =
     (case getopt argv CMD_OPTIONS s of
        (None, s') \<Rightarrow> Cmd_ok (pp, s')
      | (Some c, s') \<Rightarrow> cmd_bind (cmd_option w2s (c, opt_arg s') pp) (cmd_loop w2s argv s'))"
  by pat_completeness auto
termination
  by (relation "measure (\<lambda>(w2s, argv, s, pp). opt_left argv s)") (auto dest: getopt_progress [OF sym])

declare cmd_loop.simps [simp del]

section \<open>Validation and operands\<close>

definition auth_method_valid :: "cmdline \<Rightarrow> bool" where
  "auth_method_valid p =
     (case cl_auth_method p of
        AM_DEFAULT \<Rightarrow> length (cl_us_cert p) = 0
      | AM_BASIC \<Rightarrow> length (cl_us_cert p) = 0
      | AM_SAML \<Rightarrow> length (cl_username p) = 0 \<and> length (cl_us_cert p) = 0
      | AM_CERTIFICATE \<Rightarrow> length (cl_username p) = 0 \<and> length (cl_us_cert p) > 0)"

definition cmd_validate :: "cmdline \<times> int \<Rightarrow> cmdline cmd_result" where
  "cmd_validate pp =
     (case pp of (p, port) \<Rightarrow>
       if cl_trace p \<and> \<not> cl_verbose p then Cmd_reject
       else if (cl_admin_console p \<or> cl_full_screen p \<or> cl_span_mode p \<or> cl_multimon_mode p \<or> cl_rdp_file p \<noteq> [])
         \<and> \<not> is_mstsc p then Cmd_reject
       else if (scr_height (cl_screen p) \<noteq> 0 \<or> scr_width (cl_screen p) \<noteq> 0) \<and> \<not> is_mstsc p then Cmd_reject
       else if \<not> screen_valid (cl_screen p) then Cmd_reject
       else if port \<ge> 0 \<and> port \<le> 65535 then
         (let p' = p\<lparr>cl_local_port := nat port\<rparr> in if auth_method_valid p' then Cmd_ok p' else Cmd_reject)
       else Cmd_reject)"

fun cmd_operands :: "nat \<Rightarrow> wstring list \<Rightarrow> cmdline \<Rightarrow> cmdline cmd_result" where
  "cmd_operands i [] p = Cmd_ok p"
| "cmd_operands i (a # as) p =
     (if i = 0 then with_trimmed (Some a) (\<lambda>t. cmd_operands 1 as (p\<lparr>cl_fw_address := t\<rparr>))
      else if i = 1 then with_trimmed (Some a) (\<lambda>t. cmd_operands 2 as (p\<lparr>cl_host_address := t\<rparr>))
      else Cmd_reject)"

definition cmd_finish :: "wstring list \<Rightarrow> cmdline \<times> int \<Rightarrow> cmdline cmd_result" where
  "cmd_finish operands pp =
     cmd_bind (cmd_validate pp) (\<lambda>p. cmd_bind (cmd_operands 0 operands p) (\<lambda>p.
       Cmd_ok (if is_mstsc p then p\<lparr>cl_tcp_nodelay := True\<rparr> else p)))"

text \<open>The state of \<^verbatim>\<open>getopt\<close> is global: it is not reset by the function.\<close>

definition cmd_initialize :: "(wstring \<Rightarrow> string) \<Rightarrow> wstring list \<Rightarrow> optstate \<Rightarrow> cmdline cmd_result" where
  "cmd_initialize w2s argv s =
     cmd_bind (cmd_loop w2s argv s (cmd_defaults, 0)) (\<lambda>(pp, s'). cmd_finish (drop (opt_ind s') argv) pp)"

text \<open>The overload that reads the Windows command line: without arguments it is true and changes nothing;
  the program name is skipped.\<close>

definition cmd_initialize_windows ::
  "(wstring \<Rightarrow> string) \<Rightarrow> wstring list option \<Rightarrow> optstate \<Rightarrow> cmdline \<Rightarrow> cmdline cmd_result" where
  "cmd_initialize_windows w2s args s p =
     (case args of None \<Rightarrow> Cmd_ok p | Some argv \<Rightarrow> cmd_initialize w2s (tl argv) s)"

section \<open>What is accepted\<close>

text \<open>The rules of the command line.\<close>

definition cmd_valid :: "cmdline \<Rightarrow> bool" where
  "cmd_valid p \<longleftrightarrow>
     (cl_trace p \<longrightarrow> cl_verbose p) \<and>
     (\<not> is_mstsc p \<longrightarrow> \<not> cl_admin_console p \<and> \<not> cl_full_screen p \<and> \<not> cl_span_mode p \<and> \<not> cl_multimon_mode p
        \<and> cl_rdp_file p = [] \<and> scr_height (cl_screen p) = 0 \<and> scr_width (cl_screen p) = 0) \<and>
     screen_valid (cl_screen p) \<and>
     cl_local_port p < 65536 \<and>
     auth_method_valid p \<and>
     (is_mstsc p \<longrightarrow> cl_tcp_nodelay p)"

lemma wtrim_result: "wtrim t = Inr (trim_spec is_wblank t)"
  by (simp add: wtrim_def gen_trim_eq)

lemma with_trimmed_Some [simp]: "with_trimmed (Some t) f = f (trim_spec is_wblank t)"
  by (simp add: with_trimmed_def with_arg_def wtrim_result)

lemma with_arg_Some [simp]: "with_arg (Some t) f = f t"
  by (simp add: with_arg_def)

lemma cmd_bind_eq_Ok: "cmd_bind r f = Cmd_ok y \<longleftrightarrow> (\<exists>x. r = Cmd_ok x \<and> f x = Cmd_ok y)"
  by (cases r) auto

lemma cmd_bind_eq_fault: "cmd_bind r f = Cmd_fault \<longleftrightarrow> r = Cmd_fault \<or> (\<exists>x. r = Cmd_ok x \<and> f x = Cmd_fault)"
  by (cases r) auto

lemma cmd_operands_eq:
  "cmd_operands 0 ops p =
     (case map (trim_spec is_wblank) ops of
        [] \<Rightarrow> Cmd_ok p
      | [a] \<Rightarrow> Cmd_ok (p\<lparr>cl_fw_address := a\<rparr>)
      | [a, b] \<Rightarrow> Cmd_ok (p\<lparr>cl_fw_address := a, cl_host_address := b\<rparr>)
      | _ \<Rightarrow> Cmd_reject)"
proof (cases ops)
  case (Cons a as)
  then show ?thesis by (cases as; cases "tl as") simp_all
qed simp

lemma cmd_operands_ok:
  assumes "cmd_operands 0 ops p = Cmd_ok p'"
  obtains a b where "p' = p\<lparr>cl_fw_address := a, cl_host_address := b\<rparr>"
proof -
  have e: "p = p\<lparr>cl_fw_address := cl_fw_address p, cl_host_address := cl_host_address p\<rparr>"
    "\<And>a. p\<lparr>cl_fw_address := a\<rparr> = p\<lparr>cl_fw_address := a, cl_host_address := cl_host_address p\<rparr>"
    by (cases p; simp)+
  consider "p' = p" | a where "p' = p\<lparr>cl_fw_address := a\<rparr>" | a b where "p' = p\<lparr>cl_fw_address := a, cl_host_address := b\<rparr>"
    using assms by (auto simp: cmd_operands_eq split: list.splits)
  then show thesis
  proof cases
    case 1
    show thesis by (rule that, rule trans [OF 1 e(1)])
  next
    case 2
    show thesis by (rule that, rule trans [OF 2 e(2)])
  qed (rule that)
qed

lemma cmd_validate_ok:
  assumes "cmd_validate (p, port) = Cmd_ok p'"
  shows "p' = p\<lparr>cl_local_port := nat port\<rparr>" "0 \<le> port" "port \<le> 65535" "auth_method_valid p'"
    "screen_valid (cl_screen p)" "cl_trace p \<longrightarrow> cl_verbose p"
    "\<not> is_mstsc p \<longrightarrow> \<not> cl_admin_console p \<and> \<not> cl_full_screen p \<and> \<not> cl_span_mode p \<and> \<not> cl_multimon_mode p
       \<and> cl_rdp_file p = [] \<and> scr_height (cl_screen p) = 0 \<and> scr_width (cl_screen p) = 0"
  using assms by (auto simp: cmd_validate_def Let_def split: if_splits)

lemma cmd_finish_valid:
  assumes "cmd_finish ops pp = Cmd_ok p"
  shows "cmd_valid p"
proof -
  obtain q port where pp: "pp = (q, port)" by (cases pp)
  from assms obtain p1 p2 where v: "cmd_validate (q, port) = Cmd_ok p1" and o: "cmd_operands 0 ops p1 = Cmd_ok p2"
    and p: "p = (if is_mstsc p2 then p2\<lparr>cl_tcp_nodelay := True\<rparr> else p2)"
    unfolding pp cmd_finish_def cmd_bind_eq_Ok by auto
  obtain a b where p2: "p2 = p1\<lparr>cl_fw_address := a, cl_host_address := b\<rparr>" using cmd_operands_ok [OF o] by blast
  note V = cmd_validate_ok [OF v]
  from V(4) have "auth_method_valid p" unfolding p p2
    by (cases "cl_auth_method p1") (simp_all add: auth_method_valid_def)
  moreover have "cl_local_port p < 65536" using V(2,3) unfolding p p2 V(1) by auto
  moreover have "screen_valid (cl_screen p)" using V(5) unfolding p p2 V(1) by simp
  moreover have "cl_trace p \<longrightarrow> cl_verbose p" using V(6) unfolding p p2 V(1) by simp
  moreover have "is_mstsc p \<longleftrightarrow> is_mstsc q" unfolding p p2 V(1) by (simp add: is_mstsc_def)
  moreover have "is_mstsc p \<longrightarrow> cl_tcp_nodelay p" unfolding p by (simp add: is_mstsc_def)
  moreover have "cl_admin_console p = cl_admin_console q" "cl_full_screen p = cl_full_screen q"
    "cl_span_mode p = cl_span_mode q" "cl_multimon_mode p = cl_multimon_mode q" "cl_rdp_file p = cl_rdp_file q"
    "cl_screen p = cl_screen q" unfolding p p2 V(1) by simp_all
  ultimately show ?thesis using V(7) unfolding cmd_valid_def by metis
qed

section \<open>Reading the options\<close>

text \<open>A letter that takes a value comes with one.\<close>

lemma getopt_letter_arg:
  assumes "getopt_letter argv os c rest s = (r, s')" "opt_arg s = None"
  shows "r = W_QUERY \<or> (\<exists>b. opt_kind os r = Some b \<and> (b \<longleftrightarrow> opt_arg s' \<noteq> None))"
  using assms by (auto simp: getopt_letter_kind split: option.splits bool.splits if_splits)

lemma getopt_arg:
  assumes "getopt argv os s = (Some c, s')"
  shows "c = W_QUERY \<or> (\<exists>b. opt_kind os c = Some b \<and> (b \<longleftrightarrow> opt_arg s' \<noteq> None))"
  using assms by (auto simp: getopt_def Let_def split: option.splits list.splits if_splits dest: getopt_letter_arg)

lemma value_letters:
  "list_all (\<lambda>c. opt_kind CMD_OPTIONS (of_char c) = Some True) ''upcxrwhUA''"
  by code_simp

lemma query_kind: "opt_kind CMD_OPTIONS W_QUERY = Some False"
  by code_simp

lemma with_arg_fault: "with_arg a f = Cmd_fault \<longleftrightarrow> a = None \<or> (\<exists>t. a = Some t \<and> f t = Cmd_fault)"
  by (cases a) (simp_all add: with_arg_def)

lemma with_trimmed_fault: "with_trimmed a f = Cmd_fault \<longleftrightarrow> a = None \<or> (\<exists>t. a = Some t \<and> f (trim_spec is_wblank t) = Cmd_fault)"
  by (cases a) (simp_all add: with_trimmed_def with_arg_def wtrim_result)

lemma cmd_option_no_fault:
  assumes "opt_kind CMD_OPTIONS c = Some True \<longrightarrow> a \<noteq> None"
  shows "cmd_option w2s (c, a) pp \<noteq> Cmd_fault"
proof
  assume f: "cmd_option w2s (c, a) pp = Cmd_fault"
  obtain p port where pp: "pp = (p, port)" by (cases pp)
  from f have "a = None \<and> c \<in> of_char ` set ''upcxrwhUA''"
    by (auto simp: cmd_option_def pp with_arg_fault with_trimmed_fault split: if_splits option.splits)
  with assms value_letters show False by (auto simp: list_all_iff)
qed

lemma cmd_loop_no_fault: "cmd_loop w2s argv s pp \<noteq> Cmd_fault"
proof (induction w2s argv s pp rule: cmd_loop.induct)
  case (1 w2s argv s pp)
  obtain r s' where g: "getopt argv CMD_OPTIONS s = (r, s')" by (cases "getopt argv CMD_OPTIONS s")
  show ?case
  proof (cases r)
    case None
    with g show ?thesis by (simp add: cmd_loop.simps [of w2s argv s pp])
  next
    case (Some c)
    from getopt_arg [OF g [unfolded Some]] have "cmd_option w2s (c, opt_arg s') pp \<noteq> Cmd_fault"
      by (auto simp: query_kind intro!: cmd_option_no_fault)
    with 1 [OF g [symmetric] Some] g Some show ?thesis
      by (simp add: cmd_loop.simps [of w2s argv s pp] cmd_bind_eq_fault)
  qed
qed

section \<open>The options of the reference grammar\<close>

text \<open>The options one after the other.\<close>

fun cmd_apply :: "(wstring \<Rightarrow> string) \<Rightarrow> (wchar \<times> wstring option) list \<Rightarrow> cmdline \<times> int \<Rightarrow> (cmdline \<times> int) cmd_result" where
  "cmd_apply w2s [] pp = Cmd_ok pp"
| "cmd_apply w2s (x # xs) pp = cmd_bind (cmd_option w2s x pp) (cmd_apply w2s xs)"

text \<open>Reading and applying in turns is reading everything and applying it.\<close>

lemma cmd_loop_apply:
  "cmd_loop w2s argv s pp =
     cmd_bind (cmd_apply w2s (fst (getopt_all argv CMD_OPTIONS s)) pp)
       (\<lambda>pp'. Cmd_ok (pp', snd (getopt_all argv CMD_OPTIONS s)))"
proof (induction w2s argv s pp rule: cmd_loop.induct)
  case (1 w2s argv s pp)
  obtain r s' where g: "getopt argv CMD_OPTIONS s = (r, s')" by (cases "getopt argv CMD_OPTIONS s")
  show ?case
  proof (cases r)
    case None
    with g show ?thesis by (simp add: cmd_loop.simps [of w2s argv s pp] getopt_all.simps [of argv CMD_OPTIONS s])
  next
    case (Some c)
    with 1 [OF g [symmetric] Some] g show ?thesis
      by (cases "cmd_option w2s (c, opt_arg s') pp")
        (simp_all add: cmd_loop.simps [of w2s argv s pp] getopt_all.simps [of argv CMD_OPTIONS s])
  qed
qed

lemma no_dash_letter: "opt_kind CMD_OPTIONS W_DASH = None"
  by code_simp






end
