(* ===== verification/Settings.thy ===== *)
theory Settings
  imports CmdlineParams Endpoint "HOL-Library.Word" "HOL-Library.Monad_Syntax"
begin

text \<open>
  The settings of the program: the values kept in the registry (\<^verbatim>\<open>ui/RegistrySettings.cpp\<close>), the options dialog
  (\<^verbatim>\<open>ui/OptionsDialog.cpp\<close>) and the handler of the connect button (\<^verbatim>\<open>ui/ConnectDialog.cpp\<close>), which combine them with the
  command line.

  The registry is the parameter \<open>R\<close>: what \<^verbatim>\<open>utl::RegKey\<close> reads and writes. \<open>None\<close> is an error of Windows: the values with a
  default catch it, a write throws. \<open>registry_ok\<close> states what Windows documents. The files and the directory of the
  program are parameters too.
\<close>

section \<open>The registry\<close>

record 's registry =
  reg_get_word :: "'s \<Rightarrow> wstring \<Rightarrow> 32 word option"
  reg_set_word :: "wstring \<Rightarrow> 32 word \<Rightarrow> 's \<Rightarrow> 's option"
  reg_get_string :: "'s \<Rightarrow> wstring \<Rightarrow> wstring option"
  reg_set_string :: "wstring \<Rightarrow> wstring \<Rightarrow> 's \<Rightarrow> 's option"

definition key_get_word :: "'s registry \<Rightarrow> 's \<Rightarrow> wstring \<Rightarrow> 32 word \<Rightarrow> 32 word" where
  "key_get_word R st value_name default_value =
     (case reg_get_word R st value_name of None \<Rightarrow> default_value | Some w \<Rightarrow> w)"

definition key_get_string :: "'s registry \<Rightarrow> 's \<Rightarrow> wstring \<Rightarrow> wstring \<Rightarrow> wstring" where
  "key_get_string R st value_name default_value =
     (case reg_get_string R st value_name of None \<Rightarrow> default_value | Some t \<Rightarrow> t)"

definition get_bool :: "'s registry \<Rightarrow> 's \<Rightarrow> wstring \<Rightarrow> bool" where
  "get_bool R st value_name \<longleftrightarrow> key_get_word R st value_name 0 \<noteq> 0"

definition set_bool :: "'s registry \<Rightarrow> wstring \<Rightarrow> bool \<Rightarrow> 's \<Rightarrow> 's option" where
  "set_bool R value_name b = reg_set_word R value_name (if b then 1 else 0)"

definition get_int :: "'s registry \<Rightarrow> 's \<Rightarrow> wstring \<Rightarrow> int \<Rightarrow> int" where
  "get_int R st value_name default_value = sint (key_get_word R st value_name (word_of_int default_value))"

definition set_int :: "'s registry \<Rightarrow> wstring \<Rightarrow> int \<Rightarrow> 's \<Rightarrow> 's option" where
  "set_int R value_name v = reg_set_word R value_name (word_of_int v)"

definition USERNAME_KEYNAME :: wstring where "USERNAME_KEYNAME = wlit ''username''"
definition FIREWALL_KEYNAME :: wstring where "FIREWALL_KEYNAME = wlit ''firewall''"
definition HOST_KEYNAME :: wstring where "HOST_KEYNAME = wlit ''host''"
definition FULLSCREEN_KEYNAME :: wstring where "FULLSCREEN_KEYNAME = wlit ''fullscreen''"
definition CLEARUSERNAME_KEYNAME :: wstring where "CLEARUSERNAME_KEYNAME = wlit ''clearuname''"
definition SPANMODE_KEYNAME :: wstring where "SPANMODE_KEYNAME = wlit ''span''"
definition MULTIMON_KEYNAME :: wstring where "MULTIMON_KEYNAME = wlit ''multimon''"
definition ADMINCONSOLE_KEYNAME :: wstring where "ADMINCONSOLE_KEYNAME = wlit ''console''"
definition RDPFILEMODE_KEYNAME :: wstring where "RDPFILEMODE_KEYNAME = wlit ''rdpfile''"
definition RDPFILENAME_KEYNAME :: wstring where "RDPFILENAME_KEYNAME = wlit ''rdpfilename''"
definition SCREEN_WIDTH :: wstring where "SCREEN_WIDTH = wlit ''width''"
definition SCREEN_HEIGHT :: wstring where "SCREEN_HEIGHT = wlit ''height''"
definition AUTH_METHOD :: wstring where "AUTH_METHOD = wlit ''authmethod''"

definition setting_names :: "wstring list" where
  "setting_names =
     [USERNAME_KEYNAME, FIREWALL_KEYNAME, HOST_KEYNAME, FULLSCREEN_KEYNAME, CLEARUSERNAME_KEYNAME, SPANMODE_KEYNAME,
      MULTIMON_KEYNAME, ADMINCONSOLE_KEYNAME, RDPFILEMODE_KEYNAME, RDPFILENAME_KEYNAME, SCREEN_WIDTH, SCREEN_HEIGHT, AUTH_METHOD]"

definition get_screen_size :: "'s registry \<Rightarrow> 's \<Rightarrow> screen_size" where
  "get_screen_size R st =
     \<lparr>scr_height = min 32766 (max 0 (get_int R st SCREEN_HEIGHT 0)),
      scr_width = min 32766 (max 0 (get_int R st SCREEN_WIDTH 0))\<rparr>"

definition set_screen_size :: "'s registry \<Rightarrow> screen_size \<Rightarrow> 's \<Rightarrow> 's option" where
  "set_screen_size R z st = do {
     st1 \<leftarrow> set_int R SCREEN_HEIGHT (scr_height z) st;
     set_int R SCREEN_WIDTH (scr_width z) st1
   }"

definition get_auth_method :: "'s registry \<Rightarrow> 's \<Rightarrow> auth_method" where
  "get_auth_method R st =
     (let i = get_int R st AUTH_METHOD 0
      in if i = 1 then AM_BASIC else if i = 2 then AM_CERTIFICATE else if i = 3 then AM_SAML else AM_DEFAULT)"

fun auth_method_value :: "auth_method \<Rightarrow> int" where
  "auth_method_value AM_BASIC = 1"
| "auth_method_value AM_CERTIFICATE = 2"
| "auth_method_value AM_SAML = 3"
| "auth_method_value AM_DEFAULT = 0"

definition set_auth_method :: "'s registry \<Rightarrow> auth_method \<Rightarrow> 's \<Rightarrow> 's option" where
  "set_auth_method R m = set_int R AUTH_METHOD (auth_method_value m)"

section \<open>The options dialog\<close>

record opt_dialog =
  od_full_screen :: bool
  od_full_screen_updatable :: bool
  od_screen_size :: screen_size
  od_screen_size_updatable :: bool
  od_clear :: bool
  od_clear_updatable :: bool
  od_span :: bool
  od_span_updatable :: bool
  od_multimon :: bool
  od_multimon_updatable :: bool
  od_admin :: bool
  od_admin_updatable :: bool
  od_rdpfile :: bool
  od_rdpfile_updatable :: bool
  od_rdp_filename :: wstring
  od_auth :: auth_method

text \<open>Options that are given on the command line cannot be changed.\<close>

definition options_open :: "cmdline \<Rightarrow> 's registry \<Rightarrow> 's \<Rightarrow> opt_dialog" where
  "options_open p R st =
     (let size_updatable = (scr_height (cl_screen p) = 0 \<and> scr_width (cl_screen p) = 0)
      in \<lparr>od_full_screen = (cl_full_screen p \<or> get_bool R st FULLSCREEN_KEYNAME), od_full_screen_updatable = (\<not> cl_full_screen p),
          od_screen_size = (if size_updatable then get_screen_size R st else cl_screen p), od_screen_size_updatable = size_updatable,
          od_clear = (cl_clear_lastuser p \<or> get_bool R st CLEARUSERNAME_KEYNAME), od_clear_updatable = (\<not> cl_clear_lastuser p),
          od_span = (cl_span_mode p \<or> get_bool R st SPANMODE_KEYNAME), od_span_updatable = (\<not> cl_span_mode p),
          od_multimon = (cl_multimon_mode p \<or> get_bool R st MULTIMON_KEYNAME), od_multimon_updatable = (\<not> cl_multimon_mode p),
          od_admin = (cl_admin_console p \<or> get_bool R st ADMINCONSOLE_KEYNAME), od_admin_updatable = (\<not> cl_admin_console p),
          od_rdpfile = (cl_rdp_file p \<noteq> [] \<or> get_bool R st RDPFILEMODE_KEYNAME), od_rdpfile_updatable = (cl_rdp_file p = []),
          od_rdp_filename = (if cl_rdp_file p \<noteq> [] then cl_rdp_file p else key_get_string R st RDPFILENAME_KEYNAME []),
          od_auth = get_auth_method R st\<rparr>)"

text \<open>The controls when the user presses OK.\<close>

record opt_form =
  fm_full_screen :: bool
  fm_width :: wstring
  fm_height :: wstring
  fm_clear :: bool
  fm_span :: bool
  fm_multimon :: bool
  fm_admin :: bool
  fm_rdpfile :: bool
  fm_rdp_filename :: wstring
  fm_auth_index :: int

text \<open>A number is stored before its range is checked. The first result tells whether the dialog closes.\<close>

definition read_size :: "(wstring \<Rightarrow> string) \<Rightarrow> wstring \<Rightarrow> int \<Rightarrow> bool \<times> int" where
  "read_size w2s t old = (case str2i (w2s t) old of (ok, v) \<Rightarrow> (ok \<and> 0 \<le> v \<and> v \<le> 32766, v))"

definition options_take :: "opt_form \<Rightarrow> opt_dialog \<Rightarrow> opt_dialog" where
  "options_take f d =
     d\<lparr>od_clear := fm_clear f, od_span := fm_span f, od_multimon := fm_multimon f, od_admin := fm_admin f,
       od_rdpfile := fm_rdpfile f, od_rdp_filename := (if fm_rdpfile f then fm_rdp_filename f else od_rdp_filename d),
       od_auth := (if fm_auth_index f = 1 then AM_SAML else AM_BASIC)\<rparr>"

definition options_ok :: "(wstring \<Rightarrow> string) \<Rightarrow> opt_form \<Rightarrow> opt_dialog \<Rightarrow> bool \<times> opt_dialog" where
  "options_ok w2s f d =
     (let d1 = d\<lparr>od_full_screen := fm_full_screen f\<rparr>
      in if \<not> od_full_screen d1 \<and> od_screen_size_updatable d1 then
           (case read_size w2s (fm_width f) (scr_width (od_screen_size d1)) of
              (ok, w) \<Rightarrow>
                let d2 = d1\<lparr>od_screen_size := (od_screen_size d1)\<lparr>scr_width := w\<rparr>\<rparr>
                in if \<not> ok then (False, d2)
                   else (case read_size w2s (fm_height f) (scr_height (od_screen_size d2)) of
                     (ok, h) \<Rightarrow>
                       let d3 = d2\<lparr>od_screen_size := (od_screen_size d2)\<lparr>scr_height := h\<rparr>\<rparr>
                       in if \<not> ok then (False, d3) else (True, options_take f d3)))
         else (True, options_take f d1))"

text \<open>The dialog until it closes: the controls at every press of OK. A list that ends is a cancellation.\<close>

fun options_show :: "(wstring \<Rightarrow> string) \<Rightarrow> opt_form list \<Rightarrow> opt_dialog \<Rightarrow> opt_dialog option" where
  "options_show w2s [] d = None"
| "options_show w2s (f # fs) d =
     (case options_ok w2s f d of (closes, d') \<Rightarrow> if closes then Some d' else options_show w2s fs d')"

definition when_set :: "bool \<Rightarrow> ('s \<Rightarrow> 's option) \<Rightarrow> 's \<Rightarrow> 's option" where
  "when_set c f st = (if c then f st else Some st)"

definition options_save :: "'s registry \<Rightarrow> opt_dialog \<Rightarrow> 's \<Rightarrow> 's option" where
  "options_save R d st = do {
     st \<leftarrow> when_set (od_full_screen_updatable d) (set_bool R FULLSCREEN_KEYNAME (od_full_screen d)) st;
     st \<leftarrow> when_set (od_screen_size_updatable d) (set_screen_size R (od_screen_size d)) st;
     st \<leftarrow> when_set (od_clear_updatable d) (set_bool R CLEARUSERNAME_KEYNAME (od_clear d)) st;
     st \<leftarrow> when_set (od_span_updatable d) (set_bool R SPANMODE_KEYNAME (od_span d)) st;
     st \<leftarrow> when_set (od_multimon_updatable d) (set_bool R MULTIMON_KEYNAME (od_multimon d)) st;
     st \<leftarrow> when_set (od_admin_updatable d) (set_bool R ADMINCONSOLE_KEYNAME (od_admin d)) st;
     st \<leftarrow> when_set (od_rdpfile_updatable d) (set_bool R RDPFILEMODE_KEYNAME (od_rdpfile d)) st;
     st \<leftarrow> when_set (od_rdpfile_updatable d) (reg_set_string R RDPFILENAME_KEYNAME (od_rdp_filename d)) st;
     set_auth_method R (od_auth d) st
   }"

text \<open>\<^verbatim>\<open>showOptionsDialog\<close>: the registry it leaves.\<close>

definition show_options :: "(wstring \<Rightarrow> string) \<Rightarrow> cmdline \<Rightarrow> 's registry \<Rightarrow> opt_form list \<Rightarrow> 's \<Rightarrow> 's option" where
  "show_options w2s p R forms st =
     (case options_show w2s forms (options_open p R st) of None \<Rightarrow> Some st | Some d \<Rightarrow> options_save R d st)"

section \<open>Paths\<close>

text \<open>The folder, with its last backslash, and the name of a path (\<^verbatim>\<open>util/Path.cpp\<close>).\<close>

definition BACKSLASH :: wchar where "BACKSLASH = of_char (CHR 0x5C)"

definition path_split :: "wstring \<Rightarrow> wstring \<times> wstring" where
  "path_split p =
     (case find_last_idx (\<lambda>c. c = BACKSLASH) p of
        None \<Rightarrow> ([], p)
      | Some last_delim \<Rightarrow> (take (last_delim + 1) p, drop (last_delim + 1) p))"

definition path_to_string :: "wstring \<times> wstring \<Rightarrow> wstring" where
  "path_to_string p = fst p @ snd p"

text \<open>A certificate file without a folder is next to the program; \<open>home\<close> is the folder of the program.\<close>

definition crt_path :: "wstring \<Rightarrow> wstring \<Rightarrow> wstring" where
  "crt_path home file =
     (let p = path_split file in path_to_string (if fst p = [] then (home, snd p) else p))"

definition ca_file :: "wstring \<Rightarrow> cmdline \<Rightarrow> wstring" where
  "ca_file home p =
     (if cl_ca_cert p = [] then path_to_string (home, wlit ''fortirdp.crt'') else crt_path home (cl_ca_cert p))"

section \<open>What the dialog starts with\<close>

definition start_address :: "wstring \<Rightarrow> 's registry \<Rightarrow> 's \<Rightarrow> wstring \<Rightarrow> wstring" where
  "start_address given R st name = (if given \<noteq> [] then given else key_get_string R st name [])"

definition start_username :: "wstring \<Rightarrow> cmdline \<Rightarrow> 's registry \<Rightarrow> 's \<Rightarrow> wstring" where
  "start_username windows_name p R st =
     (if cl_username p \<noteq> [] then cl_username p else key_get_string R st USERNAME_KEYNAME windows_name)"

text \<open>What is kept for the next start, when the command line does not say it.\<close>

definition save_addresses :: "cmdline \<Rightarrow> 's registry \<Rightarrow> wstring \<Rightarrow> wstring \<Rightarrow> 's \<Rightarrow> 's option" where
  "save_addresses p R fw_address host_address st = do {
     st \<leftarrow> when_set (cl_fw_address p = []) (reg_set_string R FIREWALL_KEYNAME fw_address) st;
     when_set (cl_host_address p = []) (reg_set_string R HOST_KEYNAME host_address) st
   }"

definition save_username :: "cmdline \<Rightarrow> 's registry \<Rightarrow> wstring \<Rightarrow> 's \<Rightarrow> 's option" where
  "save_username p R username = when_set (cl_username p = []) (reg_set_string R USERNAME_KEYNAME username)"

section \<open>The connect button\<close>

text \<open>What the handler sets before it asks the controller to connect.\<close>

record conn_setup =
  su_firewall :: endpoint
  su_realm :: wstring
  su_host :: endpoint
  su_task :: wstring
  su_params :: "wstring list"
  su_auth :: auth_method

datatype setup_result = Setup_throws exn | Setup_refused wstring | Setup_go

definition SLASH :: wchar where "SLASH = of_char CHR ''/''"
definition SEMICOLON :: wchar where "SEMICOLON = of_char CHR '';''"

definition read_firewall :: "(wstring \<Rightarrow> string) \<Rightarrow> wstring \<Rightarrow> conn_setup \<Rightarrow> (exn + unit) \<times> conn_setup" where
  "read_firewall w2s address su =
     (case wtrim address of
        Inl e \<Rightarrow> (Inl e, su)
      | Inr t \<Rightarrow>
          (case wsplit t SLASH [] of (parts, n) \<Rightarrow>
             if \<not> (n \<ge> 1 \<and> n \<le> 2) then (Inl Invalid_argument, su)
             else (case try_bind (trim (w2s (parts ! 0))) (\<lambda>a. endpoint_init a 10443) of
                Inl e \<Rightarrow> (Inl e, su)
              | Inr ep \<Rightarrow>
                  let su1 = su\<lparr>su_firewall := ep, su_realm := []\<rparr>
                  in if length parts = 2 then
                       (case wtrim (parts ! 1) of Inl e \<Rightarrow> (Inl e, su1) | Inr r \<Rightarrow> (Inr (), su1\<lparr>su_realm := r\<rparr>))
                     else (Inr (), su1))))"

definition read_host :: "(wstring \<Rightarrow> string) \<Rightarrow> wstring \<Rightarrow> conn_setup \<Rightarrow> (exn + unit) \<times> conn_setup" where
  "read_host w2s address su =
     (case try_bind (trim (w2s address)) (\<lambda>a. endpoint_init a 3389) of
        Inl e \<Rightarrow> (Inl e, su)
      | Inr ep \<Rightarrow> (Inr (), su\<lparr>su_host := ep\<rparr>))"

text \<open>The parameters of the remote desktop client.\<close>

definition flag :: "bool \<Rightarrow> wstring \<Rightarrow> wstring list" where
  "flag b t = (if b then [t] else [])"

definition size_params :: "screen_size \<Rightarrow> wstring list" where
  "size_params z =
     flag (scr_height z > 0) (wlit ''/h:'' @ wlit (to_string (nat (scr_height z)))) @
     flag (scr_width z > 0) (wlit ''/w:'' @ wlit (to_string (nat (scr_width z))))"

definition mstsc_params :: "cmdline \<Rightarrow> 's registry \<Rightarrow> 's \<Rightarrow> wstring list" where
  "mstsc_params p R st =
     (if cl_rdp_file p \<noteq> [] then [cl_rdp_file p]
      else if get_bool R st RDPFILEMODE_KEYNAME \<and> key_get_string R st RDPFILENAME_KEYNAME [] \<noteq> []
      then [key_get_string R st RDPFILENAME_KEYNAME []] else []) @
     [wlit ''/v:${host}:${port}''] @
     flag (cl_admin_console p \<or> get_bool R st ADMINCONSOLE_KEYNAME) (wlit ''/admin'') @
     (if cl_full_screen p \<or> get_bool R st FULLSCREEN_KEYNAME then [wlit ''/f'']
      else size_params
        (if scr_height (cl_screen p) > 0 \<or> scr_width (cl_screen p) > 0 then cl_screen p else get_screen_size R st)) @
     flag (cl_span_mode p \<or> get_bool R st SPANMODE_KEYNAME) (wlit ''/span'') @
     flag (cl_multimon_mode p \<or> get_bool R st MULTIMON_KEYNAME) (wlit ''/multimon'')"

text \<open>Another application: its path and parameters, separated by semicolons.\<close>

definition app_task :: "wstring \<Rightarrow> exn + (wstring \<times> wstring list)" where
  "app_task app =
     (case fst (wsplit app SEMICOLON []) of
        [] \<Rightarrow> Inr ([], [])
      | t # ts \<Rightarrow> try_bind (wtrim t) (\<lambda>t. Inr (t, ts)))"

definition MSTSC_EXE :: wstring where
  "MSTSC_EXE = wlit ''C:'' @ BACKSLASH # wlit ''Windows'' @ BACKSLASH # wlit ''system32'' @ BACKSLASH # wlit ''mstsc.exe''"

definition task_info :: "cmdline \<Rightarrow> 's registry \<Rightarrow> 's \<Rightarrow> exn + (wstring \<times> wstring list)" where
  "task_info p R st =
     (if is_mstsc p then Inr (MSTSC_EXE, mstsc_params p R st) else app_task (cl_app p))"

definition refuse_invalid :: "wstring \<Rightarrow> exn \<Rightarrow> setup_result" where
  "refuse_invalid message e = (if e = Invalid_argument then Setup_refused message else Setup_throws e)"

text \<open>\<open>exists\<close>: the files that exist; \<open>loads\<close>: the certificates that \<^verbatim>\<open>load_user_crt\<close> loads.\<close>

definition connect_files ::
  "cmdline \<Rightarrow> 's registry \<Rightarrow> 's \<Rightarrow> (wstring \<Rightarrow> bool) \<Rightarrow> (wstring \<Rightarrow> bool) \<Rightarrow> wstring \<Rightarrow> conn_setup \<Rightarrow> setup_result \<times> conn_setup" where
  "connect_files p R st exists loads home su =
     (if su_task su \<noteq> [] \<and> \<not> exists (su_task su) then (Setup_refused (wlit ''Application not found : '' @ su_task su), su)
      else if cl_rdp_file p \<noteq> [] \<and> \<not> exists (cl_rdp_file p) then (Setup_refused (wlit ''RDP file not found : '' @ su_task su), su)
      else
        (let su1 = su\<lparr>su_auth := (if cl_auth_method p = AM_DEFAULT then get_auth_method R st else cl_auth_method p)\<rparr>
         in if cl_us_cert p \<noteq> [] then
              (let crt = crt_path home (cl_us_cert p)
               in if \<not> exists crt then (Setup_refused (wlit ''User certificate file not found : '' @ crt), su1)
                  else if \<not> loads crt then (Setup_refused (wlit ''User certificate file not loaded''), su1)
                  else (Setup_go, su1\<lparr>su_auth := AM_CERTIFICATE\<rparr>))
            else (Setup_go, su1)))"

definition connect_setup ::
  "(wstring \<Rightarrow> string) \<Rightarrow> cmdline \<Rightarrow> 's registry \<Rightarrow> 's \<Rightarrow> (wstring \<Rightarrow> bool) \<Rightarrow> (wstring \<Rightarrow> bool) \<Rightarrow> wstring \<Rightarrow>
   wstring \<Rightarrow> wstring \<Rightarrow> conn_setup \<Rightarrow> setup_result \<times> conn_setup" where
  "connect_setup w2s p R st exists loads home fw_address host_address su =
     (case read_firewall w2s fw_address su of
        (Inl e, su1) \<Rightarrow> (refuse_invalid (wlit ''Invalid firewall address'') e, su1)
      | (Inr _, su1) \<Rightarrow>
          (case read_host w2s host_address su1 of
             (Inl e, su2) \<Rightarrow> (refuse_invalid (wlit ''Invalid host address'') e, su2)
           | (Inr _, su2) \<Rightarrow>
               (case task_info p R st of
                  Inl e \<Rightarrow> (Setup_throws e, su2)
                | Inr (task, params) \<Rightarrow>
                    connect_files p R st exists loads home (su2\<lparr>su_task := task, su_params := params\<rparr>))))"

section \<open>The registry keeps what is written\<close>

text \<open>The documented behaviour: a name has one value, of one type; a text ends at its first null character.\<close>

definition registry_ok :: "'s registry \<Rightarrow> bool" where
  "registry_ok R \<longleftrightarrow> (\<forall>n \<in> set setting_names. \<forall>m \<in> set setting_names.
     (\<forall>st w st'. reg_set_word R n w st = Some st' \<longrightarrow>
        reg_get_word R st' m = (if m = n then Some w else reg_get_word R st m) \<and>
        reg_get_string R st' m = (if m = n then None else reg_get_string R st m)) \<and>
     (\<forall>st t st'. reg_set_string R n t st = Some st' \<longrightarrow>
        reg_get_word R st' m = (if m = n then None else reg_get_word R st m) \<and>
        reg_get_string R st' m = (if m = n then Some (wc_str t) else reg_get_string R st m)))"

lemma names_distinct: "distinct setting_names"
  by code_simp

lemmas names_neq = names_distinct [unfolded setting_names_def, simplified distinct.simps list.set insert_iff empty_iff de_Morgan_disj simp_thms]

lemma names_distinct_rev: "distinct (rev setting_names)"
  using names_distinct by simp

lemmas names_neq_rev = names_distinct_rev [unfolded setting_names_def, simplified rev.simps append.simps distinct.simps list.set insert_iff
    empty_iff de_Morgan_disj simp_thms]

lemma names_set: "set setting_names =
    {USERNAME_KEYNAME, FIREWALL_KEYNAME, HOST_KEYNAME, FULLSCREEN_KEYNAME, CLEARUSERNAME_KEYNAME, SPANMODE_KEYNAME,
      MULTIMON_KEYNAME, ADMINCONSOLE_KEYNAME, RDPFILEMODE_KEYNAME, RDPFILENAME_KEYNAME, SCREEN_WIDTH, SCREEN_HEIGHT, AUTH_METHOD}"
  by (simp add: setting_names_def)

lemma reg_word:
  assumes "registry_ok R" "reg_set_word R n w st = Some st'" "n \<in> set setting_names" "m \<in> set setting_names"
  shows "reg_get_word R st' m = (if m = n then Some w else reg_get_word R st m)"
    "m \<noteq> n \<Longrightarrow> reg_get_string R st' m = reg_get_string R st m"
  using assms unfolding registry_ok_def by (metis (no_types, lifting))+

lemma reg_string:
  assumes "registry_ok R" "reg_set_string R n t st = Some st'" "n \<in> set setting_names" "m \<in> set setting_names"
  shows "m \<noteq> n \<Longrightarrow> reg_get_word R st' m = reg_get_word R st m"
    "reg_get_string R st' m = (if m = n then Some (wc_str t) else reg_get_string R st m)"
  using assms unfolding registry_ok_def by (metis (no_types, lifting))+

text \<open>One line of \<open>options_save\<close>.\<close>

lemma saved_bool:
  assumes "registry_ok R" "when_set c (set_bool R n b) st = Some st'" "n \<in> set setting_names" "m \<in> set setting_names"
  shows "key_get_word R st' m d = (if m = n \<and> c then if b then 1 else 0 else key_get_word R st m d)"
    "m \<noteq> n \<Longrightarrow> key_get_string R st' m t = key_get_string R st m t"
  using assms(2) reg_word [OF assms(1) _ assms(3,4)]
  by (auto simp: when_set_def set_bool_def key_get_word_def key_get_string_def split: if_splits)

lemma saved_int:
  assumes "registry_ok R" "set_int R n v st = Some st'" "n \<in> set setting_names" "m \<in> set setting_names"
  shows "key_get_word R st' m d = (if m = n then word_of_int v else key_get_word R st m d)"
    "m \<noteq> n \<Longrightarrow> key_get_string R st' m t = key_get_string R st m t"
  using assms(2) reg_word [OF assms(1) _ assms(3,4)]
  by (auto simp: set_int_def key_get_word_def key_get_string_def)

lemma saved_size:
  assumes R: "registry_ok R" and s: "when_set c (set_screen_size R z) st = Some st'" and m: "m \<in> set setting_names"
  shows "key_get_word R st' m d =
      (if c \<and> m = SCREEN_WIDTH then word_of_int (scr_width z)
       else if c \<and> m = SCREEN_HEIGHT then word_of_int (scr_height z) else key_get_word R st m d)" (is ?a)
    "m \<notin> {SCREEN_WIDTH, SCREEN_HEIGHT} \<Longrightarrow> key_get_string R st' m t = key_get_string R st m t" (is "_ \<Longrightarrow> ?b")
proof -
  have "?a \<and> (m \<notin> {SCREEN_WIDTH, SCREEN_HEIGHT} \<longrightarrow> ?b)"
  proof (cases c)
    case True
    with s obtain st1 where s: "set_int R SCREEN_HEIGHT (scr_height z) st = Some st1" "set_int R SCREEN_WIDTH (scr_width z) st1 = Some st'"
      by (auto simp: when_set_def set_screen_size_def split: Option.bind_splits)
    have "SCREEN_HEIGHT \<in> set setting_names" "SCREEN_WIDTH \<in> set setting_names" by (simp_all add: names_set)
    with True saved_int [OF R s(1) _ m] saved_int [OF R s(2) _ m] show ?thesis by auto
  qed (use s in \<open>simp add: when_set_def\<close>)
  then show ?a "m \<notin> {SCREEN_WIDTH, SCREEN_HEIGHT} \<Longrightarrow> ?b" by auto
qed

lemma saved_string:
  assumes "registry_ok R" "when_set c (reg_set_string R n v) st = Some st'" "n \<in> set setting_names" "m \<in> set setting_names"
  shows "m \<noteq> n \<Longrightarrow> key_get_word R st' m d = key_get_word R st m d"
    "key_get_string R st' m t = (if m = n \<and> c then wc_str v else key_get_string R st m t)"
  using assms(2) reg_string [OF assms(1) _ assms(3,4)]
  by (auto simp: when_set_def key_get_word_def key_get_string_def split: if_splits)

lemma int_word: "0 \<le> v \<Longrightarrow> v \<le> 32766 \<Longrightarrow> sint (word_of_int v :: 32 word) = v"
  by (simp add: signed_of_int signed_take_bit_int_eq_self)

lemma options_saved:
  assumes R: "registry_ok R" and s: "options_save R d st = Some st'"
  shows "key_get_word R st' FULLSCREEN_KEYNAME 0 =
      (if od_full_screen_updatable d then if od_full_screen d then 1 else 0 else key_get_word R st FULLSCREEN_KEYNAME 0)"
    "key_get_word R st' SPANMODE_KEYNAME 0 =
      (if od_span_updatable d then if od_span d then 1 else 0 else key_get_word R st SPANMODE_KEYNAME 0)"
    "key_get_word R st' MULTIMON_KEYNAME 0 =
      (if od_multimon_updatable d then if od_multimon d then 1 else 0 else key_get_word R st MULTIMON_KEYNAME 0)"
    "key_get_word R st' ADMINCONSOLE_KEYNAME 0 =
      (if od_admin_updatable d then if od_admin d then 1 else 0 else key_get_word R st ADMINCONSOLE_KEYNAME 0)"
    "key_get_word R st' RDPFILEMODE_KEYNAME 0 =
      (if od_rdpfile_updatable d then if od_rdpfile d then 1 else 0 else key_get_word R st RDPFILEMODE_KEYNAME 0)"
    "key_get_string R st' RDPFILENAME_KEYNAME [] =
      (if od_rdpfile_updatable d then wc_str (od_rdp_filename d) else key_get_string R st RDPFILENAME_KEYNAME [])"
    "key_get_word R st' SCREEN_WIDTH 0 =
      (if od_screen_size_updatable d then word_of_int (scr_width (od_screen_size d)) else key_get_word R st SCREEN_WIDTH 0)"
    "key_get_word R st' SCREEN_HEIGHT 0 =
      (if od_screen_size_updatable d then word_of_int (scr_height (od_screen_size d)) else key_get_word R st SCREEN_HEIGHT 0)"
    "key_get_word R st' AUTH_METHOD 0 = word_of_int (auth_method_value (od_auth d))"
proof -
  from s obtain s1 s2 s3 s4 s5 s6 s7 s8 where
    c: "when_set (od_full_screen_updatable d) (set_bool R FULLSCREEN_KEYNAME (od_full_screen d)) st = Some s1"
      "when_set (od_screen_size_updatable d) (set_screen_size R (od_screen_size d)) s1 = Some s2"
      "when_set (od_clear_updatable d) (set_bool R CLEARUSERNAME_KEYNAME (od_clear d)) s2 = Some s3"
      "when_set (od_span_updatable d) (set_bool R SPANMODE_KEYNAME (od_span d)) s3 = Some s4"
      "when_set (od_multimon_updatable d) (set_bool R MULTIMON_KEYNAME (od_multimon d)) s4 = Some s5"
      "when_set (od_admin_updatable d) (set_bool R ADMINCONSOLE_KEYNAME (od_admin d)) s5 = Some s6"
      "when_set (od_rdpfile_updatable d) (set_bool R RDPFILEMODE_KEYNAME (od_rdpfile d)) s6 = Some s7"
      "when_set (od_rdpfile_updatable d) (reg_set_string R RDPFILENAME_KEYNAME (od_rdp_filename d)) s7 = Some s8"
      "set_int R AUTH_METHOD (auth_method_value (od_auth d)) s8 = Some st'"
    by (auto simp: options_save_def set_auth_method_def split: Option.bind_splits)
  note laws = saved_bool [OF R c(1)] saved_size [OF R c(2)] saved_bool [OF R c(3)] saved_bool [OF R c(4)] saved_bool [OF R c(5)]
    saved_bool [OF R c(6)] saved_bool [OF R c(7)] saved_string [OF R c(8)] saved_int [OF R c(9)]
  note simps = laws names_set names_neq names_neq_rev
  show "key_get_word R st' FULLSCREEN_KEYNAME 0 =
      (if od_full_screen_updatable d then if od_full_screen d then 1 else 0 else key_get_word R st FULLSCREEN_KEYNAME 0)"
    by (simp add: simps)
  show "key_get_word R st' SPANMODE_KEYNAME 0 =
      (if od_span_updatable d then if od_span d then 1 else 0 else key_get_word R st SPANMODE_KEYNAME 0)" by (simp add: simps)
  show "key_get_word R st' MULTIMON_KEYNAME 0 =
      (if od_multimon_updatable d then if od_multimon d then 1 else 0 else key_get_word R st MULTIMON_KEYNAME 0)" by (simp add: simps)
  show "key_get_word R st' ADMINCONSOLE_KEYNAME 0 =
      (if od_admin_updatable d then if od_admin d then 1 else 0 else key_get_word R st ADMINCONSOLE_KEYNAME 0)" by (simp add: simps)
  show "key_get_word R st' RDPFILEMODE_KEYNAME 0 =
      (if od_rdpfile_updatable d then if od_rdpfile d then 1 else 0 else key_get_word R st RDPFILEMODE_KEYNAME 0)" by (simp add: simps)
  show "key_get_string R st' RDPFILENAME_KEYNAME [] =
      (if od_rdpfile_updatable d then wc_str (od_rdp_filename d) else key_get_string R st RDPFILENAME_KEYNAME [])" by (simp add: simps)
  show "key_get_word R st' SCREEN_WIDTH 0 =
      (if od_screen_size_updatable d then word_of_int (scr_width (od_screen_size d)) else key_get_word R st SCREEN_WIDTH 0)"
    by (simp add: simps)
  show "key_get_word R st' SCREEN_HEIGHT 0 =
      (if od_screen_size_updatable d then word_of_int (scr_height (od_screen_size d)) else key_get_word R st SCREEN_HEIGHT 0)"
    by (simp add: simps)
  show "key_get_word R st' AUTH_METHOD 0 = word_of_int (auth_method_value (od_auth d))" by (simp add: simps)
qed

section \<open>The dialog when it closes\<close>

text \<open>A disabled control keeps what the dialog put into it when it opened.\<close>

definition form_ok :: "opt_dialog \<Rightarrow> opt_form \<Rightarrow> bool" where
  "form_ok d f \<longleftrightarrow>
     (\<not> od_full_screen_updatable d \<longrightarrow> fm_full_screen f = od_full_screen d) \<and>
     (\<not> od_clear_updatable d \<longrightarrow> fm_clear f = od_clear d) \<and>
     (\<not> od_span_updatable d \<longrightarrow> fm_span f = od_span d) \<and>
     (\<not> od_multimon_updatable d \<longrightarrow> fm_multimon f = od_multimon d) \<and>
     (\<not> od_admin_updatable d \<longrightarrow> fm_admin f = od_admin d) \<and>
     (\<not> od_rdpfile_updatable d \<longrightarrow> fm_rdpfile f = od_rdpfile d \<and> fm_rdp_filename f = od_rdp_filename d)"

text \<open>What the command line fixes, while the dialog is open.\<close>

definition dialog_of :: "cmdline \<Rightarrow> opt_dialog \<Rightarrow> bool" where
  "dialog_of p d \<longleftrightarrow>
     od_full_screen_updatable d = (\<not> cl_full_screen p) \<and>
     od_screen_size_updatable d = (scr_height (cl_screen p) = 0 \<and> scr_width (cl_screen p) = 0) \<and>
     od_span_updatable d = (\<not> cl_span_mode p) \<and> od_multimon_updatable d = (\<not> cl_multimon_mode p) \<and>
     od_admin_updatable d = (\<not> cl_admin_console p) \<and> od_rdpfile_updatable d = (cl_rdp_file p = []) \<and>
     (\<not> od_screen_size_updatable d \<longrightarrow> od_screen_size d = cl_screen p)"

definition chosen :: "cmdline \<Rightarrow> opt_dialog \<Rightarrow> bool" where
  "chosen p d \<longleftrightarrow> dialog_of p d \<and>
     (cl_full_screen p \<longrightarrow> od_full_screen d) \<and> (cl_span_mode p \<longrightarrow> od_span d) \<and> (cl_multimon_mode p \<longrightarrow> od_multimon d) \<and>
     (cl_admin_console p \<longrightarrow> od_admin d) \<and> (cl_rdp_file p \<noteq> [] \<longrightarrow> od_rdpfile d \<and> od_rdp_filename d = cl_rdp_file p) \<and>
     (\<not> od_full_screen d \<and> od_screen_size_updatable d \<longrightarrow> screen_valid (od_screen_size d)) \<and>
     od_auth d \<in> {AM_BASIC, AM_SAML}"

lemma read_size_ok: "read_size w2s t old = (True, v) \<Longrightarrow> 0 \<le> v \<and> v \<le> 32766"
  by (auto simp: read_size_def split: prod.splits)

lemma dialog_of_open: "dialog_of p (options_open p R st)"
  by (simp add: dialog_of_def options_open_def Let_def)

text \<open>One press of OK: the size that is left, and the rest when the dialog closes.\<close>

lemma options_ok_size:
  assumes "options_ok w2s f d = (closes, d')"
  shows "\<exists>z. (fm_full_screen f \<or> \<not> od_screen_size_updatable d \<longrightarrow> closes \<and> z = od_screen_size d) \<and>
    (closes \<and> \<not> fm_full_screen f \<and> od_screen_size_updatable d \<longrightarrow> screen_valid z) \<and>
    d' = (let d1 = d\<lparr>od_full_screen := fm_full_screen f, od_screen_size := z\<rparr> in if closes then options_take f d1 else d1)"
proof (cases "fm_full_screen f \<or> \<not> od_screen_size_updatable d")
  case True
  with assms show ?thesis
    by (intro exI [of _ "od_screen_size d"]) (auto simp: options_ok_def Let_def)
next
  case False
  let ?z = "od_screen_size d"
  obtain ok w where w: "read_size w2s (fm_width f) (scr_width ?z) = (ok, w)" by fastforce
  obtain ok' h where h: "read_size w2s (fm_height f) (scr_height ?z) = (ok', h)" by fastforce
  show ?thesis
  proof (cases ok)
    case True
    with assms False w h show ?thesis
      by (intro exI [of _ "?z\<lparr>scr_width := w, scr_height := h\<rparr>"])
        (auto simp: options_ok_def Let_def screen_valid_def dest!: read_size_ok split: if_splits)
  next
    case nok: False
    with assms False w show ?thesis
      by (intro exI [of _ "?z\<lparr>scr_width := w\<rparr>"]) (auto simp: options_ok_def Let_def)
  qed
qed

lemma options_ok_chosen:
  assumes d: "dialog_of p d" and f: "form_ok (options_open p R st) f" and ok: "options_ok w2s f d = (closes, d')"
  shows "dialog_of p d'" "closes \<Longrightarrow> chosen p d'"
proof -
  obtain z where z: "fm_full_screen f \<or> \<not> od_screen_size_updatable d \<Longrightarrow> z = od_screen_size d"
    "closes \<and> \<not> fm_full_screen f \<and> od_screen_size_updatable d \<Longrightarrow> screen_valid z"
    "d' = (let d1 = d\<lparr>od_full_screen := fm_full_screen f, od_screen_size := z\<rparr> in if closes then options_take f d1 else d1)"
    using options_ok_size [OF ok] by blast
  show d': "dialog_of p d'" using d z(1) by (auto simp: z(3) dialog_of_def options_take_def Let_def)
  assume closes
  then have "od_auth d' \<in> {AM_BASIC, AM_SAML}" "od_full_screen d' = fm_full_screen f" "od_span d' = fm_span f"
    "od_multimon d' = fm_multimon f" "od_admin d' = fm_admin f" "od_rdpfile d' = fm_rdpfile f"
    "fm_rdpfile f \<Longrightarrow> od_rdp_filename d' = fm_rdp_filename f" "od_screen_size d' = z"
    "od_screen_size_updatable d' = od_screen_size_updatable d"
    by (simp_all add: z(3) options_take_def Let_def)
  with d' f z(2) \<open>closes\<close> show "chosen p d'"
    by (simp add: chosen_def form_ok_def options_open_def Let_def)
qed

lemma options_show_chosen:
  assumes "dialog_of p d0" "\<forall>f \<in> set forms. form_ok (options_open p R st) f" "options_show w2s forms d0 = Some d"
  shows "chosen p d"
  using assms by (induction w2s forms d0 rule: options_show.induct)
    (auto split: prod.splits if_splits dest: options_ok_chosen)

text \<open>The parameters of the remote desktop client as the dialog shows them.\<close>

definition wanted_params :: "opt_dialog \<Rightarrow> wstring list" where
  "wanted_params d =
     flag (od_rdpfile d \<and> od_rdp_filename d \<noteq> []) (od_rdp_filename d) @ [wlit ''/v:${host}:${port}''] @
     flag (od_admin d) (wlit ''/admin'') @
     (if od_full_screen d then [wlit ''/f''] else size_params (od_screen_size d)) @
     flag (od_span d) (wlit ''/span'') @ flag (od_multimon d) (wlit ''/multimon'')"

section \<open>Properties\<close>

text \<open>C25. What the user confirms in the options dialog is what the next connection uses: the parameters of the remote
  desktop client and the login method are those the dialog shows, whatever the user tried before, together with the
  options that are fixed by the command line.\<close>

theorem options_take_effect:
  assumes "registry_ok R" "screen_valid (cl_screen p)"
    and forms: "\<forall>f \<in> set forms. form_ok (options_open p R st) f"
    and shown: "options_show w2s forms (options_open p R st) = Some d" and saved: "show_options w2s p R forms st = Some st'"
    and name: "0 \<notin> set (od_rdp_filename d)"
  shows "mstsc_params p R st' = wanted_params d \<and> get_auth_method R st' = od_auth d"
proof -
  have c: "chosen p d" using options_show_chosen [OF dialog_of_open forms shown] .
  have s: "options_save R d st = Some st'" using shown saved by (simp add: show_options_def)
  note kept = options_saved [OF assms(1) s]
  have "get_auth_method R st' = od_auth d"
    using c by (auto simp: get_auth_method_def get_int_def kept(9) chosen_def int_word)
  moreover have "cl_admin_console p \<or> get_bool R st' ADMINCONSOLE_KEYNAME \<longleftrightarrow> od_admin d"
    "cl_span_mode p \<or> get_bool R st' SPANMODE_KEYNAME \<longleftrightarrow> od_span d"
    "cl_multimon_mode p \<or> get_bool R st' MULTIMON_KEYNAME \<longleftrightarrow> od_multimon d"
    "cl_full_screen p \<or> get_bool R st' FULLSCREEN_KEYNAME \<longleftrightarrow> od_full_screen d"
    using c by (auto simp: get_bool_def kept chosen_def dialog_of_def)
  moreover have "(if cl_rdp_file p \<noteq> [] then [cl_rdp_file p]
      else if get_bool R st' RDPFILEMODE_KEYNAME \<and> key_get_string R st' RDPFILENAME_KEYNAME [] \<noteq> []
      then [key_get_string R st' RDPFILENAME_KEYNAME []] else []) = flag (od_rdpfile d \<and> od_rdp_filename d \<noteq> []) (od_rdp_filename d)"
  proof -
    have "wc_str (od_rdp_filename d) = od_rdp_filename d" using name by (auto simp: wc_str_def takeWhile_eq_all_conv intro: gr_zeroI)
    then show ?thesis using c by (auto simp: get_bool_def kept chosen_def dialog_of_def flag_def)
  qed
  moreover have "(if scr_height (cl_screen p) > 0 \<or> scr_width (cl_screen p) > 0 then cl_screen p else get_screen_size R st') =
      od_screen_size d" if "\<not> od_full_screen d"
    using c that assms(2) by (auto simp: get_screen_size_def get_int_def kept chosen_def dialog_of_def screen_valid_def int_word)
  ultimately show ?thesis by (simp add: mstsc_params_def wanted_params_def)
qed

lemma endpoint_scan_total: "\<exists>r. endpoint_scan a dp = Inr r"
  by (auto simp: endpoint_scan_def trim_eq Let_def split: option.split prod.split)

text \<open>An address without a port.\<close>

lemma endpoint_init_default:
  assumes "\<forall>c \<in> set a. c \<noteq> CHR '':'' \<and> c \<noteq> CHR '']'' \<and> c \<noteq> NUL" "trim_spec is_blank a = a" "a \<noteq> []"
  shows "endpoint_init a dp = Inr \<lparr>hostname = a, port = dp\<rparr>"
proof -
  have "find_last_idx (\<lambda>c. c = CHR '':'' \<or> c = CHR '']'') a = None"
    using assms(1) by (auto simp: find_last_idx_def find_idx_None_iff)
  moreover have "c_str a = a" using assms(1) by (intro c_str_id) auto
  ultimately show ?thesis using assms(2,3) by (simp add: endpoint_init_def endpoint_scan_def trim_eq)
qed

lemma address_result:
  "(case try_bind (trim a) (\<lambda>a. endpoint_init a dp) of Inl e \<Rightarrow> e = Invalid_argument | Inr ep \<Rightarrow> 0 < dp \<and> dp \<le> 65535 \<longrightarrow> endpoint_ok ep)"
proof -
  obtain r where "endpoint_scan (trim_spec is_blank a) dp = Inr r" using endpoint_scan_total by blast
  then have "endpoint_init (trim_spec is_blank a) dp = Inl e \<Longrightarrow> e = Invalid_argument" for e
    by (auto simp: endpoint_init_def split: prod.splits if_splits)
  then show ?thesis by (auto simp: trim_eq intro: endpoint_init_ok split: sum.split)
qed

lemma read_host_result:
  assumes "read_host w2s address su = (r, su')"
  shows "(case r of Inl e \<Rightarrow> e = Invalid_argument | Inr _ \<Rightarrow> endpoint_ok (su_host su') \<and> su_firewall su' = su_firewall su)"
  using assms address_result [where a = "w2s address" and dp = 3389] by (auto simp: read_host_def split: sum.splits)

lemma read_firewall_result:
  assumes "read_firewall w2s address su = (r, su')"
  shows "(case r of Inl e \<Rightarrow> e = Invalid_argument | Inr _ \<Rightarrow> endpoint_ok (su_firewall su'))"
proof -
  obtain parts n where "wsplit (trim_spec is_wblank address) SLASH [] = (parts, n)" by fastforce
  with assms address_result [where a = "w2s (parts ! 0)" and dp = 10443] show ?thesis
    by (auto simp: read_firewall_def wtrim_result Let_def split: sum.splits if_splits)
qed

lemma task_info_total: "\<exists>t ps. task_info p R st = Inr (t, ps)"
  by (auto simp: task_info_def app_task_def wtrim_result split: list.split)

lemma connect_files_outcome:
  assumes "connect_files p R st exists loads home su = (r, su')"
  shows "(\<forall>e. r \<noteq> Setup_throws e) \<and> su_firewall su' = su_firewall su \<and> su_host su' = su_host su \<and>
    su_task su' = su_task su \<and> su_params su' = su_params su \<and>
    (r = Setup_go \<longrightarrow>
       (su_task su \<noteq> [] \<longrightarrow> exists (su_task su)) \<and> (cl_rdp_file p \<noteq> [] \<longrightarrow> exists (cl_rdp_file p)) \<and>
       (cl_us_cert p \<noteq> [] \<longrightarrow> exists (crt_path home (cl_us_cert p)) \<and> loads (crt_path home (cl_us_cert p))) \<and>
       su_auth su' =
         (if cl_us_cert p \<noteq> [] then AM_CERTIFICATE
          else if cl_auth_method p \<noteq> AM_DEFAULT then cl_auth_method p else get_auth_method R st))"
  using assms by (auto simp: connect_files_def Let_def split: if_splits)


text \<open>Whatever the registry holds, its screen size is one the command line would accept, and a method that was stored is
  read back.\<close>

lemma stored_size_valid: "screen_valid (get_screen_size R st)"
  by (simp add: screen_valid_def get_screen_size_def)

lemma stored_auth_method:
  assumes "registry_ok R" "set_auth_method R m st = Some st'"
  shows "get_auth_method R st' = m"
proof -
  have "key_get_word R st' AUTH_METHOD 0 = word_of_int (auth_method_value m)"
    using saved_int [OF assms(1) assms(2) [unfolded set_auth_method_def]] by (simp add: names_set)
  then show ?thesis by (cases m) (simp_all add: get_auth_method_def get_int_def int_word)
qed

text \<open>A width out of range is refused but stays in the dialog: when the user then checks full screen instead of
  correcting it, the dialog closes and the width is written to the registry, where it is read as the largest one.\<close>

theorem refused_width_is_saved:
  assumes "registry_ok R" "scr_height (cl_screen p) = 0" "scr_width (cl_screen p) = 0"
    and tried: "\<not> fm_full_screen f" "str2i (w2s (fm_width f)) (scr_width (get_screen_size R st)) = (True, v)" "32766 < v"
    and closed: "fm_full_screen g" "show_options w2s p R [f, g] st = Some st'"
  shows "scr_width (get_screen_size R st') = 32766"
proof -
  let ?d = "options_open p R st"
  have v: "v < 2 ^ 31" using tried(2) by (auto simp: str2i_def str2num_def LONG_MAX_def Let_def split: prod.splits if_splits)
  let ?d1 = "?d\<lparr>od_full_screen := False, od_screen_size := (get_screen_size R st)\<lparr>scr_width := v\<rparr>\<rparr>"
  have d: "od_screen_size_updatable ?d" "od_screen_size ?d = get_screen_size R st"
    using assms(2,3) by (simp_all add: options_open_def)
  have "options_ok w2s f ?d = (False, ?d1)" using tried d by (simp add: options_ok_def read_size_def)
  moreover have "options_ok w2s g ?d1 = (True, options_take g (?d1\<lparr>od_full_screen := True\<rparr>))" (is "_ = (True, ?d2)")
    using closed(1) by (simp add: options_ok_def)
  ultimately have s: "options_save R ?d2 st = Some st'" using closed(2) by (simp add: show_options_def)
  have "od_screen_size_updatable ?d2" "scr_width (od_screen_size ?d2) = v" using d by (simp_all add: options_take_def)
  with options_saved(7) [OF assms(1) s] have "get_int R st' SCREEN_WIDTH 0 = v"
    using v tried(3) by (simp add: get_int_def signed_of_int signed_take_bit_int_eq_self)
  with tried(3) show ?thesis by (simp add: get_screen_size_def)
qed

text \<open>The next start shows the addresses and the name of the last login.\<close>

lemma addresses_remembered:
  assumes "registry_ok R" "save_addresses p R fw_address host_address st = Some st'"
  shows "start_address (cl_fw_address p) R st' FIREWALL_KEYNAME = (if cl_fw_address p = [] then wc_str fw_address else cl_fw_address p)"
    "start_address (cl_host_address p) R st' HOST_KEYNAME = (if cl_host_address p = [] then wc_str host_address else cl_host_address p)"
proof -
  from assms(2) obtain st1 where s: "when_set (cl_fw_address p = []) (reg_set_string R FIREWALL_KEYNAME fw_address) st = Some st1"
    "when_set (cl_host_address p = []) (reg_set_string R HOST_KEYNAME host_address) st1 = Some st'"
    by (auto simp: save_addresses_def split: Option.bind_splits)
  note simps = saved_string [OF assms(1) s(1)] saved_string [OF assms(1) s(2)] names_set names_neq names_neq_rev start_address_def
  show "start_address (cl_fw_address p) R st' FIREWALL_KEYNAME = (if cl_fw_address p = [] then wc_str fw_address else cl_fw_address p)"
    by (simp add: simps)
  show "start_address (cl_host_address p) R st' HOST_KEYNAME = (if cl_host_address p = [] then wc_str host_address else cl_host_address p)"
    by (simp add: simps)
qed

lemma username_remembered:
  assumes "registry_ok R" "save_username p R username st = Some st'" "cl_username p = []"
  shows "start_username windows_name p R st' = wc_str username"
  using saved_string [OF assms(1) assms(2) [unfolded save_username_def]] assms(3) by (simp add: start_username_def names_set)

section \<open>Small examples\<close>

text \<open>A registry of two maps.\<close>

definition demo_registry :: "((wstring \<Rightarrow> 32 word option) \<times> (wstring \<Rightarrow> wstring option)) registry" where
  "demo_registry =
     \<lparr>reg_get_word = fst, reg_set_word = \<lambda>n w (ws, ss). Some (ws(n \<mapsto> w), ss(n := None)),
      reg_get_string = snd, reg_set_string = \<lambda>n t (ws, ss). Some (ws(n := None), ss(n \<mapsto> wc_str t))\<rparr>"

lemma demo_registry_ok: "registry_ok demo_registry"
  by (auto simp: registry_ok_def demo_registry_def)

lemma bind_not_None: "m \<noteq> None \<Longrightarrow> (\<And>x. f x \<noteq> None) \<Longrightarrow> Option.bind m f \<noteq> None"
  by auto

lemma when_set_not_None: "f st \<noteq> None \<Longrightarrow> when_set c f st \<noteq> None"
  by (simp add: when_set_def)

lemma demo_options_save: "options_save demo_registry d st \<noteq> None"
proof -
  have w: "reg_set_word demo_registry n w st \<noteq> None" "reg_set_string demo_registry n t st \<noteq> None" for n w t st
    by (simp_all add: demo_registry_def split: prod.split)
  show ?thesis
    unfolding options_save_def set_bool_def set_screen_size_def set_int_def set_auth_method_def
    by (intro bind_not_None when_set_not_None w)
qed

lemma demo_show_options: "show_options w2s p demo_registry forms st \<noteq> None"
  using demo_options_save by (simp add: show_options_def split: option.split)

definition demo_form :: opt_form where
  "demo_form = \<lparr>fm_full_screen = False, fm_width = wlit ''800'', fm_height = wlit ''600'', fm_clear = False, fm_span = True,
     fm_multimon = False, fm_admin = False, fm_rdpfile = False, fm_rdp_filename = [], fm_auth_index = 1\<rparr>"

definition demo_reg_start :: "(wstring \<Rightarrow> 32 word option) \<times> (wstring \<Rightarrow> wstring option)" where
  "demo_reg_start = (\<lambda>_. None, \<lambda>_. None)"

theorem options_take_effect_witness:
  "\<exists>st'. show_options (map char_of) cmd_defaults demo_registry [demo_form] demo_reg_start = Some st' \<and>
     mstsc_params cmd_defaults demo_registry st' =
       [wlit ''/v:${host}:${port}'', wlit ''/h:600'', wlit ''/w:800'', wlit ''/span''] \<and>
     get_auth_method demo_registry st' = AM_SAML"
proof -
  let ?o = "options_open cmd_defaults demo_registry demo_reg_start"
  let ?shown = "options_show (map char_of) [demo_form] ?o"
  have "case ?shown of None \<Rightarrow> False | Some d \<Rightarrow> wanted_params d =
      [wlit ''/v:${host}:${port}'', wlit ''/h:600'', wlit ''/w:800'', wlit ''/span''] \<and> od_auth d = AM_SAML \<and> od_rdp_filename d = []"
    by code_simp
  then obtain d where d: "?shown = Some d" "wanted_params d =
      [wlit ''/v:${host}:${port}'', wlit ''/h:600'', wlit ''/w:800'', wlit ''/span'']" "od_auth d = AM_SAML" "od_rdp_filename d = []"
    by (auto split: option.splits)
  have f: "\<forall>f \<in> set [demo_form]. form_ok ?o f"
    by (simp add: form_ok_def options_open_def cmd_defaults_def Let_def)
  obtain st' where s: "show_options (map char_of) cmd_defaults demo_registry [demo_form] demo_reg_start = Some st'" using demo_show_options by blast
  have "screen_valid (cl_screen cmd_defaults)" by (simp add: screen_valid_def cmd_defaults_def)
  from options_take_effect [OF demo_registry_ok this f d(1) s] d s show ?thesis by simp
qed

theorem refused_width_is_saved_witness:
  "\<exists>st'. show_options (map char_of) cmd_defaults demo_registry
      [demo_form\<lparr>fm_width := wlit ''99999''\<rparr>, demo_form\<lparr>fm_full_screen := True\<rparr>] demo_reg_start = Some st' \<and>
     scr_width (get_screen_size demo_registry st') = 32766"
proof -
  let ?f = "demo_form\<lparr>fm_width := wlit ''99999''\<rparr>" and ?g = "demo_form\<lparr>fm_full_screen := True\<rparr>"
  have v: "str2i (map char_of (fm_width ?f)) (scr_width (get_screen_size demo_registry demo_reg_start)) = (True, 99999)"
  proof -
    have "map char_of (fm_width ?f) = to_string 99999"
      by (simp add: wlit_def to_string.simps [of 99999] to_string.simps [of 9999] to_string.simps [of 999] to_string.simps [of 99]
          to_string.simps [of 9])
    then show ?thesis by (simp add: str2i_to_string)
  qed
  obtain st' where s: "show_options (map char_of) cmd_defaults demo_registry [?f, ?g] demo_reg_start = Some st'" using demo_show_options by blast
  have c: "scr_height (cl_screen cmd_defaults) = 0" "scr_width (cl_screen cmd_defaults) = 0" by (simp_all add: cmd_defaults_def)
  from refused_width_is_saved [OF demo_registry_ok c _ v _ _ s] s show ?thesis by (simp add: demo_form_def)
qed


end
