(* ===== verification/RdpFile.thy ===== *)
theory RdpFile
  imports StrUtil
begin

text \<open>
  The option file of the remote desktop client (\<^verbatim>\<open>ui/RdpFile.cpp\<close>): a list of options that is searched without case,
  read from and written to a text with one \<^verbatim>\<open>name:type:value\<close> per line.

  A file is the text its stream delivers, with \<^verbatim>\<open>\n\<close> at the end of a line; \<open>None\<close> is a file that cannot be opened.
\<close>

section \<open>The list of options\<close>

record rdp_option =
  option_name :: string
  option_type :: string
  option_value :: string

definition rdp_empty :: "rdp_option list \<Rightarrow> bool" where
  "rdp_empty options \<longleftrightarrow> length options = 0"

definition rdp_find :: "string \<Rightarrow> rdp_option list \<Rightarrow> nat option" where
  "rdp_find name options = find_idx (\<lambda>it. iequal name (option_name it)) options"

definition rdp_add_option :: "string \<Rightarrow> string \<Rightarrow> string \<Rightarrow> rdp_option list \<Rightarrow> rdp_option list" where
  "rdp_add_option name type val options =
     options @ [\<lparr>option_name = name, option_type = type, option_value = val\<rparr>]"

definition rdp_set :: "string \<Rightarrow> string \<Rightarrow> string \<Rightarrow> rdp_option list \<Rightarrow> rdp_option list" where
  "rdp_set name type val options =
     (case rdp_find name options of
        Some i \<Rightarrow> options[i := (options ! i)\<lparr>option_type := type, option_value := val\<rparr>]
      | None \<Rightarrow> rdp_add_option name type val options)"

definition rdp_set_int :: "string \<Rightarrow> int \<Rightarrow> rdp_option list \<Rightarrow> rdp_option list" where
  "rdp_set_int name val options =
     rdp_set name ''i'' (if val < 0 then CHR ''-'' # to_string (nat (- val)) else to_string (nat val)) options"

definition rdp_set_str :: "string \<Rightarrow> string \<Rightarrow> rdp_option list \<Rightarrow> rdp_option list" where
  "rdp_set_str name val options = rdp_set name ''s'' val options"

text \<open>The type and the value of an option.\<close>

definition rdp_get :: "rdp_option list \<Rightarrow> string \<Rightarrow> (string \<times> string) option" where
  "rdp_get options name =
     (case rdp_find name options of
        None \<Rightarrow> None
      | Some i \<Rightarrow> Some (option_type (options ! i), option_value (options ! i)))"

section \<open>Files\<close>

definition NEWLINE :: char where "NEWLINE = CHR 0x0A"

text \<open>The lines \<^verbatim>\<open>std::getline\<close> delivers: a last line without an end is one when it is not empty.\<close>

definition rdp_lines :: "string \<Rightarrow> string list" where
  "rdp_lines txt = (let ls = split_loop txt NEWLINE in if last ls = [] then butlast ls else ls)"

text \<open>The parts of all lines are collected in the same vector.\<close>

fun rdp_read_loop :: "string list \<Rightarrow> string list \<Rightarrow> rdp_option list \<Rightarrow> rdp_option list" where
  "rdp_read_loop [] params options = options"
| "rdp_read_loop (line # ls) params options =
     (if length line > 1024 then options
      else case split line (CHR '':'') params of
        (params', count) \<Rightarrow>
          rdp_read_loop ls params'
            (if count = 3 then rdp_add_option (params' ! 0) (params' ! 1) (params' ! 2) options else options))"

definition rdp_read :: "string option \<Rightarrow> rdp_option list \<Rightarrow> bool \<times> rdp_option list" where
  "rdp_read file options =
     (case file of None \<Rightarrow> (False, options) | Some txt \<Rightarrow> (True, rdp_read_loop (rdp_lines txt) [] options))"

definition rdp_line :: "rdp_option \<Rightarrow> string" where
  "rdp_line opt = option_name opt @ '':'' @ option_type opt @ '':'' @ option_value opt"

text \<open>Opening the file empties it. The result is the answer with the file that is left.\<close>

definition rdp_write :: "bool \<Rightarrow> rdp_option list \<Rightarrow> string option \<Rightarrow> bool \<times> string option" where
  "rdp_write opens options file =
     (if \<not> opens then (False, file)
      else if rdp_empty options then (False, Some [])
      else (True, Some (concat (map (\<lambda>opt. rdp_line opt @ [NEWLINE]) options))))"

section \<open>The list is a dictionary\<close>

text \<open>Replacing an element by one that the predicate does not tell from it.\<close>

lemma find_idx_update: "Q x = Q (xs ! i) \<Longrightarrow> find_idx Q (xs[i := x]) = find_idx Q xs"
proof (induction xs arbitrary: i)
  case (Cons y ys)
  then show ?case by (cases i) auto
qed simp

lemma find_idx_snoc: "find_idx P (xs @ [x]) =
    (case find_idx P xs of Some i \<Rightarrow> Some i | None \<Rightarrow> if P x then Some (length xs) else None)"
  by (induction xs) (auto split: option.splits)

lemma rdp_find_same: "iequal k k' \<Longrightarrow> rdp_find k m = rdp_find k' m"
  by (simp add: rdp_find_def iequal_iff_lower)

lemma rdp_find_Some: "rdp_find k m = Some i \<Longrightarrow> i < length m \<and> iequal k (option_name (m ! i))"
  unfolding rdp_find_def by (drule find_idx_SomeD) simp

lemma rdp_find_set: "rdp_find k' (rdp_set k t v m) =
    (if rdp_find k m = None \<and> iequal k k' then Some (length m) else rdp_find k' m)"
proof (cases "rdp_find k m")
  case None
  then have "rdp_find k' m = None" if "iequal k k'" using rdp_find_same [OF that] by simp
  with None show ?thesis
    by (auto simp: rdp_set_def rdp_add_option_def rdp_find_def find_idx_snoc iequal_iff_lower split: option.split)
next
  case (Some i)
  then show ?thesis by (simp add: rdp_set_def) (simp add: rdp_find_def find_idx_update)
qed

lemma rdp_set_nth: "i < length m \<Longrightarrow> rdp_find k m \<noteq> Some i \<Longrightarrow> rdp_set k t v m ! i = m ! i"
  by (auto simp: rdp_set_def rdp_add_option_def nth_append split: option.split)

lemma rdp_set_new: "rdp_find k m = None \<Longrightarrow> rdp_set k t v m ! length m = \<lparr>option_name = k, option_type = t, option_value = v\<rparr>"
  by (simp add: rdp_set_def rdp_add_option_def)

lemma rdp_set_old: "rdp_find k m = Some i \<Longrightarrow> rdp_set k t v m ! i = (m ! i)\<lparr>option_type := t, option_value := v\<rparr>"
  using rdp_find_Some [of k m i] by (simp add: rdp_set_def)

lemma rdp_get_set: "rdp_get (rdp_set k t v m) k' = (if iequal k k' then Some (t, v) else rdp_get m k')"
proof (cases "iequal k k'")
  case True
  then have "rdp_find k' m = rdp_find k m" using rdp_find_same by simp
  with True show ?thesis
    by (cases "rdp_find k m") (simp_all add: rdp_get_def rdp_find_set rdp_set_new rdp_set_old)
next
  case False
  have "rdp_find k m \<noteq> Some j" "j < length m" if "rdp_find k' m = Some j" for j
    using False rdp_find_Some [of k m j] rdp_find_Some [OF that] by (auto simp: iequal_iff_lower)
  with False show ?thesis
    by (cases "rdp_find k' m") (simp_all add: rdp_get_def rdp_find_set rdp_set_nth)
qed

definition rdp_ok :: "rdp_option list \<Rightarrow> bool" where
  "rdp_ok m \<longleftrightarrow> distinct (map (\<lambda>opt. lower (option_name opt)) m)"

lemma rdp_set_ok: "rdp_ok m \<Longrightarrow> rdp_ok (rdp_set k t v m)"
proof (cases "rdp_find k m")
  case None
  assume "rdp_ok m"
  moreover have "\<forall>opt \<in> set m. lower k \<noteq> lower (option_name opt)"
    using None by (simp add: rdp_find_def find_idx_None_iff iequal_iff_lower)
  ultimately show ?thesis using None by (auto simp: rdp_ok_def rdp_set_def rdp_add_option_def)
next
  case (Some i)
  assume "rdp_ok m"
  moreover have "(map (\<lambda>opt. lower (option_name opt)) m)[i := lower (option_name (m ! i))] = map (\<lambda>opt. lower (option_name opt)) m"
    using list_update_id [of "map (\<lambda>opt. lower (option_name opt)) m" i] rdp_find_Some [OF Some] by simp
  ultimately show ?thesis using Some by (simp add: rdp_ok_def rdp_set_def map_update)
qed

interpretation rdp: dictionary rdp_get "\<lambda>name (type, val). rdp_set name type val" "[]" iequal rdp_ok
proof unfold_locales
  fix m and k k' :: string and v :: "string \<times> string"
  show "rdp_get ((case v of (type, val) \<Rightarrow> rdp_set k type val) m) k' = (if iequal k k' then Some v else rdp_get m k')"
    by (simp add: rdp_get_set split: prod.split)
  show "rdp_ok m \<Longrightarrow> rdp_ok ((case v of (type, val) \<Rightarrow> rdp_set k type val) m)"
    by (simp add: rdp_set_ok split: prod.split)
qed (simp_all add: rdp_get_def rdp_find_def rdp_ok_def iequal_iff_lower)

section \<open>What is read back\<close>

text \<open>An option that fits a line.\<close>

definition rdp_clean :: "rdp_option \<Rightarrow> bool" where
  "rdp_clean opt \<longleftrightarrow> length (rdp_line opt) \<le> 1024 \<and> NEWLINE \<notin> set (rdp_line opt) \<and> NUL \<notin> set (rdp_line opt) \<and>
     CHR '':'' \<notin> set (option_name opt @ option_type opt @ option_value opt)"

lemma split_lines:
  "\<forall>opt \<in> set m. NEWLINE \<notin> set (rdp_line opt) \<Longrightarrow>
   split_loop (concat (map (\<lambda>opt. rdp_line opt @ [NEWLINE]) m)) NEWLINE = map rdp_line m @ [[]]"
  by (induction m) (simp_all add: split_loop_append split_loop_single)

lemma split_rdp_line:
  "rdp_clean opt \<Longrightarrow>
   split (rdp_line opt) (CHR '':'') params = (params @ [option_name opt, option_type opt, option_value opt], 3)"
  by (simp add: rdp_clean_def split_def split_cstr_def c_str_id rdp_line_def split_loop_append split_loop_single Let_def)

text \<open>Every line adds the option of the first line again.\<close>

lemma read_clean_lines:
  "\<forall>opt \<in> set m. rdp_clean opt \<Longrightarrow>
   rdp_read_loop (map rdp_line m) (option_name first # option_type first # option_value first # rest) options =
     options @ replicate (length m) \<lparr>option_name = option_name first, option_type = option_type first, option_value = option_value first\<rparr>"
proof (induction m arbitrary: rest options)
  case (Cons opt m)
  then show ?case
    by (simp add: split_rdp_line) (simp add: rdp_clean_def rdp_add_option_def)
qed simp

theorem written_options_read_back:
  assumes "\<forall>opt \<in> set (first # m). rdp_clean opt" "rdp_write True (first # m) file = (ok, file')"
  shows "ok \<and> rdp_read file' [] = (True, replicate (Suc (length m)) first)"
proof -
  have "file' = Some (concat (map (\<lambda>opt. rdp_line opt @ [NEWLINE]) (first # m)))" "ok"
    using assms(2) by (simp_all add: rdp_write_def rdp_empty_def)
  moreover have "rdp_lines (concat (map (\<lambda>opt. rdp_line opt @ [NEWLINE]) (first # m))) = map rdp_line (first # m)"
    using assms(1) by (subst rdp_lines_def) (subst split_lines, simp add: rdp_clean_def, simp add: butlast_append)
  moreover have "rdp_read_loop (map rdp_line (first # m)) [] [] = replicate (Suc (length m)) first"
    using assms(1) read_clean_lines [of m first "[]"]
    by (simp add: split_rdp_line) (simp add: rdp_clean_def rdp_add_option_def)
  ultimately show ?thesis by (simp add: rdp_read_def)
qed

text \<open>A value with a colon, an address with a port for instance, is not read back at all.\<close>

theorem colon_value_is_lost:
  "rdp_read (snd (rdp_write True [\<lparr>option_name = ''full address'', option_type = ''s'', option_value = ''127.0.0.1:3389''\<rparr>] None)) [] =
     (True, [])"
  by code_simp

end
