(* ===== verification/SyncProcs.thy ===== *)
theory SyncProcs
  imports FirewallTunnel CmdlineParams
begin

text \<open>
  What the controller thread does (\<^verbatim>\<open>ui/SyncConnect.cpp\<close>, \<^verbatim>\<open>SyncDisconnect.cpp\<close>, \<^verbatim>\<open>SyncWaitTunnel.cpp\<close>,
  \<^verbatim>\<open>SyncWaitTask.cpp\<close>) and the operations of \<^verbatim>\<open>ui/AsyncController.cpp\<close> that prepare it: the user certificate, the
  tunnel and the task.

  \<^item> The state of a procedure is the portal client with the messages that were shown. The answers of the
    dialogs are arguments: \<open>confirm\<close> for a certificate, one pair per login of the credentials and the codes, the
    browser dialog \<open>saml\<close>. A login dialog without a further answer is cancelled.
  \<^item> \<open>waits\<close> are the answers of the waits for the thread of the tunnel.
\<close>

section \<open>Connecting\<close>

record sync =
  sy_client :: fwc
  sy_shown :: "string list"

definition on_client :: "(fwc \<Rightarrow> (exn + 'a) \<times> fwc) \<Rightarrow> sync \<Rightarrow> (exn + 'a) \<times> sync" where
  "on_client f s = (case f (sy_client s) of (r, h) \<Rightarrow> (r, s\<lparr>sy_client := h\<rparr>))"

definition show_error :: "string \<Rightarrow> sync \<Rightarrow> sync" where
  "show_error m s = s\<lparr>sy_shown := sy_shown s @ [m]\<rparr>"

text \<open>The loop while the user enters wrong credentials. A cancelled login is not denied (\<open>cancelled_not_denied\<close>):
  the loop ends with it.\<close>

fun login_attempts ::
  "fw_env \<Rightarrow> ((string \<times> string) option \<times> string option list) list \<Rightarrow> sync \<Rightarrow> (exn + portal_err) \<times> sync" where
  "login_attempts v [] s = on_client (fw_login_basic v None []) s"
| "login_attempts v ((credentials, codes) # rest) s =
     io_bind (on_client (fw_login_basic v credentials codes) s) (\<lambda>rc s1.
       let s2 = (if rc \<noteq> PORTAL_NONE \<and> rc \<noteq> LOGIN_CANCELLED then show_error ''Login error'' s1 else s1)
       in if rc = ACCESS_DENIED then login_attempts v rest s2 else (Inr rc, s2))"

definition sync_login ::
  "fw_env \<Rightarrow> auth_method \<Rightarrow> ((string \<times> string) option \<times> string option list) list \<Rightarrow>
   (url \<Rightarrow> string \<Rightarrow> cookies \<Rightarrow> bool \<times> cookies) \<Rightarrow> sync \<Rightarrow> (exn + unit) \<times> sync" where
  "sync_login v auth attempts saml s =
     (case auth of
        AM_CERTIFICATE \<Rightarrow> (Inr (), s)
      | AM_SAML \<Rightarrow>
          io_bind (on_client (fw_login_saml v saml) s) (\<lambda>rc s1.
            (Inr (), if rc \<noteq> PORTAL_NONE then show_error ''Login error'' s1 else s1))
      | _ \<Rightarrow> io_bind (login_attempts v attempts s) (\<lambda>rc s1. (Inr (), s1)))"

definition sync_info :: "fw_env \<Rightarrow> sync \<Rightarrow> (exn + unit) \<times> sync" where
  "sync_info v s =
     (if \<not> fw_is_authenticated (sy_client s) then (Inr (), s)
      else io_bind (on_client (fw_get_info v \<lparr>pi_user = [], pi_group = [], pi_version = []\<rparr>) s) (\<lambda>info s1.
        if info = None then (Inr (), show_error ''Open tunnel error'' s1)
        else io_bind (on_client (fw_get_config v) s1) (\<lambda>config s2.
          (Inr (), if config = None then show_error ''Open tunnel error'' s2 else s2))))"

definition sync_connect ::
  "fw_env \<Rightarrow> (string option \<Rightarrow> 32 word \<Rightarrow> bool) \<Rightarrow> auth_method \<Rightarrow> ((string \<times> string) option \<times> string option list) list \<Rightarrow>
   (url \<Rightarrow> string \<Rightarrow> cookies \<Rightarrow> bool \<times> cookies) \<Rightarrow> sync \<Rightarrow> (exn + bool) \<times> sync" where
  "sync_connect v confirm auth attempts saml s =
     io_bind (on_client (fw_open v confirm) s) (\<lambda>rc s1.
       let connected = (rc = PORTAL_NONE);
           s2 = (if rc \<noteq> PORTAL_NONE \<and> rc \<noteq> CERT_UNTRUSTED then show_error ''Connection error'' s1 else s1)
       in io_bind
            (if connected then io_bind (sync_login v auth attempts saml s2) (\<lambda>_. sync_info v) else (Inr (), s2))
            (\<lambda>_ s3. (Inr (connected \<and> https_is_connected (sy_client s3) \<and> fw_is_authenticated (sy_client s3)), s3)))"

section \<open>Disconnecting and waiting\<close>

fun next_wait :: "bool list \<Rightarrow> bool \<times> bool list" where
  "next_wait [] = (False, [])"
| "next_wait (b # bs) = (b, bs)"

text \<open>Up to \<open>n\<close> waits, until one tells the end of the thread.\<close>

fun wait_tunnel :: "nat \<Rightarrow> bool list \<Rightarrow> bool" where
  "wait_tunnel 0 waits = False"
| "wait_tunnel (Suc n) waits = (case next_wait waits of (ended, rest) \<Rightarrow> if ended then True else wait_tunnel n rest)"

text \<open>The result with the client, the tunnel, and whether the tunnel was seen to end.\<close>

definition sync_disconnect ::
  "fw_env \<Rightarrow> bool list \<Rightarrow> tun option \<Rightarrow> fwc \<Rightarrow> (exn + bool) \<times> fwc \<times> tun option \<times> bool" where
  "sync_disconnect v waits tunnel h =
     (if fw_is_authenticated h then
        (case fw_logout v h of
           (Inl e, h1) \<Rightarrow> (Inl e, h1, tunnel, False)
         | (Inr out, h1) \<Rightarrow>
             (let (stopped, rest) = (if out then (if tunnel \<noteq> None then next_wait waits else (True, waits)) else (False, waits));
                  h2 = https_disconnect h1
              in if \<not> stopped \<and> tunnel \<noteq> None
                 then (Inr stopped, h2, map_option tun_terminate tunnel, wait_tunnel 5 rest)
                 else (Inr stopped, h2, tunnel, stopped \<and> tunnel \<noteq> None)))
      else (Inr False, https_disconnect h, tunnel, False))"

definition sync_wait_tunnel ::
  "(nat \<times> nat) option \<Rightarrow> bool \<Rightarrow> cookies \<Rightarrow> bool \<Rightarrow> (tun \<Rightarrow> int option) \<Rightarrow> tun \<Rightarrow> https \<Rightarrow> (exn + bool) \<times> tun \<times> https" where
  "sync_wait_tunnel sockname started jar signalled opt t h =
     (case fwt_start sockname started jar t h of
        (Inl e, h1) \<Rightarrow> (Inl e, t, h1)
      | (Inr (ok, t1), h1) \<Rightarrow> (Inr (if ok then tun_wait_listening signalled (opt t1) else False), t1, h1))"

text \<open>\<^verbatim>\<open>None\<close>: there is no task. The wait has no time limit.\<close>

definition sync_wait_task :: "'task option \<Rightarrow> bool" where
  "sync_wait_task task = True"

section \<open>Preparing\<close>

definition PK_PASSWORD_REQUIRED :: int where "PK_PASSWORD_REQUIRED = -0x3C00"

record user_crt =
  uc_crt :: bool
  uc_key :: bool

text \<open>\<^verbatim>\<open>AsyncController::load_user_crt\<close>. The file, its certificate and its key are read by mbedtls: \<open>crt_rc\<close> and
  \<open>pk_load\<close>, which takes a passcode or a null pointer; \<open>ask\<close> is the answer of the passcode dialog.\<close>

definition load_user_crt ::
  "bool \<Rightarrow> int \<Rightarrow> (string option \<Rightarrow> int) \<Rightarrow> string option \<Rightarrow> user_crt option \<Rightarrow> bool \<times> user_crt option" where
  "load_user_crt file_exists crt_rc pk_load ask uc =
     (case uc of
        Some _ \<Rightarrow> (True, uc)
      | None \<Rightarrow>
          if file_exists then
            (if crt_rc \<noteq> 0 then (False, Some \<lparr>uc_crt = False, uc_key = False\<rparr>)
             else
               (let rc0 = pk_load None;
                    rc = (if rc0 = PK_PASSWORD_REQUIRED then (case ask of None \<Rightarrow> rc0 | Some passcode \<Rightarrow> pk_load None) else rc0)
                in (rc = 0, Some \<lparr>uc_crt = True, uc_key = (rc = 0)\<rparr>)))
          else (False, Some \<lparr>uc_crt = False, uc_key = False\<rparr>))"

text \<open>The same for the certificates of the authorities: whether they are loaded.\<close>

definition load_ca_crt :: "bool \<Rightarrow> int \<Rightarrow> bool option \<Rightarrow> bool \<times> bool option" where
  "load_ca_crt file_exists crt_rc ca =
     (case ca of
        Some _ \<Rightarrow> (True, ca)
      | None \<Rightarrow> if file_exists then (if crt_rc \<noteq> 0 then (False, Some False) else (True, Some True)) else (False, Some False))"

text \<open>\<^verbatim>\<open>AsyncController::create_tunnel\<close>: a listener on the local host, for one client or for 32.\<close>

definition controller_create_tunnel ::
  "fwc option \<Rightarrow> endpoint \<Rightarrow> nat \<Rightarrow> bool \<Rightarrow> bool \<Rightarrow> conn list \<Rightarrow> 64 word \<Rightarrow> 64 word list \<Rightarrow> byte net \<Rightarrow> pheap \<Rightarrow>
   (tun \<times> https \<times> cookies) option" where
  "controller_create_tunnel client remote_ep local_port multi_clients nodelay peers now clock lw hp =
     map_option (\<lambda>h. fw_create_tunnel h \<lparr>hostname = ''127.0.0.1'', port = local_port\<rparr> remote_ep
       \<lparr>cfg_nodelay = nodelay, cfg_max_clients = (if multi_clients then 32 else 1)\<rparr> peers now clock lw hp) client"

text \<open>\<^verbatim>\<open>AsyncController::start_task\<close> and \<^verbatim>\<open>util/Task.cpp\<close>: the command line of the application. \<open>None\<close>: the substitution
  of a variable does not end.\<close>

definition task_new :: "wstring \<Rightarrow> wstring" where
  "task_new p = quote p"

definition task_add_parameter :: "wstring \<Rightarrow> wstring \<Rightarrow> wstring" where
  "task_add_parameter cmdline parameter = (cmdline @ wlit '' '') @ quote parameter"

definition task_vars :: "endpoint \<Rightarrow> strimap" where
  "task_vars ep = smap_set ikey ''port'' (to_string (port ep)) (smap_set ikey ''host'' (hostname ep) [])"

fun task_add_parameters ::
  "(wstring \<Rightarrow> string) \<Rightarrow> (string \<Rightarrow> wstring) \<Rightarrow> strimap \<Rightarrow> wstring list \<Rightarrow> wstring \<Rightarrow> wstring option" where
  "task_add_parameters w2s s2w vars [] cmdline = Some cmdline"
| "task_add_parameters w2s s2w vars (p # ps) cmdline =
     (case substvar w2s s2w p vars of
        None \<Rightarrow> None
      | Some t \<Rightarrow> task_add_parameters w2s s2w vars ps (task_add_parameter cmdline t))"

definition task_cmdline ::
  "(wstring \<Rightarrow> string) \<Rightarrow> (string \<Rightarrow> wstring) \<Rightarrow> endpoint \<Rightarrow> wstring \<Rightarrow> wstring list \<Rightarrow> wstring option" where
  "task_cmdline w2s s2w ep p params = task_add_parameters w2s s2w (task_vars ep) params (task_new p)"

section \<open>The client of a connection\<close>

text \<open>The login and what follows it are operations of the portal client.\<close>

lemma sy_client_show [simp]: "sy_client (show_error m s) = sy_client s"
  by (simp add: show_error_def)

lemma on_client_state [simp]: "sy_client (snd (on_client f s)) = snd (f (sy_client s))"
  by (simp add: on_client_def split: prod.split)

definition client_runs :: "fw_env \<Rightarrow> (url \<Rightarrow> string \<Rightarrow> cookies \<Rightarrow> bool \<times> cookies) \<Rightarrow> fwc \<Rightarrow> fwc \<Rightarrow> bool" where
  "client_runs v saml h h' \<longleftrightarrow> (\<exists>ops. h' = fw_run v ops h \<and> (\<forall>op \<in> set ops. \<forall>f. op = Op_login_saml f \<longrightarrow> f = saml))"

lemma client_runs_refl: "client_runs v saml h h"
  by (auto simp: client_runs_def fw_run_def intro: exI [of _ "[]"])

lemma client_runs_trans: "client_runs v saml h h1 \<Longrightarrow> client_runs v saml h1 h2 \<Longrightarrow> client_runs v saml h h2"
  unfolding client_runs_def
proof (elim exE conjE)
  fix ops ops'
  assume "h1 = fw_run v ops h" "h2 = fw_run v ops' h1" "\<forall>op \<in> set ops. \<forall>f. op = Op_login_saml f \<longrightarrow> f = saml"
    "\<forall>op \<in> set ops'. \<forall>f. op = Op_login_saml f \<longrightarrow> f = saml"
  then show "\<exists>ops. h2 = fw_run v ops h \<and> (\<forall>op \<in> set ops. \<forall>f. op = Op_login_saml f \<longrightarrow> f = saml)"
    by (intro exI [of _ "ops @ ops'"]) (auto simp: fw_run_def)
qed

lemma client_runs_op:
  "(\<And>f. op = Op_login_saml f \<Longrightarrow> f = saml) \<Longrightarrow> client_runs v saml h (fw_step v op h)"
  unfolding client_runs_def by (intro exI [of _ "[op]"]) (simp add: fw_run_def)

lemmas client_runs_ops =
  client_runs_op [of "Op_login_basic c k" saml v h for c k saml v h, simplified]
  client_runs_op [of "Op_login_saml saml" saml v h for saml v h, simplified]
  client_runs_op [of "Op_get_info i" saml v h for i saml v h, simplified]
  client_runs_op [of "Op_get_config" saml v h for saml v h, simplified]

lemma io_bind_runs:
  assumes "client_runs v saml h (sy_client (snd m))" "\<And>x s. client_runs v saml h (sy_client s) \<Longrightarrow> client_runs v saml h (sy_client (snd (f x s)))"
  shows "client_runs v saml h (sy_client (snd (io_bind m f)))"
  using assms by (auto simp: io_bind_def split: prod.split sum.split)

lemma on_client_runs:
  assumes "client_runs v saml h (sy_client s)" "\<And>h. client_runs v saml h (snd (f h))"
  shows "client_runs v saml h (sy_client (snd (on_client f s)))"
  using client_runs_trans [OF assms(1) assms(2)] by simp

lemma login_attempts_runs:
  "client_runs v saml h (sy_client s) \<Longrightarrow> client_runs v saml h (sy_client (snd (login_attempts v attempts s)))"
proof (induction attempts arbitrary: s)
  case Nil
  show ?case unfolding login_attempts.simps by (rule on_client_runs [OF Nil]) (rule client_runs_ops)
next
  case (Cons a attempts)
  obtain c k where a: "a = (c, k)" by (cases a)
  show ?case unfolding a login_attempts.simps
    by (rule io_bind_runs) (auto simp: Let_def Cons(1) intro: on_client_runs [OF Cons(2)] client_runs_ops
        simp del: on_client_state)
qed

lemma sync_login_runs:
  "client_runs v saml h (sy_client s) \<Longrightarrow> client_runs v saml h (sy_client (snd (sync_login v auth attempts saml s)))"
  unfolding sync_login_def
  by (cases auth) (auto intro!: io_bind_runs on_client_runs login_attempts_runs client_runs_ops simp del: on_client_state)

lemma sync_info_runs:
  "client_runs v saml h (sy_client s) \<Longrightarrow> client_runs v saml h (sy_client (snd (sync_info v s)))"
  unfolding sync_info_def
  by (auto intro!: io_bind_runs on_client_runs client_runs_ops simp del: on_client_state split: if_splits)

text \<open>A login without credentials never ends the way that makes the loop go on.\<close>

lemma cancelled_not_denied: "fst (fw_login_basic v None codes h) \<noteq> Inr ACCESS_DENIED"
  by (auto simp: fw_login_basic_def Let_def io_bind_def split: prod.splits sum.splits if_splits)

text \<open>The command line of a task always exists: the values of its variables bring no variable in.\<close>

lemma task_vars_values:
  assumes "36 \<notin> set (s2w (hostname ep))" "36 \<notin> set (s2w (to_string (port ep)))"
  shows "\<forall>(k, v) \<in> set (task_vars ep). 36 \<notin> set (s2w v)" "task_vars ep \<noteq> []"
proof -
  have "task_vars ep = [(''host'', hostname ep), (''port'', to_string (port ep))]"
  proof -
    have "ikey ''host'' < ikey ''port''" "\<not> ikey ''port'' < ikey ''host''" "ikey ''port'' \<noteq> ikey ''host''" by code_simp+
    then show ?thesis by (simp add: task_vars_def)
  qed
  with assms show "\<forall>(k, v) \<in> set (task_vars ep). 36 \<notin> set (s2w v)" "task_vars ep \<noteq> []" by auto
qed

lemma task_cmdline_total:
  assumes "36 \<notin> set (s2w (hostname ep))" "36 \<notin> set (s2w (to_string (port ep)))"
  shows "\<exists>c. task_cmdline w2s s2w ep p params = Some c"
proof -
  have "\<exists>r. substvar w2s s2w t (task_vars ep) = Some r" for t
    using substvar_loop_terminates [OF task_vars_values(1) [OF assms], of w2s t] by (auto simp: substvar_def)
  then have "\<exists>c. task_add_parameters w2s s2w (task_vars ep) params c0 = Some c" for c0
    by (induction params arbitrary: c0) (simp_all, metis option.simps(5))
  then show ?thesis by (simp add: task_cmdline_def)
qed

end
