(* ===== verification/Controller.thy ===== *)
theory Controller
  imports Prelude "HOL-Library.Sublist"
begin

text \<open>
  The controller of the dialog (\<^verbatim>\<open>ui/AsyncController.cpp\<close>) with the part of the dialog that drives it
  (\<^verbatim>\<open>ui/ConnectDialog.cpp\<close>), as a step relation of two threads.

  \<^item> The controller thread runs one procedure after the other. It tells with the event \<^verbatim>\<open>_readyEvent\<close> that it
    takes a request and waits for \<^verbatim>\<open>_requestEvent\<close>; both are reset by the wait that they end. The user
    interface asks with \<^verbatim>\<open>request_action\<close>, which waits for the first, writes \<^verbatim>\<open>_action\<close> and sets the second.
    Only the thread of the user interface asks, so that the mutex is always free.
  \<^item> A procedure ends by posting an event to the window. While it runs, \<^verbatim>\<open>SyncConnect\<close> may send the window a
    request for a dialog and \<^verbatim>\<open>SyncWaitTask\<close> sends its request to disconnect: \<^verbatim>\<open>SendMessage\<close>, which returns
    when the thread of the window has handled the message.
  \<^item> The user can press the buttons that are enabled and visible; \<open>ct_posted\<close> are the events the window has not
    handled yet. The parameter \<open>mon\<close>: a started application is monitored (single client).

  What the procedures do is in theory \<open>SyncProcs\<close>; here they end with any result, or throw. The calls of the
  Windows API on valid handles do not fail. \<open>ct_requested\<close> and \<open>ct_executed\<close> record the actions, the first when
  \<^verbatim>\<open>_action\<close> is written and the second when the controller reads it.
\<close>

section \<open>State\<close>

datatype ctl_action = NONE | CONNECT | TUNNEL | DISCONNECT | MONITOR_TASK | TERMINATE

datatype ctl_proc = P_connect | P_wait_tunnel | P_disconnect | P_wait_task

datatype ctl_phase = Ph_loop | Ph_wait | Ph_woken | Ph_proc ctl_proc | Ph_message ctl_proc | Ph_done

datatype ui_phase = Ui_idle | Ui_wants ctl_action | Ui_owns ctl_action | Ui_sets ctl_action | Ui_gone

datatype ui_event = Connected_event bool | Disconnected_event bool | Listening_event bool

record ctl =
  ct_phase :: ctl_phase
  ct_ready :: bool
  ct_request :: bool
  ct_action :: ctl_action
  ct_wait_eot :: bool
  ct_client :: bool
  ct_tunnel :: bool
  ct_ui :: ui_phase
  ct_handling :: bool
  ct_posted :: "ui_event list"
  ct_connect_on :: bool
  ct_disconnect_on :: bool
  ct_disconnect_visible :: bool
  ct_quit_on :: bool
  ct_requested :: "ctl_action list"
  ct_executed :: "ctl_action list"

definition ctl_start :: ctl where
  "ctl_start =
     \<lparr>ct_phase = Ph_loop, ct_ready = False, ct_request = False, ct_action = NONE, ct_wait_eot = False, ct_client = False,
      ct_tunnel = False, ct_ui = Ui_idle, ct_handling = False, ct_posted = [], ct_connect_on = True, ct_disconnect_on = True,
      ct_disconnect_visible = False, ct_quit_on = True, ct_requested = [], ct_executed = []\<rparr>"

section \<open>The controller thread\<close>

text \<open>The switch over the action; an action without its object does nothing.\<close>

definition ctl_dispatch :: "ctl \<Rightarrow> ctl" where
  "ctl_dispatch s0 =
     (let s = s0\<lparr>ct_executed := ct_executed s0 @ [ct_action s0]\<rparr> in
      case ct_action s of
        CONNECT \<Rightarrow> s\<lparr>ct_phase := (if ct_client s then Ph_proc P_connect else Ph_loop)\<rparr>
      | TUNNEL \<Rightarrow> s\<lparr>ct_phase := (if ct_tunnel s then Ph_proc P_wait_tunnel else Ph_loop)\<rparr>
      | DISCONNECT \<Rightarrow> s\<lparr>ct_phase := (if ct_client s then Ph_proc P_disconnect else Ph_loop)\<rparr>
      | MONITOR_TASK \<Rightarrow> s\<lparr>ct_wait_eot := True, ct_phase := Ph_loop\<rparr>
      | TERMINATE \<Rightarrow> s\<lparr>ct_phase := Ph_done\<rparr>
      | NONE \<Rightarrow> s\<lparr>ct_phase := Ph_loop\<rparr>)"

text \<open>The event that tells the result of a procedure. The end of a task is a message, not an event.\<close>

fun proc_event :: "ctl_proc \<Rightarrow> bool \<Rightarrow> ui_event list" where
  "proc_event P_connect b = [Connected_event b]"
| "proc_event P_wait_tunnel b = [Listening_event b]"
| "proc_event P_disconnect b = [Disconnected_event b]"
| "proc_event P_wait_task b = []"

text \<open>The procedures that send messages to the window.\<close>

definition sends_message :: "ctl_proc \<Rightarrow> bool" where
  "sends_message p \<longleftrightarrow> p = P_connect \<or> p = P_wait_task"

section \<open>The user interface\<close>

text \<open>\<^verbatim>\<open>ConnectDialog::connect\<close>, when it does not refuse the input, and \<^verbatim>\<open>ConnectDialog::disconnect\<close>.\<close>

definition ui_connect :: "ctl \<Rightarrow> ctl" where
  "ui_connect s = s\<lparr>ct_connect_on := False, ct_disconnect_on := False, ct_quit_on := False, ct_disconnect_visible := True,
     ct_client := True, ct_ui := Ui_wants CONNECT\<rparr>"

definition ui_disconnect :: "ctl \<Rightarrow> ctl" where
  "ui_disconnect s = s\<lparr>ct_disconnect_on := False, ct_ui := Ui_wants DISCONNECT\<rparr>"

text \<open>The window is destroyed and the destructor of the dialog terminates the controller.\<close>

definition ui_quit :: "ctl \<Rightarrow> ctl" where
  "ui_quit s = s\<lparr>ct_connect_on := False, ct_disconnect_on := False, ct_quit_on := False, ct_ui := Ui_wants TERMINATE\<rparr>"

text \<open>\<^verbatim>\<open>AsyncController::create_tunnel\<close> and the request of \<^verbatim>\<open>AsyncController::start_task\<close>; \<open>started\<close> tells whether there
  is an application to start and it was started.\<close>

definition ui_create_tunnel :: "ctl \<Rightarrow> ctl" where
  "ui_create_tunnel s =
     (let s1 = s\<lparr>ct_tunnel := False\<rparr>
      in if ct_client s1 then s1\<lparr>ct_tunnel := True, ct_ui := Ui_wants TUNNEL\<rparr> else s1)"

definition ui_start_task :: "bool \<Rightarrow> bool \<Rightarrow> ctl \<Rightarrow> ctl" where
  "ui_start_task mon started s = (if ct_tunnel s \<and> started \<and> mon then s\<lparr>ct_ui := Ui_wants MONITOR_TASK\<rparr> else s)"

text \<open>The handlers of the events.\<close>

fun ui_handle :: "bool \<Rightarrow> bool \<Rightarrow> ui_event \<Rightarrow> ctl \<Rightarrow> ctl" where
  "ui_handle mon started (Connected_event b) s = (if \<not> b then ui_disconnect s else ui_create_tunnel s)"
| "ui_handle mon started (Disconnected_event b) s =
     s\<lparr>ct_connect_on := True, ct_disconnect_on := True, ct_quit_on := True, ct_disconnect_visible := False\<rparr>"
| "ui_handle mon started (Listening_event b) s =
     (let s1 = s\<lparr>ct_disconnect_on := True\<rparr> in if \<not> b then ui_disconnect s1 else ui_start_task mon started s1)"

section \<open>Steps\<close>

definition ui_free :: "ctl \<Rightarrow> bool" where
  "ui_free s \<longleftrightarrow> ct_ui s = Ui_idle \<and> \<not> ct_handling s"

inductive ctl_step :: "bool \<Rightarrow> ctl \<Rightarrow> ctl \<Rightarrow> bool" for mon where
  set_ready: "ct_phase s = Ph_loop \<Longrightarrow> ctl_step mon s (s\<lparr>ct_ready := True, ct_phase := Ph_wait\<rparr>)"
| wake_request: "ct_phase s = Ph_wait \<Longrightarrow> ct_request s \<Longrightarrow> ctl_step mon s (s\<lparr>ct_request := False, ct_phase := Ph_woken\<rparr>)"
| wake_task: "ct_phase s = Ph_wait \<Longrightarrow> \<not> ct_request s \<Longrightarrow> ct_wait_eot s \<Longrightarrow>
    ctl_step mon s (s\<lparr>ct_wait_eot := False, ct_phase := Ph_proc P_wait_task\<rparr>)"
| dispatch: "ct_phase s = Ph_woken \<Longrightarrow> ctl_step mon s (ctl_dispatch s)"
| message: "ct_phase s = Ph_proc p \<Longrightarrow> sends_message p \<Longrightarrow> ctl_step mon s (s\<lparr>ct_phase := Ph_message p\<rparr>)"
| deliver: "ct_phase s = Ph_message p \<Longrightarrow> ui_free s \<Longrightarrow>
    ctl_step mon s (let s1 = s\<lparr>ct_handling := True\<rparr> in if p = P_wait_task then ui_disconnect s1 else s1)"
| reply: "ct_phase s = Ph_message p \<Longrightarrow> ct_handling s \<Longrightarrow> ct_ui s = Ui_idle \<Longrightarrow>
    ctl_step mon s (s\<lparr>ct_handling := False, ct_phase := (if p = P_wait_task then Ph_loop else Ph_proc p)\<rparr>)"
| finish: "ct_phase s = Ph_proc p \<Longrightarrow> p \<noteq> P_wait_task \<Longrightarrow>
    ctl_step mon s (s\<lparr>ct_posted := ct_posted s @ proc_event p b, ct_phase := Ph_loop\<rparr>)"
| throw: "ct_phase s = Ph_proc p \<Longrightarrow> p \<noteq> P_wait_task \<Longrightarrow> ctl_step mon s (s\<lparr>ct_phase := Ph_done\<rparr>)"
| click_connect: "ui_free s \<Longrightarrow> ct_connect_on s \<Longrightarrow> ctl_step mon s (ui_connect s)"
| click_disconnect: "ui_free s \<Longrightarrow> ct_disconnect_on s \<Longrightarrow> ct_disconnect_visible s \<Longrightarrow> ctl_step mon s (ui_disconnect s)"
| click_quit: "ui_free s \<Longrightarrow> ct_quit_on s \<Longrightarrow> ctl_step mon s (ui_quit s)"
| handle_event: "ui_free s \<Longrightarrow> ct_posted s = e # es \<Longrightarrow> ctl_step mon s (ui_handle mon started e (s\<lparr>ct_posted := es\<rparr>))"
| take_ready: "ct_ui s = Ui_wants a \<Longrightarrow> ct_ready s \<Longrightarrow> ctl_step mon s (s\<lparr>ct_ready := False, ct_ui := Ui_owns a\<rparr>)"
| write_action: "ct_ui s = Ui_owns a \<Longrightarrow>
    ctl_step mon s (s\<lparr>ct_action := a, ct_requested := ct_requested s @ [a], ct_ui := Ui_sets a\<rparr>)"
| set_request: "ct_ui s = Ui_sets a \<Longrightarrow>
    ctl_step mon s (s\<lparr>ct_request := True, ct_ui := (if a = TERMINATE then Ui_gone else Ui_idle)\<rparr>)"

inductive_cases ctl_stepE: "ctl_step mon s s'"

definition ctl_reach :: "bool \<Rightarrow> ctl \<Rightarrow> bool" where
  "ctl_reach mon s \<longleftrightarrow> (ctl_step mon)\<^sup>*\<^sup>* ctl_start s"

lemma ctl_reach_induct [consumes 1, case_names start step]:
  assumes "ctl_reach mon s" "P ctl_start" "\<And>s s'. ctl_reach mon s \<Longrightarrow> P s \<Longrightarrow> ctl_step mon s s' \<Longrightarrow> P s'"
  shows "P s"
  using assms(1) unfolding ctl_reach_def
proof (induction rule: rtranclp_induct)
  case base
  show ?case by (rule assms(2))
next
  case (step y z)
  with assms(3) [of y z] show ?case by (simp add: ctl_reach_def)
qed

section \<open>An executable schedule\<close>

text \<open>A label tells which rule is used, with the choices it leaves open. The schedule runs the rules; it is the
  step relation (\<open>ctl_step_next\<close>).\<close>

datatype ctl_label =
    L_set_ready | L_wake_request | L_wake_task | L_dispatch | L_message | L_deliver | L_reply | L_finish bool | L_throw
  | L_click_connect | L_click_disconnect | L_click_quit | L_event bool | L_take_ready | L_write_action | L_set_request

definition guarded :: "bool \<Rightarrow> ctl \<Rightarrow> ctl option" where
  "guarded g s = (if g then Some s else None)"

fun ctl_next :: "bool \<Rightarrow> ctl_label \<Rightarrow> ctl \<Rightarrow> ctl option" where
  "ctl_next mon L_set_ready s = guarded (ct_phase s = Ph_loop) (s\<lparr>ct_ready := True, ct_phase := Ph_wait\<rparr>)"
| "ctl_next mon L_wake_request s =
     guarded (ct_phase s = Ph_wait \<and> ct_request s) (s\<lparr>ct_request := False, ct_phase := Ph_woken\<rparr>)"
| "ctl_next mon L_wake_task s =
     guarded (ct_phase s = Ph_wait \<and> \<not> ct_request s \<and> ct_wait_eot s)
       (s\<lparr>ct_wait_eot := False, ct_phase := Ph_proc P_wait_task\<rparr>)"
| "ctl_next mon L_dispatch s = guarded (ct_phase s = Ph_woken) (ctl_dispatch s)"
| "ctl_next mon L_message s =
     (case ct_phase s of Ph_proc p \<Rightarrow> guarded (sends_message p) (s\<lparr>ct_phase := Ph_message p\<rparr>) | _ \<Rightarrow> None)"
| "ctl_next mon L_deliver s =
     (case ct_phase s of
        Ph_message p \<Rightarrow>
          guarded (ui_free s) (let s1 = s\<lparr>ct_handling := True\<rparr> in if p = P_wait_task then ui_disconnect s1 else s1)
      | _ \<Rightarrow> None)"
| "ctl_next mon L_reply s =
     (case ct_phase s of
        Ph_message p \<Rightarrow> guarded (ct_handling s \<and> ct_ui s = Ui_idle)
          (s\<lparr>ct_handling := False, ct_phase := (if p = P_wait_task then Ph_loop else Ph_proc p)\<rparr>)
      | _ \<Rightarrow> None)"
| "ctl_next mon (L_finish b) s =
     (case ct_phase s of
        Ph_proc p \<Rightarrow> guarded (p \<noteq> P_wait_task) (s\<lparr>ct_posted := ct_posted s @ proc_event p b, ct_phase := Ph_loop\<rparr>)
      | _ \<Rightarrow> None)"
| "ctl_next mon L_throw s =
     (case ct_phase s of Ph_proc p \<Rightarrow> guarded (p \<noteq> P_wait_task) (s\<lparr>ct_phase := Ph_done\<rparr>) | _ \<Rightarrow> None)"
| "ctl_next mon L_click_connect s = guarded (ui_free s \<and> ct_connect_on s) (ui_connect s)"
| "ctl_next mon L_click_disconnect s = guarded (ui_free s \<and> ct_disconnect_on s \<and> ct_disconnect_visible s) (ui_disconnect s)"
| "ctl_next mon L_click_quit s = guarded (ui_free s \<and> ct_quit_on s) (ui_quit s)"
| "ctl_next mon (L_event started) s =
     (case ct_posted s of [] \<Rightarrow> None | e # es \<Rightarrow> guarded (ui_free s) (ui_handle mon started e (s\<lparr>ct_posted := es\<rparr>)))"
| "ctl_next mon L_take_ready s =
     (case ct_ui s of Ui_wants a \<Rightarrow> guarded (ct_ready s) (s\<lparr>ct_ready := False, ct_ui := Ui_owns a\<rparr>) | _ \<Rightarrow> None)"
| "ctl_next mon L_write_action s =
     (case ct_ui s of
        Ui_owns a \<Rightarrow> Some (s\<lparr>ct_action := a, ct_requested := ct_requested s @ [a], ct_ui := Ui_sets a\<rparr>)
      | _ \<Rightarrow> None)"
| "ctl_next mon L_set_request s =
     (case ct_ui s of
        Ui_sets a \<Rightarrow> Some (s\<lparr>ct_request := True, ct_ui := (if a = TERMINATE then Ui_gone else Ui_idle)\<rparr>)
      | _ \<Rightarrow> None)"

lemma guarded_Some [simp]: "guarded g s = Some s' \<longleftrightarrow> g \<and> s' = s"
  by (auto simp: guarded_def)

lemma next_step:
  assumes "ctl_next mon l s = Some s'"
  shows "ctl_step mon s s'"
proof (cases l)
  case L_reply
  with assms show ?thesis by (auto split: ctl_phase.splits intro: ctl_step.intros split del: if_split)
qed (use assms in \<open>auto split: ctl_phase.splits ui_phase.splits list.splits intro: ctl_step.intros\<close>)

lemma step_next: "ctl_step mon s s' \<Longrightarrow> \<exists>l. ctl_next mon l s = Some s'"
proof (induction rule: ctl_step.induct)
  case (set_ready s) then show ?case by (intro exI [of _ L_set_ready]) simp
next
  case (wake_request s) then show ?case by (intro exI [of _ L_wake_request]) simp
next
  case (wake_task s) then show ?case by (intro exI [of _ L_wake_task]) simp
next
  case (dispatch s) then show ?case by (intro exI [of _ L_dispatch]) simp
next
  case (message s p) then show ?case by (intro exI [of _ L_message]) simp
next
  case (deliver s p) then show ?case by (intro exI [of _ L_deliver]) simp
next
  case (reply s p) then show ?case by (intro exI [of _ L_reply]) simp
next
  case (finish s p b) then show ?case by (intro exI [of _ "L_finish b"]) simp
next
  case (throw s p) then show ?case by (intro exI [of _ L_throw]) simp
next
  case (click_connect s) then show ?case by (intro exI [of _ L_click_connect]) simp
next
  case (click_disconnect s) then show ?case by (intro exI [of _ L_click_disconnect]) simp
next
  case (click_quit s) then show ?case by (intro exI [of _ L_click_quit]) simp
next
  case (handle_event s e es started) then show ?case by (intro exI [of _ "L_event started"]) simp
next
  case (take_ready s a) then show ?case by (intro exI [of _ L_take_ready]) simp
next
  case (write_action s a) then show ?case by (intro exI [of _ L_write_action]) simp
next
  case (set_request s a) then show ?case by (intro exI [of _ L_set_request]) simp
qed

lemma ctl_step_next: "ctl_step mon s s' \<longleftrightarrow> (\<exists>l. ctl_next mon l s = Some s')"
  using next_step step_next by blast

fun ctl_path :: "bool \<Rightarrow> ctl_label list \<Rightarrow> ctl \<Rightarrow> ctl option" where
  "ctl_path mon [] s = Some s"
| "ctl_path mon (l # ls) s = (case ctl_next mon l s of None \<Rightarrow> None | Some s' \<Rightarrow> ctl_path mon ls s')"

lemma path_steps: "ctl_path mon ls s = Some s' \<Longrightarrow> (ctl_step mon)\<^sup>*\<^sup>* s s'"
  by (induction ls arbitrary: s) (auto split: option.splits dest: next_step intro: converse_rtranclp_into_rtranclp)

lemma path_relpowp: "ctl_path mon ls s = Some s' \<Longrightarrow> ((ctl_step mon) ^^ length ls) s s'"
  by (induction ls arbitrary: s) (auto split: option.splits dest: next_step intro: relpowp_Suc_I2 simp del: relpowp.simps(2))

lemma path_reach: "ctl_path mon ls ctl_start = Some s \<Longrightarrow> ctl_reach mon s"
  by (simp add: ctl_reach_def path_steps)

section \<open>Without a monitored task\<close>

text \<open>The life of a request, from the user interface through the event to the thread. Without a monitored task
  every reachable state is at one stage, so that the two threads never work on two requests.\<close>

fun proc_action :: "ctl_proc \<Rightarrow> ctl_action" where
  "proc_action P_connect = CONNECT"
| "proc_action P_wait_tunnel = TUNNEL"
| "proc_action P_disconnect = DISCONNECT"
| "proc_action P_wait_task = MONITOR_TASK"

datatype ctl_stage =
    St_rest | St_asked ctl_action | St_owned ctl_action | St_written ctl_action | St_requested ctl_action
  | St_woken ctl_action | St_running ctl_proc | St_done

definition buttons_off :: "ctl \<Rightarrow> bool" where
  "buttons_off s \<longleftrightarrow> \<not> ct_connect_on s \<and> \<not> ct_disconnect_on s \<and> \<not> ct_quit_on s"

text \<open>What is on while the threads rest: after the start and a disconnection, with a tunnel, and with a posted event.\<close>

definition rest_ok :: "ctl \<Rightarrow> bool" where
  "rest_ok s \<longleftrightarrow>
     ct_posted s = [] \<and> ct_connect_on s \<and> ct_quit_on s \<and> \<not> ct_disconnect_visible s \<or>
     ct_posted s = [] \<and> \<not> ct_connect_on s \<and> \<not> ct_quit_on s \<and> ct_disconnect_on s \<and> ct_disconnect_visible s \<and> ct_client s \<or>
     length (ct_posted s) = 1 \<and> buttons_off s \<and> ct_disconnect_visible s \<and> ct_client s"

text \<open>The object of an action exists.\<close>

definition action_ok :: "ctl \<Rightarrow> ctl_action \<Rightarrow> bool" where
  "action_ok s a \<longleftrightarrow> a = TERMINATE \<or> a \<in> {CONNECT, TUNNEL, DISCONNECT} \<and> ct_client s \<and> ct_disconnect_visible s \<and> (a = TUNNEL \<longrightarrow> ct_tunnel s)"

definition thread_rests :: "ctl \<Rightarrow> bool" where
  "thread_rests s \<longleftrightarrow> ct_phase s = Ph_loop \<and> \<not> ct_ready s \<or> ct_phase s = Ph_wait \<and> ct_ready s"

definition ui_after :: "ctl_action \<Rightarrow> ui_phase" where
  "ui_after a = (if a = TERMINATE then Ui_gone else Ui_idle)"

fun stage_ok :: "ctl_stage \<Rightarrow> ctl \<Rightarrow> bool" where
  "stage_ok St_rest s \<longleftrightarrow> thread_rests s \<and> \<not> ct_request s \<and> ui_free s \<and> rest_ok s \<and> ct_requested s = ct_executed s"
| "stage_ok (St_asked a) s \<longleftrightarrow> thread_rests s \<and> \<not> ct_request s \<and> ct_ui s = Ui_wants a \<and> \<not> ct_handling s \<and>
     buttons_off s \<and> ct_posted s = [] \<and> action_ok s a \<and> ct_requested s = ct_executed s"
| "stage_ok (St_owned a) s \<longleftrightarrow> ct_phase s = Ph_wait \<and> \<not> ct_ready s \<and> \<not> ct_request s \<and> ct_ui s = Ui_owns a \<and> \<not> ct_handling s \<and>
     buttons_off s \<and> ct_posted s = [] \<and> action_ok s a \<and> ct_requested s = ct_executed s"
| "stage_ok (St_written a) s \<longleftrightarrow> ct_phase s = Ph_wait \<and> \<not> ct_ready s \<and> \<not> ct_request s \<and> ct_ui s = Ui_sets a \<and> \<not> ct_handling s \<and>
     buttons_off s \<and> ct_posted s = [] \<and> action_ok s a \<and> ct_action s = a \<and> ct_requested s = ct_executed s @ [a]"
| "stage_ok (St_requested a) s \<longleftrightarrow> ct_phase s = Ph_wait \<and> \<not> ct_ready s \<and> ct_request s \<and> ct_ui s = ui_after a \<and> \<not> ct_handling s \<and>
     buttons_off s \<and> ct_posted s = [] \<and> action_ok s a \<and> ct_action s = a \<and> ct_requested s = ct_executed s @ [a]"
| "stage_ok (St_woken a) s \<longleftrightarrow> ct_phase s = Ph_woken \<and> \<not> ct_ready s \<and> \<not> ct_request s \<and> ct_ui s = ui_after a \<and> \<not> ct_handling s \<and>
     buttons_off s \<and> ct_posted s = [] \<and> action_ok s a \<and> ct_action s = a \<and> ct_requested s = ct_executed s @ [a]"
| "stage_ok (St_running p) s \<longleftrightarrow> p \<noteq> P_wait_task \<and> (ct_phase s = Ph_proc p \<and> \<not> ct_handling s \<or> ct_phase s = Ph_message p \<and> p = P_connect) \<and>
     \<not> ct_ready s \<and> \<not> ct_request s \<and> ct_ui s = Ui_idle \<and> buttons_off s \<and> ct_posted s = [] \<and> ct_client s \<and> ct_disconnect_visible s \<and>
     (\<exists>as. ct_executed s = as @ [proc_action p]) \<and> ct_requested s = ct_executed s"
| "stage_ok St_done s \<longleftrightarrow> ct_phase s = Ph_done \<and> \<not> ct_ready s \<and> \<not> ct_request s \<and> \<not> ct_handling s \<and> buttons_off s \<and> ct_posted s = [] \<and>
     (\<exists>as a. ct_executed s = as @ [a] \<and> ct_ui s = ui_after a) \<and> ct_requested s = ct_executed s"

definition ctl_inv :: "ctl \<Rightarrow> bool" where
  "ctl_inv s \<longleftrightarrow> \<not> ct_wait_eot s \<and> (\<exists>st. stage_ok st s)"

lemma ctl_invI: "\<not> ct_wait_eot s \<Longrightarrow> stage_ok st s \<Longrightarrow> ctl_inv s"
  by (auto simp: ctl_inv_def)

lemmas stage_defs = thread_rests_def ui_free_def rest_ok_def buttons_off_def action_ok_def ui_after_def

lemmas ui_defs = ui_connect_def ui_disconnect_def ui_quit_def ui_create_tunnel_def ui_start_task_def

lemma ctl_inv_start: "ctl_inv ctl_start"
  by (rule ctl_invI [of _ St_rest]) (simp_all add: ctl_start_def stage_defs)

text \<open>At rest the thread may get ready, and the user or an event may ask.\<close>

lemma rest_event:
  assumes "stage_ok St_rest s" "\<not> ct_wait_eot s" "ct_posted s = e # es"
  shows "ctl_inv (ui_handle False started e (s\<lparr>ct_posted := es\<rparr>))"
proof -
  have r: "thread_rests s" "\<not> ct_request s" "ui_free s" "ct_requested s = ct_executed s" "es = []" "buttons_off s" "ct_client s"
    "ct_disconnect_visible s"
    using assms by (auto simp: rest_ok_def)
  show ?thesis
  proof (cases e)
    case (Connected_event b)
    show ?thesis
    proof (cases b)
      case True
      with r assms(2) Connected_event show ?thesis
        by (intro ctl_invI [of _ "St_asked TUNNEL"]) (auto simp: ui_defs stage_defs Let_def)
    next
      case False
      with r assms(2) Connected_event show ?thesis
        by (intro ctl_invI [of _ "St_asked DISCONNECT"]) (auto simp: ui_defs stage_defs Let_def)
    qed
  next
    case (Disconnected_event b)
    with r assms(2) show ?thesis by (intro ctl_invI [of _ St_rest]) (auto simp: stage_defs)
  next
    case (Listening_event b)
    show ?thesis
    proof (cases b)
      case True
      with r assms(2) Listening_event show ?thesis
        by (intro ctl_invI [of _ St_rest]) (auto simp: ui_defs stage_defs Let_def)
    next
      case False
      with r assms(2) Listening_event show ?thesis
        by (intro ctl_invI [of _ "St_asked DISCONNECT"]) (auto simp: ui_defs stage_defs Let_def)
    qed
  qed
qed


lemma rest_step:
  assumes "ctl_step False s s'" "stage_ok St_rest s" "\<not> ct_wait_eot s"
  shows "ctl_inv s'"
  using assms(1)
proof (cases rule: ctl_step.cases)
  case set_ready
  with assms(2,3) show ?thesis by (intro ctl_invI [of _ St_rest]) (auto simp: stage_defs)
next
  case click_connect
  with assms(2,3) show ?thesis by (intro ctl_invI [of _ "St_asked CONNECT"]) (auto simp: ui_defs stage_defs)
next
  case click_disconnect
  with assms(2,3) show ?thesis by (intro ctl_invI [of _ "St_asked DISCONNECT"]) (auto simp: ui_defs stage_defs)
next
  case click_quit
  with assms(2,3) show ?thesis by (intro ctl_invI [of _ "St_asked TERMINATE"]) (auto simp: ui_defs stage_defs)
next
  case (handle_event e es started)
  with rest_event [OF assms(2,3)] show ?thesis by simp
qed (use assms(2,3) in \<open>auto simp: stage_defs\<close>)

text \<open>A request goes from stage to stage.\<close>

lemma request_step:
  assumes "ctl_step False s s'" "\<not> ct_wait_eot s" "st \<in> {St_asked a, St_owned a, St_written a, St_requested a}" "stage_ok st s"
  shows "ctl_inv s'"
  using assms(1)
proof (cases rule: ctl_step.cases)
  case set_ready
  with assms show ?thesis by (intro ctl_invI [of _ "St_asked a"]) (auto simp: stage_defs)
next
  case take_ready
  with assms show ?thesis by (intro ctl_invI [of _ "St_owned a"]) (auto simp: stage_defs)
next
  case write_action
  with assms show ?thesis by (intro ctl_invI [of _ "St_written a"]) (auto simp: stage_defs)
next
  case set_request
  with assms show ?thesis by (intro ctl_invI [of _ "St_requested a"]) (auto simp: stage_defs)
next
  case wake_request
  with assms show ?thesis by (intro ctl_invI [of _ "St_woken a"]) (auto simp: stage_defs)
qed (use assms(2-4) in \<open>auto simp: stage_defs split: if_splits\<close>)

lemma woken_step:
  assumes "ctl_step False s s'" "\<not> ct_wait_eot s" "stage_ok (St_woken a) s"
  shows "ctl_inv s'"
  using assms(1)
proof (cases rule: ctl_step.cases)
  case dispatch
  show ?thesis
  proof (cases a)
    case CONNECT
    with assms(2,3) dispatch show ?thesis
      by (intro ctl_invI [of _ "St_running P_connect"]) (auto simp: stage_defs ctl_dispatch_def Let_def)
  next
    case TUNNEL
    with assms(2,3) dispatch show ?thesis
      by (intro ctl_invI [of _ "St_running P_wait_tunnel"]) (auto simp: stage_defs ctl_dispatch_def Let_def)
  next
    case DISCONNECT
    with assms(2,3) dispatch show ?thesis
      by (intro ctl_invI [of _ "St_running P_disconnect"]) (auto simp: stage_defs ctl_dispatch_def Let_def)
  next
    case TERMINATE
    with assms(2,3) dispatch show ?thesis
      by (intro ctl_invI [of _ St_done]) (auto simp: stage_defs ctl_dispatch_def Let_def)
  qed (use assms(3) in \<open>auto simp: stage_defs\<close>)
qed (use assms(2,3) in \<open>auto simp: stage_defs split: if_splits\<close>)

lemma running_step:
  assumes "ctl_step False s s'" "\<not> ct_wait_eot s" "stage_ok (St_running p) s"
  shows "ctl_inv s'"
  using assms(1)
proof (cases rule: ctl_step.cases)
  case (message q)
  with assms(2,3) show ?thesis
    by (intro ctl_invI [of _ "St_running p"]) (auto simp: stage_defs sends_message_def)
next
  case (deliver q)
  with assms(2,3) show ?thesis by (intro ctl_invI [of _ "St_running p"]) (auto simp: stage_defs)
next
  case (reply q)
  with assms(2,3) show ?thesis by (intro ctl_invI [of _ "St_running p"]) (auto simp: stage_defs)
next
  case (finish q b)
  with assms(2,3) show ?thesis by (intro ctl_invI [of _ St_rest]; cases q; auto simp: stage_defs)
next
  case (throw q)
  with assms(2,3) show ?thesis by (intro ctl_invI [of _ St_done]; cases q; auto simp: stage_defs)
qed (use assms(2,3) in \<open>auto simp: stage_defs\<close>)

lemma done_step: "ctl_step False s s' \<Longrightarrow> stage_ok St_done s \<Longrightarrow> False"
  by (erule ctl_step.cases) (auto simp: stage_defs split: if_splits)

lemma ctl_inv_step:
  assumes "ctl_step False s s'" "ctl_inv s"
  shows "ctl_inv s'"
proof -
  obtain st where st: "\<not> ct_wait_eot s" "stage_ok st s" using assms(2) by (auto simp: ctl_inv_def)
  show ?thesis
  proof (cases st)
    case St_rest
    with rest_step [OF assms(1)] st show ?thesis by blast
  next
    case (St_asked a)
    with request_step [OF assms(1) st(1), of st a] st show ?thesis by blast
  next
    case (St_owned a)
    with request_step [OF assms(1) st(1), of st a] st show ?thesis by blast
  next
    case (St_written a)
    with request_step [OF assms(1) st(1), of st a] st show ?thesis by blast
  next
    case (St_requested a)
    with request_step [OF assms(1) st(1), of st a] st show ?thesis by blast
  next
    case (St_woken a)
    with woken_step [OF assms(1) st(1)] st show ?thesis by blast
  next
    case (St_running p)
    with running_step [OF assms(1) st(1)] st show ?thesis by blast
  next
    case St_done
    with done_step [OF assms(1)] st show ?thesis by blast
  qed
qed

lemma ctl_reach_inv: "ctl_reach False s \<Longrightarrow> ctl_inv s"
  by (induction rule: ctl_reach_induct) (auto intro: ctl_inv_start ctl_inv_step)

lemma ctl_inv_cases:
  assumes "ctl_inv s"
  obtains st where "stage_ok st s" "\<not> ct_wait_eot s"
  using assms by (auto simp: ctl_inv_def)

section \<open>A request is served\<close>

text \<open>\<open>serving a as s\<close>: the action \<open>a\<close> is under way and not executed yet, after \<open>as\<close>. \<open>ctl_rank\<close> counts the steps
  that are left.\<close>

definition serving :: "ctl_action \<Rightarrow> ctl_action list \<Rightarrow> ctl \<Rightarrow> bool" where
  "serving a as s \<longleftrightarrow> \<not> ct_wait_eot s \<and> ct_executed s = as \<and>
     (stage_ok (St_asked a) s \<or> stage_ok (St_owned a) s \<or> stage_ok (St_written a) s \<or> stage_ok (St_requested a) s \<or>
      stage_ok (St_woken a) s)"

definition ctl_rank :: "ctl \<Rightarrow> nat" where
  "ctl_rank s = (case ct_ui s of
       Ui_wants _ \<Rightarrow> if ct_phase s = Ph_loop then 6 else 5
     | Ui_owns _ \<Rightarrow> 4
     | Ui_sets _ \<Rightarrow> 3
     | _ \<Rightarrow> if ct_request s then 2 else if ct_phase s = Ph_woken then 1 else 0)"

lemma serving_step:
  assumes "ctl_step False s s'" "serving a as s"
  shows "serving a as s' \<and> ctl_rank s' < ctl_rank s \<or> ct_executed s' = as @ [a]"
  using assms(1)
proof (cases rule: ctl_step.cases)
  case set_ready
  with assms(2) show ?thesis by (intro disjI1) (auto simp: serving_def stage_defs ctl_rank_def)
next
  case take_ready
  with assms(2) show ?thesis by (intro disjI1) (auto simp: serving_def stage_defs ctl_rank_def)
next
  case write_action
  with assms(2) show ?thesis by (intro disjI1) (auto simp: serving_def stage_defs ctl_rank_def split: if_splits)
next
  case set_request
  with assms(2) show ?thesis by (intro disjI1) (auto simp: serving_def stage_defs ctl_rank_def split: if_splits)
next
  case wake_request
  with assms(2) show ?thesis by (intro disjI1) (auto simp: serving_def stage_defs ctl_rank_def split: ui_phase.splits if_splits)
next
  case dispatch
  with assms(2) show ?thesis
    by (intro disjI2) (auto simp: serving_def stage_defs ctl_dispatch_def Let_def split: ctl_action.splits)
qed (use assms(2) in \<open>auto simp: serving_def stage_defs split: if_splits\<close>)

lemma serving_goes_on: "serving a as s \<Longrightarrow> \<exists>s'. ctl_step False s s'"
proof -
  assume s: "serving a as s"
  then consider "ct_phase s = Ph_loop" | "ct_ready s" "ct_ui s = Ui_wants a" | "ct_ui s = Ui_owns a" | "ct_ui s = Ui_sets a"
    | "ct_phase s = Ph_wait" "ct_request s" | "ct_phase s = Ph_woken"
    by (auto simp: serving_def stage_defs)
  then show ?thesis by cases (blast intro: ctl_step.intros)+
qed

lemma executed_grows: "ctl_step mon s s' \<Longrightarrow> prefix (ct_executed s) (ct_executed s')"
proof (induction rule: ctl_step.induct)
  case (dispatch s)
  then show ?case by (auto simp: ctl_dispatch_def Let_def prefix_def split: ctl_action.split)
next
  case (handle_event s e es started)
  then show ?case by (cases e) (auto simp: ui_defs Let_def)
qed (auto simp: ui_defs Let_def)

lemma executed_grows_steps: "(ctl_step mon)\<^sup>*\<^sup>* s s' \<Longrightarrow> prefix (ct_executed s) (ct_executed s')"
  by (induction rule: rtranclp_induct) (auto intro: executed_grows prefix_order.trans)

lemma serving_run:
  "serving a as s \<Longrightarrow> ((ctl_step False) ^^ n) s s' \<Longrightarrow> prefix (as @ [a]) (ct_executed s') \<or> serving a as s' \<and> ctl_rank s' + n \<le> ctl_rank s"
proof (induction n arbitrary: s')
  case (Suc n)
  from Suc(3) obtain t where t: "((ctl_step False) ^^ n) s t" "ctl_step False t s'" by auto
  from Suc(1) [OF Suc(2) t(1)] show ?case
  proof (elim disjE)
    assume "prefix (as @ [a]) (ct_executed t)"
    then show ?thesis using executed_grows [OF t(2)] prefix_order.trans by blast
  next
    assume "serving a as t \<and> ctl_rank t + n \<le> ctl_rank s"
    then show ?thesis using serving_step [OF t(2), of a as] by auto
  qed
qed simp

lemma asked_serving:
  assumes "ctl_inv s" "ct_ui s = Ui_wants a"
  shows "serving a (ct_executed s) s"
proof -
  obtain st where "stage_ok st s" "\<not> ct_wait_eot s" using assms(1) by (rule ctl_inv_cases)
  with assms(2) show ?thesis by (cases st) (auto simp: serving_def ui_free_def ui_after_def split: if_splits)
qed

lemma ctl_rank_le: "ctl_rank s \<le> 6"
  by (auto simp: ctl_rank_def split: ui_phase.split)

section \<open>The dialog can be left\<close>

text \<open>Some continuation leads from the one stage to the other.\<close>

definition leads :: "(ctl \<Rightarrow> bool) \<Rightarrow> (ctl \<Rightarrow> bool) \<Rightarrow> bool" where
  "leads P Q \<longleftrightarrow> (\<forall>s. P s \<and> \<not> ct_wait_eot s \<longrightarrow> (\<exists>s'. (ctl_step False)\<^sup>*\<^sup>* s s' \<and> Q s' \<and> \<not> ct_wait_eot s'))"

lemma leads_trans [trans]: "leads P Q \<Longrightarrow> leads Q R \<Longrightarrow> leads P R"
  unfolding leads_def by (meson rtranclp_trans)

lemma leads_path:
  assumes "\<And>s. P s \<Longrightarrow> \<not> ct_wait_eot s \<Longrightarrow> \<exists>s'. ctl_path False ls s = Some s' \<and> Q s' \<and> \<not> ct_wait_eot s'"
  shows "leads P Q"
  unfolding leads_def using assms path_steps by blast

text \<open>A request that is executed: the thread has ended, or runs the procedure.\<close>

definition executed :: "ctl_action \<Rightarrow> ctl \<Rightarrow> bool" where
  "executed a s \<longleftrightarrow> (if a = TERMINATE then stage_ok St_done s \<and> last (ct_executed s) = TERMINATE
     else \<exists>p. proc_action p = a \<and> stage_ok (St_running p) s)"

lemma woken_executed: "leads (stage_ok (St_woken a)) (executed a)"
proof (rule leads_path [of _ "[L_dispatch]"])
  fix s assume s: "stage_ok (St_woken a) s" "\<not> ct_wait_eot s"
  then have "executed a (ctl_dispatch s) \<and> \<not> ct_wait_eot (ctl_dispatch s)"
    by (cases a) (auto simp: executed_def stage_defs ctl_dispatch_def Let_def intro: exI [of _ P_connect]
      exI [of _ P_wait_tunnel] exI [of _ P_disconnect])
  with s show "\<exists>s'. ctl_path False [L_dispatch] s = Some s' \<and> executed a s' \<and> \<not> ct_wait_eot s'"
    by (simp add: guarded_def)
qed

lemma requested_executed: "leads (stage_ok (St_requested a)) (executed a)"
proof -
  have "leads (stage_ok (St_requested a)) (stage_ok (St_woken a))"
    by (rule leads_path [of _ "[L_wake_request]"]) (auto simp: guarded_def stage_defs)
  from leads_trans [OF this woken_executed] show ?thesis .
qed

lemma written_executed: "leads (stage_ok (St_written a)) (executed a)"
proof -
  have "leads (stage_ok (St_written a)) (stage_ok (St_requested a))"
    by (rule leads_path [of _ "[L_set_request]"]) (auto simp: guarded_def stage_defs)
  from leads_trans [OF this requested_executed] show ?thesis .
qed

lemma owned_executed: "leads (stage_ok (St_owned a)) (executed a)"
proof -
  have "leads (stage_ok (St_owned a)) (stage_ok (St_written a))"
    by (rule leads_path [of _ "[L_write_action]"]) (auto simp: guarded_def stage_defs)
  from leads_trans [OF this written_executed] show ?thesis .
qed

lemma thread_gets_ready:
  "leads (\<lambda>s. stage_ok st s \<and> ct_phase s = Ph_loop \<and> \<not> ct_ready s) (\<lambda>s. stage_ok st s \<and> ct_ready s)"
proof (rule leads_path [of _ "[L_set_ready]"])
  fix s assume "stage_ok st s \<and> ct_phase s = Ph_loop \<and> \<not> ct_ready s" "\<not> ct_wait_eot s"
  then show "\<exists>s'. ctl_path False [L_set_ready] s = Some s' \<and> (stage_ok st s' \<and> ct_ready s') \<and> \<not> ct_wait_eot s'"
    by (cases st) (auto simp: guarded_def stage_defs)
qed

lemma asked_executed: "leads (stage_ok (St_asked a)) (executed a)"
proof -
  have w: "leads (\<lambda>s. stage_ok (St_asked a) s \<and> ct_ready s) (executed a)"
  proof -
    have "leads (\<lambda>s. stage_ok (St_asked a) s \<and> ct_ready s) (stage_ok (St_owned a))"
      by (rule leads_path [of _ "[L_take_ready]"]) (auto simp: guarded_def stage_defs)
    from leads_trans [OF this owned_executed] show ?thesis .
  qed
  have l: "leads (\<lambda>s. stage_ok (St_asked a) s \<and> ct_phase s = Ph_loop \<and> \<not> ct_ready s) (executed a)"
    using leads_trans [OF thread_gets_ready w] .
  show ?thesis unfolding leads_def
  proof (intro allI impI)
    fix s assume s: "stage_ok (St_asked a) s \<and> \<not> ct_wait_eot s"
    then have "ct_ready s \<or> ct_phase s = Ph_loop \<and> \<not> ct_ready s" by (auto simp: thread_rests_def)
    with s w l show "\<exists>s'. (ctl_step False)\<^sup>*\<^sup>* s s' \<and> executed a s' \<and> \<not> ct_wait_eot s'" unfolding leads_def by blast
  qed
qed

text \<open>Procedures end, a disconnection enables the buttons, and the user leaves.\<close>

lemma running_ends: "leads (stage_ok (St_running p)) (\<lambda>s. stage_ok St_rest s \<and> ct_posted s = proc_event p False)"
proof -
  have f: "leads (\<lambda>s. stage_ok (St_running p) s \<and> ct_phase s = Ph_proc p) (\<lambda>s. stage_ok St_rest s \<and> ct_posted s = proc_event p False)"
    by (rule leads_path [of _ "[L_finish False]"]) (cases p; auto simp: guarded_def stage_defs)
  have r: "leads (\<lambda>s. stage_ok (St_running p) s \<and> ct_phase s = Ph_message p \<and> ct_handling s) (\<lambda>s. stage_ok (St_running p) s \<and> ct_phase s = Ph_proc p)"
    by (rule leads_path [of _ "[L_reply]"]) (auto simp: guarded_def stage_defs)
  have d: "leads (\<lambda>s. stage_ok (St_running p) s \<and> ct_phase s = Ph_message p \<and> \<not> ct_handling s) (\<lambda>s. stage_ok (St_running p) s \<and> ct_phase s = Ph_message p \<and> ct_handling s)"
    by (rule leads_path [of _ "[L_deliver]"]) (auto simp: guarded_def stage_defs Let_def)
  note rf = leads_trans [OF r f]
  note drf = leads_trans [OF d rf]
  show ?thesis unfolding leads_def
  proof (intro allI impI)
    fix s assume s: "stage_ok (St_running p) s \<and> \<not> ct_wait_eot s"
    then have "ct_phase s = Ph_proc p \<or> ct_phase s = Ph_message p" by auto
    with s f rf drf show "\<exists>s'. (ctl_step False)\<^sup>*\<^sup>* s s' \<and> (stage_ok St_rest s' \<and> ct_posted s' = proc_event p False) \<and> \<not> ct_wait_eot s'"
      unfolding leads_def by blast
  qed
qed

definition left_ok :: "ctl \<Rightarrow> bool" where
  "left_ok s \<longleftrightarrow> ct_phase s = Ph_done \<and> ct_executed s \<noteq> [] \<and> last (ct_executed s) = TERMINATE"

lemma terminate_leaves: "leads (executed TERMINATE) left_ok"
  by (rule leads_path [of _ "[]"]) (auto simp: executed_def left_ok_def)

lemma quit_leaves: "leads (\<lambda>s. stage_ok St_rest s \<and> ct_quit_on s) left_ok"
proof -
  have "leads (\<lambda>s. stage_ok St_rest s \<and> ct_quit_on s) (stage_ok (St_asked TERMINATE))"
    by (rule leads_path [of _ "[L_click_quit]"]) (auto simp: guarded_def stage_defs ui_defs)
  from leads_trans [OF leads_trans [OF this asked_executed] terminate_leaves] show ?thesis .
qed

lemma proc_action_disconnect: "proc_action p = DISCONNECT \<longleftrightarrow> p = P_disconnect"
  by (cases p) simp_all

lemma disconnect_leaves: "leads (executed DISCONNECT) left_ok"
proof -
  have "leads (executed DISCONNECT) (stage_ok (St_running P_disconnect))"
    by (rule leads_path [of _ "[]"]) (auto simp: executed_def proc_action_disconnect)
  from leads_trans [OF this running_ends]
  have "leads (executed DISCONNECT) (\<lambda>s. stage_ok St_rest s \<and> ct_posted s = [Disconnected_event False])" by simp
  moreover have "leads (\<lambda>s. stage_ok St_rest s \<and> ct_posted s = [Disconnected_event False]) (\<lambda>s. stage_ok St_rest s \<and> ct_quit_on s)"
    by (rule leads_path [of _ "[L_event False]"]) (auto simp: guarded_def stage_defs)
  ultimately show ?thesis using leads_trans quit_leaves by blast
qed

lemma failure_leaves:
  assumes "e \<in> {Connected_event False, Listening_event False}"
  shows "leads (\<lambda>s. stage_ok St_rest s \<and> ct_posted s = [e]) left_ok"
proof -
  have "leads (\<lambda>s. stage_ok St_rest s \<and> ct_posted s = [e]) (stage_ok (St_asked DISCONNECT))"
    using assms by (intro leads_path [of _ "[L_event False]"]) (auto simp: guarded_def stage_defs ui_defs Let_def)
  from leads_trans [OF leads_trans [OF this asked_executed] disconnect_leaves] show ?thesis .
qed

lemma running_leaves: "leads (stage_ok (St_running p)) left_ok"
proof (cases p)
  case P_connect
  with leads_trans [OF running_ends, of P_connect] failure_leaves show ?thesis by simp
next
  case P_wait_tunnel
  with leads_trans [OF running_ends, of P_wait_tunnel] failure_leaves show ?thesis by simp
next
  case P_disconnect
  have "leads (stage_ok (St_running P_disconnect)) (executed DISCONNECT)"
    by (rule leads_path [of _ "[]"]) (auto simp: executed_def intro: exI [of _ P_disconnect])
  with P_disconnect leads_trans disconnect_leaves show ?thesis by blast
next
  case P_wait_task
  then show ?thesis by (auto simp: leads_def)
qed

lemma executed_leaves: "leads (executed a) left_ok"
proof (cases "a = TERMINATE")
  case True
  with terminate_leaves show ?thesis by simp
next
  case False
  with running_leaves show ?thesis by (auto simp: executed_def leads_def)
qed

lemma event_leaves: "leads (\<lambda>s. stage_ok St_rest s \<and> ct_posted s = [e]) left_ok"
proof (cases e)
  case (Connected_event b)
  have "leads (\<lambda>s. stage_ok St_rest s \<and> ct_posted s = [Connected_event True]) (stage_ok (St_asked TUNNEL))"
    by (rule leads_path [of _ "[L_event False]"]) (auto simp: guarded_def stage_defs ui_defs Let_def)
  from leads_trans [OF leads_trans [OF this asked_executed] executed_leaves] failure_leaves Connected_event
  show ?thesis by (cases b) simp_all
next
  case (Listening_event b)
  have "leads (\<lambda>s. stage_ok St_rest s \<and> ct_posted s = [Listening_event True]) (stage_ok (St_asked DISCONNECT))"
    by (rule leads_path [of _ "[L_event False, L_click_disconnect]"]) (auto simp: guarded_def stage_defs ui_defs Let_def)
  from leads_trans [OF leads_trans [OF this asked_executed] executed_leaves] failure_leaves Listening_event
  show ?thesis by (cases b) simp_all
next
  case (Disconnected_event b)
  have "leads (\<lambda>s. stage_ok St_rest s \<and> ct_posted s = [Disconnected_event b]) (\<lambda>s. stage_ok St_rest s \<and> ct_quit_on s)"
    by (rule leads_path [of _ "[L_event False]"]) (auto simp: guarded_def stage_defs)
  from leads_trans [OF this quit_leaves] Disconnected_event show ?thesis by simp
qed

lemma tunnel_leaves: "leads (\<lambda>s. stage_ok St_rest s \<and> ct_disconnect_on s \<and> ct_disconnect_visible s) left_ok"
proof -
  have "leads (\<lambda>s. stage_ok St_rest s \<and> ct_disconnect_on s \<and> ct_disconnect_visible s) (stage_ok (St_asked DISCONNECT))"
    by (rule leads_path [of _ "[L_click_disconnect]"]) (auto simp: guarded_def stage_defs ui_defs)
  from leads_trans [OF leads_trans [OF this asked_executed] executed_leaves] show ?thesis .
qed

lemma rest_leaves: "leads (stage_ok St_rest) left_ok"
  unfolding leads_def
proof (intro allI impI)
  fix s assume s: "stage_ok St_rest s \<and> \<not> ct_wait_eot s"
  then consider "ct_quit_on s" | "ct_disconnect_on s" "ct_disconnect_visible s" | e where "ct_posted s = [e]"
    by (auto simp: rest_ok_def length_Suc_conv)
  then show "\<exists>s'. (ctl_step False)\<^sup>*\<^sup>* s s' \<and> left_ok s' \<and> \<not> ct_wait_eot s'"
  proof cases
    case 1
    with s quit_leaves show ?thesis unfolding leads_def by blast
  next
    case 2
    with s tunnel_leaves show ?thesis unfolding leads_def by blast
  next
    case 3
    with s event_leaves show ?thesis unfolding leads_def by blast
  qed
qed

lemma stage_leaves: "st \<noteq> St_done \<Longrightarrow> leads (stage_ok st) left_ok"
  using rest_leaves running_leaves leads_trans [OF asked_executed executed_leaves] leads_trans [OF owned_executed executed_leaves]
    leads_trans [OF written_executed executed_leaves] leads_trans [OF requested_executed executed_leaves]
    leads_trans [OF woken_executed executed_leaves] by (cases st) auto

end
