(* ===== verification/ControllerProps.thy ===== *)
theory ControllerProps
  imports Controller SyncProcs FirewallProps
begin

text \<open>
  The properties of the controller: what its procedures do, that requests are served and the dialog can be left
  while no task is monitored, and the two ways in which the program stops to react.
\<close>

section \<open>Requests\<close>


definition demo_connecting :: ctl where
  "demo_connecting = ui_connect (ctl_start\<lparr>ct_ready := True, ct_phase := Ph_wait\<rparr>)"

lemma demo_connecting_reach: "ctl_reach False demo_connecting"
proof -
  have "ctl_path False [L_set_ready, L_click_connect] ctl_start = Some demo_connecting"
    by (simp add: demo_connecting_def ctl_start_def guarded_def ui_free_def)
  then show ?thesis by (rule path_reach)
qed


text \<open>While no task is monitored, the actions are executed in the order in which they were requested, none is
  lost or executed twice: all requested ones were executed, but for the one that is under way.\<close>

theorem requests_in_order:
  assumes "ctl_reach False s"
  shows "ct_requested s = ct_executed s \<or> ct_requested s = ct_executed s @ [ct_action s]"
proof -
  obtain st where "stage_ok st s" using ctl_inv_cases [OF ctl_reach_inv [OF assms]] by blast
  then show ?thesis by (cases st) auto
qed

theorem requests_in_order_witness:
  "\<exists>s. ctl_reach False s \<and> ct_requested s = [CONNECT] \<and> ct_executed s = [] \<and> ct_action s = CONNECT"
proof -
  let ?ls = "[L_set_ready, L_click_connect, L_take_ready, L_write_action, L_set_request]"
  obtain s where s: "ctl_path False ?ls ctl_start = Some s" "ct_requested s = [CONNECT]" "ct_executed s = []"
    by (simp add: ctl_start_def guarded_def ui_free_def ui_connect_def)
  from path_reach [OF s(1)] requests_in_order [OF path_reach [OF s(1)]] s(2,3) show ?thesis by auto
qed

section \<open>Leaving the program\<close>





section \<open>A monitored task\<close>

text \<open>C12. With a monitored task the two threads can block each other for ever: the task ends, the user presses the
  disconnect button before the controller has told the window, and the window's handler of the message waits for the
  controller, which waits for the handler.\<close>

theorem task_end_deadlock:
  "\<exists>s. ctl_reach True s \<and> ct_phase s = Ph_message P_wait_task \<and> ct_handling s \<and> ct_ui s = Ui_wants DISCONNECT \<and>
     ct_requested s = ct_executed s @ [DISCONNECT] \<and> (\<forall>s'. \<not> ctl_step True s s')"
proof -
  let ?req = "[L_set_ready, L_take_ready, L_write_action, L_set_request, L_wake_request, L_dispatch]"
  let ?ls = "[L_click_connect] @ ?req @ [L_finish True, L_event True] @ ?req @ [L_finish True, L_event True] @ ?req @
    [L_set_ready, L_wake_task, L_click_disconnect, L_take_ready, L_write_action, L_set_request, L_message, L_deliver]"
  obtain s where s: "ctl_path True ?ls ctl_start = Some s" "ct_phase s = Ph_message P_wait_task" "ct_handling s"
    "ct_ui s = Ui_wants DISCONNECT" "\<not> ct_ready s" "ct_requested s = ct_executed s @ [DISCONNECT]"
    by (simp add: ctl_start_def guarded_def ui_free_def ui_defs ctl_dispatch_def sends_message_def Let_def)
  have "\<not> ctl_step True s s'" for s'
    using s(2-5) by (auto simp: ui_free_def elim!: ctl_stepE)
  with path_reach [OF s(1)] s show ?thesis by blast
qed

section \<open>Procedures\<close>

text \<open>C9. What connecting answers. When the portal cannot be opened nothing else is tried, and the user is told unless
  the user refused the certificate. Otherwise, also when the login throws, the client is bound to the peer of the list
  whose certificate was valid or accepted, and the answer is true exactly for a client that is connected and has a
  session.\<close>

theorem connect_outcome:
  "case sync_connect v confirm auth attempts saml \<lparr>sy_client = fwc_new ep realm peers now clock wall, sy_shown = []\<rparr> of (r, s) \<Rightarrow>
    (case fw_open v confirm (fwc_new ep realm peers now clock wall) of (Inl e, h) \<Rightarrow> r = Inl e \<and> sy_client s = h
     | (Inr rc, h) \<Rightarrow>
         if rc \<noteq> PORTAL_NONE
         then r = Inr False \<and> sy_client s = h \<and> sy_shown s = (if rc = CERT_UNTRUSTED then [] else [''Connection error''])
         else fw_safe v ep (fc_digest (sy_client s)) (sy_client s) \<and>
           (\<exists>c \<in> set peers. fc_digest (sy_client s) = crt_digest (ev_sha256 v) (cn_crt c) \<and>
              (fw_crt_status v c = 0 \<or> confirm (cn_crt c) (fw_crt_status v c))) \<and>
           (case r of Inl e \<Rightarrow> True
            | Inr ok \<Rightarrow> ok = (https_is_connected (sy_client s) \<and> fw_is_authenticated (sy_client s))))"
proof -
  let ?h0 = "fwc_new ep realm peers now clock wall"
  let ?s0 = "\<lparr>sy_client = ?h0, sy_shown = []\<rparr>"
  obtain r0 h where o: "fw_open v confirm ?h0 = (r0, h)" by (cases "fw_open v confirm ?h0")
  show ?thesis
  proof (cases "r0 = Inr PORTAL_NONE")
    case False
    with o show ?thesis
      by (auto simp: sync_connect_def on_client_def show_error_def Let_def split: sum.split)
  next
    case True
    define s1 where "s1 = ?s0\<lparr>sy_client := h\<rparr>"
    define m where "m = io_bind (sync_login v auth attempts saml s1) (\<lambda>_. sync_info v)"
    obtain r2 s2 where m: "m = (r2, s2)" by (cases m)
    have c: "sync_connect v confirm auth attempts saml ?s0 =
        (case r2 of Inl e \<Rightarrow> (Inl e, s2)
         | Inr _ \<Rightarrow> (Inr (https_is_connected (sy_client s2) \<and> fw_is_authenticated (sy_client s2)), s2))"
      using o True m by (simp add: sync_connect_def on_client_def s1_def m_def split: sum.split)
    have a: "fw_safe v ep (fc_digest h) h" "\<exists>c \<in> set peers. fc_digest h = crt_digest (ev_sha256 v) (cn_crt c) \<and>
        (fw_crt_status v c = 0 \<or> confirm (cn_crt c) (fw_crt_status v c))"
      using open_safe [OF o [unfolded True]] by blast+
    have "client_runs v saml h (sy_client (snd m))" unfolding m_def
      by (intro io_bind_runs sync_login_runs sync_info_runs) (simp_all add: s1_def client_runs_refl)
    then obtain ops where "sy_client s2 = fw_run v ops h" by (auto simp: m client_runs_def)
    with safe.run_kept [OF a(1), of ops] have s: "fw_safe v ep (fc_digest h) (sy_client s2)" by (simp add: saml_keeps_def)
    then have "fc_digest (sy_client s2) = fc_digest h" by (simp add: fw_safe_def history_ok_def)
    with s a o True c show ?thesis by (auto split: sum.split)
  qed
qed

text \<open>C14. What disconnecting does. Unless it throws, the client ends without a connection; with a session, the jar is
  emptied and a tunnel that was not seen to stop is asked to; without a session, for instance when the cookie has
  expired, the tunnel is left running.\<close>

theorem disconnect_outcome:
  "case sync_disconnect v waits tunnel h of (r, h', t', ended) \<Rightarrow>
     (case r of Inl e \<Rightarrow> t' = tunnel \<and> \<not> ended
      | Inr stopped \<Rightarrow> \<not> https_is_connected h' \<and>
          (if fw_is_authenticated h
           then fc_jar h' = [] \<and> (if stopped then t' = tunnel else t' = map_option tun_terminate tunnel)
           else \<not> stopped \<and> t' = tunnel \<and> fc_jar h' = fc_jar h))"
proof (cases "fw_is_authenticated h")
  case False
  then show ?thesis using disconnect_same(1) [of h] disconnect_same(6) [of h]
    by (simp add: sync_disconnect_def fw_same_def)
next
  case True
  obtain r h1 where l: "fw_logout v h = (r, h1)" by (cases "fw_logout v h")
  show ?thesis
  proof (cases r)
    case (Inl e)
    with True l show ?thesis by (simp add: sync_disconnect_def)
  next
    case (Inr out)
    with l have "fc_jar h1 = []" by (auto simp: fw_logout_def io_bind_def jar_clear_def split: prod.splits sum.splits)
    with disconnect_same(1) [of h1] have "fc_jar (https_disconnect h1) = []" by (simp add: fw_same_def)
    with True l Inr disconnect_same(6) [of h1] show ?thesis
      by (auto simp: sync_disconnect_def Let_def split: prod.split)
  qed
qed

text \<open>A user certificate with an encrypted key is never loaded, whatever passcode the user enters, and once the
  loading has failed it is said to have succeeded: the second attempt is true and leaves the certificate without a
  key.\<close>

theorem encrypted_key_never_loads:
  assumes "pk_load None = PK_PASSWORD_REQUIRED"
  shows "\<not> fst (load_user_crt file_exists crt_rc pk_load ask None) \<and>
    (case snd (load_user_crt file_exists crt_rc pk_load ask None) of
       None \<Rightarrow> False
     | Some uc \<Rightarrow> \<not> uc_key uc \<and> load_user_crt file_exists' crt_rc' pk_load' ask' (Some uc) = (True, Some uc))"
  using assms by (auto simp: load_user_crt_def PK_PASSWORD_REQUIRED_def Let_def split: option.splits)

theorem encrypted_key_never_loads_witness:
  "\<not> fst (load_user_crt True 0 (\<lambda>p. if p = Some ''secret'' then 0 else PK_PASSWORD_REQUIRED) (Some ''secret'') None)"
  by (rule encrypted_key_never_loads [THEN conjunct1]) simp

end
