(* ===== verification/Spec2Isabelle.thy ===== *)
theory Spec2Isabelle
  imports Prelude SortedMap StrUtil ObfString StringMap Endpoint Url UrlCodec Cookie Strptime NetSocket
    Pbuf PBufQueue OutputQueue HeapObject QueueObject Pppossl PPInterface PortForwarder ForwarderRun
    InterfaceObject Forwarders Tunneler TunnelerRun TunnelerLife TunnelerProps
    ByteBuffer Timer Http HttpRead HttpProps HttpFrame HttpsClient FirewallClient FirewallRun FirewallTunnel FirewallProps
    Getopt CmdlineParams Settings RdpFile SyncProcs Controller ControllerProps
begin

text \<open>
  A verification library of FortiRDP, an SSL-VPN client for Fortigate firewalls that runs on Windows and carries
  TCP connections (remote desktop sessions) through the VPN tunnel without changing the network of the machine.

  \<^bold>\<open>The program.\<close>
  The sources are under \<^verbatim>\<open>src/src\<close>. The user interface (\<^verbatim>\<open>ui\<close>) reads the command line and shows a dialog. The dialog asks
  a second thread, the controller (\<^verbatim>\<open>ui/AsyncController.cpp\<close>), to run procedures (\<^verbatim>\<open>ui/Sync*.cpp\<close>) that block: connect,
  disconnect, wait for the tunnel, wait for the task. They drive the portal client (\<^verbatim>\<open>fw/FirewallClient.cpp\<close>), which logs in
  over HTTPS (\<^verbatim>\<open>http\<close>) and then creates the tunnel (\<^verbatim>\<open>fw/FirewallTunnel.cpp\<close>). The tunnel has a third thread, the tunneler
  (\<^verbatim>\<open>net/Tunneler.cpp\<close>): it speaks PPP over the TLS socket (\<^verbatim>\<open>net/pppossl.c\<close>, \<^verbatim>\<open>net/PPInterface.cpp\<close>) with the TCP/IP
  stack lwIP in the process, accepts local clients (\<^verbatim>\<open>net/Listener.cpp\<close>) and gives each a port forwarder
  (\<^verbatim>\<open>net/PortForwarder.cpp\<close>) which relays its bytes to a connection of lwIP through queues of packet buffers
  (\<^verbatim>\<open>util/PBufQueue.cpp\<close>, \<^verbatim>\<open>net/OutputQueue.cpp\<close>). Under all of it are the sockets (\<^verbatim>\<open>net/TcpSocket.cpp\<close>,
  \<^verbatim>\<open>net/TlsSocket.cpp\<close>) over mbedtls, and the strings, maps and buffers of \<^verbatim>\<open>util\<close>.

  \<^bold>\<open>Conventions.\<close>
  \<^item> A class is a record with its members, an operation a function from the state to the state and the result; a class that
    extends another is a record extension (\<open>fwc\<close> extends \<open>https\<close>).
  \<^item> An exception is \<open>Inl\<close> in a result of type \<open>exn + 'a\<close>, and the state it leaves is part of the result, so that what a
    handler does not catch is seen by the caller. A fault (a null or dangling pointer, a failed assertion of lwIP) is
    \<open>None\<close>; in the loops written as \<open>partial_function (option)\<close> so is a loop that does not end. That neither happens is
    proved and never assumed; where \<^verbatim>\<open>substvar\<close> does not end, that is a theorem too.
  \<^item> Memory that is shared is explicit: \<open>pheap\<close> is the heap of lwIP's packet buffers. Integers keep their width where
    the code can reach it: words for bytes, reference counts, timers and time-outs, \<open>u16\<close> for lwIP's lengths, \<open>size_sub\<close>
    for subtractions of \<^verbatim>\<open>size_t\<close>. \<^verbatim>\<open>std::vector\<close> grows as the code's limits see it (\<open>vector_growth\<close>).
  \<^item> What is not under \<^verbatim>\<open>src/src\<close> is a parameter or a script: the answers of the socket calls, of the clocks, of \<^verbatim>\<open>select\<close>, the
    dialogs, the acts of lwIP and of the other threads are lists in the state or arguments of the operations, and the statements are
    for all of them. zlib, SHA-256, the trust decision of Windows, the JSON and XML parsers (\<open>fw_env\<close>), \<^verbatim>\<open>mktime\<close> and the
    names of the time zone are functions. A loop that follows a script recurses on it, so there is no fuel; a statement that
    something ends says from which scripts.

  \<^bold>\<open>Theories, from the bottom.\<close>
  \<^item> \<open>Prelude\<close>: exceptions, character classes, widths, collections of facts. \<open>SortedMap\<close>: \<^verbatim>\<open>std::map\<close> as a sorted
    association list, with the contracts \<open>dictionary\<close> and \<open>erasable_dictionary\<close> for its clients.
  \<^item> \<open>StrUtil\<close>, \<open>ObfString\<close>, \<open>StringMap\<close>, \<open>ByteBuffer\<close>, \<open>Timer\<close>: the files of these names under \<^verbatim>\<open>util\<close>. An obfuscated
    string refines a plain string, for every operation and every key; a string map is read back from its text; \<^verbatim>\<open>substvar\<close>
    ends when no value brings a new marker; numbers are read back from their digits and \<^verbatim>\<open>strtol\<close> saturates.
  \<^item> \<open>Endpoint\<close> (\<^verbatim>\<open>net/Endpoint.cpp\<close>), \<open>Url\<close> (\<^verbatim>\<open>http/Url.cpp\<close>, with the state numbers of its machine),
    \<open>UrlCodec\<close> (the URL coding of \<^verbatim>\<open>http/HttpsClient.cpp\<close>): round trips of the printers and the parsers, and where the
    coding is not one.
  \<^item> \<open>Cookie\<close> (\<^verbatim>\<open>http/Cookie.cpp\<close>, \<^verbatim>\<open>http/Cookies.cpp\<close>): fields, the jar, and which cookies the header sends.
    \<open>Strptime\<close> (\<^verbatim>\<open>util/strptime.c\<close>, \<^verbatim>\<open>Cookie::parse_http_date\<close>): the dates of cookies, in the four formats the code tries;
    a printed date is read back, the offset of its zone is lost, and the date by which servers delete a cookie keeps it
    east of Greenwich.
  \<^item> \<open>NetSocket\<close> (\<^verbatim>\<open>net/Socket.cpp\<close>, \<open>TcpSocket\<close>, \<open>TlsSocket\<close>, \<open>TlsContext\<close>): status codes, reading, writing,
    handshake and close over the script \<open>net\<close>; a blocking read refines reading from an ideal source of bytes.
  \<^item> \<open>Http\<close>, \<open>HttpRead\<close>, \<open>HttpProps\<close> (\<^verbatim>\<open>http/Headers.cpp\<close>, \<^verbatim>\<open>Request.cpp\<close>, \<^verbatim>\<open>Answer.cpp\<close>): whatever pieces the
    network delivers, an answer is read back from its text, chunked like plain; the body never exceeds its limit.
    \<open>HttpFrame\<close>, \<open>HttpsClient\<close> (\<^verbatim>\<open>http/HttpsClient.cpp\<close>): one connection at a time, keep-alive, what connecting and
    reading leave unchanged. \<open>hc_past\<close> and \<open>hc_sent\<close> are records for the statements: the former connections and the requests.
  \<^item> \<open>FirewallClient\<close>, \<open>FirewallRun\<close>, \<open>FirewallTunnel\<close>, \<open>FirewallProps\<close> (\<^verbatim>\<open>fw\<close>): opening, login with codes or SAML,
    redirects, logout, configuration, and the start of the tunnel. The locale \<open>fw_kept\<close> has the rule that what one request keeps
    every sequence of operations keeps; interpreted twice, it gives the identity of the peer behind every byte written and
    the type of the cookie jar. The number of requests is bounded by the redirects and the codes of the user. The tunnel
    sends one request and then whole PPP frames, but to a peer that is not compared with the accepted one.
  \<^item> \<open>Pbuf\<close> (\<^verbatim>\<open>lib/lwip/src/core/pbuf.c\<close>, what the program uses), \<open>HeapObject\<close>: the heap, and the contract \<open>heap_object\<close> of
    objects that own cells of it: an operation of one, a \<open>heap_move\<close>, leaves the others as they are.
  \<^item> \<open>PBufQueue\<close>, \<open>OutputQueue\<close>, \<open>QueueObject\<close>: the queues and their writers lose, repeat and reorder nothing; the contract
    \<open>byte_queue\<close> is what the writers need of a queue.
  \<^item> \<open>Pppossl\<close>, \<open>PPInterface\<close>, \<open>InterfaceObject\<close>: framing, the incremental parser (a refinement of the parser \<open>deframe\<close> of
    the whole stream, for pieces of any size), keep-alive; the contract \<open>ppp_output\<close> is the callback of the framing.
  \<^item> \<open>PortForwarder\<close>, \<open>ForwarderRun\<close>, \<open>Forwarders\<close>: one forwarder with its callbacks, its life as a step relation with the
    events the loop and lwIP can cause (\<open>pf_step\<close>, enabled by \<open>pf_enabled\<close>), and the list. No reachable event faults; the
    bytes read are those passed on followed by those queued; states change along the life cycle; timers end a forwarder.
  \<^item> \<open>Tunneler\<close>, \<open>TunnelerRun\<close>, \<open>TunnelerLife\<close>, \<open>TunnelerProps\<close>: the thread from its constructor to its end (\<open>tun_run\<close>), one
    iteration per environment \<open>tun_env\<close>. The forwarders and the PPP interface are objects of one heap. No run faults; the state
    never goes back in the order of \<open>tun_state\<close>; the number of clients is limited; when closing ends, and the run in
    which it does not.
  \<^item> \<open>Getopt\<close> (\<^verbatim>\<open>util/XGetopt.cpp\<close>), \<open>CmdlineParams\<close> (\<^verbatim>\<open>ui/CmdlineParams.cpp\<close>): the reader of options refines the grammar
    \<open>opt_group\<close>; no null argument is dereferenced and accepted parameters obey \<open>cmd_valid\<close>. Both loops end because
    every call of \<^verbatim>\<open>getopt\<close> that finds an option shortens what is left (\<open>opt_left\<close>).
  \<^item> \<open>Settings\<close> (\<^verbatim>\<open>ui/RegistrySettings.cpp\<close>, \<^verbatim>\<open>ui/OptionsDialog.cpp\<close>, the connect button and the start of
    \<^verbatim>\<open>ui/ConnectDialog.cpp\<close>): what the user confirms in the options dialog is what the next connection uses, and the
    connect button goes on only with what it checked; the registry is a parameter with the behaviour that Windows documents
    (\<open>registry_ok\<close>). \<open>RdpFile\<close> (\<^verbatim>\<open>ui/RdpFile.cpp\<close>): the options are a dictionary, but a file that was written is read back as
    its first option repeated.
  \<^item> \<open>SyncProcs\<close> (\<^verbatim>\<open>ui/SyncConnect.cpp\<close>, \<^verbatim>\<open>SyncDisconnect.cpp\<close>, \<^verbatim>\<open>SyncWaitTunnel.cpp\<close>, \<^verbatim>\<open>SyncWaitTask.cpp\<close>, the operations of
    \<^verbatim>\<open>AsyncController.cpp\<close> that load certificates and create the tunnel and the task): what a procedure answers and does on
    every branch.
  \<^item> \<open>Controller\<close>, \<open>ControllerProps\<close> (\<^verbatim>\<open>ui/AsyncController.cpp\<close>, \<^verbatim>\<open>ui/ConnectDialog.cpp\<close>): the two threads with their events,
    messages and buttons as the step relation \<open>ctl_step\<close>, and the same steps as the function \<open>ctl_next\<close> of a label,
    which runs concrete schedules. The invariant \<open>ctl_inv\<close> says where the threads can be; from it follow that a request is
    served within six steps and that the dialog can be left, while no task is monitored and no procedure throws. The two
    ways in which the program stops to react are reachable states: an exception, and a task that ends while the user
    disconnects.

  \<^bold>\<open>How the parts are joined.\<close>
  The properties that span components are in \<open>FirewallProps\<close> (portal, sockets, cookies, tunnel), \<open>TunnelerProps\<close>
  (tunneler, forwarders, PPP, heap) and \<open>ControllerProps\<close> (procedures, portal, tunnel). \<open>net_bytes\<close> is the socket of the HTTPS
  client, which counts characters, as the socket of the tunneler, which counts bytes.

  \<^bold>\<open>Bounds.\<close>
  The limits are those of the code: the redirects that each request allows, bodies of 32 * 1014 * 1024 bytes (its
  spelling of 1024), lines and chunks by the capacities in \<open>Http\<close>, the capacity of each queue, the 16 bits of
  length in a PPP frame. The capacity of a queue is below 65536 in its invariant, as the ones that the program constructs
  are, and a packet that lwIP sends leaves room for its headers (\<open>packet_sendable\<close>): then no \<^verbatim>\<open>tot_len\<close> wraps.

  \<^bold>\<open>Not modelled.\<close>
  \<^item> The libraries under \<^verbatim>\<open>src/lib\<close> (mbedtls, zlib, lwIP but for the packet buffers) and in \<^verbatim>\<open>util\<close> (pugixml, Json11): they are
    parameters, as is what Windows does.
  \<^item> Wrappers of Windows or of the libraries without logic of their own: events, threads, mutexes, the calls of the registry, logger, the loading of
    certificates and keys, the conversions of character sets, the configuration of mbedtls.
  \<^item> The windows: the credential, code and SAML dialogs are answers; of the connect dialog only what starts it, the
    connect button and what drives the controller is modelled, not its texts, menus, counters and the history it clears.
  \<^item> Conversions of \<^verbatim>\<open>strptime\<close> that the program does not use; kinds of packet buffers that it does not allocate; the allocation
    of the control block in \<^verbatim>\<open>pppossl_create\<close>.
  \<^item> Data races: an operation of another thread falls between the steps of the model, never inside one.
\<close>

end
